(* ===== verification/Prelude.thy ===== *)
theory Prelude
  imports Main "HOL-Library.Word" "HOL-Library.Sublist"
begin

text \<open>
  What every theory of the development shares: the machine integers, the byte strings and
  the \<open>std::io\<close> errors of the Rust sources; a state-and-error monad for code that reads from
  or writes to a stream and leaves early on the \<open>?\<close> operator; the little-endian image of an
  integer; UTF-8 validity as \<open>String\<close> demands it; checked arithmetic on words.

  Arithmetic on a \<open>w\<close>-bit type is arithmetic on \<open>w word\<close> and wraps, as a release build does.
  A \<open>String\<close> or \<open>CStr\<close> is its list of bytes.
\<close>

unbundle bit_operations_syntax

section \<open>Machine types\<close>

type_synonym u8 = "8 word"
type_synonym u16 = "16 word"
type_synonym u32 = "32 word"
type_synonym u64 = "64 word"
type_synonym i32 = "32 word"
type_synonym i64 = "64 word"
type_synonym bytes = "u8 list"

text \<open>The bytes of an ASCII string literal.\<close>

definition str :: "string \<Rightarrow> bytes" where
  "str s = map of_char s"

section \<open>Errors and results of \<open>std::io\<close>\<close>

datatype error_kind =
    NotFound | PermissionDenied | ConnectionRefused | ConnectionReset | ConnectionAborted
  | NotConnected | AddrInUse | AddrNotAvailable | BrokenPipe | AlreadyExists | WouldBlock
  | InvalidInput | InvalidData | TimedOut | WriteZero | Interrupted | Other | UnexpectedEof
  | Uncategorized

text \<open>
  An \<open>io::Error\<close> either carries an OS error code (\<open>from_raw_os_error\<close>, \<open>last_os_error\<close>) or
  was made from a kind (\<open>io::Error::new\<close>; its message text is dropped).
\<close>

datatype io_error = Os i32 | Kind error_kind

definition raw_os_error :: "io_error \<Rightarrow> i32 option" where
  "raw_os_error e = (case e of Os n \<Rightarrow> Some n | Kind _ \<Rightarrow> None)"

type_synonym 'a io_result = "io_error + 'a"

abbreviation Ok :: "'a \<Rightarrow> 'e + 'a" where "Ok \<equiv> Inr"
abbreviation Err :: "'e \<Rightarrow> 'e + 'a" where "Err \<equiv> Inl"

section \<open>State, errors and early return\<close>

text \<open>
  \<open>('s, 'a) io\<close> is code over a state \<open>'s\<close> (the bytes left in a reader, the bytes put into a
  writer) that returns a value or an error. \<open>io_bind m f\<close> is \<open>let x = m?; f(x)\<close>: an error
  returns at once and keeps what the code did to the state until then.
\<close>

type_synonym ('s, 'a) io = "'s \<Rightarrow> 'a io_result \<times> 's"

definition io_return :: "'a \<Rightarrow> ('s, 'a) io" where
  "io_return x s = (Ok x, s)"

definition io_fail :: "io_error \<Rightarrow> ('s, 'a) io" where
  "io_fail e s = (Err e, s)"

definition io_bind :: "('s, 'a) io \<Rightarrow> ('a \<Rightarrow> ('s, 'b) io) \<Rightarrow> ('s, 'b) io" where
  "io_bind m f s = (case m s of (r, s') \<Rightarrow> (case r of Inl e \<Rightarrow> (Err e, s') | Inr x \<Rightarrow> f x s'))"

definition io_then :: "('s, unit) io \<Rightarrow> ('s, 'b) io \<Rightarrow> ('s, 'b) io" where
  "io_then m k = io_bind m (\<lambda>_. k)"

text \<open>A result kept as a value, \<open>let r = m;\<close> without the \<open>?\<close>.\<close>

definition io_try :: "('s, 'a) io \<Rightarrow> ('s, 'a io_result) io" where
  "io_try m s = (case m s of (r, s') \<Rightarrow> (Ok r, s'))"

text \<open>
  \<open>('s, 'a) comp\<close> is code that may moreover fail to return at all: \<open>None\<close> is a panic or a loop
  that never ends.
\<close>

type_synonym ('s, 'a) comp = "'s \<Rightarrow> ('a io_result \<times> 's) option"

definition comp_return :: "'a \<Rightarrow> ('s, 'a) comp" where
  "comp_return x s = Some (Ok x, s)"

definition comp_fail :: "io_error \<Rightarrow> ('s, 'a) comp" where
  "comp_fail e s = Some (Err e, s)"

definition comp_panic :: "('s, 'a) comp" where
  "comp_panic s = None"

definition comp_bind :: "('s, 'a) comp \<Rightarrow> ('a \<Rightarrow> ('s, 'b) comp) \<Rightarrow> ('s, 'b) comp" where
  "comp_bind m f s =
     (case m s of
        None \<Rightarrow> None
      | Some (r, s') \<Rightarrow> (case r of Inl e \<Rightarrow> Some (Err e, s') | Inr x \<Rightarrow> f x s'))"

definition comp_try :: "('s, 'a) comp \<Rightarrow> ('s, 'a io_result) comp" where
  "comp_try m s = (case m s of None \<Rightarrow> None | Some (r, s') \<Rightarrow> Some (Ok r, s'))"

definition comp_of :: "'a io_result \<Rightarrow> ('s, 'a) comp" where
  "comp_of r s = Some (r, s)"

section \<open>Readers and writers\<close>

text \<open>
  A reader is the list of bytes its peer sends before the end of the stream. \<open>read_exact\<close> is
  the default method of \<open>std::io::Read\<close>: at an early end of file it has consumed what there
  was. \<open>io_take n m\<close> runs \<open>m\<close> on \<open>reader.take(n)\<close>; what \<open>m\<close> leaves unread stays in the reader.
\<close>

type_synonym 'a reader = "(bytes, 'a) io"
type_synonym 'a writer = "(bytes, 'a) io"

definition read_exact :: "nat \<Rightarrow> bytes reader" where
  "read_exact n r =
     (if n \<le> length r then (Ok (take n r), drop n r) else (Err (Kind UnexpectedEof), []))"

definition io_take :: "nat \<Rightarrow> 'a reader \<Rightarrow> 'a reader" where
  "io_take n m r = (case m (take n r) of (x, r') \<Rightarrow> (x, r' @ drop n r))"

definition read_to_end :: "bytes reader" where
  "read_to_end r = (Ok r, [])"

definition write_all :: "bytes \<Rightarrow> unit writer" where
  "write_all bs w = (Ok (), w @ bs)"

section \<open>Little-endian integers\<close>

definition to_le :: "nat \<Rightarrow> 'a::len word \<Rightarrow> bytes" where
  "to_le k x = map (\<lambda>i. ucast (drop_bit (8 * i) x)) [0..<k]"

fun from_le :: "bytes \<Rightarrow> 'a::len word" where
  "from_le [] = 0"
| "from_le (b # bs) = push_bit 8 (from_le bs) OR ucast b"

section \<open>UTF-8\<close>

text \<open>The well-formed sequences of \<open>core::str::from_utf8\<close>, by first byte.\<close>

definition utf8_cont :: "u8 \<Rightarrow> bool" where
  "utf8_cont b \<longleftrightarrow> 0x80 \<le> b \<and> b \<le> 0xBF"

definition utf8_second :: "u8 \<Rightarrow> u8 \<Rightarrow> bool" where
  "utf8_second b0 b1 \<longleftrightarrow>
     (if b0 = 0xE0 then 0xA0 \<le> b1 \<and> b1 \<le> 0xBF
      else if b0 = 0xED then 0x80 \<le> b1 \<and> b1 \<le> 0x9F
      else if b0 = 0xF0 then 0x90 \<le> b1 \<and> b1 \<le> 0xBF
      else if b0 = 0xF4 then 0x80 \<le> b1 \<and> b1 \<le> 0x8F
      else utf8_cont b1)"

fun utf8_valid :: "bytes \<Rightarrow> bool" where
  "utf8_valid [] = True"
| "utf8_valid (b0 # r) =
     (if b0 \<le> 0x7F then utf8_valid r
      else if 0xC2 \<le> b0 \<and> b0 \<le> 0xDF then
        (case r of b1 # r' \<Rightarrow> utf8_cont b1 \<and> utf8_valid r' | _ \<Rightarrow> False)
      else if 0xE0 \<le> b0 \<and> b0 \<le> 0xEF then
        (case r of b1 # b2 # r' \<Rightarrow> utf8_second b0 b1 \<and> utf8_cont b2 \<and> utf8_valid r'
         | _ \<Rightarrow> False)
      else if 0xF0 \<le> b0 \<and> b0 \<le> 0xF4 then
        (case r of b1 # b2 # b3 # r' \<Rightarrow>
           utf8_second b0 b1 \<and> utf8_cont b2 \<and> utf8_cont b3 \<and> utf8_valid r'
         | _ \<Rightarrow> False)
      else False)"

definition read_to_string :: "bytes reader" where
  "read_to_string r = (if utf8_valid r then (Ok r, []) else (Err (Kind InvalidData), []))"

section \<open>Checked arithmetic\<close>

definition checked_add :: "'a::len word \<Rightarrow> 'a word \<Rightarrow> 'a word option" where
  "checked_add a b = (if unat a + unat b < 2 ^ LENGTH('a) then Some (a + b) else None)"

definition checked_sub :: "'a::len word \<Rightarrow> 'a word \<Rightarrow> 'a word option" where
  "checked_sub a b = (if b \<le> a then Some (a - b) else None)"

text \<open>\<open>usize\<close> of a 64-bit target, as the number it denotes, with its checked operations.\<close>

type_synonym usize = nat

definition usize_add :: "usize \<Rightarrow> usize \<Rightarrow> usize option" where
  "usize_add a b = (if a + b < 2 ^ 64 then Some (a + b) else None)"

definition usize_sub :: "usize \<Rightarrow> usize \<Rightarrow> usize option" where
  "usize_sub a b = (if b \<le> a then Some (a - b) else None)"

section \<open>Lemmas on the monad\<close>

named_theorems wlp_intros \<open>rules of partial correctness\<close>
named_theorems total_intros \<open>computations that always return\<close>
named_theorems io_simps \<open>equations that run the monad\<close>
named_theorems io_decodes \<open>decoders that keep to their input and establish their invariant\<close>

lemma io_return_apply [io_simps]: "io_return x s = (Ok x, s)"
  by (simp add: io_return_def)

lemma io_fail_apply [io_simps]: "io_fail e s = (Err e, s)"
  by (simp add: io_fail_def)

lemma io_bind_Ok [io_simps]: "m s = (Ok x, s') \<Longrightarrow> io_bind m f s = f x s'"
  by (simp add: io_bind_def)

lemma io_bind_Err [io_simps]: "m s = (Err e, s') \<Longrightarrow> io_bind m f s = (Err e, s')"
  by (simp add: io_bind_def)

lemma io_then_Ok [io_simps]: "m s = (Ok (), s') \<Longrightarrow> io_then m k s = k s'"
  by (simp add: io_then_def io_bind_def)

lemma io_then_Err [io_simps]: "m s = (Err e, s') \<Longrightarrow> io_then m k s = (Err e, s')"
  by (simp add: io_then_def io_bind_def)

lemma io_try_apply [io_simps]: "m s = (r, s') \<Longrightarrow> io_try m s = (Ok r, s')"
  by (simp add: io_try_def)

lemma io_bind_eq_Ok:
  "io_bind m f s = (Ok y, t) \<longleftrightarrow> (\<exists>x s'. m s = (Ok x, s') \<and> f x s' = (Ok y, t))"
  by (auto simp: io_bind_def split: prod.splits sum.splits)

lemma io_bind_assoc: "io_bind (io_bind m f) g = io_bind m (\<lambda>x. io_bind (f x) g)"
  by (rule ext) (auto simp: io_bind_def split: prod.splits sum.splits)

lemma read_exact_append [io_simps]: "length bs = n \<Longrightarrow> read_exact n (bs @ r) = (Ok bs, r)"
  by (simp add: read_exact_def)

lemma read_exact_short [io_simps]:
  "length r < n \<Longrightarrow> read_exact n r = (Err (Kind UnexpectedEof), [])"
  by (simp add: read_exact_def)

lemma read_exact_1 [io_simps]: "read_exact (Suc 0) (t # r) = (Ok [t], r)"
  by (simp add: read_exact_def)

lemma write_all_apply [io_simps]: "write_all bs w = (Ok (), w @ bs)"
  by (simp add: write_all_def)

text \<open>A decoder that needs exactly the first \<open>n\<close> bytes does not see the limit.\<close>

lemma io_take_exact [io_simps]:
  "m bs = (x, r') \<Longrightarrow> length bs = n \<Longrightarrow> io_take n m (bs @ r) = (x, r' @ r)"
  by (simp add: io_take_def)

lemma comp_return_apply [io_simps]: "comp_return x s = Some (Ok x, s)"
  by (simp add: comp_return_def)

lemma comp_fail_apply [io_simps]: "comp_fail e s = Some (Err e, s)"
  by (simp add: comp_fail_def)

lemma comp_panic_apply [io_simps]: "comp_panic s = None"
  by (simp add: comp_panic_def)

lemma comp_of_apply [io_simps]: "comp_of r s = Some (r, s)"
  by (simp add: comp_of_def)

lemma comp_bind_Ok [io_simps]: "m s = Some (Ok x, s') \<Longrightarrow> comp_bind m f s = f x s'"
  by (simp add: comp_bind_def)

lemma comp_bind_Err [io_simps]: "m s = Some (Err e, s') \<Longrightarrow> comp_bind m f s = Some (Err e, s')"
  by (simp add: comp_bind_def)

lemma comp_bind_None [io_simps]: "m s = None \<Longrightarrow> comp_bind m f s = None"
  by (simp add: comp_bind_def)

lemma comp_try_apply [io_simps]: "m s = Some (r, s') \<Longrightarrow> comp_try m s = Some (Ok r, s')"
  by (simp add: comp_try_def)

lemma comp_bind_eq_Some:
  "comp_bind m f s = Some (r, t) \<longleftrightarrow>
     (\<exists>e. m s = Some (Err e, t) \<and> r = Err e) \<or>
     (\<exists>x s'. m s = Some (Ok x, s') \<and> f x s' = Some (r, t))"
  by (auto simp: comp_bind_def split: option.splits sum.splits)

section \<open>Partial and total correctness of computations\<close>

text \<open>
  \<open>wlp m Q s\<close>: if \<open>m\<close> returns from \<open>s\<close>, its result and state satisfy \<open>Q\<close>. \<open>total m\<close>: \<open>m\<close> returns
  from every state.
\<close>

definition wlp :: "('s, 'a) comp \<Rightarrow> ('a io_result \<Rightarrow> 's \<Rightarrow> bool) \<Rightarrow> 's \<Rightarrow> bool" where
  "wlp m Q s = (case m s of None \<Rightarrow> True | Some (r, t) \<Rightarrow> Q r t)"

definition total :: "('s, 'a) comp \<Rightarrow> bool" where
  "total m \<longleftrightarrow> (\<forall>s. m s \<noteq> None)"

lemma wlpI: "(\<And>r t. m s = Some (r, t) \<Longrightarrow> Q r t) \<Longrightarrow> wlp m Q s"
  by (auto simp: wlp_def split: option.splits)

lemma wlpD: "wlp m Q s \<Longrightarrow> m s = Some (r, t) \<Longrightarrow> Q r t"
  by (simp add: wlp_def)

lemma wlp_return [wlp_intros]: "Q (Ok x) s \<Longrightarrow> wlp (comp_return x) Q s"
  by (simp add: wlp_def io_simps)

lemma wlp_fail [wlp_intros]: "Q (Err e) s \<Longrightarrow> wlp (comp_fail e) Q s"
  by (simp add: wlp_def io_simps)

lemma wlp_bind:
  assumes "wlp m (\<lambda>r t. case r of Inl e \<Rightarrow> Q (Err e) t | Inr x \<Rightarrow> wlp (f x) Q t) s"
  shows "wlp (comp_bind m f) Q s"
  using assms by (auto simp: wlp_def comp_bind_def split: option.splits sum.splits)

lemma wlp_bind_return [wlp_intros]: "wlp (f x) Q s \<Longrightarrow> wlp (comp_bind (comp_return x) f) Q s"
  by (simp add: wlp_def io_simps)

lemma wlp_bind_fail [wlp_intros]: "Q (Err e) s \<Longrightarrow> wlp (comp_bind (comp_fail e) f) Q s"
  by (simp add: wlp_def io_simps)

lemma wlp_bind_assoc [wlp_intros]:
  "wlp (comp_bind m (\<lambda>x. comp_bind (f x) g)) Q s \<Longrightarrow> wlp (comp_bind (comp_bind m f) g) Q s"
  by (auto simp: wlp_def comp_bind_def split: option.splits sum.splits)

lemma wlp_if [wlp_intros]:
  "(c \<Longrightarrow> wlp m Q s) \<Longrightarrow> (\<not> c \<Longrightarrow> wlp m' Q s) \<Longrightarrow> wlp (if c then m else m') Q s"
  by simp

lemma wlp_bind_if [wlp_intros]:
  "(c \<Longrightarrow> wlp (comp_bind m f) Q s) \<Longrightarrow> (\<not> c \<Longrightarrow> wlp (comp_bind m' f) Q s) \<Longrightarrow>
     wlp (comp_bind (if c then m else m') f) Q s"
  by simp

lemma wlp_Let [wlp_intros]: "wlp (f x) Q s \<Longrightarrow> wlp (Let x f) Q s"
  by simp

lemma wlp_mono: "wlp m P s \<Longrightarrow> (\<And>r t. P r t \<Longrightarrow> Q r t) \<Longrightarrow> wlp m Q s"
  by (auto simp: wlp_def split: option.splits)

lemma wlp_case_option [wlp_intros]:
  "(y = None \<Longrightarrow> wlp m Q s) \<Longrightarrow> (\<And>x. y = Some x \<Longrightarrow> wlp (f x) Q s) \<Longrightarrow>
     wlp (case y of None \<Rightarrow> m | Some x \<Rightarrow> f x) Q s"
  by (cases y) simp_all

lemma total_return [total_intros]: "total (comp_return x)"
  by (simp add: total_def io_simps)

lemma total_fail [total_intros]: "total (comp_fail e)"
  by (simp add: total_def io_simps)

lemma total_bind [total_intros]: "total m \<Longrightarrow> (\<And>x. total (f x)) \<Longrightarrow> total (comp_bind m f)"
  by (auto simp: total_def comp_bind_def split: option.splits sum.splits)

lemma total_try [total_intros]: "total m \<Longrightarrow> total (comp_try m)"
  by (auto simp: total_def comp_try_def split: option.splits)

lemma total_if [total_intros]: "total m \<Longrightarrow> total m' \<Longrightarrow> total (if c then m else m')"
  by simp

lemma total_Let [total_intros]: "(\<And>x. total (f x)) \<Longrightarrow> total (Let y f)"
  by simp

lemma total_case_option [total_intros]:
  "total m \<Longrightarrow> (\<And>x. total (f x)) \<Longrightarrow> total (case y of None \<Rightarrow> m | Some x \<Rightarrow> f x)"
  by (cases y) simp_all

lemma total_case_sum [total_intros]:
  "(\<And>e. total (f e)) \<Longrightarrow> (\<And>x. total (g x)) \<Longrightarrow> total (case y of Inl e \<Rightarrow> f e | Inr x \<Rightarrow> g x)"
  by (cases y) simp_all

lemma total_case_prod [total_intros]:
  "(\<And>a b. total (f a b)) \<Longrightarrow> total (case y of (a, b) \<Rightarrow> f a b)"
  by (cases y) simp

section \<open>Well-behaved decoders\<close>

text \<open>
  \<open>decodes Q m\<close>: whatever the outcome, what \<open>m\<close> leaves in the reader is a suffix of what it
  was given (nothing is put back or made up), and a value \<open>x\<close> that it returns after consuming
  \<open>n\<close> bytes satisfies \<open>Q x n\<close>.
\<close>

definition decodes :: "('a \<Rightarrow> nat \<Rightarrow> bool) \<Rightarrow> 'a reader \<Rightarrow> bool" where
  "decodes Q m \<longleftrightarrow>
     (\<forall>r. suffix (snd (m r)) r \<and> (\<forall>x. fst (m r) = Ok x \<longrightarrow> Q x (length r - length (snd (m r)))))"

lemma decodesI:
  assumes "\<And>r. suffix (snd (m r)) r"
    and "\<And>r x r'. m r = (Ok x, r') \<Longrightarrow> suffix r' r \<Longrightarrow> Q x (length r - length r')"
  shows "decodes Q m"
  unfolding decodes_def using assms by (metis prod.collapse)

lemma decodes_suffix: "decodes Q m \<Longrightarrow> suffix (snd (m r)) r"
  by (simp add: decodes_def)

lemma decodesD:
  assumes "decodes Q m" "m r = (Ok x, r')"
  obtains p where "r = p @ r'" "Q x (length p)"
proof -
  obtain p where "r = p @ r'" using decodes_suffix [OF assms(1), of r] assms(2) by (auto simp: suffix_def)
  moreover have "Q x (length r - length r')"
    using assms(1)[unfolded decodes_def, rule_format, of r] assms(2) by simp
  ultimately show thesis using that by simp
qed

lemma decodes_weaken: "decodes P m \<Longrightarrow> (\<And>x n. P x n \<Longrightarrow> Q x n) \<Longrightarrow> decodes Q m"
  by (auto simp: decodes_def)

lemma decodes_return: "Q x 0 \<Longrightarrow> decodes Q (io_return x)"
  by (simp add: decodes_def io_simps)

lemma decodes_fail: "decodes Q (io_fail e)"
  by (simp add: decodes_def io_simps)

lemma decodes_bind:
  assumes m: "decodes P m" and f: "\<And>x k. P x k \<Longrightarrow> decodes (\<lambda>y n. Q y (k + n)) (f x)"
  shows "decodes Q (io_bind m f)"
proof (rule decodesI)
  fix r y t
  assume "io_bind m f r = (Ok y, t)"
  then obtain x s where mx: "m r = (Ok x, s)" and fx: "f x s = (Ok y, t)"
    by (auto simp: io_bind_eq_Ok)
  from decodesD [OF m mx] obtain p where p: "r = p @ s" "P x (length p)" .
  from decodesD [OF f [OF p(2)] fx] obtain q where "s = q @ t" "Q y (length p + length q)" .
  with p show "Q y (length r - length t)" by simp
next
  fix r
  obtain a s where ms: "m r = (a, s)" by (cases "m r")
  have s: "suffix s r" using decodes_suffix [OF m, of r] ms by simp
  show "suffix (snd (io_bind m f r)) r"
  proof (cases a)
    case (Inl e)
    with ms s show ?thesis by (simp add: io_bind_def)
  next
    case (Inr x)
    with ms have "m r = (Ok x, s)" by simp
    from decodesD [OF m this] obtain p where "r = p @ s" "P x (length p)" .
    from this(2) have "suffix (snd (f x s)) s" by (rule decodes_suffix [OF f])
    with Inr ms s show ?thesis by (auto simp: io_bind_def intro: suffix_order.trans)
  qed
qed

lemma decodes_read_exact: "decodes (\<lambda>bs k. k = n \<and> length bs = n) (read_exact n)"
  by (auto simp: decodes_def read_exact_def suffix_drop)

text \<open>Under \<open>take(n)\<close> a decoder still consumes what it consumes, and at most \<open>n\<close> bytes.\<close>

lemma decodes_take:
  assumes m: "decodes Q m" shows "decodes (\<lambda>x k. Q x k \<and> k \<le> n) (io_take n m)"
proof (rule decodesI)
  fix r x t
  assume "io_take n m r = (Ok x, t)"
  then obtain s where ms: "m (take n r) = (Ok x, s)" and t: "t = s @ drop n r"
    by (auto simp: io_take_def split: prod.splits)
  from decodesD [OF m ms] obtain p where p: "take n r = p @ s" "Q x (length p)" .
  have "r = take n r @ drop n r" by simp
  then have r: "r = p @ t" by (simp only: p(1) t append_assoc)
  have "length p \<le> length (take n r)" by (simp only: p(1) length_append)
  then have "length p \<le> n" by simp
  with r p(2) show "Q x (length r - length t) \<and> length r - length t \<le> n" by simp
next
  fix r
  obtain p where "take n r = p @ snd (m (take n r))"
    using decodes_suffix [OF m, of "take n r"] by (auto simp: suffix_def)
  then have "r = p @ snd (m (take n r)) @ drop n r"
    by (metis append_assoc append_take_drop_id)
  then show "suffix (snd (io_take n m r)) r"
    by (auto simp: suffix_def io_take_def case_prod_beta)
qed

lemma decodes_if: "decodes Q a \<Longrightarrow> decodes Q b \<Longrightarrow> decodes Q (if c then a else b)"
  by simp

lemma decodes_try: "decodes Q m \<Longrightarrow> decodes (\<lambda>a n. \<forall>x. a = Ok x \<longrightarrow> Q x n) (io_try m)"
  by (auto simp: decodes_def io_try_def case_prod_beta)

section \<open>Lemmas on little-endian integers\<close>

lemma length_to_le [simp]: "length (to_le k x) = k"
  by (simp add: to_le_def)

lemma bit_from_le:
  "bit (from_le bs :: 'a::len word) n \<longleftrightarrow>
     n < LENGTH('a) \<and> n div 8 < length bs \<and> bit (bs ! (n div 8)) (n mod 8)"
proof (induction bs arbitrary: n)
  case Nil
  then show ?case by simp
next
  case (Cons b bs)
  show ?case
  proof (cases "n < 8")
    case True
    then show ?thesis by (auto simp: bit_or_iff bit_push_bit_iff bit_ucast_iff)
  next
    case False
    then obtain m where m: "n = m + 8" by (metis add.commute le_Suc_ex not_less)
    have "(m + 8) div 8 = Suc (m div 8)" by simp
    moreover have "\<not> bit b (m + 8)" using bit_imp_le_length [of b "m + 8"] by auto
    ultimately show ?thesis
      by (auto simp: m bit_or_iff bit_push_bit_iff bit_ucast_iff Cons.IH simp del: bit_0_eq)
  qed
qed

lemma from_le_to_le: "8 * k = LENGTH('a) \<Longrightarrow> from_le (to_le k (x :: 'a::len word)) = x"
  by (rule bit_word_eqI) (auto simp: bit_from_le to_le_def bit_ucast_iff bit_drop_bit_eq)

lemma to_le_from_le:
  "8 * k = LENGTH('a) \<Longrightarrow> length bs = k \<Longrightarrow> to_le k (from_le bs :: 'a::len word) = bs"
  by (rule nth_equalityI; simp; rule bit_word_eqI;
      simp add: to_le_def bit_from_le bit_ucast_iff bit_drop_bit_eq)

lemma case_sum_eq_iff:
  "(case r of Inl e \<Rightarrow> f e | Inr x \<Rightarrow> g x) = y \<longleftrightarrow> (\<exists>e. r = Inl e \<and> f e = y) \<or> (\<exists>x. r = Inr x \<and> g x = y)"
  by (cases r) auto

section \<open>Lemmas on checked arithmetic\<close>

lemma unat_of_nat_small:
  "n < 2 ^ LENGTH('a) \<Longrightarrow> unat (of_nat n :: 'a::len word) = n"
  by (simp add: unat_of_nat take_bit_nat_eq_self)

lemma unat_lt: "unat (x :: 'a::len word) < 2 ^ LENGTH('a)"
  by (rule unsigned_less)

lemma checked_add_Some:
  "checked_add a b = Some (c :: 'a::len word) \<longleftrightarrow>
     c = a + b \<and> unat c = unat a + unat b"
proof
  assume "checked_add a b = Some c"
  then show "c = a + b \<and> unat c = unat a + unat b"
    by (auto simp: checked_add_def unat_word_ariths split: if_splits)
next
  assume c: "c = a + b \<and> unat c = unat a + unat b"
  then have "unat a + unat b < 2 ^ LENGTH('a)" by (metis unat_lt)
  with c show "checked_add a b = Some c" by (simp add: checked_add_def)
qed

lemma checked_add_unat: "checked_add a b = Some (c :: 'a::len word) \<Longrightarrow> unat c = unat a + unat b"
  unfolding checked_add_Some by blast

lemma checked_add_None:
  "checked_add a (b :: 'a::len word) = None \<longleftrightarrow> 2 ^ LENGTH('a) \<le> unat a + unat b"
  by (auto simp: checked_add_def)

lemma checked_sub_Some:
  "checked_sub a b = Some (c :: 'a::len word) \<longleftrightarrow> c = a - b \<and> b \<le> a"
  by (auto simp: checked_sub_def)

lemma usize_add_Some: "usize_add a b = Some c \<longleftrightarrow> c = a + b \<and> a + b < 2 ^ 64"
  by (auto simp: usize_add_def)

lemma usize_sub_Some: "usize_sub a b = Some c \<longleftrightarrow> b \<le> a \<and> c = a - b"
  by (auto simp: usize_sub_def)

section \<open>Lemmas on alignment\<close>

lemma and_not_mask: "x AND NOT (mask k) = x - take_bit k (x :: 'a::len word)"
proof -
  have "take_bit k x + (x AND NOT (mask k)) = take_bit k x OR (x AND NOT (mask k))"
    by (rule disjunctive_add_eq_or) (auto simp: bit_eq_iff bit_simps)
  also have "\<dots> = x" by (auto simp: bit_eq_iff bit_simps)
  finally show ?thesis by (simp add: algebra_simps)
qed

lemma unat_exp: "k < LENGTH('a) \<Longrightarrow> unat (2 ^ k :: 'a::len word) = 2 ^ k"
  using unat_of_nat_small [of "2 ^ k", where 'a = 'a] by simp

lemma unat_and_not_pred:
  assumes "k < LENGTH('a)"
  shows "unat (x AND NOT (2 ^ k - 1)) = unat x - unat (x :: 'a::len word) mod 2 ^ k"
proof -
  have t: "take_bit k x = x mod 2 ^ k" by (simp add: take_bit_eq_mod)
  moreover from this assms have u: "unat (take_bit k x) = unat x mod 2 ^ k" by (simp add: unat_mod unat_exp)
  moreover have "take_bit k x \<le> x"
    unfolding word_le_nat_alt u by simp
  ultimately show ?thesis using and_not_mask [of x k]
    by (simp add: mask_eq_decr_exp unat_sub)
qed

lemma least_multiple:
  assumes "x mod a \<noteq> 0" and "a dvd m" and "x \<le> (m::nat)"
  shows "x + a - x mod a \<le> m"
proof -
  obtain q where m: "m = a * q" using assms(2) by blast
  have x: "x = a * (x div a) + x mod a" by simp
  have "x div a < q"
  proof (rule ccontr)
    assume "\<not> x div a < q"
    then have "a * q \<le> a * (x div a)" by simp
    with x m assms show False by linarith
  qed
  then have "a * Suc (x div a) \<le> a * q" by (intro mult_le_mono2) simp
  moreover have "x + a - x mod a = a * Suc (x div a)"
    using minus_mod_eq_mult_div [of x a] mod_less_eq_dividend [of x a]
    unfolding mult_Suc_right by linarith
  ultimately show ?thesis using m by simp
qed

lemma dvd_next_multiple: "(a::nat) dvd x + a - x mod a"
  by (metis add.commute diff_add_assoc dvd_add_triv_left_iff dvd_minus_mod mod_less_eq_dividend)

lemma greatest_multiple:
  assumes "a dvd m" and "m \<le> (x::nat)"
  shows "m \<le> x - x mod a"
proof -
  obtain q where m: "m = a * q" using assms(1) by blast
  have "q \<le> x div a" if "a > 0" using assms(2) m that by (simp add: less_eq_div_iff_mult_less_eq mult.commute)
  then show ?thesis using m by (cases "a > 0") (simp_all add: minus_mod_eq_mult_div)
qed

end
