(* ===== verification/Bus.thy ===== *)
theory Bus
  imports Prelude
begin

text \<open>
  The bus of the machine monitor (\<open>devices/src/bus.rs\<close>): the map from address ranges to devices,
  inserting and removing devices, the routing of reads and writes, and the loops that put
  devices to sleep, wake, snapshot and restore them; with the files a snapshot is made of
  (\<open>vm_control/src/snapshot_format.rs\<close>).

  A device is the pointer of its \<open>Arc\<close>; what it does is a parameter, a function of the state
  behind that pointer. The \<open>BTreeMap\<close> is the list of its entries by increasing key; two ranges
  are the same key when they have the same base. All clones of a bus share the map; the model
  has the map and the \<open>access_id\<close> of one of them. The statistics (feature \<open>stats\<close>) are left out.
\<close>

section \<open>Ranges\<close>

definition saturating_add :: "u64 \<Rightarrow> u64 \<Rightarrow> u64" where
  "saturating_add a b = (case checked_add a b of Some c \<Rightarrow> c | None \<Rightarrow> - 1)"

record BusRange =
  range_base :: u64
  range_len :: u64

definition range_contains :: "BusRange \<Rightarrow> u64 \<Rightarrow> bool" where
  "range_contains r addr \<longleftrightarrow>
     range_base r \<le> addr \<and> addr < saturating_add (range_base r) (range_len r)"

definition range_overlaps :: "BusRange \<Rightarrow> u64 \<Rightarrow> u64 \<Rightarrow> bool" where
  "range_overlaps r base len \<longleftrightarrow>
     range_base r < saturating_add base len \<and> base < saturating_add (range_base r) (range_len r)"

section \<open>The bus\<close>

datatype BusType = Mmio | Io

datatype BusDeviceEntry = OuterSync nat | InnerSync nat

record BusEntry =
  device :: BusDeviceEntry

record Bus =
  devices :: "(BusRange \<times> BusEntry) list"
  access_id :: usize
  bus_type :: BusType

record BusAccessInfo =
  offset :: u64
  address :: u64
  info_id :: usize

datatype bus_error =
    Empty
  | Overlap u64 u64 u64 u64

definition Bus_new :: "BusType \<Rightarrow> Bus" where
  "Bus_new t = \<lparr>devices = [], access_id = 0, bus_type = t\<rparr>"

definition set_access_id :: "Bus \<Rightarrow> usize \<Rightarrow> Bus" where
  "set_access_id bus i = bus\<lparr>access_id := i\<rparr>"

text \<open>
  \<open>BTreeMap::insert\<close> with an equal key replaces the value, keeps the old key and returns the old
  value; \<open>BTreeMap::remove\<close> returns the value it took out.
\<close>

fun map_insert ::
  "BusRange \<Rightarrow> BusEntry \<Rightarrow> (BusRange \<times> BusEntry) list \<Rightarrow>
   (BusRange \<times> BusEntry) list \<times> BusEntry option" where
  "map_insert k v [] = ([(k, v)], None)"
| "map_insert k v ((k', v') # m) =
     (if range_base k < range_base k' then ((k, v) # (k', v') # m, None)
      else if range_base k = range_base k' then ((k', v) # m, Some v')
      else (case map_insert k v m of (m', old) \<Rightarrow> ((k', v') # m', old)))"

fun map_remove ::
  "BusRange \<Rightarrow> (BusRange \<times> BusEntry) list \<Rightarrow> (BusRange \<times> BusEntry) list \<times> BusEntry option" where
  "map_remove k [] = ([], None)"
| "map_remove k ((k', v') # m) =
     (if range_base k = range_base k' then (m, Some v')
      else (case map_remove k m of (m', old) \<Rightarrow> ((k', v') # m', old)))"

text \<open>The last entry whose base is at most \<open>addr\<close>.\<close>

definition first_before :: "Bus \<Rightarrow> u64 \<Rightarrow> (BusRange \<times> BusEntry) option" where
  "first_before bus addr =
     (case filter (\<lambda>(r, _). range_base r \<le> addr) (devices bus) of
        [] \<Rightarrow> None
      | e # es \<Rightarrow> Some (last (e # es)))"

definition get_device :: "Bus \<Rightarrow> u64 \<Rightarrow> (u64 \<times> u64 \<times> BusEntry) option" where
  "get_device bus addr =
     (case first_before bus addr of
        Some (r, entry) \<Rightarrow>
          let off = addr - range_base r in
          if off < range_len r then Some (off, addr, entry) else None
      | None \<Rightarrow> None)"

text \<open>\<open>try_for_each\<close> stops at the first range that overlaps.\<close>

fun check_overlap :: "(BusRange \<times> BusEntry) list \<Rightarrow> u64 \<Rightarrow> u64 \<Rightarrow> bus_error + unit" where
  "check_overlap [] base len = Ok ()"
| "check_overlap ((r, _) # m) base len =
     (if range_overlaps r base len then Err (Overlap base len (range_base r) (range_len r))
      else check_overlap m base len)"

definition Bus_insert :: "Bus \<Rightarrow> nat \<Rightarrow> u64 \<Rightarrow> u64 \<Rightarrow> (bus_error + unit) \<times> Bus" where
  "Bus_insert bus dev base len =
     (if len = 0 then (Err (Overlap base len 0 0), bus)
      else case check_overlap (devices bus) base len of
        Inl e \<Rightarrow> (Err e, bus)
      | Inr _ \<Rightarrow>
          (case map_insert \<lparr>range_base = base, range_len = len\<rparr> \<lparr>device = OuterSync dev\<rparr>
                  (devices bus) of
             (m, Some _) \<Rightarrow> (Err (Overlap base len base len), bus\<lparr>devices := m\<rparr>)
           | (m, None) \<Rightarrow> (Ok (), bus\<lparr>devices := m\<rparr>)))"

definition Bus_insert_sync :: "Bus \<Rightarrow> nat \<Rightarrow> u64 \<Rightarrow> u64 \<Rightarrow> (bus_error + unit) \<times> Bus" where
  "Bus_insert_sync bus dev base len =
     (if len = 0 then (Err (Overlap base len 0 0), bus)
      else case check_overlap (devices bus) base len of
        Inl e \<Rightarrow> (Err e, bus)
      | Inr _ \<Rightarrow>
          (case map_insert \<lparr>range_base = base, range_len = len\<rparr> \<lparr>device = InnerSync dev\<rparr>
                  (devices bus) of
             (m, Some _) \<Rightarrow> (Err (Overlap base len base len), bus\<lparr>devices := m\<rparr>)
           | (m, None) \<Rightarrow> (Ok (), bus\<lparr>devices := m\<rparr>)))"

definition Bus_remove :: "Bus \<Rightarrow> u64 \<Rightarrow> u64 \<Rightarrow> (bus_error + unit) \<times> Bus" where
  "Bus_remove bus base len =
     (if len = 0 then (Err (Overlap base len 0 0), bus)
      else if list_ex (\<lambda>(r, _). range_base r = base \<and> range_len r = len) (devices bus) then
        (case map_remove \<lparr>range_base = base, range_len = len\<rparr> (devices bus) of
           (m, Some _) \<Rightarrow> (Ok (), bus\<lparr>devices := m\<rparr>)
         | (m, None) \<Rightarrow> (Err Empty, bus\<lparr>devices := m\<rparr>))
      else (Err Empty, bus))"

section \<open>Reads and writes\<close>

text \<open>
  \<open>st\<close> maps the pointer of a device to its state; \<open>dev_read\<close> and \<open>dev_write\<close> are the methods of
  the device, with \<open>None\<close> for a panic, which is one of the access.
\<close>

fun dev_ptr :: "BusDeviceEntry \<Rightarrow> nat" where
  "dev_ptr (OuterSync p) = p"
| "dev_ptr (InnerSync p) = p"

definition Bus_read ::
  "(BusDeviceEntry \<Rightarrow> BusAccessInfo \<Rightarrow> bytes \<Rightarrow> 's \<Rightarrow> (bytes \<times> 's) option) \<Rightarrow>
   Bus \<Rightarrow> u64 \<Rightarrow> bytes \<Rightarrow> (nat \<Rightarrow> 's) \<Rightarrow> (bool \<times> bytes \<times> (nat \<Rightarrow> 's)) option" where
  "Bus_read dev_read bus addr data st =
     (case get_device bus addr of
        Some (off, adr, entry) \<Rightarrow>
          let io = \<lparr>offset = off, address = adr, info_id = access_id bus\<rparr>; p = dev_ptr (device entry)
          in (case dev_read (device entry) io data (st p) of
                None \<Rightarrow> None
              | Some (data', s) \<Rightarrow> Some (True, data', st(p := s)))
      | None \<Rightarrow> Some (False, data, st))"

definition Bus_write ::
  "(BusDeviceEntry \<Rightarrow> BusAccessInfo \<Rightarrow> bytes \<Rightarrow> 's \<Rightarrow> 's option) \<Rightarrow>
   Bus \<Rightarrow> u64 \<Rightarrow> bytes \<Rightarrow> (nat \<Rightarrow> 's) \<Rightarrow> (bool \<times> (nat \<Rightarrow> 's)) option" where
  "Bus_write dev_write bus addr data st =
     (case get_device bus addr of
        Some (off, adr, entry) \<Rightarrow>
          let io = \<lparr>offset = off, address = adr, info_id = access_id bus\<rparr>; p = dev_ptr (device entry)
          in (case dev_write (device entry) io data (st p) of
                None \<Rightarrow> None
              | Some s \<Rightarrow> Some (True, st(p := s)))
      | None \<Rightarrow> Some (False, st))"

section \<open>Loops over the devices\<close>

text \<open>\<open>seen_ptrs.insert\<close> is true for the first entry of a pointer only.\<close>

fun first_of_ptr :: "nat set \<Rightarrow> BusDeviceEntry list \<Rightarrow> BusDeviceEntry list" where
  "first_of_ptr seen [] = []"
| "first_of_ptr seen (d # ds) =
     (if dev_ptr d \<in> seen then first_of_ptr seen ds
      else d # first_of_ptr (insert (dev_ptr d) seen) ds)"

definition unique_devices :: "Bus \<Rightarrow> BusDeviceEntry list" where
  "unique_devices bus = first_of_ptr {} (map (\<lambda>(_, e). device e) (devices bus))"

text \<open>
  Labels and keys are lists of code points, since \<open>char::is_whitespace\<close> is a predicate on them.
\<close>

type_synonym uchar = nat

definition is_whitespace :: "uchar \<Rightarrow> bool" where
  "is_whitespace c \<longleftrightarrow>
     c \<in> {9, 10, 11, 12, 13, 32, 133, 160, 5760, 8232, 8233, 8239, 8287, 12288}
     \<or> 8192 \<le> c \<and> c \<le> 8202"

fun decimal :: "nat \<Rightarrow> uchar list" where
  "decimal n = (if n < 10 then [48 + n] else decimal (n div 10) @ [48 + n mod 10])"

declare decimal.simps [simp del]

definition label_of :: "uchar list \<Rightarrow> uchar list" where
  "label_of debug_label = map (\<lambda>c. if is_whitespace c then 45 else c) debug_label"

fun choose_keys ::
  "(BusDeviceEntry \<Rightarrow> uchar list) \<Rightarrow> (uchar list \<Rightarrow> nat) \<Rightarrow> BusDeviceEntry list \<Rightarrow>
   (uchar list \<times> BusDeviceEntry) list" where
  "choose_keys debug_label next_ids [] = []"
| "choose_keys debug_label next_ids (d # ds) =
     (let l = label_of (debug_label d)
      in (l @ [45] @ decimal (next_ids l), d)
         # choose_keys debug_label (next_ids(l := next_ids l + 1)) ds)"

definition unique_devices_with_snapshot_key ::
  "(BusDeviceEntry \<Rightarrow> uchar list) \<Rightarrow> Bus \<Rightarrow> (uchar list \<times> BusDeviceEntry) list" where
  "unique_devices_with_snapshot_key debug_label bus =
     choose_keys debug_label (\<lambda>_. 0) (unique_devices bus)"

text \<open>\<open>sleep_devices\<close> and \<open>wake_devices\<close> stop at the first device that fails.\<close>

fun each_device ::
  "(BusDeviceEntry \<Rightarrow> 's \<Rightarrow> ('e + unit) \<times> 's) \<Rightarrow> BusDeviceEntry list \<Rightarrow> (nat \<Rightarrow> 's) \<Rightarrow>
   ('e + unit) \<times> (nat \<Rightarrow> 's)" where
  "each_device dev_op [] st = (Ok (), st)"
| "each_device dev_op (d # ds) st =
     (case dev_op d (st (dev_ptr d)) of
        (Inl e, s) \<Rightarrow> (Err e, st(dev_ptr d := s))
      | (Inr _, s) \<Rightarrow> each_device dev_op ds (st(dev_ptr d := s)))"

definition sleep_devices ::
  "(BusDeviceEntry \<Rightarrow> 's \<Rightarrow> ('e + unit) \<times> 's) \<Rightarrow> Bus \<Rightarrow> (nat \<Rightarrow> 's) \<Rightarrow>
   ('e + unit) \<times> (nat \<Rightarrow> 's)" where
  "sleep_devices dev_sleep bus = each_device dev_sleep (unique_devices bus)"

definition wake_devices ::
  "(BusDeviceEntry \<Rightarrow> 's \<Rightarrow> ('e + unit) \<times> 's) \<Rightarrow> Bus \<Rightarrow> (nat \<Rightarrow> 's) \<Rightarrow>
   ('e + unit) \<times> (nat \<Rightarrow> 's)" where
  "wake_devices dev_wake bus = each_device dev_wake (unique_devices bus)"

section \<open>Snapshots\<close>

text \<open>
  The directory of an unencrypted snapshot maps the names of its fragments to the bytes of
  their files. \<open>openable\<close> says for which names the file system lets a file be created;
  \<open>to_writer\<close> and \<open>from_reader\<close> are those of \<open>serde_json\<close>. An I/O error while a file that was
  opened is written is not modelled.
\<close>

datatype 'e snapshot_error = Device 'e | Fragment "uchar list"

type_synonym fragments = "uchar list \<rightharpoonup> bytes"

definition write_fragment ::
  "(uchar list \<Rightarrow> bool) \<Rightarrow> ('v \<Rightarrow> bytes) \<Rightarrow> uchar list \<Rightarrow> 'v \<Rightarrow> fragments \<Rightarrow>
   ('e snapshot_error + unit) \<times> fragments" where
  "write_fragment openable to_writer name v dir =
     (if openable name \<and> dir name = None then (Ok (), dir(name \<mapsto> to_writer v))
      else (Err (Fragment name), dir))"

definition read_fragment ::
  "(bytes \<Rightarrow> 'v option) \<Rightarrow> uchar list \<Rightarrow> fragments \<Rightarrow> 'e snapshot_error + 'v" where
  "read_fragment from_reader name dir =
     (case dir name of
        None \<Rightarrow> Err (Fragment name)
      | Some bs \<Rightarrow> (case from_reader bs of None \<Rightarrow> Err (Fragment name) | Some v \<Rightarrow> Ok v))"

fun snapshot_loop ::
  "(uchar list \<Rightarrow> bool) \<Rightarrow> ('v \<Rightarrow> bytes) \<Rightarrow> (BusDeviceEntry \<Rightarrow> 's \<Rightarrow> ('e + 'v) \<times> 's) \<Rightarrow>
   (uchar list \<times> BusDeviceEntry) list \<Rightarrow> (nat \<Rightarrow> 's) \<Rightarrow> fragments \<Rightarrow>
   ('e snapshot_error + unit) \<times> (nat \<Rightarrow> 's) \<times> fragments" where
  "snapshot_loop openable to_writer dev_snapshot [] st dir = (Ok (), st, dir)"
| "snapshot_loop openable to_writer dev_snapshot ((key, d) # ds) st dir =
     (case dev_snapshot d (st (dev_ptr d)) of
        (Inl e, s) \<Rightarrow> (Err (Device e), st(dev_ptr d := s), dir)
      | (Inr v, s) \<Rightarrow>
          (case write_fragment openable to_writer key v dir of
             (Inl e, dir') \<Rightarrow> (Err e, st(dev_ptr d := s), dir')
           | (Inr _, dir') \<Rightarrow>
               snapshot_loop openable to_writer dev_snapshot ds (st(dev_ptr d := s)) dir'))"

definition snapshot_devices ::
  "(BusDeviceEntry \<Rightarrow> uchar list) \<Rightarrow> (uchar list \<Rightarrow> bool) \<Rightarrow> ('v \<Rightarrow> bytes) \<Rightarrow>
   (BusDeviceEntry \<Rightarrow> 's \<Rightarrow> ('e + 'v) \<times> 's) \<Rightarrow> Bus \<Rightarrow> (nat \<Rightarrow> 's) \<Rightarrow> fragments \<Rightarrow>
   ('e snapshot_error + unit) \<times> (nat \<Rightarrow> 's) \<times> fragments" where
  "snapshot_devices debug_label openable to_writer dev_snapshot bus =
     snapshot_loop openable to_writer dev_snapshot (unique_devices_with_snapshot_key debug_label bus)"

fun restore_loop ::
  "(bytes \<Rightarrow> 'v option) \<Rightarrow> (BusDeviceEntry \<Rightarrow> 'v \<Rightarrow> 's \<Rightarrow> ('e + unit) \<times> 's) \<Rightarrow> fragments \<Rightarrow>
   (uchar list \<times> BusDeviceEntry) list \<Rightarrow> (nat \<Rightarrow> 's) \<Rightarrow>
   ('e snapshot_error + unit) \<times> (nat \<Rightarrow> 's)" where
  "restore_loop from_reader dev_restore dir [] st = (Ok (), st)"
| "restore_loop from_reader dev_restore dir ((key, d) # ds) st =
     (case read_fragment from_reader key dir of
        Inl e \<Rightarrow> (Err e, st)
      | Inr v \<Rightarrow>
          (case dev_restore d v (st (dev_ptr d)) of
             (Inl e, s) \<Rightarrow> (Err (Device e), st(dev_ptr d := s))
           | (Inr _, s) \<Rightarrow> restore_loop from_reader dev_restore dir ds (st(dev_ptr d := s))))"

text \<open>
  The keys that no device used are only logged, so they are not part of the result. Listing
  the directory is an I/O operation that is taken to succeed.
\<close>

definition restore_devices ::
  "(BusDeviceEntry \<Rightarrow> uchar list) \<Rightarrow> (bytes \<Rightarrow> 'v option) \<Rightarrow>
   (BusDeviceEntry \<Rightarrow> 'v \<Rightarrow> 's \<Rightarrow> ('e + unit) \<times> 's) \<Rightarrow> Bus \<Rightarrow> fragments \<Rightarrow> (nat \<Rightarrow> 's) \<Rightarrow>
   ('e snapshot_error + unit) \<times> (nat \<Rightarrow> 's)" where
  "restore_devices debug_label from_reader dev_restore bus dir =
     restore_loop from_reader dev_restore dir (unique_devices_with_snapshot_key debug_label bus)"


section \<open>Routing\<close>

text \<open>
  The invariant of the map: ranges are not empty, end below the last address and follow each
  other without overlap.
\<close>

definition bus_end :: "BusRange \<Rightarrow> nat" where
  "bus_end r = unat (range_base r) + unat (range_len r)"

definition ranges_ok :: "(BusRange \<times> BusEntry) list \<Rightarrow> bool" where
  "ranges_ok m \<longleftrightarrow>
     sorted_wrt (\<lambda>(r, _) (r', _). bus_end r \<le> unat (range_base r')) m
     \<and> (\<forall>(r, _) \<in> set m. 0 < range_len r \<and> bus_end r < 2 ^ 64)"

definition bus_ok :: "Bus \<Rightarrow> bool" where
  "bus_ok bus \<longleftrightarrow> ranges_ok (devices bus)"

definition in_range :: "BusRange \<Rightarrow> u64 \<Rightarrow> bool" where
  "in_range r a \<longleftrightarrow> range_base r \<le> a \<and> unat a < bus_end r"

lemma saturating_add_unat:
  "unat a + unat b < 2 ^ 64 \<Longrightarrow> unat (saturating_add a b) = unat a + unat b"
  by (auto simp: saturating_add_def checked_add_None checked_add_unat split: option.splits)

lemma range_contains_iff: "bus_end r < 2 ^ 64 \<Longrightarrow> range_contains r a \<longleftrightarrow> in_range r a"
  by (simp add: range_contains_def in_range_def bus_end_def word_less_nat_alt saturating_add_unat)

lemma range_overlaps_iff:
  "bus_end r < 2 ^ 64 \<Longrightarrow> unat base + unat len < 2 ^ 64 \<Longrightarrow>
   range_overlaps r base len \<longleftrightarrow>
     unat (range_base r) < unat base + unat len \<and> unat base < bus_end r"
  by (simp add: range_overlaps_def bus_end_def word_less_nat_alt saturating_add_unat)

lemma in_range_offset:
  "range_base r \<le> a \<Longrightarrow> in_range r a \<longleftrightarrow> a - range_base r < range_len r"
  by (auto simp: in_range_def bus_end_def word_less_nat_alt word_le_nat_alt unat_sub)

lemma ranges_ok_Cons:
  "ranges_ok ((r, e) # m) \<longleftrightarrow>
     0 < range_len r \<and> bus_end r < 2 ^ 64 \<and> ranges_ok m
     \<and> (\<forall>(r', _) \<in> set m. bus_end r \<le> unat (range_base r'))"
  by (auto simp: ranges_ok_def)

lemma ranges_ok_after:
  "ranges_ok (xs @ (r, e) # ys) \<Longrightarrow> (r', e') \<in> set ys \<Longrightarrow> bus_end r \<le> unat (range_base r')"
  by (auto simp: ranges_ok_def sorted_wrt_append)

lemma first_before_last:
  "first_before bus a =
     (let es = filter (\<lambda>(r, _). range_base r \<le> a) (devices bus)
      in if es = [] then None else Some (last es))"
  by (simp add: first_before_def Let_def split: list.split)

lemma first_before_in_range:
  assumes "ranges_ok (devices bus)" and "(r, e) \<in> set (devices bus)" and "in_range r a"
  shows "first_before bus a = Some (r, e)"
proof -
  obtain xs ys where m: "devices bus = xs @ (r, e) # ys"
    using assms(2) by (meson split_list)
  have "filter (\<lambda>(r, _). range_base r \<le> a) ys = []"
    using ranges_ok_after [OF assms(1) [unfolded m]] assms(3)
    by (fastforce simp: filter_empty_conv in_range_def word_le_nat_alt)
  then show ?thesis
    using assms(3) by (simp add: first_before_last m in_range_def)
qed

lemma first_before_Some:
  "first_before bus a = Some (r, e) \<Longrightarrow> (r, e) \<in> set (devices bus) \<and> range_base r \<le> a"
  using last_in_set [of "filter (\<lambda>(r, _). range_base r \<le> a) (devices bus)"]
  by (auto simp: first_before_last Let_def split: if_splits)

text \<open>A device answers for exactly the addresses of its ranges.\<close>

lemma get_device_iff:
  assumes "bus_ok bus"
  shows "get_device bus a = Some (off, a', e) \<longleftrightarrow>
    a' = a \<and> (\<exists>r. (r, e) \<in> set (devices bus) \<and> in_range r a \<and> off = a - range_base r)"
    (is "?l \<longleftrightarrow> ?r")
proof
  assume ?l then show ?r
    by (auto simp: get_device_def Let_def in_range_offset dest!: first_before_Some
        split: option.splits if_splits)
next
  assume ?r
  then obtain r where r: "a' = a" "(r, e) \<in> set (devices bus)" "in_range r a"
    "off = a - range_base r" by blast
  then have "first_before bus a = Some (r, e)"
    using first_before_in_range assms by (simp add: bus_ok_def)
  moreover have "a - range_base r < range_len r"
    using r(3) in_range_offset [of r a] by (simp add: in_range_def)
  ultimately show ?l using r by (simp add: get_device_def)
qed

lemma get_device_None:
  assumes "bus_ok bus"
  shows "get_device bus a = None \<longleftrightarrow> (\<forall>(r, e) \<in> set (devices bus). \<not> in_range r a)"
proof -
  have "(\<exists>x. get_device bus a = Some x) \<longleftrightarrow> (\<exists>(r, e) \<in> set (devices bus). in_range r a)"
    using get_device_iff [OF assms] by fastforce
  then show ?thesis by (cases "get_device bus a") auto
qed

text \<open>An equality of routing from the entries of two buses.\<close>

lemma get_device_cong:
  assumes "bus_ok bus" "bus_ok bus'"
    and "\<And>r e. in_range r a \<Longrightarrow> (r, e) \<in> set (devices bus) \<longleftrightarrow> (r, e) \<in> set (devices bus')"
  shows "get_device bus a = get_device bus' a"
proof -
  have "get_device bus a = Some x \<longleftrightarrow> get_device bus' a = Some x" for x
    using get_device_iff [OF assms(1)] get_device_iff [OF assms(2)] assms(3)
    by (cases x) metis
  then show ?thesis by (metis option.exhaust)
qed

lemma check_overlap_Ok:
  "check_overlap m base len = Ok () \<longleftrightarrow> (\<forall>(r, e) \<in> set m. \<not> range_overlaps r base len)"
  by (induction m base len rule: check_overlap.induct) auto

text \<open>Two ranges overlap exactly when they have an address in common.\<close>

lemma overlap_shares_address:
  assumes "0 < range_len r" "bus_end r < 2 ^ 64" "0 < len" "unat base + unat len < 2 ^ 64"
  shows "range_overlaps r base len \<longleftrightarrow>
    (\<exists>a. in_range r a \<and> in_range \<lparr>range_base = base, range_len = len\<rparr> a)" (is "?l \<longleftrightarrow> ?r")
proof
  assume ?l
  then have "in_range r (max (range_base r) base)"
    "in_range \<lparr>range_base = base, range_len = len\<rparr> (max (range_base r) base)"
    using assms unfolding range_overlaps_iff [OF assms(2,4)]
    by (auto simp: in_range_def bus_end_def max_def word_le_nat_alt word_less_nat_alt)
  then show ?r by blast
next
  assume ?r then show ?l
    unfolding range_overlaps_iff [OF assms(2,4)]
    by (auto simp: in_range_def bus_end_def word_le_nat_alt)
qed

lemma map_insert_ok:
  assumes "ranges_ok m" "0 < range_len k" "bus_end k < 2 ^ 64"
    and "\<forall>(r, e) \<in> set m. bus_end k \<le> unat (range_base r) \<or> bus_end r \<le> unat (range_base k)"
  shows "snd (map_insert k v m) = None \<and> ranges_ok (fst (map_insert k v m))
    \<and> set (fst (map_insert k v m)) = insert (k, v) (set m)"
  using assms
proof (induction k v m rule: map_insert.induct)
  case (2 k v k' v' m)
  have pos: "0 < unat (range_len k)" "0 < unat (range_len k')"
    using 2(2,3) by (simp_all add: ranges_ok_Cons word_less_nat_alt)
  have apart: "bus_end k \<le> unat (range_base k') \<or> bus_end k' \<le> unat (range_base k)"
    using 2(5) by auto
  consider "range_base k < range_base k'" "bus_end k \<le> unat (range_base k')"
    | "\<not> range_base k < range_base k'" "range_base k \<noteq> range_base k'"
      "bus_end k' \<le> unat (range_base k)"
    using apart pos by (fastforce simp: bus_end_def word_less_nat_alt)
  then show ?case
  proof cases
    case 1
    then have "\<forall>(r, e) \<in> set m. bus_end k \<le> unat (range_base r)"
      using 2(2) by (fastforce simp: ranges_ok_Cons bus_end_def)
    with 1 2 show ?thesis by (simp add: ranges_ok_Cons)
  next
    case 2
    note IH = "2.IH" [OF 2(1,2)]
    then show ?thesis using 2 "2.prems"
      by (cases "map_insert k v m") (auto simp: ranges_ok_Cons)
  qed
qed (simp add: ranges_ok_def)

lemma map_remove_insert:
  "snd (map_insert k v m) = None \<Longrightarrow> map_remove k (fst (map_insert k v m)) = (m, Some v)"
  by (induction k v m rule: map_insert.induct) (auto split: prod.splits if_splits)

lemma map_remove_ok:
  "ranges_ok m \<Longrightarrow> (r, e) \<in> set m \<Longrightarrow> range_base r = range_base k \<Longrightarrow>
   snd (map_remove k m) = Some e \<and> ranges_ok (fst (map_remove k m))
   \<and> set (fst (map_remove k m)) = set m - {(r, e)}"
proof (induction k m rule: map_remove.induct)
  case (2 k k' v' m)
  have later: "range_base k' \<noteq> range_base r'" "range_base k' < range_base r'"
    if "(r', e') \<in> set m" for r' e'
    using 2(2) that by (force simp: ranges_ok_Cons bus_end_def word_less_nat_alt)+
  show ?case
  proof (cases "range_base k = range_base k'")
    case True
    then have "(r, e) = (k', v')" using 2(3,4) later(1) [of r e] by auto
    with True 2(2) later show ?thesis by (auto simp: ranges_ok_Cons)
  next
    case False
    then have "(r, e) \<in> set m" "(r, e) \<noteq> (k', v')" using 2(3,4) by auto
    with False 2 show ?thesis
      by (cases "map_remove k m") (auto simp: ranges_ok_Cons)
  qed
qed simp


text \<open>Both ways to insert differ in the entry only.\<close>

definition insert_entry ::
  "Bus \<Rightarrow> BusDeviceEntry \<Rightarrow> u64 \<Rightarrow> u64 \<Rightarrow> (bus_error + unit) \<times> Bus" where
  "insert_entry bus d = (case d of OuterSync p \<Rightarrow> Bus_insert bus p | InnerSync p \<Rightarrow> Bus_insert_sync bus p)"

lemma insert_entry_eq:
  "insert_entry bus d base len =
     (if len = 0 then (Err (Overlap base len 0 0), bus)
      else case check_overlap (devices bus) base len of
        Inl e \<Rightarrow> (Err e, bus)
      | Inr _ \<Rightarrow>
          (case map_insert \<lparr>range_base = base, range_len = len\<rparr> \<lparr>device = d\<rparr> (devices bus) of
             (m, Some _) \<Rightarrow> (Err (Overlap base len base len), bus\<lparr>devices := m\<rparr>)
           | (m, None) \<Rightarrow> (Ok (), bus\<lparr>devices := m\<rparr>)))"
  by (cases d) (simp_all only: insert_entry_def Bus_insert_def Bus_insert_sync_def BusDeviceEntry.case)

lemma insert_entry_Ok:
  assumes ok: "bus_ok bus" and fit: "unat base + unat len < 2 ^ 64" and pos: "len \<noteq> 0"
    and free: "check_overlap (devices bus) base len = Ok ()"
  obtains m where "insert_entry bus d base len = (Ok (), bus\<lparr>devices := m\<rparr>)" and "ranges_ok m"
    and "set m = insert (\<lparr>range_base = base, range_len = len\<rparr>, \<lparr>device = d\<rparr>) (set (devices bus))"
proof -
  let ?k = "\<lparr>range_base = base, range_len = len\<rparr>"
  have "\<forall>(r, e) \<in> set (devices bus). bus_end ?k \<le> unat (range_base r) \<or> bus_end r \<le> unat base"
    using free ok fit
    by (fastforce simp: check_overlap_Ok bus_ok_def ranges_ok_def range_overlaps_iff bus_end_def)
  then have "snd (map_insert ?k \<lparr>device = d\<rparr> (devices bus)) = None
    \<and> ranges_ok (fst (map_insert ?k \<lparr>device = d\<rparr> (devices bus)))
    \<and> set (fst (map_insert ?k \<lparr>device = d\<rparr> (devices bus))) = insert (?k, \<lparr>device = d\<rparr>) (set (devices bus))"
    using ok fit pos by (intro map_insert_ok) (auto simp: bus_ok_def bus_end_def word_neq_0_conv)
  then show ?thesis
    using that [of "fst (map_insert ?k \<lparr>device = d\<rparr> (devices bus))"] free pos
    by (cases "map_insert ?k \<lparr>device = d\<rparr> (devices bus)") (simp add: insert_entry_eq)
qed

lemma insert_entry_Err:
  assumes ok: "bus_ok bus" and fit: "unat base + unat len < 2 ^ 64" and pos: "len \<noteq> 0"
    and taken: "check_overlap (devices bus) base len \<noteq> Ok ()"
  shows "\<exists>e. insert_entry bus d base len = (Err e, bus)"
    and "\<exists>a. in_range \<lparr>range_base = base, range_len = len\<rparr> a \<and> get_device bus a \<noteq> None"
proof -
  show "\<exists>e. insert_entry bus d base len = (Err e, bus)"
    using taken pos by (auto simp: insert_entry_eq split: sum.splits)
  obtain r e where re: "(r, e) \<in> set (devices bus)" "range_overlaps r base len"
    using taken by (auto simp: check_overlap_Ok)
  then have "0 < range_len r" "bus_end r < 2 ^ 64"
    using ok by (auto simp: bus_ok_def ranges_ok_def)
  then obtain a where "in_range r a" "in_range \<lparr>range_base = base, range_len = len\<rparr> a"
    using overlap_shares_address [of r len base] re(2) fit pos by (auto simp: word_neq_0_conv)
  then show "\<exists>a. in_range \<lparr>range_base = base, range_len = len\<rparr> a \<and> get_device bus a \<noteq> None"
    using get_device_None [OF ok] re(1) by fastforce
qed

lemma free_iff:
  assumes ok: "bus_ok bus" and fit: "unat base + unat len < 2 ^ 64" and pos: "len \<noteq> 0"
  shows "check_overlap (devices bus) base len = Ok () \<longleftrightarrow>
    (\<forall>a. in_range \<lparr>range_base = base, range_len = len\<rparr> a \<longrightarrow> get_device bus a = None)"
proof
  assume free: "check_overlap (devices bus) base len = Ok ()"
  show "\<forall>a. in_range \<lparr>range_base = base, range_len = len\<rparr> a \<longrightarrow> get_device bus a = None"
  proof (intro allI impI)
    fix a assume a: "in_range \<lparr>range_base = base, range_len = len\<rparr> a"
    have "\<not> in_range r a" if "(r, e) \<in> set (devices bus)" for r e
      using that free a ok overlap_shares_address [of r len base] fit pos
      by (fastforce simp: check_overlap_Ok bus_ok_def ranges_ok_def word_neq_0_conv)
    then show "get_device bus a = None" using get_device_None [OF ok] by blast
  qed
next
  assume "\<forall>a. in_range \<lparr>range_base = base, range_len = len\<rparr> a \<longrightarrow> get_device bus a = None"
  then show "check_overlap (devices bus) base len = Ok ()"
    using insert_entry_Err(2) [OF ok fit pos] by metis
qed

lemma insert_routes:
  assumes "bus_ok bus" and "unat base + unat len < 2 ^ 64"
    and "(r, bus') = (case d of OuterSync p \<Rightarrow> Bus_insert bus p base len
                              | InnerSync p \<Rightarrow> Bus_insert_sync bus p base len)"
  shows "(r = Ok () \<longleftrightarrow> len \<noteq> 0 \<and>
            (\<forall>a. base \<le> a \<and> unat a < unat base + unat len \<longrightarrow> get_device bus a = None))
    \<and> (r = Ok () \<longrightarrow> bus_ok bus' \<and> (\<forall>a. get_device bus' a =
          (if base \<le> a \<and> unat a < unat base + unat len then Some (a - base, a, \<lparr>device = d\<rparr>)
           else get_device bus a)))
    \<and> (r \<noteq> Ok () \<longrightarrow> bus' = bus)"
proof -
  let ?k = "\<lparr>range_base = base, range_len = len\<rparr>"
  have ins: "(r, bus') = insert_entry bus d base len"
    using assms(3) by (simp add: insert_entry_def split: BusDeviceEntry.splits)
  have k: "in_range ?k a \<longleftrightarrow> base \<le> a \<and> unat a < unat base + unat len" for a
    by (simp add: in_range_def bus_end_def)
  show ?thesis
  proof (cases "len \<noteq> 0 \<and> check_overlap (devices bus) base len = Ok ()")
    case True
    then obtain m where m: "insert_entry bus d base len = (Ok (), bus\<lparr>devices := m\<rparr>)" "ranges_ok m"
      "set m = insert (?k, \<lparr>device = d\<rparr>) (set (devices bus))"
      using insert_entry_Ok [OF assms(1,2)] by metis
    have ok': "bus_ok bus'" using m ins by (simp add: bus_ok_def)
    have "get_device bus' a = (if in_range ?k a then Some (a - base, a, \<lparr>device = d\<rparr>)
        else get_device bus a)" for a
      using get_device_iff [OF ok', of a "a - base" a "\<lparr>device = d\<rparr>"] ins m
        get_device_cong [OF ok' assms(1), of a] by auto
    then show ?thesis
      using True ok' ins m free_iff [OF assms(1,2)] by (simp add: k)
  next
    case False
    have "\<exists>e. insert_entry bus d base len = (Err e, bus)"
      using False insert_entry_Err(1) [OF assms(1,2)] by (cases "len = 0") (auto simp: insert_entry_eq)
    then obtain e where "r = Err e" "bus' = bus" using ins by auto
    then show ?thesis
      using False free_iff [OF assms(1,2)] by (cases "len = 0") (auto simp: k)
  qed
qed

text \<open>
  C18. Inserting a device, with or without its own lock, into a bus whose ranges are in order,
  at a range that ends below the last address: it succeeds exactly when the range is not empty
  and no device answers at any of its addresses; then the bus stays in order, the new device
  answers at exactly these addresses, with the offset from the base, and every other address
  is routed as before. When it fails, the bus is unchanged.
\<close>

theorem bus_insert_routes:
  assumes "bus_ok bus" and "unat base + unat len < 2 ^ 64"
    and "(r, bus') = (case d of OuterSync p \<Rightarrow> Bus_insert bus p base len
                              | InnerSync p \<Rightarrow> Bus_insert_sync bus p base len)"
  shows "(r = Ok () \<longleftrightarrow> len \<noteq> 0 \<and>
            (\<forall>a. base \<le> a \<and> unat a < unat base + unat len \<longrightarrow> get_device bus a = None))
    \<and> (r = Ok () \<longrightarrow> bus_ok bus' \<and> (\<forall>a. get_device bus' a =
          (if base \<le> a \<and> unat a < unat base + unat len then Some (a - base, a, \<lparr>device = d\<rparr>)
           else get_device bus a)))
    \<and> (r \<noteq> Ok () \<longrightarrow> bus' = bus)"
  using assms by (rule insert_routes)

theorem bus_insert_routes_witness:
  "bus_ok (Bus_new Io)
   \<and> get_device (snd (Bus_insert (Bus_new Io) 7 0x3f8 8)) 0x3fa = Some (2, 0x3fa, \<lparr>device = OuterSync 7\<rparr>)
   \<and> get_device (snd (Bus_insert (Bus_new Io) 7 0x3f8 8)) 0x400 = None"
proof -
  let ?i = "Bus_insert (Bus_new Io) 7 0x3f8 8"
  have ok: "bus_ok (Bus_new Io)" by (simp add: bus_ok_def Bus_new_def ranges_ok_def)
  have none: "get_device (Bus_new Io) a = None" for a
    by (simp add: get_device_def first_before_def Bus_new_def)
  show ?thesis
    using bus_insert_routes [of "Bus_new Io" "0x3f8" 8 "fst ?i" "snd ?i" "OuterSync 7"] ok none
    by simp
qed

text \<open>
  Removing succeeds exactly for a range that was inserted; its addresses answer no more and
  all others are routed as before.
\<close>

theorem bus_remove_routes:
  assumes "bus_ok bus" and "(r, bus') = Bus_remove bus base len"
  shows "(r = Ok () \<longleftrightarrow> (\<exists>e. (\<lparr>range_base = base, range_len = len\<rparr>, e) \<in> set (devices bus)))
    \<and> (r = Ok () \<longrightarrow> bus_ok bus' \<and> (\<forall>a. get_device bus' a =
          (if base \<le> a \<and> unat a < unat base + unat len then None else get_device bus a)))
    \<and> (r \<noteq> Ok () \<longrightarrow> bus' = bus)"
proof (cases "\<exists>e. (\<lparr>range_base = base, range_len = len\<rparr>, e) \<in> set (devices bus)")
  case True
  let ?k = "\<lparr>range_base = base, range_len = len\<rparr>"
  obtain e where e: "(?k, e) \<in> set (devices bus)" using True by blast
  have m: "snd (map_remove ?k (devices bus)) = Some e \<and> ranges_ok (fst (map_remove ?k (devices bus)))
    \<and> set (fst (map_remove ?k (devices bus))) = set (devices bus) - {(?k, e)}"
    using e assms(1) by (intro map_remove_ok [where r = ?k]) (auto simp: bus_ok_def)
  have "len \<noteq> 0" using e assms(1) by (auto simp: bus_ok_def ranges_ok_def)
  moreover have "list_ex (\<lambda>(r, _). range_base r = base \<and> range_len r = len) (devices bus)"
    using e by (force simp: list_ex_iff)
  ultimately have r: "r = Ok ()" "bus' = bus\<lparr>devices := fst (map_remove ?k (devices bus))\<rparr>"
    using assms(2) m by (auto simp: Bus_remove_def split: prod.splits)
  then have ok': "bus_ok bus'" using m by (simp add: bus_ok_def)
  have "get_device bus' a = (if in_range ?k a then None else get_device bus a)" for a
  proof (cases "in_range ?k a")
    case True
    then have "first_before bus a = Some (?k, e)"
      using first_before_in_range e assms(1) by (simp add: bus_ok_def)
    then have "\<not> in_range r' a" if "(r', e') \<in> set (devices bus')" for r' e'
      using that r m first_before_in_range [of bus r' e' a] assms(1) by (auto simp: bus_ok_def)
    with True show ?thesis using get_device_None [OF ok', of a] by auto
  next
    case False
    then show ?thesis
      using get_device_cong [OF ok' assms(1), of a] r m by auto
  qed
  then show ?thesis using r ok' e by (auto simp: in_range_def bus_end_def)
next
  case False
  then have "\<not> list_ex (\<lambda>(r, _). range_base r = base \<and> range_len r = len) (devices bus)"
    by (auto simp: list_ex_iff) (metis (full_types) BusRange.surjective old.unit.exhaust)
  with False show ?thesis using assms(2) by (auto simp: Bus_remove_def split: if_splits)
qed

text \<open>Removing what was just inserted gives back the bus.\<close>

theorem bus_insert_remove:
  "Bus_insert bus p base len = (Ok (), bus') \<Longrightarrow> Bus_remove bus' base len = (Ok (), bus)"
proof -
  assume ins: "Bus_insert bus p base len = (Ok (), bus')"
  let ?k = "\<lparr>range_base = base, range_len = len\<rparr>"
  let ?i = "map_insert ?k \<lparr>device = OuterSync p\<rparr> (devices bus)"
  have b: "len \<noteq> 0" "snd ?i = None" "bus' = bus\<lparr>devices := fst ?i\<rparr>"
    using ins by (auto simp: Bus_insert_def split: if_splits sum.splits prod.splits option.splits)
  have "(?k, \<lparr>device = OuterSync p\<rparr>) \<in> set (fst (map_insert ?k \<lparr>device = OuterSync p\<rparr> m))"
    if "snd (map_insert ?k \<lparr>device = OuterSync p\<rparr> m) = None" for m
    using that by (induction m) (auto split: prod.splits if_splits)
  then have "list_ex (\<lambda>(r, _). range_base r = base \<and> range_len r = len) (fst ?i)"
    using b(2) by (force simp: list_ex_iff)
  then show ?thesis
    using b map_remove_insert [OF b(2)] by (simp add: Bus_remove_def)
qed

text \<open>
  A range that contains the last address of the address space: the addition saturates, so that
  address does not count as part of the range. A second device at it is not found to overlap;
  \<open>BTreeMap::insert\<close> then replaces the first one, and only afterwards is the error returned.
\<close>

theorem bus_insert_last_address:
  assumes "(r, bus) = Bus_insert (Bus_new t) p (- 1) 1" and "(r', bus') = Bus_insert bus q (- 1) 1"
  shows "r = Ok () \<and> r' = Err (Overlap (- 1) 1 (- 1) 1)
    \<and> get_device bus (- 1) = Some (0, - 1, \<lparr>device = OuterSync p\<rparr>)
    \<and> get_device bus' (- 1) = Some (0, - 1, \<lparr>device = OuterSync q\<rparr>)"
  using assms
  by (simp add: Bus_insert_def Bus_new_def range_overlaps_def saturating_add_def checked_add_def
      get_device_def first_before_def)


section \<open>Snapshot keys\<close>

lemma decimal_digits: "c \<in> set (decimal n) \<Longrightarrow> 48 \<le> c \<and> c \<le> 57"
proof (induction n rule: decimal.induct)
  case (1 n)
  then show ?case
    using decimal.simps [of n] mod_less_divisor [of 10 n] by (fastforce split: if_splits)
qed

lemma decimal_not_Nil: "decimal n \<noteq> []"
  using decimal.simps [of n] by (auto split: if_splits)

lemma decimal_small: "n < 10 \<Longrightarrow> decimal n = [48 + n]"
  by (subst decimal.simps) simp

lemma decimal_large: "\<not> n < 10 \<Longrightarrow> decimal n = decimal (n div 10) @ [48 + n mod 10]"
  by (subst decimal.simps) simp

lemma decimal_length: "length (decimal n) = 1 \<longleftrightarrow> n < 10"
proof (cases "n < 10")
  case False
  then show ?thesis unfolding decimal_large [OF False] using decimal_not_Nil [of "n div 10"] by simp
qed (simp add: decimal_small)

lemma decimal_inj: "decimal n = decimal m \<Longrightarrow> n = m"
proof (induction n arbitrary: m rule: decimal.induct)
  case (1 n)
  have "n < 10 \<longleftrightarrow> m < 10" using 1(2) decimal_length [of n] decimal_length [of m] by argo
  then consider "n < 10" "m < 10" | "\<not> n < 10" "\<not> m < 10" by argo
  then show ?case
  proof cases
    case 1
    then show ?thesis using "1.prems" by (simp add: decimal_small)
  next
    case 2
    then have "decimal (n div 10) = decimal (m div 10)" "n mod 10 = m mod 10"
      using "1.prems" unfolding decimal_large [OF 2(1)] decimal_large [OF 2(2)] by simp_all
    then have "n div 10 = m div 10" using "1.IH" 2 by blast
    then show ?thesis
      using \<open>n mod 10 = m mod 10\<close> by (metis div_mult_mod_eq)
  qed
qed

lemma split_first_eq:
  "xs @ x # ys = xs' @ x # ys' \<Longrightarrow> x \<notin> set xs \<Longrightarrow> x \<notin> set xs' \<Longrightarrow> xs = xs' \<and> ys = ys'"
proof (induction xs arbitrary: xs')
  case Nil
  then show ?case by (cases xs') auto
next
  case (Cons a xs)
  then show ?case by (cases xs') auto
qed

text \<open>The last dash of a key separates the label from the number.\<close>

lemma key_inj:
  assumes "l @ [45] @ decimal n = l' @ [45] @ decimal n'"
  shows "l = l' \<and> n = n'"
proof -
  have no: "45 \<notin> set (rev (decimal k))" for k using decimal_digits [of 45 k] by auto
  have "rev (decimal n) @ 45 # rev l = rev (decimal n') @ 45 # rev l'"
    using arg_cong [OF assms, of rev] by simp
  then have "rev (decimal n) = rev (decimal n') \<and> rev l = rev l'"
    using no by (intro split_first_eq)
  then show ?thesis using decimal_inj by simp
qed

lemma choose_keys_form:
  "(key, d) \<in> set (choose_keys debug_label ids ds) \<Longrightarrow>
   \<exists>l n. key = l @ [45] @ decimal n \<and> ids l \<le> n"
proof (induction debug_label ids ds rule: choose_keys.induct)
  case (2 debug_label ids d' ds)
  let ?l = "label_of (debug_label d')"
  show ?case
  proof (cases "(key, d) \<in> set (choose_keys debug_label (ids(?l := ids ?l + 1)) ds)")
    case True
    then obtain l n where "key = l @ [45] @ decimal n" "(ids(?l := ids ?l + 1)) l \<le> n"
      using "2.IH" [OF refl] by blast
    moreover from this have "ids l \<le> n" by (simp split: if_splits)
    ultimately show ?thesis by blast
  next
    case False
    then have "key = ?l @ [45] @ decimal (ids ?l)" using 2(2) by (simp add: Let_def)
    then show ?thesis by blast
  qed
qed simp

lemma distinct_choose_keys: "distinct (map fst (choose_keys debug_label ids ds))"
proof (induction debug_label ids ds rule: choose_keys.induct)
  case (2 debug_label ids d ds)
  let ?l = "label_of (debug_label d)"
  have "?l @ [45] @ decimal (ids ?l) \<notin> fst ` set (choose_keys debug_label (ids(?l := ids ?l + 1)) ds)"
  proof
    assume "?l @ [45] @ decimal (ids ?l) \<in> fst ` set (choose_keys debug_label (ids(?l := ids ?l + 1)) ds)"
    then obtain d' where
      "(?l @ [45] @ decimal (ids ?l), d') \<in> set (choose_keys debug_label (ids(?l := ids ?l + 1)) ds)"
      unfolding image_iff by force
    then obtain l n where eq: "?l @ [45] @ decimal (ids ?l) = l @ [45] @ decimal n"
      and n: "(ids(?l := ids ?l + 1)) l \<le> n"
      using choose_keys_form by blast
    from n key_inj [OF eq] show False by auto
  qed
  moreover have "distinct (map fst (choose_keys debug_label (ids(?l := ids ?l + 1)) ds))"
    using 2 [OF refl] by (simp only: fun_upd_def)
  ultimately show ?case unfolding choose_keys.simps Let_def by simp
qed simp

lemma map_snd_choose_keys: "map snd (choose_keys debug_label ids ds) = ds"
  by (induction ds arbitrary: ids) (simp_all add: Let_def)

lemma set_first_of_ptr: "dev_ptr ` set (first_of_ptr seen ds) = dev_ptr ` set ds - seen"
  by (induction seen ds rule: first_of_ptr.induct) auto

lemma distinct_first_of_ptr: "distinct (map dev_ptr (first_of_ptr seen ds))"
proof (induction seen ds rule: first_of_ptr.induct)
  case (2 seen d ds)
  then show ?case using set_first_of_ptr [of "insert (dev_ptr d) seen" ds] by auto
qed simp

lemma distinct_keys: "distinct (map fst (unique_devices_with_snapshot_key debug_label bus))"
  by (simp add: unique_devices_with_snapshot_key_def distinct_choose_keys)

lemma distinct_ptrs:
  "distinct (map (dev_ptr \<circ> snd) (unique_devices_with_snapshot_key debug_label bus))"
  unfolding map_map [symmetric] unique_devices_with_snapshot_key_def map_snd_choose_keys unique_devices_def
  by (rule distinct_first_of_ptr)

lemma all_ptrs:
  "(r, e) \<in> set (devices bus) \<Longrightarrow>
   \<exists>key d. (key, d) \<in> set (unique_devices_with_snapshot_key debug_label bus) \<and> dev_ptr d = dev_ptr (device e)"
proof -
  assume "(r, e) \<in> set (devices bus)"
  then have "dev_ptr (device e) \<in> dev_ptr ` set (unique_devices bus)"
    by (force simp: unique_devices_def set_first_of_ptr)
  also have "unique_devices bus = map snd (unique_devices_with_snapshot_key debug_label bus)"
    by (simp add: unique_devices_with_snapshot_key_def map_snd_choose_keys)
  finally show ?thesis by force
qed

section \<open>Snapshot and restore\<close>

lemma snapshot_loop_Ok:
  assumes "distinct (map fst ds)" and "distinct (map (dev_ptr \<circ> snd) ds)"
    and "\<forall>(key, d) \<in> set ds. openable key \<and> dir key = None"
    and snap: "\<And>d s. dev_snapshot d s = (Ok (img d s), after d s)"
  shows "\<exists>dir'. snapshot_loop openable to_writer dev_snapshot ds st dir =
      (Ok (), (\<lambda>p. case find (\<lambda>(_, d). dev_ptr d = p) ds of
                      None \<Rightarrow> st p | Some (_, d) \<Rightarrow> after d (st p)), dir')
    \<and> (\<forall>(key, d) \<in> set ds. dir' key = Some (to_writer (img d (st (dev_ptr d)))))
    \<and> (\<forall>key. key \<notin> fst ` set ds \<longrightarrow> dir' key = dir key)"
  using assms(1-3)
proof (induction ds arbitrary: st dir)
  case (Cons x ds)
  obtain key d where x: "x = (key, d)" by (cases x)
  let ?st = "st(dev_ptr d := after d (st (dev_ptr d)))" and
    ?dir = "dir(key \<mapsto> to_writer (img d (st (dev_ptr d))))"
  have other: "dev_ptr d' \<noteq> dev_ptr d" "key' \<noteq> key" if "(key', d') \<in> set ds" for key' d'
    using Cons.prems(1,2) that x by force+
  have free: "\<forall>(key', d') \<in> set ds. openable key' \<and> ?dir key' = None"
    using Cons.prems(3) other x by fastforce
  have dist: "distinct (map fst ds)" "distinct (map (dev_ptr \<circ> snd) ds)"
    using Cons.prems(1,2) by (simp_all add: comp_def)
  obtain dir' where
    eq: "snapshot_loop openable to_writer dev_snapshot ds ?st ?dir =
      (Ok (), (\<lambda>p. case find (\<lambda>(_, d). dev_ptr d = p) ds of
                      None \<Rightarrow> ?st p | Some (_, d) \<Rightarrow> after d (?st p)), dir')"
    and frag: "\<forall>(key, d) \<in> set ds. dir' key = Some (to_writer (img d (?st (dev_ptr d))))"
    and rest: "\<forall>key. key \<notin> fst ` set ds \<longrightarrow> dir' key = ?dir key"
    using Cons.IH [OF dist free, of ?st] by blast
  have "snapshot_loop openable to_writer dev_snapshot (x # ds) st dir =
      snapshot_loop openable to_writer dev_snapshot ds ?st ?dir"
    using Cons.prems(3) by (simp add: x snap write_fragment_def)
  moreover have "find (\<lambda>(_, d). dev_ptr d = dev_ptr d') ds = None" if "dev_ptr d' = dev_ptr d" for d'
    using other that by (fastforce simp: find_None_iff)
  then have "(\<lambda>p. case find (\<lambda>(_, d). dev_ptr d = p) ds of
                      None \<Rightarrow> ?st p | Some (_, d) \<Rightarrow> after d (?st p)) =
      (\<lambda>p. case find (\<lambda>(_, d). dev_ptr d = p) (x # ds) of
                      None \<Rightarrow> st p | Some (_, d) \<Rightarrow> after d (st p))"
    by (auto simp: x fun_eq_iff split: option.splits)
  moreover have "\<forall>(key, d) \<in> set (x # ds). dir' key = Some (to_writer (img d (st (dev_ptr d))))"
  proof -
    have "key \<notin> fst ` set ds" using other by force
    then show ?thesis using frag rest other x by fastforce
  qed
  moreover have "\<forall>key. key \<notin> fst ` set (x # ds) \<longrightarrow> dir' key = dir key"
    using rest x by auto
  ultimately show ?case using eq by auto
qed simp

lemma find_inj: "inj_on f (set xs) \<Longrightarrow> x \<in> set xs \<Longrightarrow> find (\<lambda>y. f y = f x) xs = Some x"
  by (induction xs) auto

lemma restore_loop_Ok:
  assumes "distinct (map (dev_ptr \<circ> snd) ds)"
    and "\<forall>(key, d) \<in> set ds. \<exists>bs v. dir key = Some bs \<and> from_reader bs = Some v
           \<and> (\<forall>s. dev_restore d v s = (Ok (), goal (dev_ptr d)))"
  shows "restore_loop from_reader dev_restore dir ds st =
    (Ok (), (\<lambda>p. if p \<in> (dev_ptr \<circ> snd) ` set ds then goal p else st p))"
  using assms
proof (induction ds arbitrary: st)
  case (Cons x ds)
  obtain key d where x: "x = (key, d)" by (cases x)
  obtain bs v where "dir key = Some bs" "from_reader bs = Some v"
    "\<And>s. dev_restore d v s = (Ok (), goal (dev_ptr d))"
    using Cons.prems(2) x by auto
  then have "restore_loop from_reader dev_restore dir (x # ds) st =
      restore_loop from_reader dev_restore dir ds (st(dev_ptr d := goal (dev_ptr d)))"
    by (simp add: x read_fragment_def)
  also have "\<dots> = (Ok (), (\<lambda>p. if p \<in> (dev_ptr \<circ> snd) ` set (x # ds) then goal p else st p))"
    using Cons by (auto simp: x fun_eq_iff)
  finally show ?case .
qed simp

text \<open>
  C25. Snapshots of a bus round-trip. Let every device give a snapshot, from which \<open>restore\<close>
  brings the device, whatever state it is in, into the state that it was left in by taking the
  snapshot; let \<open>serde_json\<close> read what it wrote, and let the directory be empty and accept the names. Then
  \<open>snapshot_devices\<close> succeeds, and \<open>restore_devices\<close> on the same bus succeeds from any state
  of the devices and gives every device on the bus its own state back, although devices may
  have the same label and one device may answer at several ranges.
\<close>

theorem bus_snapshot_restore:
  assumes "\<And>d s. dev_snapshot d s = (Ok (img d s), after d s)"
    and "\<And>d s t. dev_restore d (img d s) t = (Ok (), after d s)"
    and "\<And>v. from_reader (to_writer v) = Some v"
    and "\<And>key. key \<in> fst ` set (unique_devices_with_snapshot_key debug_label bus) \<Longrightarrow> openable key"
  shows "\<exists>st1 dir st3.
    snapshot_devices debug_label openable to_writer dev_snapshot bus st Map.empty = (Ok (), st1, dir)
    \<and> restore_devices debug_label from_reader dev_restore bus dir st2 = (Ok (), st3)
    \<and> (\<forall>(r, e) \<in> set (devices bus). st3 (dev_ptr (device e)) = st1 (dev_ptr (device e)))"
proof -
  let ?ds = "unique_devices_with_snapshot_key debug_label bus"
  have opens: "\<forall>(key, d) \<in> set ?ds. openable key \<and> Map.empty key = None"
    using assms(4) by force
  define st1 where "st1 = (\<lambda>p. case find (\<lambda>(_, d). dev_ptr d = p) ?ds of
                      None \<Rightarrow> st p | Some (_, d) \<Rightarrow> after d (st p))"
  obtain dir where snap: "snapshot_loop openable to_writer dev_snapshot ?ds st Map.empty = (Ok (), st1, dir)"
    and frag: "\<forall>(key, d) \<in> set ?ds. dir key = Some (to_writer (img d (st (dev_ptr d))))"
    using snapshot_loop_Ok [where dev_snapshot = dev_snapshot and img = img and after = after
        and st = st and to_writer = to_writer, OF distinct_keys distinct_ptrs opens assms(1)]
    unfolding st1_def by blast
  have st1: "st1 (dev_ptr d) = after d (st (dev_ptr d))" if "(key, d) \<in> set ?ds" for key d
  proof -
    have "inj_on (dev_ptr \<circ> snd) (set ?ds)" using distinct_ptrs by (simp add: distinct_map)
    from find_inj [OF this that]
    have "find (\<lambda>(_, d'). dev_ptr d' = dev_ptr d) ?ds = Some (key, d)"
      by (simp add: case_prod_beta')
    then show ?thesis by (simp add: st1_def)
  qed
  have "restore_loop from_reader dev_restore dir ?ds st2 =
    (Ok (), (\<lambda>p. if p \<in> (dev_ptr \<circ> snd) ` set ?ds then st1 p else st2 p))"
    using frag st1 assms(2,3) by (intro restore_loop_Ok distinct_ptrs) fastforce
  moreover have "dev_ptr (device e) \<in> (dev_ptr \<circ> snd) ` set ?ds" if "(r, e) \<in> set (devices bus)" for r e
    using all_ptrs [OF that] by force
  ultimately show ?thesis
    using snap by (fastforce simp: snapshot_devices_def restore_devices_def)
qed


theorem bus_snapshot_restore_witness:
  "\<exists>st1 dir st3.
    snapshot_devices (\<lambda>_. [115, 32, 97]) (\<lambda>_. True) (\<lambda>v. [v]) (\<lambda>d s. (Ok s :: unit + u8, s))
      \<lparr>devices = [(\<lparr>range_base = 0, range_len = 8\<rparr>, \<lparr>device = OuterSync 1\<rparr>),
                  (\<lparr>range_base = 8, range_len = 8\<rparr>, \<lparr>device = InnerSync 2\<rparr>),
                  (\<lparr>range_base = 16, range_len = 8\<rparr>, \<lparr>device = OuterSync 1\<rparr>)],
       access_id = 0, bus_type = Mmio\<rparr> (\<lambda>p. of_nat p) Map.empty = (Ok (), st1, dir)
    \<and> restore_devices (\<lambda>_. [115, 32, 97]) (\<lambda>bs. Some (hd bs)) (\<lambda>d v t. (Ok () :: unit + unit, v))
      \<lparr>devices = [(\<lparr>range_base = 0, range_len = 8\<rparr>, \<lparr>device = OuterSync 1\<rparr>),
                  (\<lparr>range_base = 8, range_len = 8\<rparr>, \<lparr>device = InnerSync 2\<rparr>),
                  (\<lparr>range_base = 16, range_len = 8\<rparr>, \<lparr>device = OuterSync 1\<rparr>)],
       access_id = 0, bus_type = Mmio\<rparr> dir (\<lambda>_. 0) = (Ok (), st3)
    \<and> st3 1 = st1 1 \<and> st3 2 = st1 2"
proof -
  let ?bus = "\<lparr>devices = [(\<lparr>range_base = 0, range_len = 8\<rparr>, \<lparr>device = OuterSync 1\<rparr>),
                  (\<lparr>range_base = 8, range_len = 8\<rparr>, \<lparr>device = InnerSync 2\<rparr>),
                  (\<lparr>range_base = 16, range_len = 8\<rparr>, \<lparr>device = OuterSync 1\<rparr>)],
       access_id = 0, bus_type = Mmio\<rparr>"
  show ?thesis
    using bus_snapshot_restore [where dev_snapshot = "\<lambda>d s. (Ok s :: unit + u8, s)" and img = "\<lambda>d s. s"
        and after = "\<lambda>d s. s" and dev_restore = "\<lambda>d v t. (Ok () :: unit + unit, v)"
        and to_writer = "\<lambda>v. [v]" and from_reader = "\<lambda>bs. Some (hd bs)"
        and openable = "\<lambda>_. True" and bus = ?bus and debug_label = "\<lambda>_. [115, 32, 97]"
        and st = "\<lambda>p. of_nat p" and ?st2.0 = "\<lambda>_. 0"]
    by auto
qed

end
