(* ===== verification/Pic.thy ===== *)
theory Pic
  imports Prelude "HOL-Library.Monad_Syntax"
begin

text \<open>
  The interrupt controller 8259A of the machine monitor (\<open>devices/src/irqchip/pic.rs\<close>, with the
  registers \<open>PicState\<close> of \<open>hypervisor/src/x86_64.rs\<close>): the primary and the secondary controller,
  raising lines, choosing the interrupt of the highest priority, acknowledging it, and the
  command words that the guest writes.

  Registers are 8-bit words. \<open>None\<close> is a panic: an assertion that fails, or a sum that overflows.
  An event is a number; \<open>signalled\<close> is the list of the events signalled so far, the last one
  first. Signalling is taken to succeed. Log messages are left out.
\<close>

section \<open>State\<close>

datatype PicInitState = Icw1 | Icw2 | Icw3 | Icw4

datatype PicSelect = Primary | Secondary

record PicState =
  last_irr :: u8
  irr :: u8
  imr :: u8
  isr :: u8
  priority_add :: u8
  irq_base :: u8
  read_reg_select :: bool
  poll :: bool
  special_mask :: bool
  init_state :: PicInitState
  auto_eoi :: bool
  rotate_on_auto_eoi :: bool
  special_fully_nested_mode :: bool
  use_4_byte_icw :: bool
  elcr :: u8
  elcr_mask :: u8

record Pic =
  interrupt_request :: bool
  resample_events :: "nat list list"
  pics :: "PicSelect \<Rightarrow> PicState"
  signalled :: "nat list"

definition INVALID_PRIORITY :: u8 where "INVALID_PRIORITY = 8"
definition SPURIOUS_IRQ :: u8 where "SPURIOUS_IRQ = 7"
definition PRIMARY_PIC_CASCADE_PIN :: u8 where "PRIMARY_PIC_CASCADE_PIN = 2"
definition PRIMARY_PIC_CASCADE_PIN_MASK :: u8 where "PRIMARY_PIC_CASCADE_PIN_MASK = 4"
definition PRIMARY_PIC_MAX_IRQ :: u8 where "PRIMARY_PIC_MAX_IRQ = 7"

text \<open>\<open>1 << irq\<close>\<close>

definition irq_bit :: "u8 \<Rightarrow> u8" where
  "irq_bit irq = push_bit (unat irq) 1"

definition upd_pic :: "PicSelect \<Rightarrow> (PicState \<Rightarrow> PicState) \<Rightarrow> Pic \<Rightarrow> Pic" where
  "upd_pic t f p = p\<lparr>pics := (pics p)(t := f (pics p t))\<rparr>"

definition PicState_default :: PicState where
  "PicState_default =
     \<lparr>last_irr = 0, irr = 0, imr = 0, isr = 0, priority_add = 0, irq_base = 0,
      read_reg_select = False, poll = False, special_mask = False, init_state = Icw1,
      auto_eoi = False, rotate_on_auto_eoi = False, special_fully_nested_mode = False,
      use_4_byte_icw = False, elcr = 0, elcr_mask = 0\<rparr>"

definition Pic_new :: Pic where
  "Pic_new =
     \<lparr>interrupt_request = False, resample_events = [],
      pics = (\<lambda>t. case t of
        Primary \<Rightarrow> PicState_default\<lparr>elcr_mask := NOT (push_bit 0 1 OR push_bit 1 1 OR push_bit 2 1)\<rparr>
      | Secondary \<Rightarrow> PicState_default\<lparr>elcr_mask := NOT (push_bit 0 1 OR push_bit 5 1)\<rparr>),
      signalled = []\<rparr>"

definition get_pic_state :: "Pic \<Rightarrow> PicSelect \<Rightarrow> PicState" where
  "get_pic_state p t = pics p t"

definition set_pic_state :: "Pic \<Rightarrow> PicSelect \<Rightarrow> PicState \<Rightarrow> Pic" where
  "set_pic_state p t s = p\<lparr>pics := (pics p)(t := s)\<rparr>"

definition register_resample_events :: "Pic \<Rightarrow> nat list list \<Rightarrow> Pic" where
  "register_resample_events p evs = p\<lparr>resample_events := evs\<rparr>"

section \<open>Lines and priorities\<close>

definition set_irq_internal :: "PicState \<Rightarrow> u8 \<Rightarrow> bool \<Rightarrow> PicState option" where
  "set_irq_internal pic irq level =
     (if irq \<le> 7 then
        let irq_bitmap = irq_bit irq in
        Some (if elcr pic AND irq_bitmap \<noteq> 0 then
                if level then
                  pic\<lparr>irr := irr pic OR irq_bitmap, last_irr := last_irr pic OR irq_bitmap\<rparr>
                else
                  pic\<lparr>irr := irr pic AND NOT irq_bitmap, last_irr := last_irr pic AND NOT irq_bitmap\<rparr>
              else
                if level then
                  (if last_irr pic AND irq_bitmap = 0 then pic\<lparr>irr := irr pic OR irq_bitmap\<rparr> else pic)
                    \<lparr>last_irr := last_irr pic OR irq_bitmap\<rparr>
                else pic\<lparr>last_irr := last_irr pic AND NOT irq_bitmap\<rparr>)
      else None)"

text \<open>
  The loop over the priorities; it ends at the latest when the 8-bit counter overflows.
\<close>

function priority_loop :: "u8 \<Rightarrow> u8 \<Rightarrow> u8 \<Rightarrow> u8 option" where
  "priority_loop bitmap add priority =
     (case checked_add priority add of
        None \<Rightarrow> None
      | Some s \<Rightarrow>
          if bitmap AND irq_bit (s AND 7) = 0 then
            (case checked_add priority 1 of
               None \<Rightarrow> None
             | Some next \<Rightarrow> priority_loop bitmap add next)
          else Some priority)"
  by pat_completeness auto

termination
proof (relation "measure (\<lambda>(_, _, p). 256 - unat p)")
  fix bitmap add priority s x :: u8
  assume "checked_add priority 1 = Some x"
  then have "unat x = unat priority + 1" "unat x < 2 ^ 8"
    using checked_add_unat [of priority 1 x] unat_lt [of x] by simp_all
  then show "((bitmap, add, x), bitmap, add, priority) \<in> measure (\<lambda>(_, _, p). 256 - unat p)"
    by simp
qed simp

declare priority_loop.simps [simp del]

definition get_priority :: "PicState \<Rightarrow> u8 \<Rightarrow> u8 option option" where
  "get_priority pic irq_bitmap =
     (if irq_bitmap = 0 then Some None
      else do { p \<leftarrow> priority_loop irq_bitmap (priority_add pic) 0; Some (Some p) })"

definition get_irq :: "Pic \<Rightarrow> PicSelect \<Rightarrow> u8 option option" where
  "get_irq p pic_type = (let pic = pics p pic_type in do {
     requested \<leftarrow> get_priority pic (irr pic AND NOT (imr pic));
     case requested of
       None \<Rightarrow> Some None
     | Some priority \<Rightarrow> do {
         let irq_bitmap =
           (if pic_type = Primary \<and> special_fully_nested_mode pic
            then isr pic AND NOT PRIMARY_PIC_CASCADE_PIN_MASK else isr pic);
         serviced \<leftarrow> get_priority pic irq_bitmap;
         let new_priority = (case serviced of Some n \<Rightarrow> n | None \<Rightarrow> INVALID_PRIORITY);
         if priority < new_priority then do {
           s \<leftarrow> checked_add priority (priority_add pic);
           Some (Some (s AND 7))
         } else Some None
       }
   })"

definition clear_isr :: "Pic \<Rightarrow> PicSelect \<Rightarrow> u8 \<Rightarrow> Pic option" where
  "clear_isr p pic_type irq =
     (if irq \<le> 7 then do {
        let pic = (pics p pic_type)\<lparr>isr := isr (pics p pic_type) AND NOT (irq_bit irq)\<rparr>;
        pic \<leftarrow> set_irq_internal pic irq False;
        let p = p\<lparr>pics := (pics p)(pic_type := pic)\<rparr>;
        let line = (if pic_type = Primary then irq else irq + 8);
        Some (if unat line < length (resample_events p)
              then p\<lparr>signalled := rev (resample_events p ! unat line) @ signalled p\<rparr> else p)
      } else None)"

definition update_irq :: "Pic \<Rightarrow> (bool \<times> Pic) option" where
  "update_irq p = do {
     secondary \<leftarrow> get_irq p Secondary;
     p \<leftarrow> (case secondary of
            Some _ \<Rightarrow> do {
              pic \<leftarrow> set_irq_internal (pics p Primary) PRIMARY_PIC_CASCADE_PIN True;
              pic \<leftarrow> set_irq_internal pic PRIMARY_PIC_CASCADE_PIN False;
              Some (p\<lparr>pics := (pics p)(Primary := pic)\<rparr>)
            }
          | None \<Rightarrow> Some p);
     primary \<leftarrow> get_irq p Primary;
     Some (case primary of
             Some _ \<Rightarrow> (True, p\<lparr>interrupt_request := True\<rparr>)
           | None \<Rightarrow> (False, p))
   }"

definition service_irq :: "Pic \<Rightarrow> u8 \<Rightarrow> bool \<Rightarrow> (bool \<times> Pic) option" where
  "service_irq p irq level =
     (if irq \<le> 15 then do {
        let pic_type = (if irq \<le> PRIMARY_PIC_MAX_IRQ then Primary else Secondary);
        pic \<leftarrow> set_irq_internal (pics p pic_type) (irq AND 7) level;
        update_irq (p\<lparr>pics := (pics p)(pic_type := pic)\<rparr>)
      } else None)"

definition masked :: "Pic \<Rightarrow> bool" where
  "masked p \<longleftrightarrow> imr (pics p Primary) = 0xFF"

definition has_interrupt :: "Pic \<Rightarrow> bool option" where
  "has_interrupt p = do { i \<leftarrow> get_irq p Primary; Some (i \<noteq> None) }"

definition interrupt_ack :: "Pic \<Rightarrow> PicSelect \<Rightarrow> u8 \<Rightarrow> Pic option" where
  "interrupt_ack p pic_type irq =
     (if irq \<le> 7 then
        let irq_bitmap = irq_bit irq;
            p = upd_pic pic_type (\<lambda>pic. pic\<lparr>isr := isr pic OR irq_bitmap\<rparr>) p;
            p = (if elcr (pics p pic_type) AND irq_bitmap = 0
                 then upd_pic pic_type (\<lambda>pic. pic\<lparr>irr := irr pic AND NOT irq_bitmap\<rparr>) p else p)
        in if auto_eoi (pics p pic_type) then
             let p = (if rotate_on_auto_eoi (pics p pic_type)
                      then upd_pic pic_type (\<lambda>pic. pic\<lparr>priority_add := (irq + 1) AND 7\<rparr>) p else p)
             in clear_isr p pic_type irq
           else Some p
      else None)"

definition get_external_interrupt :: "Pic \<Rightarrow> (u8 option \<times> Pic) option" where
  "get_external_interrupt p = do {
     let p = p\<lparr>interrupt_request := False\<rparr>;
     primary \<leftarrow> get_irq p Primary;
     case primary of
       None \<Rightarrow> Some (None, p)
     | Some irq_primary \<Rightarrow> do {
         p \<leftarrow> interrupt_ack p Primary irq_primary;
         (int_num, p) \<leftarrow>
           (if irq_primary = PRIMARY_PIC_CASCADE_PIN then do {
              secondary \<leftarrow> get_irq p Secondary;
              (irq_secondary, p) \<leftarrow>
                (case secondary of
                   Some irq \<Rightarrow> do { p \<leftarrow> interrupt_ack p Secondary irq; Some (irq, p) }
                 | None \<Rightarrow> Some (SPURIOUS_IRQ, p));
              n \<leftarrow> checked_add (irq_base (pics p Secondary)) irq_secondary;
              Some (n, p)
            } else do {
              n \<leftarrow> checked_add (irq_base (pics p Primary)) irq_primary;
              Some (n, p)
            });
         (_, p) \<leftarrow> update_irq p;
         Some (Some int_num, p)
       }
   }"

section \<open>Ports\<close>

definition poll_read :: "Pic \<Rightarrow> PicSelect \<Rightarrow> ((u8 \<times> bool) \<times> Pic) option" where
  "poll_read p pic_type = do {
     i \<leftarrow> get_irq p pic_type;
     case i of
       Some irq \<Rightarrow> do {
         let p = (if pic_type = Secondary then
                    upd_pic Primary (\<lambda>pic.
                      pic\<lparr>isr := isr pic AND NOT PRIMARY_PIC_CASCADE_PIN_MASK,
                          irr := irr pic AND NOT PRIMARY_PIC_CASCADE_PIN_MASK\<rparr>) p
                  else p);
         let p = upd_pic pic_type (\<lambda>pic. pic\<lparr>irr := irr pic AND NOT (irq_bit irq)\<rparr>) p;
         p \<leftarrow> clear_isr p pic_type irq;
         Some ((irq, pic_type = Secondary \<and> irq \<noteq> PRIMARY_PIC_CASCADE_PIN), p)
       }
     | None \<Rightarrow> Some ((SPURIOUS_IRQ, True), p)
   }"

text \<open>What \<open>pic_read_command\<close> and \<open>pic_read_data\<close> do in poll mode.\<close>

definition read_polled :: "Pic \<Rightarrow> PicSelect \<Rightarrow> (u8 \<times> Pic) option" where
  "read_polled p pic_type = do {
     ((ret, update_needed), p) \<leftarrow> poll_read p pic_type;
     let p = upd_pic pic_type (\<lambda>pic. pic\<lparr>poll := False\<rparr>) p;
     p \<leftarrow> (if update_needed then do { (_, p) \<leftarrow> update_irq p; Some p } else Some p);
     Some (ret, p)
   }"

definition pic_read_command :: "Pic \<Rightarrow> PicSelect \<Rightarrow> (u8 \<times> Pic) option" where
  "pic_read_command p pic_type =
     (if poll (pics p pic_type) then read_polled p pic_type
      else if read_reg_select (pics p pic_type) then Some (isr (pics p pic_type), p)
      else Some (irr (pics p pic_type), p))"

definition pic_read_data :: "Pic \<Rightarrow> PicSelect \<Rightarrow> (u8 \<times> Pic) option" where
  "pic_read_data p pic_type =
     (if poll (pics p pic_type) then read_polled p pic_type
      else Some (imr (pics p pic_type), p))"

definition pic_read_elcr :: "Pic \<Rightarrow> PicSelect \<Rightarrow> (u8 \<times> Pic) option" where
  "pic_read_elcr p pic_type = Some (elcr (pics p pic_type), p)"

fun clear_each :: "Pic \<Rightarrow> PicSelect \<Rightarrow> u8 \<Rightarrow> u8 list \<Rightarrow> Pic option" where
  "clear_each p pic_type edge_irr [] = Some p"
| "clear_each p pic_type edge_irr (irq # irqs) = do {
     p \<leftarrow> (if edge_irr AND irq_bit irq \<noteq> 0 then clear_isr p pic_type irq else Some p);
     clear_each p pic_type edge_irr irqs
   }"

definition reset_pic :: "Pic \<Rightarrow> PicSelect \<Rightarrow> Pic option" where
  "reset_pic p pic_type =
     (let edge_irr = irr (pics p pic_type) AND NOT (elcr (pics p pic_type));
          p = upd_pic pic_type (\<lambda>pic.
                let pic = pic\<lparr>last_irr := 0, irr := irr pic AND elcr pic, imr := 0,
                              priority_add := 0, special_mask := False, read_reg_select := False\<rparr>;
                    pic = (if \<not> use_4_byte_icw pic
                           then pic\<lparr>special_fully_nested_mode := False, auto_eoi := False\<rparr> else pic)
                in pic\<lparr>init_state := Icw2\<rparr>) p
      in clear_each p pic_type edge_irr [0, 1, 2, 3, 4, 5, 6, 7])"

definition init_command_word_1 :: "Pic \<Rightarrow> PicSelect \<Rightarrow> u8 \<Rightarrow> Pic option" where
  "init_command_word_1 p pic_type val =
     reset_pic (upd_pic pic_type (\<lambda>pic. pic\<lparr>use_4_byte_icw := (val AND 0x01 \<noteq> 0)\<rparr>) p) pic_type"

datatype Ocw2 =
    RotateAutoEoiClear | NonSpecificEoi | NoOp | SpecificEoi
  | RotateAutoEoiSet | RotateNonSpecificEoi | SetPriority | RotateSpecificEoi

definition Ocw2_n :: "u8 \<Rightarrow> Ocw2 option" where
  "Ocw2_n v =
     (if v = 0x00 then Some RotateAutoEoiClear else if v = 0x20 then Some NonSpecificEoi
      else if v = 0x40 then Some NoOp else if v = 0x60 then Some SpecificEoi
      else if v = 0x80 then Some RotateAutoEoiSet else if v = 0xa0 then Some RotateNonSpecificEoi
      else if v = 0xc0 then Some SetPriority else if v = 0xe0 then Some RotateSpecificEoi
      else None)"

definition clear_and_update :: "Pic \<Rightarrow> PicSelect \<Rightarrow> u8 \<Rightarrow> Pic option" where
  "clear_and_update p pic_type irq = do {
     p \<leftarrow> clear_isr p pic_type irq;
     (_, p) \<leftarrow> update_irq p;
     Some p
   }"

definition operation_command_word_2 :: "Pic \<Rightarrow> PicSelect \<Rightarrow> u8 \<Rightarrow> Pic option" where
  "operation_command_word_2 p pic_type val =
     (let irq = val AND 0x07;
          rotate = (\<lambda>irq. upd_pic pic_type (\<lambda>pic. pic\<lparr>priority_add := (irq + 1) AND 7\<rparr>)) in
      case Ocw2_n (val AND 0xe0) of
        None \<Rightarrow> Some p
      | Some cmd \<Rightarrow>
          (case cmd of
             RotateAutoEoiSet \<Rightarrow> Some (upd_pic pic_type (\<lambda>pic. pic\<lparr>rotate_on_auto_eoi := True\<rparr>) p)
           | RotateAutoEoiClear \<Rightarrow> Some (upd_pic pic_type (\<lambda>pic. pic\<lparr>rotate_on_auto_eoi := False\<rparr>) p)
           | SpecificEoi \<Rightarrow> clear_and_update p pic_type irq
           | SetPriority \<Rightarrow> do { (_, p) \<leftarrow> update_irq (rotate irq p); Some p }
           | RotateSpecificEoi \<Rightarrow> clear_and_update (rotate irq p) pic_type irq
           | NoOp \<Rightarrow> Some p
           | _ \<Rightarrow> do {
               i \<leftarrow> get_priority (pics p pic_type) (isr (pics p pic_type));
               case i of
                 None \<Rightarrow> Some p
               | Some priority \<Rightarrow> do {
                   s \<leftarrow> checked_add priority (priority_add (pics p pic_type));
                   let irq = s AND 7;
                   clear_and_update (if cmd = RotateNonSpecificEoi then rotate irq p else p) pic_type irq
                 }
             }))"

definition operation_command_word_3 :: "PicState \<Rightarrow> u8 \<Rightarrow> PicState" where
  "operation_command_word_3 pic val =
     (let pic = (if val AND 0x04 \<noteq> 0 then pic\<lparr>poll := True\<rparr> else pic);
          pic = (if val AND 0x02 \<noteq> 0 then pic\<lparr>read_reg_select := (val AND 0x01 \<noteq> 0)\<rparr> else pic)
      in (if val AND 0x40 \<noteq> 0 then pic\<lparr>special_mask := (val AND 0x20 \<noteq> 0)\<rparr> else pic))"

definition pic_write_command :: "Pic \<Rightarrow> PicSelect \<Rightarrow> u8 \<Rightarrow> Pic option" where
  "pic_write_command p pic_type val =
     (if val AND 0x10 \<noteq> 0 then init_command_word_1 p pic_type val
      else if val AND 0x08 \<noteq> 0
        then Some (upd_pic pic_type (\<lambda>pic. operation_command_word_3 pic val) p)
      else operation_command_word_2 p pic_type val)"

definition pic_write_data :: "Pic \<Rightarrow> PicSelect \<Rightarrow> u8 \<Rightarrow> Pic option" where
  "pic_write_data p pic_type val =
     (case init_state (pics p pic_type) of
        Icw1 \<Rightarrow> do {
          (_, p) \<leftarrow> update_irq (upd_pic pic_type (\<lambda>pic. pic\<lparr>imr := val\<rparr>) p);
          Some p
        }
      | Icw2 \<Rightarrow> Some (upd_pic pic_type (\<lambda>pic. pic\<lparr>irq_base := val AND 0xf8, init_state := Icw3\<rparr>) p)
      | Icw3 \<Rightarrow> Some (upd_pic pic_type (\<lambda>pic.
                  pic\<lparr>init_state := (if use_4_byte_icw pic then Icw4 else Icw1)\<rparr>) p)
      | Icw4 \<Rightarrow> Some (upd_pic pic_type (\<lambda>pic.
                  pic\<lparr>special_fully_nested_mode := (val AND 0x10 \<noteq> 0),
                      auto_eoi := (val AND 0x02 \<noteq> 0), init_state := Icw1\<rparr>) p))"

definition pic_write_elcr :: "Pic \<Rightarrow> PicSelect \<Rightarrow> u8 \<Rightarrow> Pic option" where
  "pic_write_elcr p pic_type val =
     Some (upd_pic pic_type (\<lambda>pic. pic\<lparr>elcr := val AND NOT (elcr pic)\<rparr>) p)"

text \<open>Accesses from the bus, by the address; anything but one byte is ignored.\<close>

definition Pic_write :: "Pic \<Rightarrow> u64 \<Rightarrow> bytes \<Rightarrow> Pic option" where
  "Pic_write p addr bs =
     (case bs of
        [b] \<Rightarrow>
          if addr = 0x20 then pic_write_command p Primary b
          else if addr = 0x21 then pic_write_data p Primary b
          else if addr = 0x4d0 then pic_write_elcr p Primary b
          else if addr = 0xa0 then pic_write_command p Secondary b
          else if addr = 0xa1 then pic_write_data p Secondary b
          else if addr = 0x4d1 then pic_write_elcr p Secondary b
          else Some p
      | _ \<Rightarrow> Some p)"

definition Pic_read :: "Pic \<Rightarrow> u64 \<Rightarrow> bytes \<Rightarrow> (bytes \<times> Pic) option" where
  "Pic_read p addr bs =
     (let one = (\<lambda>r. map_option (\<lambda>(b, p). ([b], p)) r) in
      case bs of
        [b] \<Rightarrow>
          if addr = 0x20 then one (pic_read_command p Primary)
          else if addr = 0x21 then one (pic_read_data p Primary)
          else if addr = 0x4d0 then one (pic_read_elcr p Primary)
          else if addr = 0xa0 then one (pic_read_command p Secondary)
          else if addr = 0xa1 then one (pic_read_data p Secondary)
          else if addr = 0x4d1 then one (pic_read_elcr p Secondary)
          else Some (bs, p)
      | _ \<Rightarrow> Some (bs, p))"


section \<open>Priorities\<close>

lemma u8_eq_iff: "(v :: u8) = w \<longleftrightarrow> (\<forall>n < 8. bit v n \<longleftrightarrow> bit w n)"
  by (auto intro: bit_word_eqI)

lemma unat_and_7: "unat (s AND 7 :: u8) = unat s mod 8"
proof -
  have "s AND 7 = take_bit 3 s" by (simp add: take_bit_eq_mask mask_eq_exp_minus_1)
  then show ?thesis by (simp only: unsigned_take_bit_eq) (simp add: take_bit_eq_mod)
qed

lemma and_7_le: "(s AND 7 :: u8) \<le> 7"
  by (simp add: word_le_nat_alt unat_and_7)

lemma and_irq_bit: "unat k < 8 \<Longrightarrow> w AND irq_bit k = 0 \<longleftrightarrow> \<not> bit w (unat k)"
  by (auto simp: irq_bit_def u8_eq_iff bit_and_iff bit_exp_iff)

text \<open>The priority of a line: 0 is the highest; it rotates with \<open>priority_add\<close>.\<close>

definition line_priority :: "PicState \<Rightarrow> nat \<Rightarrow> nat" where
  "line_priority pic k = (k + 8 - unat (priority_add pic)) mod 8"

lemma line_of_priority:
  assumes "a \<le> 7" "k < 8"
  shows "((k + 8 - a) mod 8 + a) mod 8 = (k :: nat)"
proof -
  have "((k + 8 - a) mod 8 + a) mod 8 = (k + 8 - a + a) mod 8" by (rule mod_add_left_eq)
  then show ?thesis using assms by simp
qed

lemma priority_of_line:
  assumes "a \<le> 7" "j < 8"
  shows "((j + a) mod 8 + 8 - a) mod 8 = (j :: nat)"
proof -
  have "((j + a) mod 8 + (8 - a)) mod 8 = (j + a + (8 - a)) mod 8" by (rule mod_add_left_eq)
  then show ?thesis using assms by simp
qed

lemma priority_loop_finds:
  assumes "unat add \<le> 7" "unat p \<le> q" "q < 8" "bit bitmap ((q + unat add) mod 8)"
    and "\<And>j. unat p \<le> j \<Longrightarrow> j < q \<Longrightarrow> \<not> bit bitmap ((j + unat add) mod 8)"
  shows "priority_loop bitmap add p = Some (of_nat q)"
  using assms
proof (induction "q - unat p" arbitrary: p)
  case 0
  then have q: "unat p = q" by simp
  then have p: "of_nat q = p" by auto
  from q have "checked_add p add = Some (p + add)" "unat (p + add) = q + unat add"
    using 0 by (simp_all add: checked_add_def unat_word_ariths)
  then show ?case
    using 0 by (subst priority_loop.simps) (simp add: p and_irq_bit unat_and_7)
next
  case (Suc n)
  then have lt: "unat p < q" by simp
  then have "checked_add p add = Some (p + add)" "unat (p + add) = unat p + unat add"
    "checked_add p 1 = Some (p + 1)" "unat (p + 1) = unat p + 1"
    using Suc.prems by (simp_all add: checked_add_def unat_word_ariths)
  moreover have "priority_loop bitmap add (p + 1) = Some (of_nat q)"
    using Suc.hyps(2) Suc.prems lt \<open>unat (p + 1) = unat p + 1\<close> by (intro Suc.hyps(1)) auto
  moreover have "\<not> bit bitmap ((unat p + unat add) mod 8)" using Suc.prems(5) lt by simp
  ultimately show ?case
    by (subst priority_loop.simps) (simp add: and_irq_bit unat_and_7)
qed

text \<open>
  \<open>get_priority\<close> finds the smallest priority among the lines of a bitmap.
\<close>

lemma get_priority_least:
  assumes "unat (priority_add pic) \<le> 7" "bitmap \<noteq> 0"
  obtains q where "get_priority pic bitmap = Some (Some (of_nat q))" "q < 8"
    "bit bitmap ((q + unat (priority_add pic)) mod 8)"
    "\<And>k. k < 8 \<Longrightarrow> bit bitmap k \<Longrightarrow> q \<le> line_priority pic k"
proof -
  let ?a = "unat (priority_add pic)"
  let ?P = "\<lambda>j. j < 8 \<and> bit bitmap ((j + ?a) mod 8)"
  obtain k where k: "k < 8" "bit bitmap k"
    using assms(2) by (auto simp: u8_eq_iff)
  have at: "?P (line_priority pic k)" if "k < 8" "bit bitmap k" for k
    using line_of_priority [OF assms(1) that(1)] that by (simp add: line_priority_def)
  define q where "q = (LEAST j. ?P j)"
  have q: "?P q" unfolding q_def by (rule LeastI) (rule at [OF k])
  have least: "q \<le> j" if "?P j" for j unfolding q_def using that by (rule Least_le)
  have "\<not> bit bitmap ((j + ?a) mod 8)" if "j < q" for j
    using least [of j] that q by auto
  then have "priority_loop bitmap (priority_add pic) 0 = Some (of_nat q)"
    using q assms(1) by (intro priority_loop_finds) auto
  then show ?thesis
    using that [of q] q least [OF at] assms(2) by (simp add: get_priority_def)
qed

lemma get_priority_0: "get_priority pic 0 = Some None"
  by (simp add: get_priority_def)

text \<open>The lines that ask for service, and the lines in service that count.\<close>

definition requested :: "PicState \<Rightarrow> nat \<Rightarrow> bool" where
  "requested pic k \<longleftrightarrow> k < 8 \<and> bit (irr pic) k \<and> \<not> bit (imr pic) k"

definition in_service :: "Pic \<Rightarrow> PicSelect \<Rightarrow> nat \<Rightarrow> bool" where
  "in_service p t k \<longleftrightarrow>
     k < 8 \<and> bit (isr (pics p t)) k
     \<and> \<not> (t = Primary \<and> special_fully_nested_mode (pics p t) \<and> k = 2)"

definition pic_ok :: "Pic \<Rightarrow> bool" where
  "pic_ok p \<longleftrightarrow>
     (\<forall>t. unat (priority_add (pics p t)) \<le> 7 \<and> unat (irq_base (pics p t)) \<le> 248)"

text \<open>The lines that a bitmap of the code stands for.\<close>

lemma bit_requested:
  "k < 8 \<Longrightarrow> bit (irr pic AND NOT (imr pic)) k \<longleftrightarrow> requested pic k"
  by (simp add: requested_def bit_and_iff bit_not_iff)

lemma bit_cascade: "k < 8 \<Longrightarrow> bit (PRIMARY_PIC_CASCADE_PIN_MASK) k \<longleftrightarrow> k = 2"
  using bit_exp_iff [where 'a = u8, of 2 k]
  by (simp add: PRIMARY_PIC_CASCADE_PIN_MASK_def)

lemma bit_in_service:
  "k < 8 \<Longrightarrow>
   bit (if t = Primary \<and> special_fully_nested_mode (pics p t)
        then isr (pics p t) AND NOT PRIMARY_PIC_CASCADE_PIN_MASK else isr (pics p t)) k
   \<longleftrightarrow> in_service p t k"
  by (auto simp: in_service_def bit_and_iff bit_not_iff bit_cascade)

lemma bitmap_0: "(w :: u8) = 0 \<longleftrightarrow> (\<forall>k < 8. \<not> bit w k)"
  by (auto simp: u8_eq_iff)

text \<open>A line that \<open>get_irq\<close> must choose.\<close>

definition best_line :: "Pic \<Rightarrow> PicSelect \<Rightarrow> nat \<Rightarrow> bool" where
  "best_line p t k \<longleftrightarrow>
     requested (pics p t) k
     \<and> (\<forall>j. requested (pics p t) j \<longrightarrow> line_priority (pics p t) k \<le> line_priority (pics p t) j)
     \<and> (\<forall>j. in_service p t j \<longrightarrow> line_priority (pics p t) k < line_priority (pics p t) j)"


lemma line_priority_inj:
  assumes "unat (priority_add pic) \<le> 7" "j < 8" "k < 8" "line_priority pic j = line_priority pic k"
  shows "j = k"
  using assms(4) line_of_priority [OF assms(1,2)] line_of_priority [OF assms(1,3)]
  unfolding line_priority_def by argo

lemma best_line_unique:
  assumes "unat (priority_add (pics p t)) \<le> 7" "best_line p t j" "best_line p t k"
  shows "j = k"
proof (rule line_priority_inj [OF assms(1)])
  show "j < 8" "k < 8" using assms(2,3) by (simp_all add: best_line_def requested_def)
  show "line_priority (pics p t) j = line_priority (pics p t) k"
    using assms(2,3) unfolding best_line_def by (meson order.antisym)
qed

lemma service_priority:
  assumes "pic_ok p" "q < 8"
  shows "\<exists>n. get_priority (pics p t) (if t = Primary \<and> special_fully_nested_mode (pics p t)
        then isr (pics p t) AND NOT PRIMARY_PIC_CASCADE_PIN_MASK else isr (pics p t)) = Some n
    \<and> ((of_nat q :: u8) < (case n of Some m \<Rightarrow> m | None \<Rightarrow> INVALID_PRIORITY)
        \<longleftrightarrow> (\<forall>j. in_service p t j \<longrightarrow> q < line_priority (pics p t) j))"
    (is "\<exists>n. get_priority _ ?srv = _ \<and> _")
proof (cases "?srv = 0")
  case True
  then have "\<not> in_service p t j" for j
    using bit_in_service [of j t p] bitmap_0 [of ?srv] by (auto simp: in_service_def)
  then show ?thesis
    using True assms(2) by (simp add: get_priority_0 INVALID_PRIORITY_def word_less_nat_alt unat_of_nat)
next
  case False
  let ?a = "unat (priority_add (pics p t))"
  have a: "?a \<le> 7" using assms(1) by (simp add: pic_ok_def)
  obtain m where m: "get_priority (pics p t) ?srv = Some (Some (of_nat m))" "m < 8"
    "bit ?srv ((m + ?a) mod 8)" "\<And>k. k < 8 \<Longrightarrow> bit ?srv k \<Longrightarrow> m \<le> line_priority (pics p t) k"
    using get_priority_least [OF a False] by blast
  have "in_service p t ((m + ?a) mod 8)" "line_priority (pics p t) ((m + ?a) mod 8) = m"
    using m(3) bit_in_service [of "(m + ?a) mod 8" t p] priority_of_line [OF a m(2)]
    by (simp_all add: line_priority_def)
  moreover have "m \<le> line_priority (pics p t) j" if "in_service p t j" for j
  proof -
    have "j < 8" using that by (simp add: in_service_def)
    then show ?thesis using that m(4) bit_in_service [of j t p] by blast
  qed
  ultimately have "q < m \<longleftrightarrow> (\<forall>j. in_service p t j \<longrightarrow> q < line_priority (pics p t) j)"
    by fastforce
  then show ?thesis using m(1,2) assms(2) by (simp add: word_less_nat_alt unat_of_nat)
qed

lemma get_irq_cases:
  assumes "pic_ok p"
  shows "(\<exists>i. get_irq p t = Some (Some i) \<and> unat i < 8 \<and> best_line p t (unat i))
    \<or> get_irq p t = Some None \<and> (\<forall>k. \<not> best_line p t k)"
proof -
  let ?pic = "pics p t"
  let ?req = "irr ?pic AND NOT (imr ?pic)"
  define srv where "srv = (if t = Primary \<and> special_fully_nested_mode ?pic
        then isr ?pic AND NOT PRIMARY_PIC_CASCADE_PIN_MASK else isr ?pic)"
  let ?a = "unat (priority_add ?pic)"
  have a: "?a \<le> 7" using assms by (simp add: pic_ok_def)
  have irq: "get_irq p t = do {
      requested \<leftarrow> get_priority ?pic ?req;
      case requested of None \<Rightarrow> Some None
      | Some q \<Rightarrow> do {
          serviced \<leftarrow> get_priority ?pic srv;
          if q < (case serviced of Some n \<Rightarrow> n | None \<Rightarrow> INVALID_PRIORITY) then do {
            s \<leftarrow> checked_add q (priority_add ?pic); Some (Some (s AND 7)) } else Some None } }"
    by (simp only: get_irq_def Let_def srv_def)
  show ?thesis
  proof (cases "?req = 0")
    case True
    then have "\<not> requested ?pic k" for k
      using bit_requested [of k ?pic] bitmap_0 [of ?req] by (auto simp: requested_def)
    then show ?thesis using True irq by (simp add: get_priority_0 best_line_def)
  next
    case False
    then obtain q where q: "get_priority ?pic ?req = Some (Some (of_nat q))" "q < 8"
      "bit ?req ((q + ?a) mod 8)" "\<And>k. k < 8 \<Longrightarrow> bit ?req k \<Longrightarrow> q \<le> line_priority ?pic k"
      using get_priority_least [OF a] by blast
    let ?k = "(q + ?a) mod 8"
    have k: "requested ?pic ?k" "line_priority ?pic ?k = q"
      using q(3) bit_requested [of ?k ?pic] priority_of_line [OF a q(2)] by (simp_all add: line_priority_def)
    have min: "q \<le> line_priority ?pic j" if "requested ?pic j" for j
      using that q(4) [of j] bit_requested [of j ?pic] by (simp add: requested_def)
    have sum: "checked_add (of_nat q) (priority_add ?pic) = Some (of_nat q + priority_add ?pic)"
      "unat ((of_nat q + priority_add ?pic) AND 7) = ?k"
      using q(2) a by (simp_all add: checked_add_def unat_and_7 unat_word_ariths unat_of_nat)
    obtain n where n: "get_priority ?pic srv = Some n"
      "of_nat q < (case n of Some m \<Rightarrow> m | None \<Rightarrow> INVALID_PRIORITY)
        \<longleftrightarrow> (\<forall>j. in_service p t j \<longrightarrow> q < line_priority ?pic j)"
      using service_priority [OF assms q(2), of t] unfolding srv_def by blast
    show ?thesis
    proof (cases "\<forall>j. in_service p t j \<longrightarrow> q < line_priority ?pic j")
      case True
      then have "best_line p t ?k" using k min by (simp add: best_line_def)
      with True show ?thesis using irq q(1) n sum by simp
    next
      case False
      then have "\<not> best_line p t j" for j
        using k min by (auto simp: best_line_def) (meson le_trans not_le order.strict_trans2)
      with False show ?thesis using irq q(1) n by auto
    qed
  qed
qed


text \<open>
  C24. The interrupt that a controller with sane registers chooses. \<open>get_irq\<close> never panics; it
  returns a line exactly when some requested and unmasked line has a higher priority than every
  line in service, and then the one of these with the highest priority. Priorities rotate with
  \<open>priority_add\<close>; in the special fully nested mode, the primary controller does not count the
  service of its cascade line.
\<close>

theorem pic_chooses_highest:
  assumes "pic_ok p"
  shows "(\<exists>r. get_irq p t = Some r)
    \<and> (\<forall>i. get_irq p t = Some (Some i) \<longleftrightarrow> unat i < 8 \<and> best_line p t (unat i))"
proof -
  have a: "unat (priority_add (pics p t)) \<le> 7" using assms by (simp add: pic_ok_def)
  show ?thesis
    using get_irq_cases [OF assms, of t] best_line_unique [OF a] by (auto simp: word_unat_eq_iff)
qed

section \<open>No operation panics\<close>

definition returns :: "'a option \<Rightarrow> ('a \<Rightarrow> bool) \<Rightarrow> bool" where
  "returns m Q \<longleftrightarrow> (case m of None \<Rightarrow> False | Some x \<Rightarrow> Q x)"

named_theorems returns_intros

lemma returns_Some [returns_intros]: "Q x \<Longrightarrow> returns (Some x) Q"
  by (simp add: returns_def)

lemma returns_bind: "returns m P \<Longrightarrow> (\<And>x. P x \<Longrightarrow> returns (f x) Q) \<Longrightarrow> returns (m \<bind> f) Q"
  by (cases m) (simp_all add: returns_def)

lemma returns_mono: "returns m P \<Longrightarrow> (\<And>x. P x \<Longrightarrow> Q x) \<Longrightarrow> returns m Q"
  by (cases m) (simp_all add: returns_def)

definition state_ok :: "PicState \<Rightarrow> bool" where
  "state_ok s \<longleftrightarrow> unat (priority_add s) \<le> 7 \<and> unat (irq_base s) \<le> 248"

lemma pic_ok_state: "pic_ok p \<longleftrightarrow> (\<forall>t. state_ok (pics p t))"
  by (simp add: pic_ok_def state_ok_def)

lemma upd_pic_ok: "pic_ok p \<Longrightarrow> (state_ok (pics p t) \<Longrightarrow> state_ok (f (pics p t))) \<Longrightarrow> pic_ok (upd_pic t f p)"
  by (simp add: pic_ok_state upd_pic_def)

lemma set_irq_returns:
  "irq \<le> 7 \<Longrightarrow> state_ok s \<Longrightarrow> returns (set_irq_internal s irq level) state_ok"
  by (simp add: set_irq_internal_def returns_def state_ok_def Let_def)

lemma get_irq_returns: "pic_ok p \<Longrightarrow> returns (get_irq p t) (\<lambda>r. \<forall>i. r = Some i \<longrightarrow> i \<le> 7)"
  using get_irq_cases [of p t] by (fastforce simp: returns_def word_le_nat_alt)

lemma get_priority_returns:
  assumes "state_ok s"
  shows "returns (get_priority s bitmap) (\<lambda>r. \<forall>q. r = Some q \<longrightarrow> q \<le> 7)"
proof (cases "bitmap = 0")
  case False
  have "unat (priority_add s) \<le> 7" using assms by (simp add: state_ok_def)
  from get_priority_least [OF this False] obtain q where
    "get_priority s bitmap = Some (Some (of_nat q))" "q < 8" by blast
  then show ?thesis by (simp add: returns_def word_le_nat_alt unat_of_nat)
qed (simp add: get_priority_0 returns_def)

lemma pic_ok_simps [simp]:
  "pic_ok (p\<lparr>interrupt_request := b\<rparr>) = pic_ok p" "pic_ok (p\<lparr>signalled := l\<rparr>) = pic_ok p"
  by (simp_all add: pic_ok_state)

lemma state_ok_at: "pic_ok p \<Longrightarrow> state_ok (pics p t)"
  by (simp add: pic_ok_state)

lemma set_pic_ok: "pic_ok p \<Longrightarrow> state_ok s \<Longrightarrow> pic_ok (p\<lparr>pics := (pics p)(t := s)\<rparr>)"
  by (simp add: pic_ok_state)

lemma clear_isr_returns: "irq \<le> 7 \<Longrightarrow> pic_ok p \<Longrightarrow> returns (clear_isr p t irq) pic_ok"
  unfolding clear_isr_def Let_def
  by (auto intro!: returns_bind [OF set_irq_returns] returns_intros simp: pic_ok_state state_ok_def)

lemma checked_add_returns:
  "unat a \<le> 248 \<Longrightarrow> b \<le> 7 \<Longrightarrow> returns (checked_add a (b :: u8)) (\<lambda>_. True)"
  by (simp add: returns_def checked_add_def word_le_nat_alt)

lemma update_irq_returns: "pic_ok p \<Longrightarrow> returns (update_irq p) (\<lambda>(_, p'). pic_ok p')"
  unfolding update_irq_def
  by (auto intro!: returns_bind [OF get_irq_returns] returns_bind [OF set_irq_returns]
      returns_bind [where P = pic_ok] returns_intros
      simp: pic_ok_state PRIMARY_PIC_CASCADE_PIN_def split: option.split option.splits)

lemma update_returns: "pic_ok p \<Longrightarrow> returns (do { (_, p) \<leftarrow> update_irq p; Some p }) pic_ok"
  by (rule returns_bind [OF update_irq_returns]) (auto intro: returns_intros)

lemma service_irq_returns:
  "pic_ok p \<Longrightarrow> irq \<le> 15 \<Longrightarrow> returns (service_irq p irq level) (\<lambda>(_, p'). pic_ok p')"
  unfolding service_irq_def Let_def
  by (auto intro!: returns_bind [OF set_irq_returns] update_irq_returns and_7_le set_pic_ok state_ok_at)

lemma interrupt_ack_returns: "pic_ok p \<Longrightarrow> irq \<le> 7 \<Longrightarrow> returns (interrupt_ack p t irq) pic_ok"
  unfolding interrupt_ack_def Let_def
  by (auto intro!: clear_isr_returns upd_pic_ok returns_intros
      simp: state_ok_def unat_and_7 split: if_splits)

lemma get_external_interrupt_returns:
  assumes "pic_ok p"
  shows "returns (get_external_interrupt p) (\<lambda>(_, p'). pic_ok p')"
proof -
  have base: "unat (irq_base (pics p t)) \<le> 248" if "pic_ok p" for p t
    using that by (simp add: pic_ok_def)
  have second: "returns (case secondary of
           Some irq \<Rightarrow> do { p \<leftarrow> interrupt_ack p Secondary irq; Some (irq, p) }
         | None \<Rightarrow> Some (SPURIOUS_IRQ, p)) (\<lambda>(i, p'). i \<le> 7 \<and> pic_ok p')"
    if "pic_ok p" "\<forall>i. secondary = Some i \<longrightarrow> i \<le> 7" for p secondary
    using that by (auto intro!: returns_bind [OF interrupt_ack_returns] returns_intros
        simp: SPURIOUS_IRQ_def split: option.split)
  show ?thesis
    unfolding get_external_interrupt_def Let_def
    by (auto intro!: returns_bind [OF get_irq_returns] returns_bind [OF interrupt_ack_returns]
        returns_bind [OF second] returns_bind [OF checked_add_returns]
        returns_bind [OF update_irq_returns] returns_intros base
        simp: assms split: option.split)
qed

lemma poll_read_returns: "pic_ok p \<Longrightarrow> returns (poll_read p t) (\<lambda>(_, p'). pic_ok p')"
  unfolding poll_read_def Let_def
  by (auto intro!: returns_bind [OF get_irq_returns] returns_bind [OF clear_isr_returns] upd_pic_ok
      returns_intros simp: state_ok_def split: option.split)

lemma read_polled_returns: "pic_ok p \<Longrightarrow> returns (read_polled p t) (\<lambda>(_, p'). pic_ok p')"
  unfolding read_polled_def Let_def
  by (rule returns_bind [OF poll_read_returns])
    (auto intro!: returns_bind [OF update_irq_returns] returns_intros upd_pic_ok simp: state_ok_def)

lemma Pic_read_returns: "pic_ok p \<Longrightarrow> returns (Pic_read p addr bs) (\<lambda>(_, p'). pic_ok p')"
proof -
  have one: "returns (map_option (\<lambda>(b, p). ([b], p)) m) (\<lambda>(_, p'). pic_ok p')"
    if "returns m (\<lambda>(_, p'). pic_ok p')" for m :: "(u8 \<times> Pic) option"
    using that by (cases m) (auto simp: returns_def)
  assume "pic_ok p"
  then show ?thesis
    unfolding Pic_read_def Let_def pic_read_command_def pic_read_data_def pic_read_elcr_def
    by (auto intro!: one read_polled_returns returns_intros split: list.split)
qed

lemma clear_each_returns:
  "pic_ok p \<Longrightarrow> \<forall>i \<in> set irqs. i \<le> 7 \<Longrightarrow> returns (clear_each p t edge irqs) pic_ok"
proof (induction irqs arbitrary: p)
  case (Cons i irqs)
  have "returns (if edge AND irq_bit i \<noteq> 0 then clear_isr p t i else Some p) pic_ok"
    using Cons.prems by (auto intro: clear_isr_returns returns_intros)
  then show ?case using Cons by (auto intro: returns_bind)
qed (simp add: returns_def)

lemma init_command_word_1_returns: "pic_ok p \<Longrightarrow> returns (init_command_word_1 p t v) pic_ok"
  unfolding init_command_word_1_def reset_pic_def Let_def
  by (intro clear_each_returns upd_pic_ok) (auto simp: state_ok_def)

lemma clear_and_update_returns:
  "pic_ok p \<Longrightarrow> irq \<le> 7 \<Longrightarrow> returns (clear_and_update p t irq) pic_ok"
  unfolding clear_and_update_def by (auto intro!: returns_bind [OF clear_isr_returns] update_returns)

lemma rotate_ok: "state_ok s \<Longrightarrow> state_ok (s\<lparr>priority_add := x AND 7\<rparr>)"
  using and_7_le [of x] by (simp add: state_ok_def word_le_nat_alt)

lemma priority_sum_returns:
  "pic_ok p \<Longrightarrow> q \<le> 7 \<Longrightarrow> returns (checked_add q (priority_add (pics p t))) (\<lambda>_. True)"
  by (rule checked_add_returns) (auto simp: pic_ok_def word_le_nat_alt)

lemma auto_eoi_flag_ok: "state_ok s \<Longrightarrow> state_ok (s\<lparr>rotate_on_auto_eoi := b\<rparr>)"
  by (simp add: state_ok_def)

lemma operation_command_word_2_returns: "pic_ok p \<Longrightarrow> returns (operation_command_word_2 p t v) pic_ok"
  unfolding operation_command_word_2_def Let_def
  by (auto intro!: clear_and_update_returns update_returns upd_pic_ok returns_intros and_7_le
      returns_bind [OF get_priority_returns] returns_bind [OF priority_sum_returns] rotate_ok
      auto_eoi_flag_ok state_ok_at split: option.split Ocw2.split)

lemma Pic_write_returns: "pic_ok p \<Longrightarrow> returns (Pic_write p addr bs) pic_ok"
proof -
  assume p: "pic_ok p"
  have c: "returns (pic_write_command p t b) pic_ok" for t b
    unfolding pic_write_command_def
    using p by (auto intro!: init_command_word_1_returns operation_command_word_2_returns upd_pic_ok
        returns_intros simp: operation_command_word_3_def state_ok_def Let_def)
  have base: "unat (b AND 0xf8 :: u8) \<le> 248" for b
    using word_and_le1 [of b "0xf8"] by (simp add: word_le_nat_alt)
  have d: "returns (pic_write_data p t b) pic_ok" for t b
    unfolding pic_write_data_def
    using p base by (auto intro!: update_returns upd_pic_ok returns_intros
        simp: state_ok_def split: PicInitState.split)
  have e: "returns (pic_write_elcr p t b) pic_ok" for t b
    unfolding pic_write_elcr_def using p by (auto intro!: upd_pic_ok returns_intros simp: state_ok_def)
  show ?thesis
    unfolding Pic_write_def using p by (auto intro: c d e returns_intros split: list.split)
qed


text \<open>What the devices, the processor and the guest do to the controller.\<close>

datatype pic_op =
    ServiceIrq u8 bool
  | GetExternal
  | PortRead u64 bytes
  | PortWrite u64 bytes

fun pic_step :: "Pic \<Rightarrow> pic_op \<Rightarrow> Pic option" where
  "pic_step p (ServiceIrq irq level) = map_option snd (service_irq p irq level)"
| "pic_step p GetExternal = map_option snd (get_external_interrupt p)"
| "pic_step p (PortRead addr bs) = map_option snd (Pic_read p addr bs)"
| "pic_step p (PortWrite addr bs) = Pic_write p addr bs"

fun pic_run :: "Pic \<Rightarrow> pic_op list \<Rightarrow> Pic option" where
  "pic_run p [] = Some p"
| "pic_run p (x # xs) = do { p \<leftarrow> pic_step p x; pic_run p xs }"

fun line_in_bounds :: "pic_op \<Rightarrow> bool" where
  "line_in_bounds (ServiceIrq irq level) = (irq \<le> 15)"
| "line_in_bounds _ = True"

lemma returns_snd: "returns m (\<lambda>(_, p). Q p) \<Longrightarrow> returns (map_option snd m) Q"
  by (cases m) (auto simp: returns_def)

lemma pic_step_returns: "pic_ok p \<Longrightarrow> line_in_bounds x \<Longrightarrow> returns (pic_step p x) pic_ok"
  by (cases x) (auto intro!: returns_snd service_irq_returns get_external_interrupt_returns
      Pic_read_returns Pic_write_returns)

lemma pic_run_returns: "pic_ok p \<Longrightarrow> list_all line_in_bounds xs \<Longrightarrow> returns (pic_run p xs) pic_ok"
proof (induction xs arbitrary: p)
  case (Cons x xs)
  then show ?case by (auto intro: returns_bind [OF pic_step_returns])
qed (simp add: returns_def)

lemma Pic_new_ok: "pic_ok (register_resample_events Pic_new evs)"
  by (simp add: pic_ok_def register_resample_events_def Pic_new_def PicState_default_def split: PicSelect.split)

text \<open>
  C17. Whatever the guest reads from and writes to the ports, in whatever order, interleaved
  with lines 0 to 15 that go up and down and interrupts that are taken: the controllers never
  panic, that is, no assertion fails, no sum of priorities or of a base and a line overflows
  and the search for a priority ends; the priority rotation stays below 8, and the base of the
  vectors leaves room for the line.
\<close>

theorem pic_never_panics:
  assumes "list_all line_in_bounds xs"
  shows "\<exists>p. pic_run (register_resample_events Pic_new evs) xs = Some p \<and> pic_ok p"
  using pic_run_returns [OF Pic_new_ok assms, of evs]
  by (auto simp: returns_def split: option.splits)

theorem pic_never_panics_witness:
  "\<exists>p. pic_run (register_resample_events Pic_new [[1], [2]])
      [PortWrite 0x20 [0x11], PortWrite 0x21 [0x08], PortWrite 0x21 [0x04], PortWrite 0x21 [0x01],
       ServiceIrq 1 True, GetExternal, PortWrite 0x20 [0x20], PortRead 0x20 [0]] = Some p \<and> pic_ok p"
  by (rule pic_never_panics) simp

text \<open>Raising a line in a fresh controller, and the interrupt that follows.\<close>

theorem pic_chooses_highest_witness:
  "pic_ok (upd_pic Primary (\<lambda>s. s\<lparr>irr := 0x18, imr := 0x08\<rparr>) Pic_new)
   \<and> get_irq (upd_pic Primary (\<lambda>s. s\<lparr>irr := 0x18, imr := 0x08\<rparr>) Pic_new) Primary = Some (Some 4)"
proof -
  let ?p = "upd_pic Primary (\<lambda>s. s\<lparr>irr := 0x18, imr := 0x08\<rparr>) Pic_new"
  have ok: "pic_ok ?p"
    by (simp add: pic_ok_def upd_pic_def Pic_new_def PicState_default_def split: PicSelect.split)
  have req: "requested (pics ?p Primary) k \<longleftrightarrow> k = 4" for k
    by (auto simp: requested_def upd_pic_def Pic_new_def PicState_default_def numeral_eq_Suc less_Suc_eq)
  have "\<not> in_service ?p Primary k" for k
    by (simp add: in_service_def upd_pic_def Pic_new_def PicState_default_def)
  then have "best_line ?p Primary (unat (4 :: u8))" by (simp add: best_line_def req)
  then show ?thesis using pic_chooses_highest [OF ok, of Primary] ok by simp
qed

text \<open>
  Writing the edge/level register: the code clears the bits that were set before instead of
  those outside of \<open>elcr_mask\<close>. A register that was 0 gets the value, but writing the same
  value again gives 0; and the lines that the mask reserves, such as the cascade line, become
  level-triggered when the guest asks for it.
\<close>

theorem pic_elcr_toggles:
  assumes "elcr (pics p t) = 0" and "Pic_write p (if t = Primary then 0x4d0 else 0x4d1) [v] = Some p1"
    and "Pic_write p1 (if t = Primary then 0x4d0 else 0x4d1) [v] = Some p2"
  shows "elcr (pics p1 t) = v \<and> elcr (pics p2 t) = 0"
  using assms by (cases t) (auto simp: Pic_write_def pic_write_elcr_def upd_pic_def)

end
