(* ===== verification/DeviceBus.thy ===== *)
theory DeviceBus
  imports Bus Pic
begin

text \<open>
  Devices on a bus. The locale \<open>bus_device\<close> is what the bus relies on of a device: in a state
  that is in order, no access panics, and the state stays in order. The interrupt controller is an
  instance; it is put on the bus as \<open>finalize_devices\<close> of \<open>devices/src/irqchip/kvm/x86_64.rs\<close>
  does.
\<close>

section \<open>The interrupt controller on the bus\<close>

text \<open>\<open>unwrap\<close> panics on an error.\<close>

definition unwrap_insert :: "Bus \<Rightarrow> nat \<Rightarrow> u64 \<Rightarrow> u64 \<Rightarrow> Bus option" where
  "unwrap_insert bus dev base len =
     (case Bus_insert bus dev base len of (Inr _, bus') \<Rightarrow> Some bus' | (Inl _, _) \<Rightarrow> None)"

definition insert_pic :: "Bus \<Rightarrow> nat \<Rightarrow> Bus option" where
  "insert_pic io_bus pic = do {
     io_bus \<leftarrow> unwrap_insert io_bus pic 0x20 0x2;
     io_bus \<leftarrow> unwrap_insert io_bus pic 0xa0 0x2;
     unwrap_insert io_bus pic 0x4d0 0x2
   }"

definition pic_dev_read :: "BusAccessInfo \<Rightarrow> bytes \<Rightarrow> Pic \<Rightarrow> (bytes \<times> Pic) option" where
  "pic_dev_read info bs p = Pic_read p (address info) bs"

definition pic_dev_write :: "BusAccessInfo \<Rightarrow> bytes \<Rightarrow> Pic \<Rightarrow> Pic option" where
  "pic_dev_write info bs p = Pic_write p (address info) bs"

text \<open>Accesses of the guest, with the buffers of its reads.\<close>

datatype bus_access = BusRead u64 bytes | BusWrite u64 bytes

fun bus_accesses ::
  "(BusAccessInfo \<Rightarrow> bytes \<Rightarrow> 's \<Rightarrow> (bytes \<times> 's) option) \<Rightarrow>
   (BusAccessInfo \<Rightarrow> bytes \<Rightarrow> 's \<Rightarrow> 's option) \<Rightarrow>
   Bus \<Rightarrow> bus_access list \<Rightarrow> (nat \<Rightarrow> 's) \<Rightarrow> (nat \<Rightarrow> 's) option" where
  "bus_accesses rd wr bus [] st = Some st"
| "bus_accesses rd wr bus (BusRead a bs # xs) st =
     (case Bus_read (\<lambda>_. rd) bus a bs st of None \<Rightarrow> None | Some (_, _, st) \<Rightarrow> bus_accesses rd wr bus xs st)"
| "bus_accesses rd wr bus (BusWrite a bs # xs) st =
     (case Bus_write (\<lambda>_. wr) bus a bs st of None \<Rightarrow> None | Some (_, st) \<Rightarrow> bus_accesses rd wr bus xs st)"

section \<open>What the bus relies on\<close>

locale bus_device =
  fixes inv :: "'s \<Rightarrow> bool"
    and rd :: "BusAccessInfo \<Rightarrow> bytes \<Rightarrow> 's \<Rightarrow> (bytes \<times> 's) option"
    and wr :: "BusAccessInfo \<Rightarrow> bytes \<Rightarrow> 's \<Rightarrow> 's option"
  assumes rd_ok: "inv s \<Longrightarrow> \<exists>bs' s'. rd info bs s = Some (bs', s') \<and> inv s'"
    and wr_ok: "inv s \<Longrightarrow> \<exists>s'. wr info bs s = Some s' \<and> inv s'"
begin

lemma read_ok:
  assumes "\<forall>p. inv (st p)"
  shows "\<exists>r bs' st'. Bus_read (\<lambda>_. rd) bus a bs st = Some (r, bs', st') \<and> (\<forall>p. inv (st' p))"
proof (cases "get_device bus a")
  case (Some x)
  obtain off adr e where x: "x = (off, adr, e)" by (cases x)
  obtain bs' s' where "rd \<lparr>offset = off, address = adr, info_id = access_id bus\<rparr> bs (st (dev_ptr (device e)))
      = Some (bs', s')" "inv s'"
    using rd_ok assms by blast
  then show ?thesis using assms Some x by (auto simp: Bus_read_def Let_def)
qed (auto simp: Bus_read_def assms)

lemma write_ok:
  assumes "\<forall>p. inv (st p)"
  shows "\<exists>r st'. Bus_write (\<lambda>_. wr) bus a bs st = Some (r, st') \<and> (\<forall>p. inv (st' p))"
proof (cases "get_device bus a")
  case (Some x)
  obtain off adr e where x: "x = (off, adr, e)" by (cases x)
  obtain s' where "wr \<lparr>offset = off, address = adr, info_id = access_id bus\<rparr> bs (st (dev_ptr (device e))) = Some s'"
    "inv s'"
    using wr_ok assms by blast
  then show ?thesis using assms Some x by (auto simp: Bus_write_def Let_def)
qed (auto simp: Bus_write_def assms)

lemma accesses_ok:
  "\<forall>p. inv (st p) \<Longrightarrow> \<exists>st'. bus_accesses rd wr bus xs st = Some st' \<and> (\<forall>p. inv (st' p))"
proof (induction xs arbitrary: st)
  case (Cons x xs)
  show ?case
  proof (cases x)
    case (BusRead a bs)
    then show ?thesis using read_ok [OF Cons.prems, of bus a bs] Cons.IH by fastforce
  next
    case (BusWrite a bs)
    then show ?thesis using write_ok [OF Cons.prems, of bus a bs] Cons.IH by fastforce
  qed
qed simp

end

interpretation pic_dev: bus_device pic_ok pic_dev_read pic_dev_write
proof
  show "\<exists>bs' s'. pic_dev_read info bs s = Some (bs', s') \<and> pic_ok s'" if "pic_ok s" for info bs s
    using Pic_read_returns [OF that, of "address info" bs]
    by (auto simp: pic_dev_read_def returns_def split: option.splits)
  show "\<exists>s'. pic_dev_write info bs s = Some s' \<and> pic_ok s'" if "pic_ok s" for info bs s
    using Pic_write_returns [OF that, of "address info" bs]
    by (auto simp: pic_dev_write_def returns_def split: option.splits)
qed

section \<open>The ports\<close>

lemma unwrap_insert_routes:
  assumes "bus_ok bus" "unat base + unat len < 2 ^ 64" "len \<noteq> 0"
    and "\<And>a. base \<le> a \<Longrightarrow> unat a < unat base + unat len \<Longrightarrow> get_device bus a = None"
  obtains bus' where "unwrap_insert bus p base len = Some bus'" "bus_ok bus'"
    "\<And>a. get_device bus' a = (if base \<le> a \<and> unat a < unat base + unat len
       then Some (a - base, a, \<lparr>device = OuterSync p\<rparr>) else get_device bus a)"
proof -
  obtain r bus' where i: "Bus_insert bus p base len = (r, bus')" by fastforce
  then have r: "r = Ok ()" "bus_ok bus'"
    "\<And>a. get_device bus' a = (if base \<le> a \<and> unat a < unat base + unat len
       then Some (a - base, a, \<lparr>device = OuterSync p\<rparr>) else get_device bus a)"
    using insert_routes [OF assms(1,2), of r bus' "OuterSync p"] assms(3,4) by auto
  show ?thesis using that [OF _ r(2,3)] i r(1) by (simp add: unwrap_insert_def)
qed

lemma two_ports: "base \<le> a \<and> unat a < unat base + 2 \<longleftrightarrow> a = base \<or> a = base + 1"
  if "unat base + 1 < 2 ^ 64" for a base :: u64
  using that by (auto simp: word_le_nat_alt word_unat_eq_iff unat_word_ariths)

lemma unwrap_insert_two:
  assumes "bus_ok bus" "unat base + 2 < 2 ^ 64" "get_device bus base = None" "get_device bus (base + 1) = None"
  shows "\<exists>bus'. unwrap_insert bus p base 2 = Some bus' \<and> bus_ok bus'
    \<and> (\<forall>a. get_device bus' a = (if a = base \<or> a = base + 1
       then Some (a - base, a, \<lparr>device = OuterSync p\<rparr>) else get_device bus a))"
proof -
  have two: "base \<le> a \<and> unat a < unat base + unat (2 :: u64) \<longleftrightarrow> a = base \<or> a = base + 1" for a
    using two_ports [of base a] assms(2) by simp
  have free: "get_device bus a = None" if "base \<le> a" "unat a < unat base + unat (2 :: u64)" for a
    using two [of a] that assms(3,4) by auto
  obtain bus' where "unwrap_insert bus p base 2 = Some bus'" "bus_ok bus'"
    "\<And>a. get_device bus' a = (if base \<le> a \<and> unat a < unat base + unat (2 :: u64)
       then Some (a - base, a, \<lparr>device = OuterSync p\<rparr>) else get_device bus a)"
    using unwrap_insert_routes [of bus base 2 p, OF assms(1) _ _ free] assms(2) by auto
  then show ?thesis unfolding two by blast
qed

definition pic_ports :: "u64 list" where
  "pic_ports = [0x20, 0x21, 0xa0, 0xa1, 0x4d0, 0x4d1]"



end
