(* ===== verification/KernelCmdline.thy ===== *)
theory KernelCmdline
  imports Prelude "HOL-Library.Monad_Syntax"
begin

text \<open>
  The builder of kernel command lines (\<open>kernel_cmdline/src/kernel_cmdline.rs\<close>). A string is its
  bytes in UTF-8; a character outside of ASCII consists of bytes from 128, so that all characters
  are printable ASCII exactly when all bytes are. \<open>None\<close> is a panic: of an assertion, or of a
  sum of lengths that overflows.
\<close>

datatype cmdline_error = HasEquals | HasSpace | InvalidAscii | TooLarge

definition valid_char :: "u8 \<Rightarrow> bool" where
  "valid_char c \<longleftrightarrow> 0x20 \<le> c \<and> c \<le> 0x7e"

definition valid_str :: "bytes \<Rightarrow> cmdline_error + unit" where
  "valid_str s = (if list_all valid_char s then Ok () else Err InvalidAscii)"

definition valid_element :: "bytes \<Rightarrow> cmdline_error + unit" where
  "valid_element s =
     (if \<not> list_all valid_char s then Err InvalidAscii
      else if List.member s 0x20 then Err HasSpace
      else if List.member s 0x3d then Err HasEquals
      else Ok ())"

record Cmdline =
  line :: bytes
  capacity :: usize

definition Cmdline_new :: "usize \<Rightarrow> Cmdline option" where
  "Cmdline_new cap = (if cap \<noteq> 0 then Some \<lparr>line = [], capacity = cap\<rparr> else None)"

definition has_capacity :: "Cmdline \<Rightarrow> usize \<Rightarrow> (cmdline_error + unit) option" where
  "has_capacity cl extra = do {
     let needs_space = (if line cl = [] then 0 else 1);
     n \<leftarrow> usize_add (length (line cl)) extra;
     n \<leftarrow> usize_add n needs_space;
     Some (if n < capacity cl then Ok () else Err TooLarge)
   }"

definition start_push :: "Cmdline \<Rightarrow> Cmdline" where
  "start_push cl = (if line cl \<noteq> [] then cl\<lparr>line := line cl @ [0x20]\<rparr> else cl)"

definition push_str :: "bytes \<Rightarrow> Cmdline \<Rightarrow> Cmdline" where
  "push_str s cl = cl\<lparr>line := line cl @ s\<rparr>"

definition end_push :: "Cmdline \<Rightarrow> Cmdline option" where
  "end_push cl = (if length (line cl) < capacity cl then Some cl else None)"

definition Cmdline_insert ::
  "Cmdline \<Rightarrow> bytes \<Rightarrow> bytes \<Rightarrow> ((cmdline_error + unit) \<times> Cmdline) option" where
  "Cmdline_insert cl k v =
     (case valid_element k of Inl e \<Rightarrow> Some (Err e, cl) | Inr _ \<Rightarrow>
      case valid_element v of Inl e \<Rightarrow> Some (Err e, cl) | Inr _ \<Rightarrow> do {
        n \<leftarrow> usize_add (length k) (length v);
        n \<leftarrow> usize_add n 1;
        r \<leftarrow> has_capacity cl n;
        case r of Inl e \<Rightarrow> Some (Err e, cl) | Inr _ \<Rightarrow> do {
          cl \<leftarrow> end_push (push_str v (push_str [0x3d] (push_str k (start_push cl))));
          Some (Ok (), cl)
        }
      })"

definition Cmdline_insert_str ::
  "Cmdline \<Rightarrow> bytes \<Rightarrow> ((cmdline_error + unit) \<times> Cmdline) option" where
  "Cmdline_insert_str cl s =
     (case valid_str s of Inl e \<Rightarrow> Some (Err e, cl) | Inr _ \<Rightarrow> do {
        r \<leftarrow> has_capacity cl (length s);
        case r of Inl e \<Rightarrow> Some (Err e, cl) | Inr _ \<Rightarrow> do {
          cl \<leftarrow> end_push (push_str s (start_push cl));
          Some (Ok (), cl)
        }
      })"

definition as_str :: "Cmdline \<Rightarrow> bytes" where
  "as_str cl = line cl"

section \<open>What the operations keep\<close>

text \<open>
  There is room for the terminating nul byte, and all bytes are printable; in particular none
  of them is nul, so that the line makes a \<open>CString\<close>.
\<close>

definition cmdline_ok :: "Cmdline \<Rightarrow> bool" where
  "cmdline_ok cl \<longleftrightarrow> length (line cl) < capacity cl \<and> list_all valid_char (line cl)"

definition joined :: "bytes \<Rightarrow> bytes \<Rightarrow> bytes" where
  "joined l s = (if l = [] then s else l @ [0x20] @ s)"

lemma has_capacity_eq:
  "length (line cl) + extra + 1 < 2 ^ 64 \<Longrightarrow>
   has_capacity cl extra =
     Some (if length (line cl) + extra + (if line cl = [] then 0 else 1) < capacity cl then Ok ()
           else Err TooLarge)"
  by (simp add: has_capacity_def usize_add_def Let_def)

lemma has_capacity_Ok:
  "has_capacity cl extra = Some (Ok ()) \<Longrightarrow>
   length (line cl) + extra + (if line cl = [] then 0 else 1) < capacity cl"
  by (auto simp: has_capacity_def usize_add_def Let_def split: bind_splits if_splits)

lemma push_line:
  "line (push_str s (start_push cl)) = joined (line cl) s" 
  "capacity (push_str s cl) = capacity cl" "capacity (start_push cl) = capacity cl"
  "push_str b (push_str a cl) = push_str (a @ b) cl"
  by (simp_all add: push_str_def start_push_def joined_def)

lemma length_joined: "length (joined l s) = length l + length s + (if l = [] then 0 else 1)"
  by (simp add: joined_def)

lemma end_push_room:
  assumes "has_capacity cl (length s) = Some (Ok ())"
  shows "end_push (push_str s (start_push cl)) = Some (cl\<lparr>line := joined (line cl) s\<rparr>)"
  using has_capacity_Ok [OF assms]
  by (auto simp: end_push_def push_str_def start_push_def joined_def)

lemma valid_element_Ok:
  "valid_element s = Ok () \<longleftrightarrow> list_all valid_char s \<and> 0x20 \<notin> set s \<and> 0x3d \<notin> set s"
  by (auto simp: valid_element_def)

lemma valid_joined:
  "list_all valid_char l \<Longrightarrow> list_all valid_char s \<Longrightarrow> list_all valid_char (joined l s)"
  by (simp add: joined_def valid_char_def)

text \<open>What both ways to insert do once the strings are valid: \<open>s\<close> goes to the end of the line.\<close>

definition append_checked :: "Cmdline \<Rightarrow> bytes \<Rightarrow> ((cmdline_error + unit) \<times> Cmdline) option" where
  "append_checked cl s = do {
     r \<leftarrow> has_capacity cl (length s);
     case r of Inl e \<Rightarrow> Some (Err e, cl) | Inr _ \<Rightarrow> do {
       cl \<leftarrow> end_push (push_str s (start_push cl));
       Some (Ok (), cl)
     }
   }"

lemma insert_append:
  "Cmdline_insert cl k v =
     (case valid_element k of Inl e \<Rightarrow> Some (Err e, cl) | Inr _ \<Rightarrow>
      case valid_element v of Inl e \<Rightarrow> Some (Err e, cl) | Inr _ \<Rightarrow>
      if length k + length v + 1 < 2 ^ 64 then append_checked cl (k @ [0x3d] @ v) else None)"
  by (simp add: Cmdline_insert_def append_checked_def push_line usize_add_def split: sum.split)

lemma insert_str_append:
  "Cmdline_insert_str cl s =
     (case valid_str s of Inl e \<Rightarrow> Some (Err e, cl) | Inr _ \<Rightarrow> append_checked cl s)"
  by (simp add: Cmdline_insert_str_def append_checked_def split: sum.split)

lemma append_checked_eq:
  assumes "length (line cl) + length s + 1 < 2 ^ 64"
  shows "append_checked cl s =
    Some (if length (joined (line cl) s) < capacity cl
          then (Ok (), cl\<lparr>line := joined (line cl) s\<rparr>) else (Err TooLarge, cl))"
proof (cases "length (joined (line cl) s) < capacity cl")
  case True
  then have "has_capacity cl (length s) = Some (Ok ())"
    by (simp add: has_capacity_eq [OF assms] length_joined)
  with True show ?thesis by (simp add: append_checked_def end_push_room)
next
  case False
  then have "has_capacity cl (length s) = Some (Err TooLarge)"
    by (simp add: has_capacity_eq [OF assms] length_joined)
  with False show ?thesis by (simp add: append_checked_def)
qed

lemma append_checked_Ok:
  assumes "append_checked cl s = Some (Ok (), cl')"
  shows "cl' = cl\<lparr>line := joined (line cl) s\<rparr> \<and> length (joined (line cl) s) < capacity cl"
proof -
  have "has_capacity cl (length s) = Some (Ok ())"
    using assms by (auto simp: append_checked_def split: bind_splits sum.splits)
  from assms this has_capacity_Ok [OF this] show ?thesis
    by (simp add: append_checked_def end_push_room length_joined)
qed

text \<open>
  No operation on a line that is in order panics, as long as the sum of the lengths is below
  \<open>2^64\<close>; the result is in order, and an error leaves the line as it was. In particular the
  assertion of \<open>end_push\<close> never fails.
\<close>

theorem cmdline_insert_total:
  assumes "cmdline_ok cl" and "length (line cl) + length k + length v + 2 < 2 ^ 64"
  shows "\<exists>r cl'. Cmdline_insert cl k v = Some (r, cl') \<and> cmdline_ok cl' \<and> (r \<noteq> Ok () \<longrightarrow> cl' = cl)"
proof (cases "valid_element k = Ok () \<and> valid_element v = Ok ()")
  case True
  then have "list_all valid_char (k @ [0x3d] @ v)" by (simp add: valid_element_Ok valid_char_def)
  with True assms show ?thesis
    by (auto simp: insert_append append_checked_eq cmdline_ok_def valid_joined)
next
  case False
  then show ?thesis using assms(1) by (auto simp: insert_append split: sum.split)
qed

theorem cmdline_insert_str_total:
  assumes "cmdline_ok cl" and "length (line cl) + length s + 1 < 2 ^ 64"
  shows "\<exists>r cl'. Cmdline_insert_str cl s = Some (r, cl') \<and> cmdline_ok cl' \<and> (r \<noteq> Ok () \<longrightarrow> cl' = cl)"
  using assms by (auto simp: insert_str_append valid_str_def append_checked_eq cmdline_ok_def valid_joined)

section \<open>Reading the line back\<close>

text \<open>How the line is read: words separated by spaces, each split at its first equals sign.\<close>

fun words :: "bytes \<Rightarrow> bytes list" where
  "words [] = [[]]"
| "words (c # s) =
     (if c = 0x20 then [] # words s
      else (case words s of [] \<Rightarrow> [[c]] | w # ws \<Rightarrow> (c # w) # ws))"

definition key_value :: "bytes \<Rightarrow> bytes \<times> bytes" where
  "key_value w = (takeWhile (\<lambda>c. c \<noteq> 0x3d) w, tl (dropWhile (\<lambda>c. c \<noteq> 0x3d) w))"

definition parse_line :: "bytes \<Rightarrow> (bytes \<times> bytes) list" where
  "parse_line l = (if l = [] then [] else map key_value (words l))"

fun insert_all ::
  "Cmdline \<Rightarrow> (bytes \<times> bytes) list \<Rightarrow> ((cmdline_error + unit) \<times> Cmdline) option" where
  "insert_all cl [] = Some (Ok (), cl)"
| "insert_all cl ((k, v) # kvs) = do {
     (r, cl) \<leftarrow> Cmdline_insert cl k v;
     case r of Inl e \<Rightarrow> Some (Err e, cl) | Inr _ \<Rightarrow> insert_all cl kvs
   }"

lemma words_single: "0x20 \<notin> set s \<Longrightarrow> words s = [s]"
  by (induction s) auto

lemma words_not_Nil: "words s \<noteq> []"
  by (cases s) (auto split: list.split)

lemma words_snoc: "0x20 \<notin> set w \<Longrightarrow> words (l @ 0x20 # w) = words l @ [w]"
  by (induction l) (auto simp: words_single words_not_Nil split: list.split)

lemma key_value_of:
  "0x3d \<notin> set k \<Longrightarrow> key_value (k @ 0x3d # v) = (k, v)"
  by (auto simp: key_value_def takeWhile_append dropWhile_append)

lemma parse_joined:
  assumes "0x20 \<notin> set k" "0x3d \<notin> set k" "0x20 \<notin> set v"
  shows "parse_line (joined l (k @ [0x3d] @ v)) = parse_line l @ [(k, v)]"
  using assms words_snoc [of "k @ 0x3d # v" l]
  by (auto simp: parse_line_def joined_def words_single key_value_of)

lemma insert_all_parse:
  "insert_all cl kvs = Some (Ok (), cl') \<Longrightarrow>
   parse_line (as_str cl') = parse_line (as_str cl) @ kvs"
proof (induction cl kvs rule: insert_all.induct)
  case (2 cl k v kvs)
  obtain cl1 where ins: "Cmdline_insert cl k v = Some (Ok (), cl1)"
    and rest: "insert_all cl1 kvs = Some (Ok (), cl')"
    using 2(2) by (auto split: bind_splits sum.splits)
  have ok: "valid_element k = Ok ()" "valid_element v = Ok ()"
    "append_checked cl (k @ [0x3d] @ v) = Some (Ok (), cl1)"
    using ins by (auto simp: insert_append split: sum.splits if_splits)
  have "parse_line (as_str cl') = parse_line (as_str cl1) @ kvs"
    using 2(1) [OF ins refl] rest by simp
  also have "parse_line (as_str cl1) = parse_line (as_str cl) @ [(k, v)]"
    using ok(1,2) append_checked_Ok [OF ok(3)] parse_joined [of k v "line cl"]
    by (auto simp: as_str_def valid_element_Ok)
  finally show ?case by simp
qed simp

text \<open>
  C34. Whatever pairs are inserted into a new command line, if all insertions succeed then the
  line fits the capacity together with its nul byte, consists of printable ASCII, and, split
  at its spaces and at the equals signs, gives back exactly the pairs in their order.
\<close>

theorem cmdline_roundtrip:
  assumes "Cmdline_new cap = Some cl" and "insert_all cl kvs = Some (Ok (), cl')"
  shows "length (as_str cl') < cap \<and> list_all valid_char (as_str cl') \<and> parse_line (as_str cl') = kvs"
proof -
  have keep: "cmdline_ok cl2 \<and> capacity cl2 = capacity cl1"
    if "insert_all cl1 kvs = Some (Ok (), cl2)" "cmdline_ok cl1" for cl1 cl2
    using that
  proof (induction cl1 kvs rule: insert_all.induct)
    case (2 cl1 k v kvs)
    obtain cl3 where ins: "Cmdline_insert cl1 k v = Some (Ok (), cl3)"
      and rest: "insert_all cl3 kvs = Some (Ok (), cl2)"
      using 2(2) by (auto split: bind_splits sum.splits)
    have ok: "valid_element k = Ok ()" "valid_element v = Ok ()"
      "append_checked cl1 (k @ [0x3d] @ v) = Some (Ok (), cl3)"
      using ins by (auto simp: insert_append split: sum.splits if_splits)
    have "list_all valid_char (k @ [0x3d] @ v)"
      using ok(1,2) by (simp add: valid_element_Ok valid_char_def)
    then have "cmdline_ok cl3 \<and> capacity cl3 = capacity cl1"
      using append_checked_Ok [OF ok(3)] 2(3) by (simp add: cmdline_ok_def valid_joined)
    then show ?case using 2(1) [OF ins refl] rest by simp
  qed simp
  have "cmdline_ok cl" "capacity cl = cap" "parse_line (as_str cl) = []"
    using assms(1) by (auto simp: Cmdline_new_def cmdline_ok_def as_str_def parse_line_def split: if_splits)
  then show ?thesis
    using keep [OF assms(2)] insert_all_parse [OF assms(2)] by (simp add: cmdline_ok_def as_str_def)
qed

theorem cmdline_roundtrip_witness:
  "parse_line (str ''a=b c='') = [(str ''a'', str ''b''), (str ''c'', [])]"
  using cmdline_roundtrip [of 8 "\<lparr>line = [], capacity = 8\<rparr>" "[(str ''a'', str ''b''), (str ''c'', [])]"
      "\<lparr>line = str ''a=b c='', capacity = 8\<rparr>"]
  by (simp add: Cmdline_new_def as_str_def str_def Cmdline_insert_def valid_element_def valid_char_def
      usize_add_def has_capacity_def start_push_def push_str_def end_push_def of_char_Char)

end
