(* ===== verification/AcpiTables.thy ===== *)
theory AcpiTables
  imports Prelude "HOL-Library.Monad_Syntax"
begin

text \<open>
  The ACPI tables of the machine monitor (\<open>acpi_tables/src/lib.rs\<close>, \<open>sdt.rs\<close> and \<open>rsdp.rs\<close>):
  system description tables, which are kept as bytes whose sum is zero, and the root pointer.
  A value of a type \<open>T: AsBytes\<close> is its bytes; the arrays of fixed size that describe a table
  are byte lists. \<open>None\<close> is a panic: an index out of bounds or an overflow.
\<close>

definition generate_checksum :: "bytes \<Rightarrow> u8" where
  "generate_checksum data = (255 - fold (\<lambda>x acc. acc + x) data 0) + 1"

section \<open>System description tables\<close>

definition HEADER_LEN :: u32 where "HEADER_LEN = 36"
definition LENGTH_OFFSET :: usize where "LENGTH_OFFSET = 4"
definition CHECKSUM_OFFSET :: usize where "CHECKSUM_OFFSET = 9"

record SDT =
  data :: bytes

definition update_checksum :: "SDT \<Rightarrow> SDT option" where
  "update_checksum sdt =
     (if CHECKSUM_OFFSET < length (data sdt) then
        let zeroed = (data sdt)[CHECKSUM_OFFSET := 0]
        in Some (sdt\<lparr>data := zeroed[CHECKSUM_OFFSET := generate_checksum zeroed]\<rparr>)
      else None)"

text \<open>\<open>Vec::resize\<close> with zeros.\<close>

definition resize :: "nat \<Rightarrow> bytes \<Rightarrow> bytes" where
  "resize n bs = take n bs @ replicate (n - length bs) 0"

definition SDT_new :: "bytes \<Rightarrow> u32 \<Rightarrow> u8 \<Rightarrow> bytes \<Rightarrow> bytes \<Rightarrow> u32 \<Rightarrow> SDT option" where
  "SDT_new signature len revision oem_id oem_table oem_revision =
     (let header_len = (if len < HEADER_LEN then HEADER_LEN else len);
          header = signature @ to_le 4 header_len @ [revision, 0] @ oem_id @ oem_table
                     @ to_le 4 oem_revision @ str ''CROS'' @ to_le 4 (0 :: u32)
      in update_checksum \<lparr>data = resize (unat len) header\<rparr>)"

text \<open>What \<open>from_file\<close> makes of the bytes of the file.\<close>

definition SDT_from_bytes :: "bytes \<Rightarrow> SDT io_result" where
  "SDT_from_bytes bs =
     (if generate_checksum bs = 0 then Ok \<lparr>data = bs\<rparr> else Err (Kind InvalidData))"

definition is_signature :: "SDT \<Rightarrow> bytes \<Rightarrow> bool option" where
  "is_signature sdt signature =
     (if 4 \<le> length (data sdt) then Some (take 4 (data sdt) = signature) else None)"

definition SDT_write :: "SDT \<Rightarrow> usize \<Rightarrow> bytes \<Rightarrow> SDT option" where
  "SDT_write sdt off value = do {
     fin \<leftarrow> usize_add off (length value);
     if length (data sdt) < fin then Some sdt
     else update_checksum (sdt\<lparr>data := take off (data sdt) @ value @ drop fin (data sdt)\<rparr>)
   }"

definition SDT_append :: "SDT \<Rightarrow> bytes \<Rightarrow> SDT option" where
  "SDT_append sdt value =
     (let sdt = sdt\<lparr>data := data sdt @ value\<rparr>
      in SDT_write sdt LENGTH_OFFSET (to_le 4 (of_nat (length (data sdt)) :: u32)))"

text \<open>\<open>dflt\<close> is \<open>T::default()\<close>; its length is the size of \<open>T\<close>.\<close>

definition SDT_read :: "bytes \<Rightarrow> SDT \<Rightarrow> usize \<Rightarrow> bytes option" where
  "SDT_read dflt sdt off = do {
     fin \<leftarrow> usize_add off (length dflt);
     Some (if fin \<le> length (data sdt) then take (length dflt) (drop off (data sdt)) else dflt)
   }"

section \<open>The root pointer\<close>

record RSDP =
  signature :: bytes
  checksum :: u8
  oem_id :: bytes
  revision :: u8
  rsdt_addr :: u32
  rsdp_length :: u32
  xsdt_addr :: u64
  extended_checksum :: u8
  reserved :: bytes

definition RSDP_bytes :: "RSDP \<Rightarrow> bytes" where
  "RSDP_bytes r =
     signature r @ [checksum r] @ oem_id r @ [revision r] @ to_le 4 (rsdt_addr r)
       @ to_le 4 (rsdp_length r) @ to_le 8 (xsdt_addr r) @ [extended_checksum r] @ reserved r"

definition RSDP_len :: usize where
  "RSDP_len = 8 + 1 + 6 + 1 + 4 + 4 + 8 + 1 + 3"

definition RSDP_new :: "bytes \<Rightarrow> u64 \<Rightarrow> RSDP" where
  "RSDP_new oem xsdt =
     (let rsdp = \<lparr>signature = str ''RSD PTR '', checksum = 0, oem_id = oem, revision = 2,
                  rsdt_addr = 0, rsdp_length = of_nat RSDP_len, xsdt_addr = xsdt,
                  extended_checksum = 0, reserved = replicate 3 0\<rparr>;
          rsdp = rsdp\<lparr>checksum := generate_checksum (take 19 (RSDP_bytes rsdp))\<rparr>
      in rsdp\<lparr>extended_checksum := generate_checksum (RSDP_bytes rsdp)\<rparr>)"

section \<open>Checksums\<close>

lemma fold_sum: "fold (\<lambda>x acc. acc + x) xs (a :: u8) = a + sum_list xs"
  by (induction xs arbitrary: a) (simp_all add: add.assoc)

lemma generate_checksum_eq: "generate_checksum xs = - sum_list xs"
proof -
  have "(255 :: u8) + 1 = 0" by simp
  then show ?thesis by (simp add: generate_checksum_def fold_sum diff_add_eq)
qed

lemma sum_list_update_word:
  "i < length xs \<Longrightarrow> sum_list (xs[i := x]) = sum_list xs - xs ! i + (x :: u8)"
  by (induction xs arbitrary: i) (auto split: nat.split simp: algebra_simps)

lemma update_checksum_Some:
  assumes "CHECKSUM_OFFSET < length (data sdt)"
  obtains sdt' where "update_checksum sdt = Some sdt'" and "sum_list (data sdt') = 0"
    and "length (data sdt') = length (data sdt)"
    and "\<And>i. i \<noteq> CHECKSUM_OFFSET \<Longrightarrow> data sdt' ! i = data sdt ! i"
proof
  let ?z = "(data sdt)[CHECKSUM_OFFSET := 0]"
  show "update_checksum sdt = Some (sdt\<lparr>data := ?z[CHECKSUM_OFFSET := generate_checksum ?z]\<rparr>)"
    using assms by (simp add: update_checksum_def Let_def)
  have "sum_list (?z[CHECKSUM_OFFSET := generate_checksum ?z]) = sum_list ?z - 0 + generate_checksum ?z"
    using assms sum_list_update_word [of CHECKSUM_OFFSET ?z "generate_checksum ?z"] by simp
  then show "sum_list (data (sdt\<lparr>data := ?z[CHECKSUM_OFFSET := generate_checksum ?z]\<rparr>)) = 0"
    by (simp add: generate_checksum_eq)
qed (simp_all del: list_update_overwrite)

text \<open>
  The invariant of a table: a header at least, a sum of zero, and the true length in the
  length field.
\<close>

definition length_field :: "SDT \<Rightarrow> u32" where
  "length_field sdt = from_le (take 4 (drop LENGTH_OFFSET (data sdt)))"

definition sdt_ok :: "SDT \<Rightarrow> bool" where
  "sdt_ok sdt \<longleftrightarrow> 36 \<le> length (data sdt) \<and> sum_list (data sdt) = 0"

lemma nth_slice_eq:
  assumes "\<And>i. i < n \<Longrightarrow> xs ! (k + i) = ys ! (k + i)" and "length xs = length ys" "k + n \<le> length xs"
  shows "take n (drop k xs) = take n (drop k ys)"
  using assms by (intro nth_equalityI) auto


lemma update_checksum_ok:
  assumes "36 \<le> length (data sdt)"
  obtains sdt' where "update_checksum sdt = Some sdt'" "sdt_ok sdt'"
    "length (data sdt') = length (data sdt)" "length_field sdt' = length_field sdt"
    "\<And>off n. off + n \<le> length (data sdt) \<Longrightarrow> \<not> (off \<le> CHECKSUM_OFFSET \<and> CHECKSUM_OFFSET < off + n) \<Longrightarrow>
       take n (drop off (data sdt')) = take n (drop off (data sdt))"
proof -
  have "CHECKSUM_OFFSET < length (data sdt)" using assms by (simp add: CHECKSUM_OFFSET_def)
  then obtain sdt' where u: "update_checksum sdt = Some sdt'" "sum_list (data sdt') = 0"
    "length (data sdt') = length (data sdt)"
    "\<And>i. i \<noteq> CHECKSUM_OFFSET \<Longrightarrow> data sdt' ! i = data sdt ! i"
    using update_checksum_Some by blast
  have slice: "take n (drop off (data sdt')) = take n (drop off (data sdt))"
    if "off + n \<le> length (data sdt)" "\<not> (off \<le> CHECKSUM_OFFSET \<and> CHECKSUM_OFFSET < off + n)" for off n
    using that u(3,4) by (intro nth_slice_eq) auto
  have "length_field sdt' = length_field sdt"
    unfolding length_field_def using slice [of LENGTH_OFFSET 4] assms
    by (simp add: LENGTH_OFFSET_def CHECKSUM_OFFSET_def)
  then show ?thesis using that [OF u(1)] u(2,3) slice assms by (simp add: sdt_ok_def)
qed

text \<open>Writing inside of the table.\<close>

lemma SDT_write_inside:
  assumes "36 \<le> length (data sdt)" "length (data sdt) < 2 ^ 64" "off + length v \<le> length (data sdt)"
  obtains sdt' where "SDT_write sdt off v = Some sdt'" "sdt_ok sdt'" "length (data sdt') = length (data sdt)"
    "off + length v \<le> CHECKSUM_OFFSET \<or> CHECKSUM_OFFSET < off \<Longrightarrow>
       take (length v) (drop off (data sdt')) = v"
    "off + length v \<le> LENGTH_OFFSET \<or> LENGTH_OFFSET + 4 \<le> off \<Longrightarrow> length_field sdt' = length_field sdt"
proof -
  let ?w = "sdt\<lparr>data := take off (data sdt) @ v @ drop (off + length v) (data sdt)\<rparr>"
  have len: "length (data ?w) = length (data sdt)" using assms(3) by simp
  have "36 \<le> length (data ?w)" using len assms(1) by simp
  from update_checksum_ok [OF this] obtain sdt' where u: "update_checksum ?w = Some sdt'" "sdt_ok sdt'"
    "length (data sdt') = length (data ?w)" "length_field sdt' = length_field ?w"
    "\<And>off n. off + n \<le> length (data ?w) \<Longrightarrow> \<not> (off \<le> CHECKSUM_OFFSET \<and> CHECKSUM_OFFSET < off + n) \<Longrightarrow>
       take n (drop off (data sdt')) = take n (drop off (data ?w))" by blast
  have w: "SDT_write sdt off v = Some sdt'"
    using u(1) assms by (simp add: SDT_write_def usize_add_def)
  have r: "take (length v) (drop off (data sdt')) = v"
    if "off + length v \<le> CHECKSUM_OFFSET \<or> CHECKSUM_OFFSET < off"
    using u(5) [of off "length v"] that assms(3) len by auto
  have "length_field ?w = length_field sdt"
    if "off + length v \<le> LENGTH_OFFSET \<or> LENGTH_OFFSET + 4 \<le> off"
    unfolding length_field_def using that assms
    by (intro arg_cong [where f = from_le] nth_slice_eq) (auto simp: nth_append LENGTH_OFFSET_def)
  with u(4) have f: "length_field sdt' = length_field sdt"
    if "off + length v \<le> LENGTH_OFFSET \<or> LENGTH_OFFSET + 4 \<le> off" using that by simp
  show ?thesis using that [OF w u(2) _ r f] u(3) len by simp
qed

text \<open>The operations that change a table.\<close>

datatype sdt_op = Append bytes | Write usize bytes

fun sdt_step :: "SDT \<Rightarrow> sdt_op \<Rightarrow> SDT option" where
  "sdt_step sdt (Append v) = SDT_append sdt v"
| "sdt_step sdt (Write off v) = SDT_write sdt off v"

fun sdt_run :: "SDT \<Rightarrow> sdt_op list \<Rightarrow> SDT option" where
  "sdt_run sdt [] = Some sdt"
| "sdt_run sdt (x # xs) = do { sdt \<leftarrow> sdt_step sdt x; sdt_run sdt xs }"

text \<open>The length field is written by \<open>append\<close> only.\<close>

fun keeps_length :: "sdt_op \<Rightarrow> bool" where
  "keeps_length (Append v) = True"
| "keeps_length (Write off v) = (off + length v \<le> LENGTH_OFFSET \<or> LENGTH_OFFSET + 4 \<le> off)"

fun appended :: "sdt_op \<Rightarrow> nat" where
  "appended (Append v) = length v"
| "appended (Write off v) = 0"

fun op_in_bounds :: "sdt_op \<Rightarrow> bool" where
  "op_in_bounds (Append v) = True"
| "op_in_bounds (Write off v) = (off + length v < 2 ^ 64)"

definition true_length :: "SDT \<Rightarrow> bool" where
  "true_length sdt \<longleftrightarrow> length_field sdt = of_nat (length (data sdt))"

lemma sdt_step_ok:
  assumes "sdt_ok sdt" "length (data sdt) + appended x < 2 ^ 64" "op_in_bounds x"
  shows "\<exists>sdt'. sdt_step sdt x = Some sdt' \<and> sdt_ok sdt'
    \<and> length (data sdt') = length (data sdt) + appended x
    \<and> (keeps_length x \<and> true_length sdt \<longrightarrow> true_length sdt')"
proof (cases x)
  case (Append v)
  let ?a = "sdt\<lparr>data := data sdt @ v\<rparr>" and ?v = "to_le 4 (of_nat (length (data sdt @ v)) :: u32)"
  have "36 \<le> length (data ?a)" "length (data ?a) < 2 ^ 64" "LENGTH_OFFSET + length ?v \<le> length (data ?a)"
    using assms Append by (simp_all add: sdt_ok_def LENGTH_OFFSET_def)
  from SDT_write_inside [OF this] obtain sdt' where s: "SDT_write ?a LENGTH_OFFSET ?v = Some sdt'"
    "sdt_ok sdt'" "length (data sdt') = length (data ?a)" and
    v: "LENGTH_OFFSET + length ?v \<le> CHECKSUM_OFFSET \<or> CHECKSUM_OFFSET < LENGTH_OFFSET \<Longrightarrow>
       take (length ?v) (drop LENGTH_OFFSET (data sdt')) = ?v" by blast
  have "length_field sdt' = from_le ?v"
    unfolding length_field_def using v by (simp add: LENGTH_OFFSET_def CHECKSUM_OFFSET_def)
  also have "\<dots> = of_nat (length (data sdt'))"
    using s(3) by (subst from_le_to_le) simp_all
  finally show ?thesis using s Append by (simp add: SDT_append_def Let_def true_length_def)
next
  case (Write off v)
  show ?thesis
  proof (cases "off + length v \<le> length (data sdt)")
    case True
    have "36 \<le> length (data sdt)" "length (data sdt) < 2 ^ 64"
      using assms(1,2) by (simp_all add: sdt_ok_def)
    from SDT_write_inside [OF this True] obtain sdt' where "SDT_write sdt off v = Some sdt'"
      "sdt_ok sdt'" "length (data sdt') = length (data sdt)"
      "off + length v \<le> LENGTH_OFFSET \<or> LENGTH_OFFSET + 4 \<le> off \<Longrightarrow> length_field sdt' = length_field sdt"
      by blast
    then show ?thesis using Write by (simp add: true_length_def)
  next
    case False
    then show ?thesis using assms Write by (simp add: SDT_write_def usize_add_def)
  qed
qed

lemma sdt_run_ok:
  "sdt_ok sdt \<Longrightarrow> length (data sdt) + sum_list (map appended xs) < 2 ^ 64 \<Longrightarrow> list_all op_in_bounds xs \<Longrightarrow>
   \<exists>sdt'. sdt_run sdt xs = Some sdt' \<and> sdt_ok sdt'
     \<and> length (data sdt') = length (data sdt) + sum_list (map appended xs)
     \<and> (list_all keeps_length xs \<and> true_length sdt \<longrightarrow> true_length sdt')"
proof (induction xs arbitrary: sdt)
  case (Cons x xs)
  obtain sdt1 where s: "sdt_step sdt x = Some sdt1" "sdt_ok sdt1"
    "length (data sdt1) = length (data sdt) + appended x"
    "keeps_length x \<and> true_length sdt \<longrightarrow> true_length sdt1"
    using sdt_step_ok [of sdt x] Cons.prems by auto
  then show ?case using Cons.IH [of sdt1] Cons.prems by (auto simp: add.assoc)
qed simp

lemma SDT_new_ok:
  assumes "length sig = 4" "length oem = 6" "length table = 8" "36 \<le> len"
  shows "\<exists>sdt. SDT_new sig len vsn oem table oem_rev = Some sdt \<and> sdt_ok sdt
    \<and> length (data sdt) = unat len \<and> true_length sdt"
proof -
  let ?h = "sig @ to_le 4 len @ [vsn, 0] @ oem @ table @ to_le 4 oem_rev @ str ''CROS'' @ to_le 4 (0 :: u32)"
  have h: "length ?h = 36" using assms by (simp add: str_def)
  have n: "36 \<le> unat len" using assms(4) by (simp add: word_le_nat_alt)
  have "length (data \<lparr>data = resize (unat len) ?h\<rparr>) = unat len"
    using h n by (simp add: resize_def)
  moreover from this n have "36 \<le> length (data \<lparr>data = resize (unat len) ?h\<rparr>)" by simp
  from update_checksum_ok [OF this] obtain sdt where
    u: "update_checksum \<lparr>data = resize (unat len) ?h\<rparr> = Some sdt" "sdt_ok sdt"
      "length (data sdt) = length (data \<lparr>data = resize (unat len) ?h\<rparr>)"
      "length_field sdt = length_field \<lparr>data = resize (unat len) ?h\<rparr>" by blast
  moreover have "SDT_new sig len vsn oem table oem_rev = update_checksum \<lparr>data = resize (unat len) ?h\<rparr>"
    using assms(4) leD [OF assms(4)] by (simp add: SDT_new_def HEADER_LEN_def Let_def)
  moreover have "length_field \<lparr>data = resize (unat len) ?h\<rparr> = len"
  proof -
    have "take 4 (drop 4 (resize (unat len) ?h)) = to_le 4 len"
      using h n assms(1) by (simp add: resize_def)
    then show ?thesis by (simp add: length_field_def LENGTH_OFFSET_def from_le_to_le)
  qed
  ultimately show ?thesis by (auto simp: true_length_def)
qed



text \<open>What is written and does not cover the checksum is read back.\<close>

theorem sdt_write_read:
  assumes "sdt_ok sdt" "length (data sdt) < 2 ^ 64" "off + length v \<le> length (data sdt)"
    and "off + length v \<le> CHECKSUM_OFFSET \<or> CHECKSUM_OFFSET < off" and "length dflt = length v"
  shows "\<exists>sdt'. SDT_write sdt off v = Some sdt' \<and> SDT_read dflt sdt' off = Some v"
proof -
  obtain sdt' where "SDT_write sdt off v = Some sdt'" "length (data sdt') = length (data sdt)"
    "take (length v) (drop off (data sdt')) = v"
    using SDT_write_inside [of sdt off v] assms by (auto simp: sdt_ok_def)
  then show ?thesis using assms by (auto simp: SDT_read_def usize_add_def)
qed

text \<open>
  A length below that of the header: the field says 36, but the table is cut off to the
  length that was asked for, in the middle of its header; below 10 bytes, the checksum is out of
  bounds and \<open>new\<close> panics.
\<close>

theorem sdt_new_short:
  assumes "length sig = 4" "length oem = 6" "length table = 8" and "len < 36"
  shows "if len < 10 then SDT_new sig len vsn oem table oem_rev = None
    else \<exists>sdt. SDT_new sig len vsn oem table oem_rev = Some sdt
      \<and> length (data sdt) = unat len \<and> length_field sdt = 36"
proof -
  let ?h = "sig @ to_le 4 (36 :: u32) @ [vsn, 0] @ oem @ table @ to_le 4 oem_rev @ str ''CROS'' @ to_le 4 (0 :: u32)"
  let ?s = "\<lparr>data = resize (unat len) ?h\<rparr>"
  have h: "length ?h = 36" using assms by (simp add: str_def)
  have n: "unat len < 36" "len < 10 \<longleftrightarrow> unat len < 10" using assms(4) by (simp_all add: word_less_nat_alt)
  have new: "SDT_new sig len vsn oem table oem_rev = update_checksum ?s"
    using assms(4) by (simp add: SDT_new_def HEADER_LEN_def Let_def)
  have d: "data ?s = take (unat len) ?h" using h n by (simp add: resize_def)
  show ?thesis
  proof (cases "len < 10")
    case True
    then show ?thesis using new n h d by (simp add: update_checksum_def CHECKSUM_OFFSET_def)
  next
    case False
    then have "CHECKSUM_OFFSET < length (data ?s)" using n h d by (simp add: CHECKSUM_OFFSET_def)
    then obtain sdt where u: "update_checksum ?s = Some sdt" "length (data sdt) = length (data ?s)"
      "\<And>i. i \<noteq> CHECKSUM_OFFSET \<Longrightarrow> data sdt ! i = data ?s ! i"
      using update_checksum_Some by blast
    have "take 4 (drop 4 (data sdt)) = take 4 (drop 4 (data ?s))"
      using u(2,3) False n h d by (intro nth_slice_eq) (auto simp: CHECKSUM_OFFSET_def)
    also have "\<dots> = to_le 4 (36 :: u32)" using False n d assms(1) by (simp add: take_drop)
    finally show ?thesis using False new u n h d
      by (simp add: length_field_def LENGTH_OFFSET_def from_le_to_le)
  qed
qed

text \<open>
  The root pointer is 36 bytes long, and both of its checksums are right: the first 20
  bytes, of which the first checksum leaves out the last, sum up to zero, and so do all.
\<close>

theorem rsdp_checksums:
  assumes "length oem = 6"
  shows "length (RSDP_bytes (RSDP_new oem xsdt)) = RSDP_len
    \<and> sum_list (take 20 (RSDP_bytes (RSDP_new oem xsdt))) = 0
    \<and> sum_list (RSDP_bytes (RSDP_new oem xsdt)) = 0"
proof -
  have z: "to_le 4 (0 :: u32) = [0, 0, 0, 0]" by (simp add: to_le_def upt_rec)
  show ?thesis
    using assms
    by (simp add: RSDP_new_def RSDP_bytes_def RSDP_len_def Let_def generate_checksum_eq z str_def
        numeral_3_eq_3)
qed

end
