(* ===== verification/Libc.thy ===== *)
theory Libc
  imports Prelude
begin

text \<open>
  What the server of \<open>jetstream/src/ufs\<close> takes from the operating system. The values of the
  \<open>libc\<close> constants and the behaviour of the system calls are not part of the repository: they
  are the fields of the record \<open>os\<close>, a parameter of every definition that uses them. The world
  that the calls act on is the type parameter \<open>'w\<close>.

  \<open>linux\<close> gives the constants their values on x86-64 Linux, for concrete runs.
\<close>

section \<open>Constants\<close>

datatype (plugins only: code) libc_const =
    ENOENT | EPERM | ECONNREFUSED | ECONNRESET | ECONNABORTED | ENOTCONN | EADDRINUSE
  | EADDRNOTAVAIL | EPIPE | EEXIST | EWOULDBLOCK | EINVAL | ETIMEDOUT | EIO | EINTR
  | EBADF | EOPNOTSUPP | ENOTDIR | EACCES | EISDIR
  | O_RDONLY | O_WRONLY | O_RDWR | O_CREAT | O_EXCL | O_NOCTTY | O_TRUNC | O_APPEND | O_NONBLOCK
  | O_DSYNC | O_DIRECT | O_LARGEFILE | O_DIRECTORY | O_NOFOLLOW | O_NOATIME | O_SYNC
  | O_PATH | O_CLOEXEC
  | S_IFMT | S_IFREG | S_IFDIR | S_IFLNK
  | AT_FDCWD | AT_SYMLINK_NOFOLLOW | AT_SYMLINK_FOLLOW | AT_EMPTY_PATH
  | UTIME_OMIT | UTIME_NOW | PATH_MAX | SEEK_SET

type_synonym libc = "libc_const \<Rightarrow> i32"

text \<open>\<open>RawFd\<close>: an open \<open>File\<close> is known by its descriptor.\<close>

type_synonym fd = i32

section \<open>Structures filled in by the kernel\<close>

record stat64 =
  st_mode :: u32
  st_ino :: u64
  st_nlink :: u64
  st_uid :: u32
  st_gid :: u32
  st_rdev :: u64
  st_size :: i64
  st_blksize :: i64
  st_blocks :: i64
  st_atime :: i64
  st_atime_nsec :: i64
  st_mtime :: i64
  st_mtime_nsec :: i64
  st_ctime :: i64
  st_ctime_nsec :: i64

record statfs64 =
  f_type :: i64
  f_bsize :: i64
  f_blocks :: u64
  f_bfree :: u64
  f_bavail :: u64
  f_files :: u64
  f_ffree :: u64
  f_fsid :: u64
  f_namelen :: i64

record timespec =
  tv_sec :: i64
  tv_nsec :: i64

section \<open>System calls\<close>

text \<open>
  A system call returns \<open>errno\<close> (a negative result, as \<open>syscall!\<close> tests it) or its value.
  \<open>getdents64 fd n\<close> returns the bytes it put into a buffer of \<open>n\<close> bytes, \<open>readlinkat\<close> the bytes
  of the link. \<open>read_at\<close>, \<open>write_at\<close>, \<open>set_len\<close>, \<open>sync_all\<close>, \<open>sync_data\<close> and \<open>try_clone\<close> are the
  methods of \<open>std::fs::File\<close>. \<open>with_capacity n\<close> is the capacity of \<open>Vec::with_capacity(n)\<close>, of
  which \<open>n\<close> is documented to be a lower bound.
\<close>

type_synonym ('w, 'a) syscall = "'w \<Rightarrow> (i32 + 'a) \<times> 'w"

record 'w os =
  libc :: libc
  openat64 :: "fd \<Rightarrow> bytes \<Rightarrow> i32 \<Rightarrow> u32 \<Rightarrow> ('w, fd) syscall"
  fstatat64 :: "fd \<Rightarrow> bytes \<Rightarrow> i32 \<Rightarrow> ('w, stat64) syscall"
  fstat64 :: "fd \<Rightarrow> ('w, stat64) syscall"
  fstatfs64 :: "fd \<Rightarrow> ('w, statfs64) syscall"
  readlinkat :: "fd \<Rightarrow> bytes \<Rightarrow> nat \<Rightarrow> ('w, bytes) syscall"
  fchmodat :: "fd \<Rightarrow> bytes \<Rightarrow> u32 \<Rightarrow> i32 \<Rightarrow> ('w, unit) syscall"
  fchownat :: "fd \<Rightarrow> bytes \<Rightarrow> u32 \<Rightarrow> u32 \<Rightarrow> i32 \<Rightarrow> ('w, unit) syscall"
  utimensat :: "fd \<Rightarrow> bytes \<Rightarrow> timespec \<times> timespec \<Rightarrow> i32 \<Rightarrow> ('w, unit) syscall"
  linkat :: "fd \<Rightarrow> bytes \<Rightarrow> fd \<Rightarrow> bytes \<Rightarrow> i32 \<Rightarrow> ('w, unit) syscall"
  mkdirat :: "fd \<Rightarrow> bytes \<Rightarrow> u32 \<Rightarrow> ('w, unit) syscall"
  renameat :: "fd \<Rightarrow> bytes \<Rightarrow> fd \<Rightarrow> bytes \<Rightarrow> ('w, unit) syscall"
  unlinkat :: "fd \<Rightarrow> bytes \<Rightarrow> i32 \<Rightarrow> ('w, unit) syscall"
  lseek64 :: "fd \<Rightarrow> i64 \<Rightarrow> i32 \<Rightarrow> ('w, unit) syscall"
  getdents64 :: "fd \<Rightarrow> nat \<Rightarrow> ('w, bytes) syscall"
  read_at :: "fd \<Rightarrow> nat \<Rightarrow> u64 \<Rightarrow> 'w \<Rightarrow> bytes io_result \<times> 'w"
  write_at :: "fd \<Rightarrow> bytes \<Rightarrow> u64 \<Rightarrow> 'w \<Rightarrow> nat io_result \<times> 'w"
  set_len :: "fd \<Rightarrow> u64 \<Rightarrow> 'w \<Rightarrow> unit io_result \<times> 'w"
  sync_all :: "fd \<Rightarrow> 'w \<Rightarrow> unit io_result \<times> 'w"
  sync_data :: "fd \<Rightarrow> 'w \<Rightarrow> unit io_result \<times> 'w"
  try_clone :: "fd \<Rightarrow> 'w \<Rightarrow> fd io_result \<times> 'w"
  with_capacity :: "nat \<Rightarrow> nat"

section \<open>x86-64 Linux\<close>

primrec linux :: libc where
  "linux ENOENT = 2" | "linux EPERM = 1" | "linux ECONNREFUSED = 111" | "linux ECONNRESET = 104"
| "linux ECONNABORTED = 103" | "linux ENOTCONN = 107" | "linux EADDRINUSE = 98"
| "linux EADDRNOTAVAIL = 99" | "linux EPIPE = 32" | "linux EEXIST = 17" | "linux EWOULDBLOCK = 11"
| "linux EINVAL = 22" | "linux ETIMEDOUT = 110" | "linux EIO = 5" | "linux EINTR = 4"
| "linux EBADF = 9" | "linux EOPNOTSUPP = 95" | "linux ENOTDIR = 20" | "linux EACCES = 13"
| "linux EISDIR = 21"
| "linux O_RDONLY = 0" | "linux O_WRONLY = 1" | "linux O_RDWR = 2" | "linux O_CREAT = 0x40"
| "linux O_EXCL = 0x80" | "linux O_NOCTTY = 0x100" | "linux O_TRUNC = 0x200"
| "linux O_APPEND = 0x400" | "linux O_NONBLOCK = 0x800" | "linux O_DSYNC = 0x1000"
| "linux O_DIRECT = 0x4000" | "linux O_LARGEFILE = 0" | "linux O_DIRECTORY = 0x10000"
| "linux O_NOFOLLOW = 0x20000" | "linux O_NOATIME = 0x40000" | "linux O_SYNC = 0x101000"
| "linux O_PATH = 0x200000" | "linux O_CLOEXEC = 0x80000"
| "linux S_IFMT = 0xF000" | "linux S_IFREG = 0x8000" | "linux S_IFDIR = 0x4000"
| "linux S_IFLNK = 0xA000"
| "linux AT_FDCWD = -100" | "linux AT_SYMLINK_NOFOLLOW = 0x100" | "linux AT_SYMLINK_FOLLOW = 0x400"
| "linux AT_EMPTY_PATH = 0x1000"
| "linux UTIME_OMIT = 0x3FFFFFFE" | "linux UTIME_NOW = 0x3FFFFFFF" | "linux PATH_MAX = 4096"
| "linux SEEK_SET = 0"

section \<open>A small system for concrete runs\<close>

text \<open>
  Everything but \<open>missing\<close> can be opened, as descriptor 7, and is a directory; every file holds
  five bytes. The world is the list of buffers that \<open>getdents64\<close> is going to return.
\<close>

definition sample_stat :: stat64 where
  "sample_stat =
     \<lparr>st_mode = 0x41ED, st_ino = 42, st_nlink = 2, st_uid = 1000, st_gid = 100, st_rdev = 0,
      st_size = 4096, st_blksize = 4096, st_blocks = 8, st_atime = 1, st_atime_nsec = 2,
      st_mtime = 3, st_mtime_nsec = 4, st_ctime = 5, st_ctime_nsec = 6\<rparr>"

definition sample_os :: "bytes list os" where
  "sample_os =
     \<lparr>libc = linux,
      openat64 = (\<lambda>d nm fl md w. (if nm = str ''missing'' then Inl 2 else Inr 7, w)),
      fstatat64 = (\<lambda>d nm fl w. (Inr sample_stat, w)),
      fstat64 = (\<lambda>f w. (Inr sample_stat, w)),
      fstatfs64 = (\<lambda>f w. (Inl 38, w)),
      readlinkat = (\<lambda>d nm n w. (Inl 22, w)),
      fchmodat = (\<lambda>d nm md fl w. (Inr (), w)),
      fchownat = (\<lambda>d nm u g fl w. (Inr (), w)),
      utimensat = (\<lambda>d nm ts fl w. (Inr (), w)),
      linkat = (\<lambda>d nm d' nm' fl w. (Inr (), w)),
      mkdirat = (\<lambda>d nm md w. (Inr (), w)),
      renameat = (\<lambda>d nm d' nm' w. (Inr (), w)),
      unlinkat = (\<lambda>d nm fl w. (Inr (), w)),
      lseek64 = (\<lambda>f off wh w. (Inr (), w)),
      getdents64 = (\<lambda>f n w. (case w of [] \<Rightarrow> (Inr [], []) | bs # w' \<Rightarrow> (Inr bs, w'))),
      read_at = (\<lambda>f n off w. (Ok (take n (str ''hello'')), w)),
      write_at = (\<lambda>f bs off w. (Ok (length bs), w)),
      set_len = (\<lambda>f n w. (Ok (), w)),
      sync_all = (\<lambda>f w. (Ok (), w)),
      sync_data = (\<lambda>f w. (Ok (), w)),
      try_clone = (\<lambda>f w. (Ok 8, w)),
      with_capacity = (\<lambda>n. n)\<rparr>"

end
