(* ===== verification/ReadDir.thy ===== *)
theory ReadDir
  imports Libc
begin

text \<open>
  The directory reader of \<open>jetstream/src/ufs/read_dir.rs\<close>: \<open>ReadDir\<close> holds what the last call of
  \<open>getdents64\<close> put into its buffer of 256 bytes, and \<open>ReadDir_next\<close> takes one \<open>LinuxDirent64\<close>
  record from it. The code trusts the kernel to lay the records out correctly and panics
  otherwise; the panics are the value \<open>None\<close>.
\<close>

section \<open>Definitions\<close>

record LinuxDirent64 =
  d_ino :: u64
  d_off :: i64
  d_reclen :: u16
  d_ty :: u8

definition size_of_LinuxDirent64 :: nat where
  "size_of_LinuxDirent64 = 19"

text \<open>The structure is packed, so every slice of its size is aligned.\<close>

definition from_slice :: "bytes \<Rightarrow> LinuxDirent64 option" where
  "from_slice data =
     (if length data \<noteq> size_of_LinuxDirent64 then None
      else Some \<lparr>d_ino = from_le (take 8 data), d_off = from_le (take 8 (drop 8 data)),
                 d_reclen = from_le (take 2 (drop 16 data)), d_ty = data ! 18\<rparr>)"

record DirEntry =
  ino :: u64
  offset :: u64
  type' :: u8
  name :: bytes

text \<open>
  \<open>buf\<close> are the bytes that the last \<open>getdents64\<close> wrote; what lies behind them in the array is
  never read.
\<close>

record ReadDir =
  buf :: bytes
  dir :: fd
  current :: nat
  end' :: nat

definition READ_DIR_BUF :: nat where
  "READ_DIR_BUF = 256"

definition strip_padding :: "bytes \<Rightarrow> bytes option" where
  "strip_padding b = (if 0 \<in> set b then Some (takeWhile (\<lambda>c. c \<noteq> 0) b) else None)"

definition read_dir :: "'w os \<Rightarrow> fd \<Rightarrow> i64 \<Rightarrow> 'w \<Rightarrow> ReadDir io_result \<times> 'w" where
  "read_dir os d off w =
     (case lseek64 os d off (libc os SEEK_SET) w of
        (Inl e, w') \<Rightarrow> (Err (Os e), w')
      | (Inr _, w') \<Rightarrow> (Ok \<lparr>buf = [], dir = d, current = 0, end' = 0\<rparr>, w'))"

text \<open>The call of \<open>getdents64\<close> that refills an exhausted buffer.\<close>

definition ReadDir_fill :: "'w os \<Rightarrow> ReadDir \<Rightarrow> 'w \<Rightarrow> ReadDir io_result \<times> 'w" where
  "ReadDir_fill os rd w =
     (if current rd \<ge> end' rd
      then (case getdents64 os (dir rd) READ_DIR_BUF w of
              (Inl e, w') \<Rightarrow> (Err (Os e), w')
            | (Inr bs, w') \<Rightarrow> (Ok (rd\<lparr>buf := bs, current := 0, end' := length bs\<rparr>), w'))
      else (Ok rd, w))"

text \<open>
  Taking an entry from the buffer: the outer option is a panic, the inner one the end of the
  directory.
\<close>

definition ReadDir_entry :: "ReadDir \<Rightarrow> (DirEntry option \<times> ReadDir) option" where
  "ReadDir_entry rd =
     (if end' rd > READ_DIR_BUF then None
      else let rem = drop (current rd) (take (end' rd) (buf rd)) in
        if rem = [] then Some (None, rd)
        else if length rem < size_of_LinuxDirent64 then None
        else case from_slice (take size_of_LinuxDirent64 rem) of
               None \<Rightarrow> None
             | Some dirent64 \<Rightarrow>
                 let back = drop size_of_LinuxDirent64 rem;
                     reclen = unat (d_reclen dirent64);
                     namelen = reclen - size_of_LinuxDirent64 in
                 if reclen < size_of_LinuxDirent64 \<or> namelen > length back then None
                 else case strip_padding (take namelen back) of
                        None \<Rightarrow> None
                      | Some nm \<Rightarrow>
                          Some (Some \<lparr>ino = d_ino dirent64, offset = d_off dirent64,
                                      type' = d_ty dirent64, name = nm\<rparr>,
                                rd\<lparr>current := current rd + reclen\<rparr>))"

definition ReadDir_next ::
    "'w os \<Rightarrow> ReadDir \<Rightarrow> 'w \<Rightarrow> (DirEntry option io_result \<times> ReadDir \<times> 'w) option" where
  "ReadDir_next os rd w =
     (case ReadDir_fill os rd w of
        (Inl e, w') \<Rightarrow> Some (Err e, rd, w')
      | (Inr rd', w') \<Rightarrow>
          (case ReadDir_entry rd' of
             None \<Rightarrow> None
           | Some (entry, rd'') \<Rightarrow> Some (Ok entry, rd'', w')))"

section \<open>Records as the kernel lays them out\<close>

text \<open>
  \<open>getdents64\<close> fills its buffer with records whose names end in a nul byte and are padded with
  more of them to a multiple of eight bytes. \<open>getdents_ok\<close> is that contract.
\<close>

definition dirent_reclen :: "DirEntry \<Rightarrow> nat" where
  "dirent_reclen e = (size_of_LinuxDirent64 + length (name e) + 8) div 8 * 8"

definition dirent_bytes :: "DirEntry \<Rightarrow> bytes" where
  "dirent_bytes e =
     to_le 8 (ino e) @ to_le 8 (offset e) @ to_le 2 (of_nat (dirent_reclen e) :: u16) @ [type' e] @
     name e @ replicate (dirent_reclen e - size_of_LinuxDirent64 - length (name e)) 0"

definition dirent_ok :: "DirEntry \<Rightarrow> bool" where
  "dirent_ok e \<longleftrightarrow> 0 \<notin> set (name e) \<and> dirent_reclen e \<le> READ_DIR_BUF"

definition getdents_ok :: "'w os \<Rightarrow> bool" where
  "getdents_ok os \<longleftrightarrow>
     (\<forall>f w bs w'. getdents64 os f READ_DIR_BUF w = (Inr bs, w') \<longrightarrow>
        length bs \<le> READ_DIR_BUF \<and> (\<exists>es. bs = concat (map dirent_bytes es) \<and> list_all dirent_ok es))"

text \<open>\<open>buffered rd es\<close>: the entries \<open>es\<close> are what is left in the buffer.\<close>

definition buffered :: "ReadDir \<Rightarrow> DirEntry list \<Rightarrow> bool" where
  "buffered rd es \<longleftrightarrow>
     end' rd \<le> READ_DIR_BUF \<and> end' rd \<le> length (buf rd) \<and> list_all dirent_ok es \<and>
     drop (current rd) (take (end' rd) (buf rd)) = concat (map dirent_bytes es)"

lemma dirent_reclen_bounds:
  "size_of_LinuxDirent64 + length (name e) < dirent_reclen e"
  unfolding dirent_reclen_def by presburger

lemma length_dirent_bytes [simp]: "length (dirent_bytes e) = dirent_reclen e"
  using dirent_reclen_bounds [of e] by (simp add: dirent_bytes_def size_of_LinuxDirent64_def)

lemma dirent_bytes_not_Nil [simp]: "dirent_bytes e \<noteq> []"
  by (simp add: dirent_bytes_def)

lemma strip_padding_name:
  assumes "0 \<notin> set nm" and "0 < k"
  shows "strip_padding (nm @ replicate k 0) = Some nm"
proof -
  have "takeWhile (\<lambda>c. c \<noteq> 0) (nm @ replicate k 0) = nm @ takeWhile (\<lambda>c. c \<noteq> 0) (replicate k (0 :: u8))"
    using assms(1) by (intro takeWhile_append2) auto
  with assms(2) show ?thesis by (simp add: strip_padding_def)
qed

lemma from_slice_bytes:
  fixes a b :: u64 and c :: u16
  shows "from_slice (to_le 8 a @ to_le 8 b @ to_le 2 c @ [d]) =
     Some \<lparr>d_ino = a, d_off = b, d_reclen = c, d_ty = d\<rparr>"
  by (simp add: from_slice_def size_of_LinuxDirent64_def from_le_to_le nth_append)

lemma ReadDir_entry_record:
  assumes rem: "drop (current rd) (take (end' rd) (buf rd)) = dirent_bytes e @ rest"
    and e: "dirent_ok e" and bound: "end' rd \<le> READ_DIR_BUF"
  shows "ReadDir_entry rd = Some (Some e, rd\<lparr>current := current rd + dirent_reclen e\<rparr>)"
proof -
  let ?h = "to_le 8 (ino e) @ to_le 8 (offset e) @ to_le 2 (of_nat (dirent_reclen e) :: u16) @ [type' e]"
  let ?pad = "dirent_reclen e - size_of_LinuxDirent64 - length (name e)"
  have h: "length ?h = size_of_LinuxDirent64" by (simp add: size_of_LinuxDirent64_def)
  have pad: "0 < ?pad" using dirent_reclen_bounds [of e] by simp
  have rem': "drop (current rd) (take (end' rd) (buf rd)) = ?h @ (name e @ replicate ?pad 0) @ rest"
    using rem by (simp add: dirent_bytes_def)
  have reclen: "unat (of_nat (dirent_reclen e) :: u16) = dirent_reclen e"
    using e by (intro unat_of_nat_small) (simp add: dirent_ok_def READ_DIR_BUF_def)
  have len: "length (name e @ replicate ?pad 0) = dirent_reclen e - size_of_LinuxDirent64"
    using dirent_reclen_bounds [of e] by simp
  show ?thesis
    unfolding ReadDir_entry_def Let_def rem'
    using bound e pad reclen len h strip_padding_name [of "name e" ?pad] dirent_reclen_bounds [of e]
    by (simp add: from_slice_bytes dirent_ok_def del: append_assoc)
qed


section \<open>Iterating over a directory\<close>

lemma buffered_exhausted:
  assumes "buffered rd es"
  shows "current rd \<ge> end' rd \<longleftrightarrow> es = []"
proof -
  from assms have rem: "drop (current rd) (take (end' rd) (buf rd)) = concat (map dirent_bytes es)"
    and "end' rd \<le> length (buf rd)" by (simp_all add: buffered_def)
  then have "end' rd - current rd = length (concat (map dirent_bytes es))"
    unfolding rem [symmetric] by simp
  moreover have "concat (map dirent_bytes es) = [] \<longleftrightarrow> es = []" by (cases es) auto
  ultimately show ?thesis by (metis diff_is_0_eq length_0_conv)
qed

lemma ReadDir_entry_Nil:
  assumes "buffered rd []"
  shows "ReadDir_entry rd = Some (None, rd)"
  using assms by (auto simp: buffered_def ReadDir_entry_def Let_def)

lemma ReadDir_entry_Cons:
  assumes "buffered rd (e # es)"
  shows "\<exists>rd'. ReadDir_entry rd = Some (Some e, rd') \<and> buffered rd' es \<and> dir rd' = dir rd"
proof -
  let ?rd' = "rd\<lparr>current := current rd + dirent_reclen e\<rparr>"
  have rem: "drop (current rd) (take (end' rd) (buf rd)) = dirent_bytes e @ concat (map dirent_bytes es)"
    using assms by (simp add: buffered_def)
  have "drop (current rd + dirent_reclen e) (take (end' rd) (buf rd)) =
      drop (dirent_reclen e) (drop (current rd) (take (end' rd) (buf rd)))"
    by (simp add: add.commute)
  also have "\<dots> = concat (map dirent_bytes es)" unfolding rem by simp
  finally have "buffered ?rd' es" using assms by (simp add: buffered_def)
  moreover have "ReadDir_entry rd = Some (Some e, ?rd')"
    using assms by (intro ReadDir_entry_record [OF rem]) (simp_all add: buffered_def)
  ultimately show ?thesis by auto
qed

lemma ReadDir_next_buffered:
  assumes "buffered rd (e # es)"
  shows "\<exists>rd'. ReadDir_next os rd w = Some (Ok (Some e), rd', w) \<and> buffered rd' es \<and> dir rd' = dir rd"
proof -
  have "ReadDir_fill os rd w = (Ok rd, w)"
    using buffered_exhausted [OF assms] by (simp add: ReadDir_fill_def)
  with ReadDir_entry_Cons [OF assms] show ?thesis by (auto simp: ReadDir_next_def)
qed

lemma ReadDir_next_refill:
  assumes "buffered rd []" and "getdents64 os (dir rd) READ_DIR_BUF w = (Inr (concat (map dirent_bytes es)), w')"
    and "list_all dirent_ok es" and "length (concat (map dirent_bytes es)) \<le> READ_DIR_BUF"
  obtains rd' where "buffered rd' es" and "dir rd' = dir rd"
    and "ReadDir_fill os rd w = (Ok rd', w')"
proof
  let ?bs = "concat (map dirent_bytes es)"
  let ?rd' = "rd\<lparr>buf := ?bs, current := 0, end' := length ?bs\<rparr>"
  show "buffered ?rd' es" using assms(3,4) by (simp add: buffered_def)
  show "dir ?rd' = dir rd" by simp
  show "ReadDir_fill os rd w = (Ok ?rd', w')"
    using assms(2) buffered_exhausted [OF assms(1)] by (simp add: ReadDir_fill_def)
qed

text \<open>
  \<open>kernel_dir os f w es w'\<close>: from the world \<open>w\<close> on, the calls of \<open>getdents64\<close> on \<open>f\<close> hand out the
  entries \<open>es\<close>, some at a time, until one hands out none. \<open>drains os rd w es w'\<close>: the calls of
  \<open>next\<close> return the entries \<open>es\<close>, one at a time, until one returns none.
\<close>

inductive kernel_dir :: "'w os \<Rightarrow> fd \<Rightarrow> 'w \<Rightarrow> DirEntry list \<Rightarrow> 'w \<Rightarrow> bool" for os f where
  kernel_end: "getdents64 os f READ_DIR_BUF w = (Inr [], w') \<Longrightarrow> kernel_dir os f w [] w'"
| kernel_chunk: "getdents64 os f READ_DIR_BUF w = (Inr (concat (map dirent_bytes (e # es))), w1) \<Longrightarrow>
    list_all dirent_ok (e # es) \<Longrightarrow> length (concat (map dirent_bytes (e # es))) \<le> READ_DIR_BUF \<Longrightarrow>
    kernel_dir os f w1 ess w' \<Longrightarrow> kernel_dir os f w (e # es @ ess) w'"

inductive drains :: "'w os \<Rightarrow> ReadDir \<Rightarrow> 'w \<Rightarrow> DirEntry list \<Rightarrow> 'w \<Rightarrow> bool" for os where
  drains_end: "ReadDir_next os rd w = Some (Ok None, rd', w') \<Longrightarrow> drains os rd w [] w'"
| drains_entry: "ReadDir_next os rd w = Some (Ok (Some e), rd', w1) \<Longrightarrow> drains os rd' w1 es w' \<Longrightarrow>
    drains os rd w (e # es) w'"

lemma drains_buffered:
  assumes "\<And>rd'. buffered rd' [] \<Longrightarrow> dir rd' = dir rd \<Longrightarrow> drains os rd' w ess w'"
    and "buffered rd es"
  shows "drains os rd w (es @ ess) w'"
  using assms
proof (induction es arbitrary: rd)
  case (Cons e es)
  from ReadDir_next_buffered [OF Cons.prems(2), of os w] obtain rd' where
    rd': "ReadDir_next os rd w = Some (Ok (Some e), rd', w)" "buffered rd' es" "dir rd' = dir rd"
    by blast
  have "drains os rd' w (es @ ess) w'"
    by (rule Cons.IH [OF _ rd'(2)]) (simp add: Cons.prems(1) rd'(3))
  from drains_entry [OF rd'(1) this] show ?case by simp
next
  case Nil
  from Nil.prems(1) [OF Nil.prems(2) refl] show ?case by simp
qed

lemma kernel_dir_drains:
  assumes "kernel_dir os f w es w'" and "buffered rd []" and "dir rd = f"
  shows "drains os rd w es w'"
  using assms
proof (induction arbitrary: rd rule: kernel_dir.induct)
  case (kernel_end w w')
  obtain rd' where "buffered rd' []" "ReadDir_fill os rd w = (Ok rd', w')"
    using kernel_end by (auto intro: ReadDir_next_refill [of rd os w "[]" w'])
  then have "ReadDir_next os rd w = Some (Ok None, rd', w')"
    by (simp add: ReadDir_next_def ReadDir_entry_Nil)
  then show ?case by (rule drains_end)
next
  case (kernel_chunk w e es w1 ess w')
  from kernel_chunk.prems kernel_chunk.hyps(1-3) obtain rd1 where
    rd1: "buffered rd1 (e # es)" "dir rd1 = f" "ReadDir_fill os rd w = (Ok rd1, w1)"
    by (metis ReadDir_next_refill [of rd os w "e # es" w1])
  from ReadDir_entry_Cons [OF rd1(1)] obtain rd2 where
    rd2: "ReadDir_entry rd1 = Some (Some e, rd2)" "buffered rd2 es" "dir rd2 = f"
    using rd1(2) by auto
  have "drains os rd2 w1 (es @ ess) w'"
    by (rule drains_buffered [OF _ rd2(2)]) (simp add: kernel_chunk.IH rd2(3))
  moreover have "ReadDir_next os rd w = Some (Ok (Some e), rd2, w1)"
    using rd1(3) rd2(1) by (simp add: ReadDir_next_def)
  ultimately show ?case by (intro drains_entry)
qed


lemma ReadDir_next_returns:
  assumes "getdents_ok os" and "buffered rd es"
  shows "\<exists>r rd' w' es'. ReadDir_next os rd w = Some (r, rd', w') \<and> buffered rd' es'"
proof (cases es)
  case (Cons e es')
  with assms(2) ReadDir_next_buffered [of rd e es' os w] show ?thesis by auto
next
  case Nil
  show ?thesis
  proof (cases "getdents64 os (dir rd) READ_DIR_BUF w")
    case (Pair x w')
    show ?thesis
    proof (cases x)
      case (Inl e)
      have "ReadDir_next os rd w = Some (Err (Os e), rd, w')"
        using Pair Inl Nil buffered_exhausted [OF assms(2)]
        by (simp add: ReadDir_next_def ReadDir_fill_def)
      with assms(2) show ?thesis by auto
    next
      case (Inr bs)
      from assms(1) Pair Inr obtain ds where
        ds: "length bs \<le> READ_DIR_BUF" "bs = concat (map dirent_bytes ds)" "list_all dirent_ok ds"
        unfolding getdents_ok_def by metis
      from assms(2) Nil have "buffered rd []" by simp
      from ReadDir_next_refill [OF this Pair [unfolded Inr ds(2)] ds(3)] ds(1,2)
      obtain rd' where rd': "buffered rd' ds" "ReadDir_fill os rd w = (Ok rd', w')" by metis
      show ?thesis
      proof (cases ds)
        case Nil
        with rd' show ?thesis by (auto simp: ReadDir_next_def ReadDir_entry_Nil)
      next
        case (Cons d ds')
        with rd' ReadDir_entry_Cons [of rd' d ds'] show ?thesis by (auto simp: ReadDir_next_def)
      qed
    qed
  qed
qed

lemma read_dir_buffered:
  assumes "read_dir os f off w = (Ok rd, w')"
  shows "buffered rd [] \<and> dir rd = f"
  using assms by (auto simp: read_dir_def buffered_def split: prod.splits sum.splits)

text \<open>
  C38. The directory reader returns every entry that the kernel hands out, with its inode, offset,
  type and name, in the order and number the kernel gives them, and then reports the end.
\<close>

theorem read_dir_lists:
  assumes "read_dir os f off w = (Ok rd, w1)" and "kernel_dir os f w1 es w'"
  shows "drains os rd w1 es w'"
  using kernel_dir_drains [OF assms(2)] read_dir_buffered [OF assms(1)] by blast

theorem read_dir_lists_witness:
  "drains sample_os \<lparr>buf = [], dir = 7, current = 0, end' = 0\<rparr>
     [dirent_bytes \<lparr>ino = 1, offset = 10, type' = 4, name = str ''a''\<rparr>]
     [\<lparr>ino = 1, offset = 10, type' = 4, name = str ''a''\<rparr>] []"
proof -
  let ?e = "\<lparr>ino = 1, offset = 10, type' = 4, name = str ''a''\<rparr>"
  have "read_dir sample_os 7 0 [dirent_bytes ?e] =
      (Ok \<lparr>buf = [], dir = 7, current = 0, end' = 0\<rparr>, [dirent_bytes ?e])"
    by (simp add: read_dir_def sample_os_def)
  moreover have "kernel_dir sample_os 7 [] [] []"
    by (rule kernel_end) (simp add: sample_os_def)
  then have "kernel_dir sample_os 7 [dirent_bytes ?e] (?e # [] @ []) []"
    by (rule kernel_chunk [rotated 3])
      (simp_all add: sample_os_def dirent_ok_def dirent_reclen_def READ_DIR_BUF_def
        size_of_LinuxDirent64_def str_def)
  ultimately show ?thesis using read_dir_lists [of sample_os 7 0] by simp
qed

end
