(* ===== verification/WireFormat.thy ===== *)
theory WireFormat
  imports Prelude
begin

text \<open>
  The trait \<open>WireFormat\<close> of \<open>jetstream/src/coding/wire_format.rs\<close> and its implementations for
  the integers, \<open>String\<close>, \<open>Vec<T>\<close>, \<open>Data\<close>, \<open>Option<T>\<close> and \<open>()\<close>, and the byte conversions of
  \<open>wire_format_extensions.rs\<close>.

  A type's three methods are three definitions: \<open>byte_size_T\<close>, \<open>encode_T\<close> (into a growing
  \<open>Vec<u8>\<close>) and \<open>decode_T\<close>. The contract of the trait is the locale \<open>wire_format\<close>, whose
  clients (\<open>Vec<T>\<close>, \<open>to_bytes\<close>, \<open>from_bytes\<close>, a stream of values) are proved once for any
  implementation; each implementation is an interpretation.
\<close>

unbundle bit_operations_syntax

section \<open>Definitions\<close>

subsection \<open>Integers\<close>

text \<open>
  \<open>uint_wire_format_impl!\<close>: the value's bytes in memory order on encoding, a little-endian
  read on decoding. The model is of a little-endian target, where the two agree.
\<close>

definition byte_size_uint :: "nat \<Rightarrow> 'a::len word \<Rightarrow> u32" where
  "byte_size_uint k x = of_nat k"

definition encode_uint :: "nat \<Rightarrow> 'a::len word \<Rightarrow> unit writer" where
  "encode_uint k x = write_all (to_le k x)"

definition decode_uint :: "nat \<Rightarrow> 'a::len word reader" where
  "decode_uint k = io_bind (read_exact k) (\<lambda>buf. io_return (from_le buf))"

definition byte_size_u16 :: "u16 \<Rightarrow> u32" where "byte_size_u16 = byte_size_uint 2"
definition encode_u16 :: "u16 \<Rightarrow> unit writer" where "encode_u16 = encode_uint 2"
definition decode_u16 :: "u16 reader" where "decode_u16 = decode_uint 2"

definition byte_size_u32 :: "u32 \<Rightarrow> u32" where "byte_size_u32 = byte_size_uint 4"
definition encode_u32 :: "u32 \<Rightarrow> unit writer" where "encode_u32 = encode_uint 4"
definition decode_u32 :: "u32 reader" where "decode_u32 = decode_uint 4"

definition byte_size_u64 :: "u64 \<Rightarrow> u32" where "byte_size_u64 = byte_size_uint 8"
definition encode_u64 :: "u64 \<Rightarrow> unit writer" where "encode_u64 = encode_uint 8"
definition decode_u64 :: "u64 reader" where "decode_u64 = decode_uint 8"

definition byte_size_i32 :: "i32 \<Rightarrow> u32" where "byte_size_i32 = byte_size_uint 4"
definition encode_i32 :: "i32 \<Rightarrow> unit writer" where "encode_i32 = encode_uint 4"
definition decode_i32 :: "i32 reader" where "decode_i32 = decode_uint 4"

definition byte_size_u8 :: "u8 \<Rightarrow> u32" where
  "byte_size_u8 x = 1"

definition encode_u8 :: "u8 \<Rightarrow> unit writer" where
  "encode_u8 x = write_all [x]"

definition decode_u8 :: "u8 reader" where
  "decode_u8 = io_bind (read_exact 1) (\<lambda>byte. io_return (byte ! 0))"

subsection \<open>\<open>String\<close>\<close>

definition byte_size_String :: "bytes \<Rightarrow> u32" where
  "byte_size_String s = of_nat (2 + length s)"

definition encode_String :: "bytes \<Rightarrow> unit writer" where
  "encode_String s =
     (if length s > 65535 then io_fail (Kind InvalidInput)
      else io_then (encode_u16 (of_nat (length s))) (write_all s))"

definition decode_String :: "bytes reader" where
  "decode_String = io_bind decode_u16 (\<lambda>len. io_take (unat len) read_to_string)"

subsection \<open>\<open>Vec<T>\<close>\<close>

definition byte_size_Vec :: "('a \<Rightarrow> u32) \<Rightarrow> 'a list \<Rightarrow> u32" where
  "byte_size_Vec byte_size xs = 2 + sum_list (map byte_size xs)"

fun encode_each :: "('a \<Rightarrow> unit writer) \<Rightarrow> 'a list \<Rightarrow> unit writer" where
  "encode_each encode [] = io_return ()"
| "encode_each encode (x # xs) = io_then (encode x) (encode_each encode xs)"

definition encode_Vec :: "('a \<Rightarrow> unit writer) \<Rightarrow> 'a list \<Rightarrow> unit writer" where
  "encode_Vec encode xs =
     (if length xs > 65535 then io_fail (Kind InvalidInput)
      else io_then (encode_u16 (of_nat (length xs))) (encode_each encode xs))"

fun decode_times :: "'a reader \<Rightarrow> nat \<Rightarrow> 'a list reader" where
  "decode_times decode 0 = io_return []"
| "decode_times decode (Suc n) =
     io_bind decode (\<lambda>x. io_bind (decode_times decode n) (\<lambda>xs. io_return (x # xs)))"

definition decode_Vec :: "'a reader \<Rightarrow> 'a list reader" where
  "decode_Vec decode = io_bind decode_u16 (\<lambda>len. decode_times decode (unat len))"

subsection \<open>\<open>Data\<close>\<close>

datatype Data = Data (data_bytes: bytes)

definition MAX_DATA_LENGTH :: u32 where
  "MAX_DATA_LENGTH = 32 * 1024 * 1024"

definition byte_size_Data :: "Data \<Rightarrow> u32" where
  "byte_size_Data d = 4 + sum_list (map byte_size_u8 (data_bytes d))"

definition encode_Data :: "Data \<Rightarrow> unit writer" where
  "encode_Data d =
     (if length (data_bytes d) > 0xFFFFFFFF then io_fail (Kind InvalidInput)
      else io_then (encode_u32 (of_nat (length (data_bytes d)))) (write_all (data_bytes d)))"

definition decode_Data :: "Data reader" where
  "decode_Data =
     io_bind decode_u32 (\<lambda>len.
       if len > MAX_DATA_LENGTH then io_fail (Kind InvalidData)
       else io_bind (io_take (unat len) read_to_end) (\<lambda>buf.
         if length buf = unat len then io_return (Data buf)
         else io_fail (Kind UnexpectedEof)))"

subsection \<open>\<open>Option<T>\<close> and the unit type\<close>

definition byte_size_Option :: "('a \<Rightarrow> u32) \<Rightarrow> 'a option \<Rightarrow> u32" where
  "byte_size_Option byte_size x = (case x of Some v \<Rightarrow> byte_size v | None \<Rightarrow> 0)"

definition encode_Option :: "('a \<Rightarrow> unit writer) \<Rightarrow> 'a option \<Rightarrow> unit writer" where
  "encode_Option encode x = (case x of Some v \<Rightarrow> encode v | None \<Rightarrow> io_return ())"

definition decode_Option :: "'a reader \<Rightarrow> 'a option reader" where
  "decode_Option decode = io_bind decode (\<lambda>v. io_return (Some v))"

definition byte_size_unit :: "unit \<Rightarrow> u32" where "byte_size_unit x = 0"
definition encode_unit :: "unit \<Rightarrow> unit writer" where "encode_unit x = io_return ()"
definition decode_unit :: "unit reader" where "decode_unit = io_return ()"

subsection \<open>Conversion to and from bytes\<close>

text \<open>\<open>to_bytes\<close> panics (\<open>None\<close>) when the value cannot be encoded.\<close>

definition to_bytes :: "('a \<Rightarrow> unit writer) \<Rightarrow> 'a \<Rightarrow> bytes option" where
  "to_bytes encode x = (case encode x [] of (Inl e, _) \<Rightarrow> None | (Inr _, buf) \<Rightarrow> Some buf)"

definition from_bytes :: "'a reader \<Rightarrow> bytes \<Rightarrow> 'a io_result" where
  "from_bytes decode buf = fst (decode buf)"

section \<open>The contract of \<open>WireFormat\<close>\<close>

text \<open>The bytes an encoder puts into an empty \<open>Vec<u8>\<close>.\<close>

definition payload :: "('a \<Rightarrow> unit writer) \<Rightarrow> 'a \<Rightarrow> bytes" where
  "payload encode x = snd (encode x [])"

text \<open>
  \<open>wf\<close> are the values that fit the wire format. Encoding such a value appends its payload to
  the writer, \<open>byte_size\<close> is the length of the payload (modulo the width of \<open>u32\<close>), decoding
  the payload gives the value back and leaves the rest of the reader (\<open>wire_codec\<close>). For all types
  but \<open>Tframe\<close>, moreover, every value that comes out of the decoder fits and has consumed as
  many bytes as its own encoding has (\<open>wire_format\<close>).
\<close>

locale wire_codec =
  fixes byte_size :: "'a \<Rightarrow> u32"
    and encode :: "'a \<Rightarrow> unit writer"
    and decode :: "'a reader"
    and wf :: "'a \<Rightarrow> bool"
  assumes encode_appends: "wf x \<Longrightarrow> encode x w = (Ok (), w @ payload encode x)"
    and byte_size_payload: "wf x \<Longrightarrow> byte_size x = of_nat (length (payload encode x))"
    and decode_payload: "wf x \<Longrightarrow> decode (payload encode x @ r) = (Ok x, r)"
begin

text \<open>Encodings are prefix-free, so a stream of values has one reading.\<close>

lemma payload_prefix_free:
  assumes "wf x" "wf y" "payload encode x @ r = payload encode y @ s"
  shows "x = y \<and> r = s"
proof -
  have "(Ok x, r) = decode (payload encode x @ r)" by (rule decode_payload [OF assms(1), symmetric])
  also have "\<dots> = decode (payload encode y @ s)" by (rule arg_cong [OF assms(3)])
  also have "\<dots> = (Ok y, s)" by (rule decode_payload [OF assms(2)])
  finally show ?thesis by simp
qed

lemma payload_inj: "wf x \<Longrightarrow> wf y \<Longrightarrow> payload encode x = payload encode y \<Longrightarrow> x = y"
  using payload_prefix_free [of x y "[]" "[]"] by simp

lemma bytes_roundtrip:
  "wf x \<Longrightarrow> to_bytes encode x = Some (payload encode x) \<and> from_bytes decode (payload encode x) = Ok x"
  using decode_payload [of x "[]"] by (simp add: to_bytes_def from_bytes_def encode_appends)

lemma encode_each_appends:
  "list_all wf xs \<Longrightarrow> encode_each encode xs w = (Ok (), w @ concat (map (payload encode) xs))"
  by (induction xs arbitrary: w) (simp_all add: io_simps encode_appends)

lemma decode_times_payload:
  "list_all wf xs \<Longrightarrow>
     decode_times decode (length xs) (concat (map (payload encode) xs) @ r) = (Ok xs, r)"
  by (induction xs) (simp_all add: io_simps decode_payload)

lemma sum_byte_size:
  "list_all wf xs \<Longrightarrow>
     sum_list (map byte_size xs) = of_nat (length (concat (map (payload encode) xs)))"
  by (induction xs) (simp_all add: byte_size_payload)

end

locale wire_format = wire_codec +
  assumes decode_decodes: "decodes (\<lambda>x n. wf x \<and> n = length (payload encode x)) decode"
begin

lemma reencode:
  assumes "decode r = (Ok x, r')"
  shows "encode x w = (Ok (), w @ payload encode x) \<and> decode (payload encode x @ q) = (Ok x, q)"
  by (rule decodesD [OF decode_decodes assms]) (simp add: encode_appends decode_payload)

lemma decodes_times:
  "decodes (\<lambda>xs k. length xs = n \<and> list_all wf xs \<and> k = length (concat (map (payload encode) xs)))
     (decode_times decode n)"
proof (induction n)
  case 0
  show ?case by (auto intro: decodes_return)
next
  case (Suc n)
  show ?case
    by (auto intro!: decodes_bind [OF decode_decodes] decodes_bind [OF Suc] decodes_return)
qed

end

section \<open>The integers keep the contract\<close>

lemma encode_uint_apply: "encode_uint k x w = (Ok (), w @ to_le k x)"
  by (simp add: encode_uint_def io_simps)

lemma decode_uint_append:
  "8 * k = LENGTH('a) \<Longrightarrow> decode_uint k (to_le k (x :: 'a::len word) @ r) = (Ok x, r)"
  by (simp add: decode_uint_def io_simps from_le_to_le)

lemma payload_uint: "payload (encode_uint k) x = to_le k x"
  by (simp add: payload_def encode_uint_apply)

lemma decodes_uint: "decodes (\<lambda>x n. n = k) (decode_uint k)"
  unfolding decode_uint_def
  by (rule decodes_bind [OF decodes_read_exact]) (rule decodes_return, simp)

lemma wire_format_uint:
  assumes "8 * k = LENGTH('a::len)"
  shows "wire_format (byte_size_uint k) (encode_uint k) (decode_uint k :: 'a word reader) (\<lambda>_. True)"
  by standard
    (simp_all add: payload_uint encode_uint_apply byte_size_uint_def decode_uint_append assms decodes_uint)

interpretation u16: wire_format byte_size_u16 encode_u16 decode_u16 "\<lambda>_. True"
  unfolding byte_size_u16_def encode_u16_def decode_u16_def by (rule wire_format_uint) simp

interpretation u32: wire_format byte_size_u32 encode_u32 decode_u32 "\<lambda>_. True"
  unfolding byte_size_u32_def encode_u32_def decode_u32_def by (rule wire_format_uint) simp

interpretation u64: wire_format byte_size_u64 encode_u64 decode_u64 "\<lambda>_. True"
  unfolding byte_size_u64_def encode_u64_def decode_u64_def by (rule wire_format_uint) simp

interpretation i32: wire_format byte_size_i32 encode_i32 decode_i32 "\<lambda>_. True"
  unfolding byte_size_i32_def encode_i32_def decode_i32_def by (rule wire_format_uint) simp

interpretation u8: wire_format byte_size_u8 encode_u8 decode_u8 "\<lambda>_. True"
proof
  show "decodes (\<lambda>x n. True \<and> n = length (payload encode_u8 x)) decode_u8"
    unfolding decode_u8_def
    by (rule decodes_bind [OF decodes_read_exact])
      (rule decodes_return, simp add: payload_def encode_u8_def io_simps)
  show "decode_u8 (payload encode_u8 x @ r) = (Ok x, r)" for x r
    using read_exact_append [of "[x]" 1 r]
    by (simp add: decode_u8_def encode_u8_def payload_def io_simps)
qed (simp_all add: encode_u8_def byte_size_u8_def payload_def io_simps)

section \<open>\<open>String\<close>, \<open>Data\<close> and the unit type keep it on the values they can carry\<close>

definition wf_String :: "bytes \<Rightarrow> bool" where
  "wf_String s \<longleftrightarrow> length s \<le> 65535 \<and> utf8_valid s"

definition wf_Data :: "Data \<Rightarrow> bool" where
  "wf_Data d \<longleftrightarrow> length (data_bytes d) \<le> unat MAX_DATA_LENGTH"

lemma unat_MAX_DATA_LENGTH [simp]: "unat MAX_DATA_LENGTH = 33554432"
  by (simp add: MAX_DATA_LENGTH_def)

lemma unat_of_nat_u16 [simp]: "n \<le> 65535 \<Longrightarrow> unat (of_nat n :: u16) = n"
  by (simp add: unat_of_nat)

lemma unat_of_nat_u32 [simp]: "n < 4294967296 \<Longrightarrow> unat (of_nat n :: u32) = n"
  by (simp add: unat_of_nat)

lemma decodes_read_to_string: "decodes (\<lambda>s k. k = length s \<and> utf8_valid s) read_to_string"
  by (auto simp: decodes_def read_to_string_def)

lemma decodes_read_to_end: "decodes (\<lambda>s k. k = length s) read_to_end"
  by (auto simp: decodes_def read_to_end_def)

lemma length_payload_u16 [simp]: "length (payload encode_u16 x) = 2"
  by (simp add: encode_u16_def payload_uint)

lemma length_payload_u32 [simp]: "length (payload encode_u32 x) = 4"
  by (simp add: encode_u32_def payload_uint)

lemma length_payload_u64 [simp]: "length (payload encode_u64 x) = 8"
  by (simp add: encode_u64_def payload_uint)

lemma length_payload_u8 [simp]: "length (payload encode_u8 x) = 1"
  by (simp add: encode_u8_def payload_def io_simps)

lemma encode_String_payload:
  assumes "wf_String s"
  shows "encode_String s w = (Ok (), w @ payload encode_u16 (of_nat (length s)) @ s)"
  using assms by (simp add: wf_String_def encode_String_def io_simps u16.encode_appends)

lemma payload_String:
  "wf_String s \<Longrightarrow> payload encode_String s = payload encode_u16 (of_nat (length s)) @ s"
  by (simp add: payload_def [of encode_String] encode_String_payload)

interpretation String: wire_format byte_size_String encode_String decode_String wf_String
proof
  fix s w r assume s: "wf_String s"
  show "encode_String s w = (Ok (), w @ payload encode_String s)"
    using s by (simp add: encode_String_payload payload_String)
  show "byte_size_String s = of_nat (length (payload encode_String s))"
    using s by (simp add: byte_size_String_def payload_String)
  have "io_take (length s) read_to_string (s @ r) = (Ok s, r)"
    using s by (simp add: wf_String_def io_take_def read_to_string_def)
  then show "decode_String (payload encode_String s @ r) = (Ok s, r)"
    using s by (simp add: wf_String_def payload_String decode_String_def u16.decode_payload io_simps)
next
  show "decodes (\<lambda>s n. wf_String s \<and> n = length (payload encode_String s)) decode_String"
    unfolding decode_String_def
  proof (rule decodes_bind [OF u16.decode_decodes])
    fix len :: u16 and k
    assume "True \<and> k = length (payload encode_u16 len)"
    moreover have "unat len \<le> 65535" using unat_lt [of len] by simp
    ultimately show "decodes (\<lambda>s n. wf_String s \<and> k + n = length (payload encode_String s))
        (io_take (unat len) read_to_string)"
      by (intro decodes_weaken [OF decodes_take [OF decodes_read_to_string]])
        (auto simp: wf_String_def payload_String)
  qed
qed

lemma sum_byte_size_u8: "sum_list (map byte_size_u8 bs) = of_nat (length bs)"
  by (induction bs) (simp_all add: byte_size_u8_def)

lemma encode_Data_payload:
  assumes "wf_Data d"
  shows "encode_Data d w =
    (Ok (), w @ payload encode_u32 (of_nat (length (data_bytes d))) @ data_bytes d)"
  using assms by (simp add: wf_Data_def encode_Data_def io_simps u32.encode_appends)

lemma payload_Data:
  "wf_Data d \<Longrightarrow>
     payload encode_Data d = payload encode_u32 (of_nat (length (data_bytes d))) @ data_bytes d"
  by (simp add: payload_def [of encode_Data] encode_Data_payload)

interpretation Data: wire_format byte_size_Data encode_Data decode_Data wf_Data
proof
  fix d w r assume d: "wf_Data d"
  then have len: "length (data_bytes d) \<le> 33554432" by (simp add: wf_Data_def)
  show "encode_Data d w = (Ok (), w @ payload encode_Data d)"
    using d by (simp add: encode_Data_payload payload_Data)
  show "byte_size_Data d = of_nat (length (payload encode_Data d))"
    using d by (simp add: byte_size_Data_def payload_Data sum_byte_size_u8)
  have "\<not> (of_nat (length (data_bytes d)) :: u32) > MAX_DATA_LENGTH"
    using len by (simp add: word_less_nat_alt)
  moreover have
    "io_take (length (data_bytes d)) read_to_end (data_bytes d @ r) = (Ok (data_bytes d), r)"
    by (simp add: io_take_def read_to_end_def)
  ultimately show "decode_Data (payload encode_Data d @ r) = (Ok d, r)"
    using d len by (simp add: decode_Data_def payload_Data u32.decode_payload io_simps)
next
  show "decodes (\<lambda>d n. wf_Data d \<and> n = length (payload encode_Data d)) decode_Data"
    unfolding decode_Data_def
    by (rule decodes_bind [OF u32.decode_decodes])
      (auto intro!: decodes_fail decodes_bind [OF decodes_take [OF decodes_read_to_end]]
        decodes_return simp: wf_Data_def payload_Data word_le_nat_alt not_less)
qed

interpretation unit: wire_format byte_size_unit encode_unit decode_unit "\<lambda>_. True"
  by standard (simp_all add: byte_size_unit_def encode_unit_def decode_unit_def payload_def
      io_simps decodes_return)

lemma payload_u8: "payload encode_u8 t = [t]"
  by (simp add: payload_def encode_u8_def io_simps)

lemma length_payload_String: "wf_String s \<Longrightarrow> length (payload encode_String s) \<le> 65537"
  by (simp add: payload_String) (simp add: wf_String_def)

lemma length_payload_Data: "wf_Data d \<Longrightarrow> length (payload encode_Data d) \<le> 33554436"
  by (simp add: payload_Data) (simp add: wf_Data_def)

lemma decodes_map:
  assumes "decodes (\<lambda>x n. P x \<and> n = length (payload e x)) d"
    and "\<And>x. P x \<Longrightarrow> Q (C x) (length (payload e x))"
  shows "decodes Q (io_bind d (\<lambda>x. io_return (C x)))"
  by (rule decodes_bind [OF assms(1)]) (rule decodes_return, simp add: assms(2))

section \<open>\<open>Vec<T>\<close> keeps it when \<open>T\<close> does\<close>

definition wf_Vec :: "('a \<Rightarrow> bool) \<Rightarrow> 'a list \<Rightarrow> bool" where
  "wf_Vec P xs \<longleftrightarrow> length xs \<le> 65535 \<and> list_all P xs"

context wire_format
begin

lemma payload_Vec:
  "wf_Vec wf xs \<Longrightarrow> payload (encode_Vec encode) xs =
     payload encode_u16 (of_nat (length xs)) @ concat (map (payload encode) xs)"
  by (simp add: payload_def [of "encode_Vec encode"] encode_Vec_def wf_Vec_def io_simps
      u16.encode_appends encode_each_appends)

lemma Vec: "wire_format (byte_size_Vec byte_size) (encode_Vec encode) (decode_Vec decode) (wf_Vec wf)"
proof
  fix xs w r assume xs: "wf_Vec wf xs"
  then have len: "length xs \<le> 65535" and all: "list_all wf xs" by (simp_all add: wf_Vec_def)
  show "encode_Vec encode xs w = (Ok (), w @ payload (encode_Vec encode) xs)"
    using len all
    by (simp add: encode_Vec_def payload_Vec [OF xs] io_simps u16.encode_appends encode_each_appends)
  show "byte_size_Vec byte_size xs = of_nat (length (payload (encode_Vec encode) xs))"
    using all by (simp add: byte_size_Vec_def payload_Vec [OF xs] sum_byte_size)
  show "decode_Vec decode (payload (encode_Vec encode) xs @ r) = (Ok xs, r)"
    using len all
    by (simp add: decode_Vec_def payload_Vec [OF xs] u16.decode_payload decode_times_payload io_simps)
next
  show "decodes (\<lambda>xs n. wf_Vec wf xs \<and> n = length (payload (encode_Vec encode) xs)) (decode_Vec decode)"
    unfolding decode_Vec_def
  proof (rule decodes_bind [OF u16.decode_decodes])
    fix len :: u16 and k
    assume "True \<and> k = length (payload encode_u16 len)"
    moreover have "unat len \<le> 65535" using unat_lt [of len] by simp
    ultimately show "decodes (\<lambda>xs n. wf_Vec wf xs \<and> k + n = length (payload (encode_Vec encode) xs))
        (decode_times decode (unat len))"
      by (intro decodes_weaken [OF decodes_times]) (auto simp: payload_Vec wf_Vec_def)
  qed
qed

text \<open>\<open>Option<T>\<close> writes no tag: only \<open>Some\<close> values come back.\<close>

lemma payload_Some: "payload (encode_Option encode) (Some v) = payload encode v"
  by (simp add: payload_def encode_Option_def)

lemma Option_Some:
  "wire_format (byte_size_Option byte_size) (encode_Option encode) (decode_Option decode)
     (\<lambda>x. \<exists>v. x = Some v \<and> wf v)"
proof
  fix x w r assume "\<exists>v. x = Some v \<and> wf v"
  then obtain v where v: "x = Some v" "wf v" by blast
  show "encode_Option encode x w = (Ok (), w @ payload (encode_Option encode) x)"
    "byte_size_Option byte_size x = of_nat (length (payload (encode_Option encode) x))"
    "decode_Option decode (payload (encode_Option encode) x @ r) = (Ok x, r)"
    by (simp_all add: payload_Some v encode_Option_def byte_size_Option_def decode_Option_def
        encode_appends byte_size_payload decode_payload io_simps)
next
  show "decodes (\<lambda>x n. (\<exists>v. x = Some v \<and> wf v) \<and> n = length (payload (encode_Option encode) x))
      (decode_Option decode)"
    unfolding decode_Option_def
    by (rule decodes_bind [OF decode_decodes]) (auto intro!: decodes_return simp: payload_Some)
qed

end

interpretation Vec_String: wire_format
  "byte_size_Vec byte_size_String" "encode_Vec encode_String" "decode_Vec decode_String"
  "wf_Vec wf_String"
  by (rule String.Vec)

section \<open>Rules for derived implementations\<close>

named_theorems wire_simps \<open>what an encoder appends and what its decoder makes of it\<close>

lemmas wire_appends [wire_simps] =
  u8.encode_appends [OF TrueI] u16.encode_appends [OF TrueI] u32.encode_appends [OF TrueI]
  u64.encode_appends [OF TrueI] String.encode_appends Data.encode_appends
  Vec_String.encode_appends

lemmas wire_decodes [wire_simps] =
  u8.decode_payload [OF TrueI] u16.decode_payload [OF TrueI] u32.decode_payload [OF TrueI]
  u64.decode_payload [OF TrueI] String.decode_payload Data.decode_payload
  Vec_String.decode_payload

lemmas wire_sizes [wire_simps] =
  u8.byte_size_payload [OF TrueI] u16.byte_size_payload [OF TrueI] u32.byte_size_payload [OF TrueI]
  u64.byte_size_payload [OF TrueI] String.byte_size_payload Data.byte_size_payload
  Vec_String.byte_size_payload

lemmas wire_io_decodes [io_decodes] =
  u8.decode_decodes u16.decode_decodes u32.decode_decodes u64.decode_decodes
  String.decode_decodes Data.decode_decodes Vec_String.decode_decodes

end
