(* ===== verification/Tmessages.thy ===== *)
theory Tmessages
  imports WireFormat
begin

text \<open>
  The request structs of \<open>jetstream/src/coding/messages.rs\<close> (\<open>Tversion\<close> to \<open>Tunlinkat\<close>) and the
  \<open>WireFormat\<close> implementation that \<open>derive(JetStreamWireFormat)\<close> generates for each: \<open>byte_size\<close>
  sums the fields, \<open>encode\<close> writes them in the order of their declaration and stops at the
  first error, \<open>decode\<close> reads them in that order. \<open>wf_T\<close> says that the strings and buffers of a
  message fit their length fields. Each implementation is shown to keep the contract of the
  trait (locale \<open>wire_format\<close>).

  Three field names are primed because they clash with HOL: \<open>length'\<close>, \<open>size'\<close> and \<open>type'\<close>
  (\<open>type_\<close> in the source).
\<close>

section \<open>Structs and derived methods\<close>

record Tversion =
  msize :: u32
  version :: bytes

definition byte_size_Tversion :: "Tversion \<Rightarrow> u32" where
  "byte_size_Tversion m = 0 + byte_size_u32 (Tversion.msize m)
     + byte_size_String (Tversion.version m)"

definition encode_Tversion :: "Tversion \<Rightarrow> unit writer" where
  "encode_Tversion m =
    io_then (encode_u32 (Tversion.msize m)) (
    io_then (encode_String (Tversion.version m)) (
    io_return ()))"

definition decode_Tversion :: "Tversion reader" where
  "decode_Tversion =
    io_bind decode_u32 (\<lambda>msize.
    io_bind decode_String (\<lambda>version.
    io_return \<lparr>Tversion.msize = msize, Tversion.version = version\<rparr>))"

definition wf_Tversion :: "Tversion \<Rightarrow> bool" where
  "wf_Tversion m \<longleftrightarrow> wf_String (Tversion.version m)"

record Tflush =
  oldtag :: u16

definition byte_size_Tflush :: "Tflush \<Rightarrow> u32" where
  "byte_size_Tflush m = 0 + byte_size_u16 (Tflush.oldtag m)"

definition encode_Tflush :: "Tflush \<Rightarrow> unit writer" where
  "encode_Tflush m =
    io_then (encode_u16 (Tflush.oldtag m)) (
    io_return ())"

definition decode_Tflush :: "Tflush reader" where
  "decode_Tflush =
    io_bind decode_u16 (\<lambda>oldtag.
    io_return \<lparr>Tflush.oldtag = oldtag\<rparr>)"

record Twalk =
  fid :: u32
  newfid :: u32
  wnames :: "bytes list"

definition byte_size_Twalk :: "Twalk \<Rightarrow> u32" where
  "byte_size_Twalk m = 0 + byte_size_u32 (Twalk.fid m) + byte_size_u32 (Twalk.newfid m)
     + byte_size_Vec byte_size_String (Twalk.wnames m)"

definition encode_Twalk :: "Twalk \<Rightarrow> unit writer" where
  "encode_Twalk m =
    io_then (encode_u32 (Twalk.fid m)) (
    io_then (encode_u32 (Twalk.newfid m)) (
    io_then (encode_Vec encode_String (Twalk.wnames m)) (
    io_return ())))"

definition decode_Twalk :: "Twalk reader" where
  "decode_Twalk =
    io_bind decode_u32 (\<lambda>fid.
    io_bind decode_u32 (\<lambda>newfid.
    io_bind (decode_Vec decode_String) (\<lambda>wnames.
    io_return \<lparr>Twalk.fid = fid, Twalk.newfid = newfid, Twalk.wnames = wnames\<rparr>)))"

definition wf_Twalk :: "Twalk \<Rightarrow> bool" where
  "wf_Twalk m \<longleftrightarrow> wf_Vec wf_String (Twalk.wnames m)"

record Tattach =
  fid :: u32
  afid :: u32
  uname :: bytes
  aname :: bytes
  n_uname :: u32

definition byte_size_Tattach :: "Tattach \<Rightarrow> u32" where
  "byte_size_Tattach m = 0 + byte_size_u32 (Tattach.fid m) + byte_size_u32 (Tattach.afid m)
     + byte_size_String (Tattach.uname m) + byte_size_String (Tattach.aname m)
     + byte_size_u32 (Tattach.n_uname m)"

definition encode_Tattach :: "Tattach \<Rightarrow> unit writer" where
  "encode_Tattach m =
    io_then (encode_u32 (Tattach.fid m)) (
    io_then (encode_u32 (Tattach.afid m)) (
    io_then (encode_String (Tattach.uname m)) (
    io_then (encode_String (Tattach.aname m)) (
    io_then (encode_u32 (Tattach.n_uname m)) (
    io_return ())))))"

definition decode_Tattach :: "Tattach reader" where
  "decode_Tattach =
    io_bind decode_u32 (\<lambda>fid.
    io_bind decode_u32 (\<lambda>afid.
    io_bind decode_String (\<lambda>uname.
    io_bind decode_String (\<lambda>aname.
    io_bind decode_u32 (\<lambda>n_uname.
    io_return \<lparr>Tattach.fid = fid, Tattach.afid = afid, Tattach.uname = uname,
      Tattach.aname = aname, Tattach.n_uname = n_uname\<rparr>)))))"

definition wf_Tattach :: "Tattach \<Rightarrow> bool" where
  "wf_Tattach m \<longleftrightarrow> wf_String (Tattach.uname m) \<and> wf_String (Tattach.aname m)"

record Tauth =
  afid :: u32
  uname :: bytes
  aname :: bytes
  n_uname :: u32

definition byte_size_Tauth :: "Tauth \<Rightarrow> u32" where
  "byte_size_Tauth m = 0 + byte_size_u32 (Tauth.afid m) + byte_size_String (Tauth.uname m)
     + byte_size_String (Tauth.aname m) + byte_size_u32 (Tauth.n_uname m)"

definition encode_Tauth :: "Tauth \<Rightarrow> unit writer" where
  "encode_Tauth m =
    io_then (encode_u32 (Tauth.afid m)) (
    io_then (encode_String (Tauth.uname m)) (
    io_then (encode_String (Tauth.aname m)) (
    io_then (encode_u32 (Tauth.n_uname m)) (
    io_return ()))))"

definition decode_Tauth :: "Tauth reader" where
  "decode_Tauth =
    io_bind decode_u32 (\<lambda>afid.
    io_bind decode_String (\<lambda>uname.
    io_bind decode_String (\<lambda>aname.
    io_bind decode_u32 (\<lambda>n_uname.
    io_return \<lparr>Tauth.afid = afid, Tauth.uname = uname, Tauth.aname = aname,
      Tauth.n_uname = n_uname\<rparr>))))"

definition wf_Tauth :: "Tauth \<Rightarrow> bool" where
  "wf_Tauth m \<longleftrightarrow> wf_String (Tauth.uname m) \<and> wf_String (Tauth.aname m)"

record Tread =
  fid :: u32
  offset :: u64
  count :: u32

definition byte_size_Tread :: "Tread \<Rightarrow> u32" where
  "byte_size_Tread m = 0 + byte_size_u32 (Tread.fid m) + byte_size_u64 (Tread.offset m)
     + byte_size_u32 (Tread.count m)"

definition encode_Tread :: "Tread \<Rightarrow> unit writer" where
  "encode_Tread m =
    io_then (encode_u32 (Tread.fid m)) (
    io_then (encode_u64 (Tread.offset m)) (
    io_then (encode_u32 (Tread.count m)) (
    io_return ())))"

definition decode_Tread :: "Tread reader" where
  "decode_Tread =
    io_bind decode_u32 (\<lambda>fid.
    io_bind decode_u64 (\<lambda>offset.
    io_bind decode_u32 (\<lambda>count.
    io_return \<lparr>Tread.fid = fid, Tread.offset = offset, Tread.count = count\<rparr>)))"

record Twrite =
  fid :: u32
  offset :: u64
  data :: Data

definition byte_size_Twrite :: "Twrite \<Rightarrow> u32" where
  "byte_size_Twrite m = 0 + byte_size_u32 (Twrite.fid m) + byte_size_u64 (Twrite.offset m)
     + byte_size_Data (Twrite.data m)"

definition encode_Twrite :: "Twrite \<Rightarrow> unit writer" where
  "encode_Twrite m =
    io_then (encode_u32 (Twrite.fid m)) (
    io_then (encode_u64 (Twrite.offset m)) (
    io_then (encode_Data (Twrite.data m)) (
    io_return ())))"

definition decode_Twrite :: "Twrite reader" where
  "decode_Twrite =
    io_bind decode_u32 (\<lambda>fid.
    io_bind decode_u64 (\<lambda>offset.
    io_bind decode_Data (\<lambda>data.
    io_return \<lparr>Twrite.fid = fid, Twrite.offset = offset, Twrite.data = data\<rparr>)))"

definition wf_Twrite :: "Twrite \<Rightarrow> bool" where
  "wf_Twrite m \<longleftrightarrow> wf_Data (Twrite.data m)"

record Tclunk =
  fid :: u32

definition byte_size_Tclunk :: "Tclunk \<Rightarrow> u32" where
  "byte_size_Tclunk m = 0 + byte_size_u32 (Tclunk.fid m)"

definition encode_Tclunk :: "Tclunk \<Rightarrow> unit writer" where
  "encode_Tclunk m =
    io_then (encode_u32 (Tclunk.fid m)) (
    io_return ())"

definition decode_Tclunk :: "Tclunk reader" where
  "decode_Tclunk =
    io_bind decode_u32 (\<lambda>fid.
    io_return \<lparr>Tclunk.fid = fid\<rparr>)"

record Tremove =
  fid :: u32

definition byte_size_Tremove :: "Tremove \<Rightarrow> u32" where
  "byte_size_Tremove m = 0 + byte_size_u32 (Tremove.fid m)"

definition encode_Tremove :: "Tremove \<Rightarrow> unit writer" where
  "encode_Tremove m =
    io_then (encode_u32 (Tremove.fid m)) (
    io_return ())"

definition decode_Tremove :: "Tremove reader" where
  "decode_Tremove =
    io_bind decode_u32 (\<lambda>fid.
    io_return \<lparr>Tremove.fid = fid\<rparr>)"

record Tstatfs =
  fid :: u32

definition byte_size_Tstatfs :: "Tstatfs \<Rightarrow> u32" where
  "byte_size_Tstatfs m = 0 + byte_size_u32 (Tstatfs.fid m)"

definition encode_Tstatfs :: "Tstatfs \<Rightarrow> unit writer" where
  "encode_Tstatfs m =
    io_then (encode_u32 (Tstatfs.fid m)) (
    io_return ())"

definition decode_Tstatfs :: "Tstatfs reader" where
  "decode_Tstatfs =
    io_bind decode_u32 (\<lambda>fid.
    io_return \<lparr>Tstatfs.fid = fid\<rparr>)"

record Tlopen =
  fid :: u32
  flags :: u32

definition byte_size_Tlopen :: "Tlopen \<Rightarrow> u32" where
  "byte_size_Tlopen m = 0 + byte_size_u32 (Tlopen.fid m) + byte_size_u32 (Tlopen.flags m)"

definition encode_Tlopen :: "Tlopen \<Rightarrow> unit writer" where
  "encode_Tlopen m =
    io_then (encode_u32 (Tlopen.fid m)) (
    io_then (encode_u32 (Tlopen.flags m)) (
    io_return ()))"

definition decode_Tlopen :: "Tlopen reader" where
  "decode_Tlopen =
    io_bind decode_u32 (\<lambda>fid.
    io_bind decode_u32 (\<lambda>flags.
    io_return \<lparr>Tlopen.fid = fid, Tlopen.flags = flags\<rparr>))"

record Tlcreate =
  fid :: u32
  name :: bytes
  flags :: u32
  mode :: u32
  gid :: u32

definition byte_size_Tlcreate :: "Tlcreate \<Rightarrow> u32" where
  "byte_size_Tlcreate m = 0 + byte_size_u32 (Tlcreate.fid m)
     + byte_size_String (Tlcreate.name m) + byte_size_u32 (Tlcreate.flags m)
     + byte_size_u32 (Tlcreate.mode m) + byte_size_u32 (Tlcreate.gid m)"

definition encode_Tlcreate :: "Tlcreate \<Rightarrow> unit writer" where
  "encode_Tlcreate m =
    io_then (encode_u32 (Tlcreate.fid m)) (
    io_then (encode_String (Tlcreate.name m)) (
    io_then (encode_u32 (Tlcreate.flags m)) (
    io_then (encode_u32 (Tlcreate.mode m)) (
    io_then (encode_u32 (Tlcreate.gid m)) (
    io_return ())))))"

definition decode_Tlcreate :: "Tlcreate reader" where
  "decode_Tlcreate =
    io_bind decode_u32 (\<lambda>fid.
    io_bind decode_String (\<lambda>name.
    io_bind decode_u32 (\<lambda>flags.
    io_bind decode_u32 (\<lambda>mode.
    io_bind decode_u32 (\<lambda>gid.
    io_return \<lparr>Tlcreate.fid = fid, Tlcreate.name = name, Tlcreate.flags = flags,
      Tlcreate.mode = mode, Tlcreate.gid = gid\<rparr>)))))"

definition wf_Tlcreate :: "Tlcreate \<Rightarrow> bool" where
  "wf_Tlcreate m \<longleftrightarrow> wf_String (Tlcreate.name m)"

record Tsymlink =
  fid :: u32
  name :: bytes
  symtgt :: bytes
  gid :: u32

definition byte_size_Tsymlink :: "Tsymlink \<Rightarrow> u32" where
  "byte_size_Tsymlink m = 0 + byte_size_u32 (Tsymlink.fid m)
     + byte_size_String (Tsymlink.name m) + byte_size_String (Tsymlink.symtgt m)
     + byte_size_u32 (Tsymlink.gid m)"

definition encode_Tsymlink :: "Tsymlink \<Rightarrow> unit writer" where
  "encode_Tsymlink m =
    io_then (encode_u32 (Tsymlink.fid m)) (
    io_then (encode_String (Tsymlink.name m)) (
    io_then (encode_String (Tsymlink.symtgt m)) (
    io_then (encode_u32 (Tsymlink.gid m)) (
    io_return ()))))"

definition decode_Tsymlink :: "Tsymlink reader" where
  "decode_Tsymlink =
    io_bind decode_u32 (\<lambda>fid.
    io_bind decode_String (\<lambda>name.
    io_bind decode_String (\<lambda>symtgt.
    io_bind decode_u32 (\<lambda>gid.
    io_return \<lparr>Tsymlink.fid = fid, Tsymlink.name = name, Tsymlink.symtgt = symtgt,
      Tsymlink.gid = gid\<rparr>))))"

definition wf_Tsymlink :: "Tsymlink \<Rightarrow> bool" where
  "wf_Tsymlink m \<longleftrightarrow> wf_String (Tsymlink.name m) \<and> wf_String (Tsymlink.symtgt m)"

record Tmknod =
  dfid :: u32
  name :: bytes
  mode :: u32
  major :: u32
  minor :: u32
  gid :: u32

definition byte_size_Tmknod :: "Tmknod \<Rightarrow> u32" where
  "byte_size_Tmknod m = 0 + byte_size_u32 (Tmknod.dfid m) + byte_size_String (Tmknod.name m)
     + byte_size_u32 (Tmknod.mode m) + byte_size_u32 (Tmknod.major m)
     + byte_size_u32 (Tmknod.minor m) + byte_size_u32 (Tmknod.gid m)"

definition encode_Tmknod :: "Tmknod \<Rightarrow> unit writer" where
  "encode_Tmknod m =
    io_then (encode_u32 (Tmknod.dfid m)) (
    io_then (encode_String (Tmknod.name m)) (
    io_then (encode_u32 (Tmknod.mode m)) (
    io_then (encode_u32 (Tmknod.major m)) (
    io_then (encode_u32 (Tmknod.minor m)) (
    io_then (encode_u32 (Tmknod.gid m)) (
    io_return ()))))))"

definition decode_Tmknod :: "Tmknod reader" where
  "decode_Tmknod =
    io_bind decode_u32 (\<lambda>dfid.
    io_bind decode_String (\<lambda>name.
    io_bind decode_u32 (\<lambda>mode.
    io_bind decode_u32 (\<lambda>major.
    io_bind decode_u32 (\<lambda>minor.
    io_bind decode_u32 (\<lambda>gid.
    io_return \<lparr>Tmknod.dfid = dfid, Tmknod.name = name, Tmknod.mode = mode, Tmknod.major = major,
      Tmknod.minor = minor, Tmknod.gid = gid\<rparr>))))))"

definition wf_Tmknod :: "Tmknod \<Rightarrow> bool" where
  "wf_Tmknod m \<longleftrightarrow> wf_String (Tmknod.name m)"

record Trename =
  fid :: u32
  dfid :: u32
  name :: bytes

definition byte_size_Trename :: "Trename \<Rightarrow> u32" where
  "byte_size_Trename m = 0 + byte_size_u32 (Trename.fid m) + byte_size_u32 (Trename.dfid m)
     + byte_size_String (Trename.name m)"

definition encode_Trename :: "Trename \<Rightarrow> unit writer" where
  "encode_Trename m =
    io_then (encode_u32 (Trename.fid m)) (
    io_then (encode_u32 (Trename.dfid m)) (
    io_then (encode_String (Trename.name m)) (
    io_return ())))"

definition decode_Trename :: "Trename reader" where
  "decode_Trename =
    io_bind decode_u32 (\<lambda>fid.
    io_bind decode_u32 (\<lambda>dfid.
    io_bind decode_String (\<lambda>name.
    io_return \<lparr>Trename.fid = fid, Trename.dfid = dfid, Trename.name = name\<rparr>)))"

definition wf_Trename :: "Trename \<Rightarrow> bool" where
  "wf_Trename m \<longleftrightarrow> wf_String (Trename.name m)"

record Treadlink =
  fid :: u32

definition byte_size_Treadlink :: "Treadlink \<Rightarrow> u32" where
  "byte_size_Treadlink m = 0 + byte_size_u32 (Treadlink.fid m)"

definition encode_Treadlink :: "Treadlink \<Rightarrow> unit writer" where
  "encode_Treadlink m =
    io_then (encode_u32 (Treadlink.fid m)) (
    io_return ())"

definition decode_Treadlink :: "Treadlink reader" where
  "decode_Treadlink =
    io_bind decode_u32 (\<lambda>fid.
    io_return \<lparr>Treadlink.fid = fid\<rparr>)"

record Tgetattr =
  fid :: u32
  request_mask :: u64

definition byte_size_Tgetattr :: "Tgetattr \<Rightarrow> u32" where
  "byte_size_Tgetattr m = 0 + byte_size_u32 (Tgetattr.fid m)
     + byte_size_u64 (Tgetattr.request_mask m)"

definition encode_Tgetattr :: "Tgetattr \<Rightarrow> unit writer" where
  "encode_Tgetattr m =
    io_then (encode_u32 (Tgetattr.fid m)) (
    io_then (encode_u64 (Tgetattr.request_mask m)) (
    io_return ()))"

definition decode_Tgetattr :: "Tgetattr reader" where
  "decode_Tgetattr =
    io_bind decode_u32 (\<lambda>fid.
    io_bind decode_u64 (\<lambda>request_mask.
    io_return \<lparr>Tgetattr.fid = fid, Tgetattr.request_mask = request_mask\<rparr>))"

record Tsetattr =
  fid :: u32
  valid :: u32
  mode :: u32
  uid :: u32
  gid :: u32
  size' :: u64
  atime_sec :: u64
  atime_nsec :: u64
  mtime_sec :: u64
  mtime_nsec :: u64

definition byte_size_Tsetattr :: "Tsetattr \<Rightarrow> u32" where
  "byte_size_Tsetattr m = 0 + byte_size_u32 (Tsetattr.fid m) + byte_size_u32 (Tsetattr.valid m)
     + byte_size_u32 (Tsetattr.mode m) + byte_size_u32 (Tsetattr.uid m)
     + byte_size_u32 (Tsetattr.gid m) + byte_size_u64 (Tsetattr.size' m)
     + byte_size_u64 (Tsetattr.atime_sec m) + byte_size_u64 (Tsetattr.atime_nsec m)
     + byte_size_u64 (Tsetattr.mtime_sec m) + byte_size_u64 (Tsetattr.mtime_nsec m)"

definition encode_Tsetattr :: "Tsetattr \<Rightarrow> unit writer" where
  "encode_Tsetattr m =
    io_then (encode_u32 (Tsetattr.fid m)) (
    io_then (encode_u32 (Tsetattr.valid m)) (
    io_then (encode_u32 (Tsetattr.mode m)) (
    io_then (encode_u32 (Tsetattr.uid m)) (
    io_then (encode_u32 (Tsetattr.gid m)) (
    io_then (encode_u64 (Tsetattr.size' m)) (
    io_then (encode_u64 (Tsetattr.atime_sec m)) (
    io_then (encode_u64 (Tsetattr.atime_nsec m)) (
    io_then (encode_u64 (Tsetattr.mtime_sec m)) (
    io_then (encode_u64 (Tsetattr.mtime_nsec m)) (
    io_return ()))))))))))"

definition decode_Tsetattr :: "Tsetattr reader" where
  "decode_Tsetattr =
    io_bind decode_u32 (\<lambda>fid.
    io_bind decode_u32 (\<lambda>valid.
    io_bind decode_u32 (\<lambda>mode.
    io_bind decode_u32 (\<lambda>uid.
    io_bind decode_u32 (\<lambda>gid.
    io_bind decode_u64 (\<lambda>size'.
    io_bind decode_u64 (\<lambda>atime_sec.
    io_bind decode_u64 (\<lambda>atime_nsec.
    io_bind decode_u64 (\<lambda>mtime_sec.
    io_bind decode_u64 (\<lambda>mtime_nsec.
    io_return \<lparr>Tsetattr.fid = fid, Tsetattr.valid = valid, Tsetattr.mode = mode,
      Tsetattr.uid = uid, Tsetattr.gid = gid, Tsetattr.size' = size',
      Tsetattr.atime_sec = atime_sec, Tsetattr.atime_nsec = atime_nsec,
      Tsetattr.mtime_sec = mtime_sec, Tsetattr.mtime_nsec = mtime_nsec\<rparr>))))))))))"

record Txattrwalk =
  fid :: u32
  newfid :: u32
  name :: bytes

definition byte_size_Txattrwalk :: "Txattrwalk \<Rightarrow> u32" where
  "byte_size_Txattrwalk m = 0 + byte_size_u32 (Txattrwalk.fid m)
     + byte_size_u32 (Txattrwalk.newfid m) + byte_size_String (Txattrwalk.name m)"

definition encode_Txattrwalk :: "Txattrwalk \<Rightarrow> unit writer" where
  "encode_Txattrwalk m =
    io_then (encode_u32 (Txattrwalk.fid m)) (
    io_then (encode_u32 (Txattrwalk.newfid m)) (
    io_then (encode_String (Txattrwalk.name m)) (
    io_return ())))"

definition decode_Txattrwalk :: "Txattrwalk reader" where
  "decode_Txattrwalk =
    io_bind decode_u32 (\<lambda>fid.
    io_bind decode_u32 (\<lambda>newfid.
    io_bind decode_String (\<lambda>name.
    io_return \<lparr>Txattrwalk.fid = fid, Txattrwalk.newfid = newfid, Txattrwalk.name = name\<rparr>)))"

definition wf_Txattrwalk :: "Txattrwalk \<Rightarrow> bool" where
  "wf_Txattrwalk m \<longleftrightarrow> wf_String (Txattrwalk.name m)"

record Txattrcreate =
  fid :: u32
  name :: bytes
  attr_size :: u64
  flags :: u32

definition byte_size_Txattrcreate :: "Txattrcreate \<Rightarrow> u32" where
  "byte_size_Txattrcreate m = 0 + byte_size_u32 (Txattrcreate.fid m)
     + byte_size_String (Txattrcreate.name m) + byte_size_u64 (Txattrcreate.attr_size m)
     + byte_size_u32 (Txattrcreate.flags m)"

definition encode_Txattrcreate :: "Txattrcreate \<Rightarrow> unit writer" where
  "encode_Txattrcreate m =
    io_then (encode_u32 (Txattrcreate.fid m)) (
    io_then (encode_String (Txattrcreate.name m)) (
    io_then (encode_u64 (Txattrcreate.attr_size m)) (
    io_then (encode_u32 (Txattrcreate.flags m)) (
    io_return ()))))"

definition decode_Txattrcreate :: "Txattrcreate reader" where
  "decode_Txattrcreate =
    io_bind decode_u32 (\<lambda>fid.
    io_bind decode_String (\<lambda>name.
    io_bind decode_u64 (\<lambda>attr_size.
    io_bind decode_u32 (\<lambda>flags.
    io_return \<lparr>Txattrcreate.fid = fid, Txattrcreate.name = name,
      Txattrcreate.attr_size = attr_size, Txattrcreate.flags = flags\<rparr>))))"

definition wf_Txattrcreate :: "Txattrcreate \<Rightarrow> bool" where
  "wf_Txattrcreate m \<longleftrightarrow> wf_String (Txattrcreate.name m)"

record Treaddir =
  fid :: u32
  offset :: u64
  count :: u32

definition byte_size_Treaddir :: "Treaddir \<Rightarrow> u32" where
  "byte_size_Treaddir m = 0 + byte_size_u32 (Treaddir.fid m) + byte_size_u64 (Treaddir.offset m)
     + byte_size_u32 (Treaddir.count m)"

definition encode_Treaddir :: "Treaddir \<Rightarrow> unit writer" where
  "encode_Treaddir m =
    io_then (encode_u32 (Treaddir.fid m)) (
    io_then (encode_u64 (Treaddir.offset m)) (
    io_then (encode_u32 (Treaddir.count m)) (
    io_return ())))"

definition decode_Treaddir :: "Treaddir reader" where
  "decode_Treaddir =
    io_bind decode_u32 (\<lambda>fid.
    io_bind decode_u64 (\<lambda>offset.
    io_bind decode_u32 (\<lambda>count.
    io_return \<lparr>Treaddir.fid = fid, Treaddir.offset = offset, Treaddir.count = count\<rparr>)))"

record Tfsync =
  fid :: u32
  datasync :: u32

definition byte_size_Tfsync :: "Tfsync \<Rightarrow> u32" where
  "byte_size_Tfsync m = 0 + byte_size_u32 (Tfsync.fid m) + byte_size_u32 (Tfsync.datasync m)"

definition encode_Tfsync :: "Tfsync \<Rightarrow> unit writer" where
  "encode_Tfsync m =
    io_then (encode_u32 (Tfsync.fid m)) (
    io_then (encode_u32 (Tfsync.datasync m)) (
    io_return ()))"

definition decode_Tfsync :: "Tfsync reader" where
  "decode_Tfsync =
    io_bind decode_u32 (\<lambda>fid.
    io_bind decode_u32 (\<lambda>datasync.
    io_return \<lparr>Tfsync.fid = fid, Tfsync.datasync = datasync\<rparr>))"

record Tlock =
  fid :: u32
  type' :: u8
  flags :: u32
  start :: u64
  length' :: u64
  proc_id :: u32
  client_id :: bytes

definition byte_size_Tlock :: "Tlock \<Rightarrow> u32" where
  "byte_size_Tlock m = 0 + byte_size_u32 (Tlock.fid m) + byte_size_u8 (Tlock.type' m)
     + byte_size_u32 (Tlock.flags m) + byte_size_u64 (Tlock.start m)
     + byte_size_u64 (Tlock.length' m) + byte_size_u32 (Tlock.proc_id m)
     + byte_size_String (Tlock.client_id m)"

definition encode_Tlock :: "Tlock \<Rightarrow> unit writer" where
  "encode_Tlock m =
    io_then (encode_u32 (Tlock.fid m)) (
    io_then (encode_u8 (Tlock.type' m)) (
    io_then (encode_u32 (Tlock.flags m)) (
    io_then (encode_u64 (Tlock.start m)) (
    io_then (encode_u64 (Tlock.length' m)) (
    io_then (encode_u32 (Tlock.proc_id m)) (
    io_then (encode_String (Tlock.client_id m)) (
    io_return ())))))))"

definition decode_Tlock :: "Tlock reader" where
  "decode_Tlock =
    io_bind decode_u32 (\<lambda>fid.
    io_bind decode_u8 (\<lambda>type'.
    io_bind decode_u32 (\<lambda>flags.
    io_bind decode_u64 (\<lambda>start.
    io_bind decode_u64 (\<lambda>length'.
    io_bind decode_u32 (\<lambda>proc_id.
    io_bind decode_String (\<lambda>client_id.
    io_return \<lparr>Tlock.fid = fid, Tlock.type' = type', Tlock.flags = flags, Tlock.start = start,
      Tlock.length' = length', Tlock.proc_id = proc_id, Tlock.client_id = client_id\<rparr>)))))))"

definition wf_Tlock :: "Tlock \<Rightarrow> bool" where
  "wf_Tlock m \<longleftrightarrow> wf_String (Tlock.client_id m)"

record Tgetlock =
  fid :: u32
  type' :: u8
  start :: u64
  length' :: u64
  proc_id :: u32
  client_id :: bytes

definition byte_size_Tgetlock :: "Tgetlock \<Rightarrow> u32" where
  "byte_size_Tgetlock m = 0 + byte_size_u32 (Tgetlock.fid m) + byte_size_u8 (Tgetlock.type' m)
     + byte_size_u64 (Tgetlock.start m) + byte_size_u64 (Tgetlock.length' m)
     + byte_size_u32 (Tgetlock.proc_id m) + byte_size_String (Tgetlock.client_id m)"

definition encode_Tgetlock :: "Tgetlock \<Rightarrow> unit writer" where
  "encode_Tgetlock m =
    io_then (encode_u32 (Tgetlock.fid m)) (
    io_then (encode_u8 (Tgetlock.type' m)) (
    io_then (encode_u64 (Tgetlock.start m)) (
    io_then (encode_u64 (Tgetlock.length' m)) (
    io_then (encode_u32 (Tgetlock.proc_id m)) (
    io_then (encode_String (Tgetlock.client_id m)) (
    io_return ()))))))"

definition decode_Tgetlock :: "Tgetlock reader" where
  "decode_Tgetlock =
    io_bind decode_u32 (\<lambda>fid.
    io_bind decode_u8 (\<lambda>type'.
    io_bind decode_u64 (\<lambda>start.
    io_bind decode_u64 (\<lambda>length'.
    io_bind decode_u32 (\<lambda>proc_id.
    io_bind decode_String (\<lambda>client_id.
    io_return \<lparr>Tgetlock.fid = fid, Tgetlock.type' = type', Tgetlock.start = start,
      Tgetlock.length' = length', Tgetlock.proc_id = proc_id,
      Tgetlock.client_id = client_id\<rparr>))))))"

definition wf_Tgetlock :: "Tgetlock \<Rightarrow> bool" where
  "wf_Tgetlock m \<longleftrightarrow> wf_String (Tgetlock.client_id m)"

record Tlink =
  dfid :: u32
  fid :: u32
  name :: bytes

definition byte_size_Tlink :: "Tlink \<Rightarrow> u32" where
  "byte_size_Tlink m = 0 + byte_size_u32 (Tlink.dfid m) + byte_size_u32 (Tlink.fid m)
     + byte_size_String (Tlink.name m)"

definition encode_Tlink :: "Tlink \<Rightarrow> unit writer" where
  "encode_Tlink m =
    io_then (encode_u32 (Tlink.dfid m)) (
    io_then (encode_u32 (Tlink.fid m)) (
    io_then (encode_String (Tlink.name m)) (
    io_return ())))"

definition decode_Tlink :: "Tlink reader" where
  "decode_Tlink =
    io_bind decode_u32 (\<lambda>dfid.
    io_bind decode_u32 (\<lambda>fid.
    io_bind decode_String (\<lambda>name.
    io_return \<lparr>Tlink.dfid = dfid, Tlink.fid = fid, Tlink.name = name\<rparr>)))"

definition wf_Tlink :: "Tlink \<Rightarrow> bool" where
  "wf_Tlink m \<longleftrightarrow> wf_String (Tlink.name m)"

record Tmkdir =
  dfid :: u32
  name :: bytes
  mode :: u32
  gid :: u32

definition byte_size_Tmkdir :: "Tmkdir \<Rightarrow> u32" where
  "byte_size_Tmkdir m = 0 + byte_size_u32 (Tmkdir.dfid m) + byte_size_String (Tmkdir.name m)
     + byte_size_u32 (Tmkdir.mode m) + byte_size_u32 (Tmkdir.gid m)"

definition encode_Tmkdir :: "Tmkdir \<Rightarrow> unit writer" where
  "encode_Tmkdir m =
    io_then (encode_u32 (Tmkdir.dfid m)) (
    io_then (encode_String (Tmkdir.name m)) (
    io_then (encode_u32 (Tmkdir.mode m)) (
    io_then (encode_u32 (Tmkdir.gid m)) (
    io_return ()))))"

definition decode_Tmkdir :: "Tmkdir reader" where
  "decode_Tmkdir =
    io_bind decode_u32 (\<lambda>dfid.
    io_bind decode_String (\<lambda>name.
    io_bind decode_u32 (\<lambda>mode.
    io_bind decode_u32 (\<lambda>gid.
    io_return \<lparr>Tmkdir.dfid = dfid, Tmkdir.name = name, Tmkdir.mode = mode, Tmkdir.gid = gid\<rparr>))))"

definition wf_Tmkdir :: "Tmkdir \<Rightarrow> bool" where
  "wf_Tmkdir m \<longleftrightarrow> wf_String (Tmkdir.name m)"

record Trenameat =
  olddirfid :: u32
  oldname :: bytes
  newdirfid :: u32
  newname :: bytes

definition byte_size_Trenameat :: "Trenameat \<Rightarrow> u32" where
  "byte_size_Trenameat m = 0 + byte_size_u32 (Trenameat.olddirfid m)
     + byte_size_String (Trenameat.oldname m) + byte_size_u32 (Trenameat.newdirfid m)
     + byte_size_String (Trenameat.newname m)"

definition encode_Trenameat :: "Trenameat \<Rightarrow> unit writer" where
  "encode_Trenameat m =
    io_then (encode_u32 (Trenameat.olddirfid m)) (
    io_then (encode_String (Trenameat.oldname m)) (
    io_then (encode_u32 (Trenameat.newdirfid m)) (
    io_then (encode_String (Trenameat.newname m)) (
    io_return ()))))"

definition decode_Trenameat :: "Trenameat reader" where
  "decode_Trenameat =
    io_bind decode_u32 (\<lambda>olddirfid.
    io_bind decode_String (\<lambda>oldname.
    io_bind decode_u32 (\<lambda>newdirfid.
    io_bind decode_String (\<lambda>newname.
    io_return \<lparr>Trenameat.olddirfid = olddirfid, Trenameat.oldname = oldname,
      Trenameat.newdirfid = newdirfid, Trenameat.newname = newname\<rparr>))))"

definition wf_Trenameat :: "Trenameat \<Rightarrow> bool" where
  "wf_Trenameat m \<longleftrightarrow> wf_String (Trenameat.oldname m) \<and> wf_String (Trenameat.newname m)"

record Tunlinkat =
  dirfd :: u32
  name :: bytes
  flags :: u32

definition byte_size_Tunlinkat :: "Tunlinkat \<Rightarrow> u32" where
  "byte_size_Tunlinkat m = 0 + byte_size_u32 (Tunlinkat.dirfd m)
     + byte_size_String (Tunlinkat.name m) + byte_size_u32 (Tunlinkat.flags m)"

definition encode_Tunlinkat :: "Tunlinkat \<Rightarrow> unit writer" where
  "encode_Tunlinkat m =
    io_then (encode_u32 (Tunlinkat.dirfd m)) (
    io_then (encode_String (Tunlinkat.name m)) (
    io_then (encode_u32 (Tunlinkat.flags m)) (
    io_return ())))"

definition decode_Tunlinkat :: "Tunlinkat reader" where
  "decode_Tunlinkat =
    io_bind decode_u32 (\<lambda>dirfd.
    io_bind decode_String (\<lambda>name.
    io_bind decode_u32 (\<lambda>flags.
    io_return \<lparr>Tunlinkat.dirfd = dirfd, Tunlinkat.name = name, Tunlinkat.flags = flags\<rparr>)))"

definition wf_Tunlinkat :: "Tunlinkat \<Rightarrow> bool" where
  "wf_Tunlinkat m \<longleftrightarrow> wf_String (Tunlinkat.name m)"

section \<open>The derived methods keep the contract of \<open>WireFormat\<close>\<close>

lemma decodes_Tversion:
  "decodes (\<lambda>m n. wf_Tversion m \<and> n = length (payload encode_Tversion m)) decode_Tversion"
  unfolding decode_Tversion_def
  by ((rule decodes_bind, rule io_decodes)+, rule decodes_return,
      simp add: wf_Tversion_def payload_def [of encode_Tversion] encode_Tversion_def io_simps wire_simps)

interpretation Tversion: wire_format byte_size_Tversion encode_Tversion decode_Tversion wf_Tversion
  using decodes_Tversion
  by unfold_locales (simp_all add: payload_def [of encode_Tversion] byte_size_Tversion_def
      encode_Tversion_def decode_Tversion_def wf_Tversion_def io_simps wire_simps)

lemma decodes_Tflush:
  "decodes (\<lambda>m n. n = length (payload encode_Tflush m)) decode_Tflush"
  unfolding decode_Tflush_def
  by ((rule decodes_bind, rule io_decodes)+, rule decodes_return,
      simp add: payload_def [of encode_Tflush] encode_Tflush_def io_simps wire_simps)

interpretation Tflush: wire_format byte_size_Tflush encode_Tflush decode_Tflush "\<lambda>_. True"
  using decodes_Tflush
  by unfold_locales (simp_all add: payload_def [of encode_Tflush] byte_size_Tflush_def
      encode_Tflush_def decode_Tflush_def io_simps wire_simps)

lemma decodes_Twalk:
  "decodes (\<lambda>m n. wf_Twalk m \<and> n = length (payload encode_Twalk m)) decode_Twalk"
  unfolding decode_Twalk_def
  by ((rule decodes_bind, rule io_decodes)+, rule decodes_return,
      simp add: wf_Twalk_def payload_def [of encode_Twalk] encode_Twalk_def io_simps wire_simps)

interpretation Twalk: wire_format byte_size_Twalk encode_Twalk decode_Twalk wf_Twalk
  using decodes_Twalk
  by unfold_locales (simp_all add: payload_def [of encode_Twalk] byte_size_Twalk_def
      encode_Twalk_def decode_Twalk_def wf_Twalk_def io_simps wire_simps)

lemma decodes_Tattach:
  "decodes (\<lambda>m n. wf_Tattach m \<and> n = length (payload encode_Tattach m)) decode_Tattach"
  unfolding decode_Tattach_def
  by ((rule decodes_bind, rule io_decodes)+, rule decodes_return,
      simp add: wf_Tattach_def payload_def [of encode_Tattach] encode_Tattach_def io_simps wire_simps)

interpretation Tattach: wire_format byte_size_Tattach encode_Tattach decode_Tattach wf_Tattach
  using decodes_Tattach
  by unfold_locales (simp_all add: payload_def [of encode_Tattach] byte_size_Tattach_def
      encode_Tattach_def decode_Tattach_def wf_Tattach_def io_simps wire_simps)

lemma decodes_Tauth:
  "decodes (\<lambda>m n. wf_Tauth m \<and> n = length (payload encode_Tauth m)) decode_Tauth"
  unfolding decode_Tauth_def
  by ((rule decodes_bind, rule io_decodes)+, rule decodes_return,
      simp add: wf_Tauth_def payload_def [of encode_Tauth] encode_Tauth_def io_simps wire_simps)

interpretation Tauth: wire_format byte_size_Tauth encode_Tauth decode_Tauth wf_Tauth
  using decodes_Tauth
  by unfold_locales (simp_all add: payload_def [of encode_Tauth] byte_size_Tauth_def
      encode_Tauth_def decode_Tauth_def wf_Tauth_def io_simps wire_simps)

lemma decodes_Tread:
  "decodes (\<lambda>m n. n = length (payload encode_Tread m)) decode_Tread"
  unfolding decode_Tread_def
  by ((rule decodes_bind, rule io_decodes)+, rule decodes_return,
      simp add: payload_def [of encode_Tread] encode_Tread_def io_simps wire_simps)

interpretation Tread: wire_format byte_size_Tread encode_Tread decode_Tread "\<lambda>_. True"
  using decodes_Tread
  by unfold_locales (simp_all add: payload_def [of encode_Tread] byte_size_Tread_def
      encode_Tread_def decode_Tread_def io_simps wire_simps)

lemma decodes_Twrite:
  "decodes (\<lambda>m n. wf_Twrite m \<and> n = length (payload encode_Twrite m)) decode_Twrite"
  unfolding decode_Twrite_def
  by ((rule decodes_bind, rule io_decodes)+, rule decodes_return,
      simp add: wf_Twrite_def payload_def [of encode_Twrite] encode_Twrite_def io_simps wire_simps)

interpretation Twrite: wire_format byte_size_Twrite encode_Twrite decode_Twrite wf_Twrite
  using decodes_Twrite
  by unfold_locales (simp_all add: payload_def [of encode_Twrite] byte_size_Twrite_def
      encode_Twrite_def decode_Twrite_def wf_Twrite_def io_simps wire_simps)

lemma decodes_Tclunk:
  "decodes (\<lambda>m n. n = length (payload encode_Tclunk m)) decode_Tclunk"
  unfolding decode_Tclunk_def
  by ((rule decodes_bind, rule io_decodes)+, rule decodes_return,
      simp add: payload_def [of encode_Tclunk] encode_Tclunk_def io_simps wire_simps)

interpretation Tclunk: wire_format byte_size_Tclunk encode_Tclunk decode_Tclunk "\<lambda>_. True"
  using decodes_Tclunk
  by unfold_locales (simp_all add: payload_def [of encode_Tclunk] byte_size_Tclunk_def
      encode_Tclunk_def decode_Tclunk_def io_simps wire_simps)

lemma decodes_Tremove:
  "decodes (\<lambda>m n. n = length (payload encode_Tremove m)) decode_Tremove"
  unfolding decode_Tremove_def
  by ((rule decodes_bind, rule io_decodes)+, rule decodes_return,
      simp add: payload_def [of encode_Tremove] encode_Tremove_def io_simps wire_simps)

interpretation Tremove: wire_format byte_size_Tremove encode_Tremove decode_Tremove "\<lambda>_. True"
  using decodes_Tremove
  by unfold_locales (simp_all add: payload_def [of encode_Tremove] byte_size_Tremove_def
      encode_Tremove_def decode_Tremove_def io_simps wire_simps)

lemma decodes_Tstatfs:
  "decodes (\<lambda>m n. n = length (payload encode_Tstatfs m)) decode_Tstatfs"
  unfolding decode_Tstatfs_def
  by ((rule decodes_bind, rule io_decodes)+, rule decodes_return,
      simp add: payload_def [of encode_Tstatfs] encode_Tstatfs_def io_simps wire_simps)

interpretation Tstatfs: wire_format byte_size_Tstatfs encode_Tstatfs decode_Tstatfs "\<lambda>_. True"
  using decodes_Tstatfs
  by unfold_locales (simp_all add: payload_def [of encode_Tstatfs] byte_size_Tstatfs_def
      encode_Tstatfs_def decode_Tstatfs_def io_simps wire_simps)

lemma decodes_Tlopen:
  "decodes (\<lambda>m n. n = length (payload encode_Tlopen m)) decode_Tlopen"
  unfolding decode_Tlopen_def
  by ((rule decodes_bind, rule io_decodes)+, rule decodes_return,
      simp add: payload_def [of encode_Tlopen] encode_Tlopen_def io_simps wire_simps)

interpretation Tlopen: wire_format byte_size_Tlopen encode_Tlopen decode_Tlopen "\<lambda>_. True"
  using decodes_Tlopen
  by unfold_locales (simp_all add: payload_def [of encode_Tlopen] byte_size_Tlopen_def
      encode_Tlopen_def decode_Tlopen_def io_simps wire_simps)

lemma decodes_Tlcreate:
  "decodes (\<lambda>m n. wf_Tlcreate m \<and> n = length (payload encode_Tlcreate m)) decode_Tlcreate"
  unfolding decode_Tlcreate_def
  by ((rule decodes_bind, rule io_decodes)+, rule decodes_return,
      simp add: wf_Tlcreate_def payload_def [of encode_Tlcreate] encode_Tlcreate_def io_simps wire_simps)

interpretation Tlcreate: wire_format byte_size_Tlcreate encode_Tlcreate decode_Tlcreate wf_Tlcreate
  using decodes_Tlcreate
  by unfold_locales (simp_all add: payload_def [of encode_Tlcreate] byte_size_Tlcreate_def
      encode_Tlcreate_def decode_Tlcreate_def wf_Tlcreate_def io_simps wire_simps)

lemma decodes_Tsymlink:
  "decodes (\<lambda>m n. wf_Tsymlink m \<and> n = length (payload encode_Tsymlink m)) decode_Tsymlink"
  unfolding decode_Tsymlink_def
  by ((rule decodes_bind, rule io_decodes)+, rule decodes_return,
      simp add: wf_Tsymlink_def payload_def [of encode_Tsymlink] encode_Tsymlink_def io_simps wire_simps)

interpretation Tsymlink: wire_format byte_size_Tsymlink encode_Tsymlink decode_Tsymlink wf_Tsymlink
  using decodes_Tsymlink
  by unfold_locales (simp_all add: payload_def [of encode_Tsymlink] byte_size_Tsymlink_def
      encode_Tsymlink_def decode_Tsymlink_def wf_Tsymlink_def io_simps wire_simps)

lemma decodes_Tmknod:
  "decodes (\<lambda>m n. wf_Tmknod m \<and> n = length (payload encode_Tmknod m)) decode_Tmknod"
  unfolding decode_Tmknod_def
  by ((rule decodes_bind, rule io_decodes)+, rule decodes_return,
      simp add: wf_Tmknod_def payload_def [of encode_Tmknod] encode_Tmknod_def io_simps wire_simps)

interpretation Tmknod: wire_format byte_size_Tmknod encode_Tmknod decode_Tmknod wf_Tmknod
  using decodes_Tmknod
  by unfold_locales (simp_all add: payload_def [of encode_Tmknod] byte_size_Tmknod_def
      encode_Tmknod_def decode_Tmknod_def wf_Tmknod_def io_simps wire_simps)

lemma decodes_Trename:
  "decodes (\<lambda>m n. wf_Trename m \<and> n = length (payload encode_Trename m)) decode_Trename"
  unfolding decode_Trename_def
  by ((rule decodes_bind, rule io_decodes)+, rule decodes_return,
      simp add: wf_Trename_def payload_def [of encode_Trename] encode_Trename_def io_simps wire_simps)

interpretation Trename: wire_format byte_size_Trename encode_Trename decode_Trename wf_Trename
  using decodes_Trename
  by unfold_locales (simp_all add: payload_def [of encode_Trename] byte_size_Trename_def
      encode_Trename_def decode_Trename_def wf_Trename_def io_simps wire_simps)

lemma decodes_Treadlink:
  "decodes (\<lambda>m n. n = length (payload encode_Treadlink m)) decode_Treadlink"
  unfolding decode_Treadlink_def
  by ((rule decodes_bind, rule io_decodes)+, rule decodes_return,
      simp add: payload_def [of encode_Treadlink] encode_Treadlink_def io_simps wire_simps)

interpretation Treadlink: wire_format byte_size_Treadlink encode_Treadlink decode_Treadlink "\<lambda>_. True"
  using decodes_Treadlink
  by unfold_locales (simp_all add: payload_def [of encode_Treadlink] byte_size_Treadlink_def
      encode_Treadlink_def decode_Treadlink_def io_simps wire_simps)

lemma decodes_Tgetattr:
  "decodes (\<lambda>m n. n = length (payload encode_Tgetattr m)) decode_Tgetattr"
  unfolding decode_Tgetattr_def
  by ((rule decodes_bind, rule io_decodes)+, rule decodes_return,
      simp add: payload_def [of encode_Tgetattr] encode_Tgetattr_def io_simps wire_simps)

interpretation Tgetattr: wire_format byte_size_Tgetattr encode_Tgetattr decode_Tgetattr "\<lambda>_. True"
  using decodes_Tgetattr
  by unfold_locales (simp_all add: payload_def [of encode_Tgetattr] byte_size_Tgetattr_def
      encode_Tgetattr_def decode_Tgetattr_def io_simps wire_simps)

lemma decodes_Tsetattr:
  "decodes (\<lambda>m n. n = length (payload encode_Tsetattr m)) decode_Tsetattr"
  unfolding decode_Tsetattr_def
  by ((rule decodes_bind, rule io_decodes)+, rule decodes_return,
      simp add: payload_def [of encode_Tsetattr] encode_Tsetattr_def io_simps wire_simps)

interpretation Tsetattr: wire_format byte_size_Tsetattr encode_Tsetattr decode_Tsetattr "\<lambda>_. True"
  using decodes_Tsetattr
  by unfold_locales (simp_all add: payload_def [of encode_Tsetattr] byte_size_Tsetattr_def
      encode_Tsetattr_def decode_Tsetattr_def io_simps wire_simps)

lemma decodes_Txattrwalk:
  "decodes (\<lambda>m n. wf_Txattrwalk m \<and> n = length (payload encode_Txattrwalk m)) decode_Txattrwalk"
  unfolding decode_Txattrwalk_def
  by ((rule decodes_bind, rule io_decodes)+, rule decodes_return,
      simp add: wf_Txattrwalk_def payload_def [of encode_Txattrwalk] encode_Txattrwalk_def io_simps wire_simps)

interpretation Txattrwalk: wire_format byte_size_Txattrwalk encode_Txattrwalk decode_Txattrwalk wf_Txattrwalk
  using decodes_Txattrwalk
  by unfold_locales (simp_all add: payload_def [of encode_Txattrwalk] byte_size_Txattrwalk_def
      encode_Txattrwalk_def decode_Txattrwalk_def wf_Txattrwalk_def io_simps wire_simps)

lemma decodes_Txattrcreate:
  "decodes (\<lambda>m n. wf_Txattrcreate m \<and> n = length (payload encode_Txattrcreate m)) decode_Txattrcreate"
  unfolding decode_Txattrcreate_def
  by ((rule decodes_bind, rule io_decodes)+, rule decodes_return,
      simp add: wf_Txattrcreate_def payload_def [of encode_Txattrcreate] encode_Txattrcreate_def io_simps wire_simps)

interpretation Txattrcreate: wire_format byte_size_Txattrcreate encode_Txattrcreate decode_Txattrcreate wf_Txattrcreate
  using decodes_Txattrcreate
  by unfold_locales (simp_all add: payload_def [of encode_Txattrcreate] byte_size_Txattrcreate_def
      encode_Txattrcreate_def decode_Txattrcreate_def wf_Txattrcreate_def io_simps wire_simps)

lemma decodes_Treaddir:
  "decodes (\<lambda>m n. n = length (payload encode_Treaddir m)) decode_Treaddir"
  unfolding decode_Treaddir_def
  by ((rule decodes_bind, rule io_decodes)+, rule decodes_return,
      simp add: payload_def [of encode_Treaddir] encode_Treaddir_def io_simps wire_simps)

interpretation Treaddir: wire_format byte_size_Treaddir encode_Treaddir decode_Treaddir "\<lambda>_. True"
  using decodes_Treaddir
  by unfold_locales (simp_all add: payload_def [of encode_Treaddir] byte_size_Treaddir_def
      encode_Treaddir_def decode_Treaddir_def io_simps wire_simps)

lemma decodes_Tfsync:
  "decodes (\<lambda>m n. n = length (payload encode_Tfsync m)) decode_Tfsync"
  unfolding decode_Tfsync_def
  by ((rule decodes_bind, rule io_decodes)+, rule decodes_return,
      simp add: payload_def [of encode_Tfsync] encode_Tfsync_def io_simps wire_simps)

interpretation Tfsync: wire_format byte_size_Tfsync encode_Tfsync decode_Tfsync "\<lambda>_. True"
  using decodes_Tfsync
  by unfold_locales (simp_all add: payload_def [of encode_Tfsync] byte_size_Tfsync_def
      encode_Tfsync_def decode_Tfsync_def io_simps wire_simps)

lemma decodes_Tlock:
  "decodes (\<lambda>m n. wf_Tlock m \<and> n = length (payload encode_Tlock m)) decode_Tlock"
  unfolding decode_Tlock_def
  by ((rule decodes_bind, rule io_decodes)+, rule decodes_return,
      simp add: wf_Tlock_def payload_def [of encode_Tlock] encode_Tlock_def io_simps wire_simps)

interpretation Tlock: wire_format byte_size_Tlock encode_Tlock decode_Tlock wf_Tlock
  using decodes_Tlock
  by unfold_locales (simp_all add: payload_def [of encode_Tlock] byte_size_Tlock_def
      encode_Tlock_def decode_Tlock_def wf_Tlock_def io_simps wire_simps)

lemma decodes_Tgetlock:
  "decodes (\<lambda>m n. wf_Tgetlock m \<and> n = length (payload encode_Tgetlock m)) decode_Tgetlock"
  unfolding decode_Tgetlock_def
  by ((rule decodes_bind, rule io_decodes)+, rule decodes_return,
      simp add: wf_Tgetlock_def payload_def [of encode_Tgetlock] encode_Tgetlock_def io_simps wire_simps)

interpretation Tgetlock: wire_format byte_size_Tgetlock encode_Tgetlock decode_Tgetlock wf_Tgetlock
  using decodes_Tgetlock
  by unfold_locales (simp_all add: payload_def [of encode_Tgetlock] byte_size_Tgetlock_def
      encode_Tgetlock_def decode_Tgetlock_def wf_Tgetlock_def io_simps wire_simps)

lemma decodes_Tlink:
  "decodes (\<lambda>m n. wf_Tlink m \<and> n = length (payload encode_Tlink m)) decode_Tlink"
  unfolding decode_Tlink_def
  by ((rule decodes_bind, rule io_decodes)+, rule decodes_return,
      simp add: wf_Tlink_def payload_def [of encode_Tlink] encode_Tlink_def io_simps wire_simps)

interpretation Tlink: wire_format byte_size_Tlink encode_Tlink decode_Tlink wf_Tlink
  using decodes_Tlink
  by unfold_locales (simp_all add: payload_def [of encode_Tlink] byte_size_Tlink_def
      encode_Tlink_def decode_Tlink_def wf_Tlink_def io_simps wire_simps)

lemma decodes_Tmkdir:
  "decodes (\<lambda>m n. wf_Tmkdir m \<and> n = length (payload encode_Tmkdir m)) decode_Tmkdir"
  unfolding decode_Tmkdir_def
  by ((rule decodes_bind, rule io_decodes)+, rule decodes_return,
      simp add: wf_Tmkdir_def payload_def [of encode_Tmkdir] encode_Tmkdir_def io_simps wire_simps)

interpretation Tmkdir: wire_format byte_size_Tmkdir encode_Tmkdir decode_Tmkdir wf_Tmkdir
  using decodes_Tmkdir
  by unfold_locales (simp_all add: payload_def [of encode_Tmkdir] byte_size_Tmkdir_def
      encode_Tmkdir_def decode_Tmkdir_def wf_Tmkdir_def io_simps wire_simps)

lemma decodes_Trenameat:
  "decodes (\<lambda>m n. wf_Trenameat m \<and> n = length (payload encode_Trenameat m)) decode_Trenameat"
  unfolding decode_Trenameat_def
  by ((rule decodes_bind, rule io_decodes)+, rule decodes_return,
      simp add: wf_Trenameat_def payload_def [of encode_Trenameat] encode_Trenameat_def io_simps wire_simps)

interpretation Trenameat: wire_format byte_size_Trenameat encode_Trenameat decode_Trenameat wf_Trenameat
  using decodes_Trenameat
  by unfold_locales (simp_all add: payload_def [of encode_Trenameat] byte_size_Trenameat_def
      encode_Trenameat_def decode_Trenameat_def wf_Trenameat_def io_simps wire_simps)

lemma decodes_Tunlinkat:
  "decodes (\<lambda>m n. wf_Tunlinkat m \<and> n = length (payload encode_Tunlinkat m)) decode_Tunlinkat"
  unfolding decode_Tunlinkat_def
  by ((rule decodes_bind, rule io_decodes)+, rule decodes_return,
      simp add: wf_Tunlinkat_def payload_def [of encode_Tunlinkat] encode_Tunlinkat_def io_simps wire_simps)

interpretation Tunlinkat: wire_format byte_size_Tunlinkat encode_Tunlinkat decode_Tunlinkat wf_Tunlinkat
  using decodes_Tunlinkat
  by unfold_locales (simp_all add: payload_def [of encode_Tunlinkat] byte_size_Tunlinkat_def
      encode_Tunlinkat_def decode_Tunlinkat_def wf_Tunlinkat_def io_simps wire_simps)

end
