(* ===== verification/Rmessages.thy ===== *)
theory Rmessages
  imports WireFormat
begin

text \<open>
  The reply structs of \<open>jetstream/src/coding/messages.rs\<close> with \<open>Qid\<close> and \<open>Dirent\<close>, and the
  derived \<open>WireFormat\<close> implementation of each, as in \<open>Tmessages\<close>.
\<close>

section \<open>\<open>Qid\<close>\<close>

record Qid =
  ty :: u8
  version :: u32
  path :: u64

definition byte_size_Qid :: "Qid \<Rightarrow> u32" where
  "byte_size_Qid m = 0 + byte_size_u8 (Qid.ty m) + byte_size_u32 (Qid.version m)
     + byte_size_u64 (Qid.path m)"

definition encode_Qid :: "Qid \<Rightarrow> unit writer" where
  "encode_Qid m =
    io_then (encode_u8 (Qid.ty m)) (
    io_then (encode_u32 (Qid.version m)) (
    io_then (encode_u64 (Qid.path m)) (
    io_return ())))"

definition decode_Qid :: "Qid reader" where
  "decode_Qid =
    io_bind decode_u8 (\<lambda>ty.
    io_bind decode_u32 (\<lambda>version.
    io_bind decode_u64 (\<lambda>path.
    io_return \<lparr>Qid.ty = ty, Qid.version = version, Qid.path = path\<rparr>)))"

lemma decodes_Qid:
  "decodes (\<lambda>m n. n = length (payload encode_Qid m)) decode_Qid"
  unfolding decode_Qid_def
  by ((rule decodes_bind, rule io_decodes)+, rule decodes_return,
      simp add: payload_def [of encode_Qid] encode_Qid_def io_simps wire_simps)

interpretation Qid: wire_format byte_size_Qid encode_Qid decode_Qid "\<lambda>_. True"
  using decodes_Qid
  by unfold_locales (simp_all add: payload_def [of encode_Qid] byte_size_Qid_def
      encode_Qid_def decode_Qid_def io_simps wire_simps)

lemma length_payload_Qid [simp]: "length (payload encode_Qid q) = 13"
  by (simp add: payload_def [of encode_Qid] encode_Qid_def wire_simps io_simps)

interpretation Vec_Qid: wire_format
  "byte_size_Vec byte_size_Qid" "encode_Vec encode_Qid" "decode_Vec decode_Qid"
  "wf_Vec (\<lambda>_. True)"
  by (rule Qid.Vec)

lemmas Qid_wire [wire_simps] =
  Qid.encode_appends [OF TrueI] Qid.byte_size_payload [OF TrueI] Qid.decode_payload [OF TrueI]
  Vec_Qid.encode_appends Vec_Qid.byte_size_payload Vec_Qid.decode_payload

lemmas Qid_io_decodes [io_decodes] = Qid.decode_decodes Vec_Qid.decode_decodes

section \<open>Structs and derived methods\<close>

record Rread =
  data :: Data

definition byte_size_Rread :: "Rread \<Rightarrow> u32" where
  "byte_size_Rread m = 0 + byte_size_Data (Rread.data m)"

definition encode_Rread :: "Rread \<Rightarrow> unit writer" where
  "encode_Rread m =
    io_then (encode_Data (Rread.data m)) (
    io_return ())"

definition decode_Rread :: "Rread reader" where
  "decode_Rread =
    io_bind decode_Data (\<lambda>data.
    io_return \<lparr>Rread.data = data\<rparr>)"

definition wf_Rread :: "Rread \<Rightarrow> bool" where
  "wf_Rread m \<longleftrightarrow> wf_Data (Rread.data m)"

record Rwrite =
  count :: u32

definition byte_size_Rwrite :: "Rwrite \<Rightarrow> u32" where
  "byte_size_Rwrite m = 0 + byte_size_u32 (Rwrite.count m)"

definition encode_Rwrite :: "Rwrite \<Rightarrow> unit writer" where
  "encode_Rwrite m =
    io_then (encode_u32 (Rwrite.count m)) (
    io_return ())"

definition decode_Rwrite :: "Rwrite reader" where
  "decode_Rwrite =
    io_bind decode_u32 (\<lambda>count.
    io_return \<lparr>Rwrite.count = count\<rparr>)"

record Rstatfs =
  ty :: u32
  bsize :: u32
  blocks :: u64
  bfree :: u64
  bavail :: u64
  files :: u64
  ffree :: u64
  fsid :: u64
  namelen :: u32

definition byte_size_Rstatfs :: "Rstatfs \<Rightarrow> u32" where
  "byte_size_Rstatfs m = 0 + byte_size_u32 (Rstatfs.ty m) + byte_size_u32 (Rstatfs.bsize m)
     + byte_size_u64 (Rstatfs.blocks m) + byte_size_u64 (Rstatfs.bfree m)
     + byte_size_u64 (Rstatfs.bavail m) + byte_size_u64 (Rstatfs.files m)
     + byte_size_u64 (Rstatfs.ffree m) + byte_size_u64 (Rstatfs.fsid m)
     + byte_size_u32 (Rstatfs.namelen m)"

definition encode_Rstatfs :: "Rstatfs \<Rightarrow> unit writer" where
  "encode_Rstatfs m =
    io_then (encode_u32 (Rstatfs.ty m)) (
    io_then (encode_u32 (Rstatfs.bsize m)) (
    io_then (encode_u64 (Rstatfs.blocks m)) (
    io_then (encode_u64 (Rstatfs.bfree m)) (
    io_then (encode_u64 (Rstatfs.bavail m)) (
    io_then (encode_u64 (Rstatfs.files m)) (
    io_then (encode_u64 (Rstatfs.ffree m)) (
    io_then (encode_u64 (Rstatfs.fsid m)) (
    io_then (encode_u32 (Rstatfs.namelen m)) (
    io_return ())))))))))"

definition decode_Rstatfs :: "Rstatfs reader" where
  "decode_Rstatfs =
    io_bind decode_u32 (\<lambda>ty.
    io_bind decode_u32 (\<lambda>bsize.
    io_bind decode_u64 (\<lambda>blocks.
    io_bind decode_u64 (\<lambda>bfree.
    io_bind decode_u64 (\<lambda>bavail.
    io_bind decode_u64 (\<lambda>files.
    io_bind decode_u64 (\<lambda>ffree.
    io_bind decode_u64 (\<lambda>fsid.
    io_bind decode_u32 (\<lambda>namelen.
    io_return \<lparr>Rstatfs.ty = ty, Rstatfs.bsize = bsize, Rstatfs.blocks = blocks,
      Rstatfs.bfree = bfree, Rstatfs.bavail = bavail, Rstatfs.files = files,
      Rstatfs.ffree = ffree, Rstatfs.fsid = fsid, Rstatfs.namelen = namelen\<rparr>)))))))))"

record Rlopen =
  qid :: Qid
  iounit :: u32

definition byte_size_Rlopen :: "Rlopen \<Rightarrow> u32" where
  "byte_size_Rlopen m = 0 + byte_size_Qid (Rlopen.qid m) + byte_size_u32 (Rlopen.iounit m)"

definition encode_Rlopen :: "Rlopen \<Rightarrow> unit writer" where
  "encode_Rlopen m =
    io_then (encode_Qid (Rlopen.qid m)) (
    io_then (encode_u32 (Rlopen.iounit m)) (
    io_return ()))"

definition decode_Rlopen :: "Rlopen reader" where
  "decode_Rlopen =
    io_bind decode_Qid (\<lambda>qid.
    io_bind decode_u32 (\<lambda>iounit.
    io_return \<lparr>Rlopen.qid = qid, Rlopen.iounit = iounit\<rparr>))"

record Rlcreate =
  qid :: Qid
  iounit :: u32

definition byte_size_Rlcreate :: "Rlcreate \<Rightarrow> u32" where
  "byte_size_Rlcreate m = 0 + byte_size_Qid (Rlcreate.qid m) + byte_size_u32 (Rlcreate.iounit m)"

definition encode_Rlcreate :: "Rlcreate \<Rightarrow> unit writer" where
  "encode_Rlcreate m =
    io_then (encode_Qid (Rlcreate.qid m)) (
    io_then (encode_u32 (Rlcreate.iounit m)) (
    io_return ()))"

definition decode_Rlcreate :: "Rlcreate reader" where
  "decode_Rlcreate =
    io_bind decode_Qid (\<lambda>qid.
    io_bind decode_u32 (\<lambda>iounit.
    io_return \<lparr>Rlcreate.qid = qid, Rlcreate.iounit = iounit\<rparr>))"

record Rsymlink =
  qid :: Qid

definition byte_size_Rsymlink :: "Rsymlink \<Rightarrow> u32" where
  "byte_size_Rsymlink m = 0 + byte_size_Qid (Rsymlink.qid m)"

definition encode_Rsymlink :: "Rsymlink \<Rightarrow> unit writer" where
  "encode_Rsymlink m =
    io_then (encode_Qid (Rsymlink.qid m)) (
    io_return ())"

definition decode_Rsymlink :: "Rsymlink reader" where
  "decode_Rsymlink =
    io_bind decode_Qid (\<lambda>qid.
    io_return \<lparr>Rsymlink.qid = qid\<rparr>)"

record Rmknod =
  qid :: Qid

definition byte_size_Rmknod :: "Rmknod \<Rightarrow> u32" where
  "byte_size_Rmknod m = 0 + byte_size_Qid (Rmknod.qid m)"

definition encode_Rmknod :: "Rmknod \<Rightarrow> unit writer" where
  "encode_Rmknod m =
    io_then (encode_Qid (Rmknod.qid m)) (
    io_return ())"

definition decode_Rmknod :: "Rmknod reader" where
  "decode_Rmknod =
    io_bind decode_Qid (\<lambda>qid.
    io_return \<lparr>Rmknod.qid = qid\<rparr>)"

record Rreadlink =
  target :: bytes

definition byte_size_Rreadlink :: "Rreadlink \<Rightarrow> u32" where
  "byte_size_Rreadlink m = 0 + byte_size_String (Rreadlink.target m)"

definition encode_Rreadlink :: "Rreadlink \<Rightarrow> unit writer" where
  "encode_Rreadlink m =
    io_then (encode_String (Rreadlink.target m)) (
    io_return ())"

definition decode_Rreadlink :: "Rreadlink reader" where
  "decode_Rreadlink =
    io_bind decode_String (\<lambda>target.
    io_return \<lparr>Rreadlink.target = target\<rparr>)"

definition wf_Rreadlink :: "Rreadlink \<Rightarrow> bool" where
  "wf_Rreadlink m \<longleftrightarrow> wf_String (Rreadlink.target m)"

record Rgetattr =
  valid :: u64
  qid :: Qid
  mode :: u32
  uid :: u32
  gid :: u32
  nlink :: u64
  rdev :: u64
  size' :: u64
  blksize :: u64
  blocks :: u64
  atime_sec :: u64
  atime_nsec :: u64
  mtime_sec :: u64
  mtime_nsec :: u64
  ctime_sec :: u64
  ctime_nsec :: u64
  btime_sec :: u64
  btime_nsec :: u64
  gen :: u64
  data_version :: u64

definition byte_size_Rgetattr :: "Rgetattr \<Rightarrow> u32" where
  "byte_size_Rgetattr m = 0 + byte_size_u64 (Rgetattr.valid m) + byte_size_Qid (Rgetattr.qid m)
     + byte_size_u32 (Rgetattr.mode m) + byte_size_u32 (Rgetattr.uid m)
     + byte_size_u32 (Rgetattr.gid m) + byte_size_u64 (Rgetattr.nlink m)
     + byte_size_u64 (Rgetattr.rdev m) + byte_size_u64 (Rgetattr.size' m)
     + byte_size_u64 (Rgetattr.blksize m) + byte_size_u64 (Rgetattr.blocks m)
     + byte_size_u64 (Rgetattr.atime_sec m) + byte_size_u64 (Rgetattr.atime_nsec m)
     + byte_size_u64 (Rgetattr.mtime_sec m) + byte_size_u64 (Rgetattr.mtime_nsec m)
     + byte_size_u64 (Rgetattr.ctime_sec m) + byte_size_u64 (Rgetattr.ctime_nsec m)
     + byte_size_u64 (Rgetattr.btime_sec m) + byte_size_u64 (Rgetattr.btime_nsec m)
     + byte_size_u64 (Rgetattr.gen m) + byte_size_u64 (Rgetattr.data_version m)"

definition encode_Rgetattr :: "Rgetattr \<Rightarrow> unit writer" where
  "encode_Rgetattr m =
    io_then (encode_u64 (Rgetattr.valid m)) (
    io_then (encode_Qid (Rgetattr.qid m)) (
    io_then (encode_u32 (Rgetattr.mode m)) (
    io_then (encode_u32 (Rgetattr.uid m)) (
    io_then (encode_u32 (Rgetattr.gid m)) (
    io_then (encode_u64 (Rgetattr.nlink m)) (
    io_then (encode_u64 (Rgetattr.rdev m)) (
    io_then (encode_u64 (Rgetattr.size' m)) (
    io_then (encode_u64 (Rgetattr.blksize m)) (
    io_then (encode_u64 (Rgetattr.blocks m)) (
    io_then (encode_u64 (Rgetattr.atime_sec m)) (
    io_then (encode_u64 (Rgetattr.atime_nsec m)) (
    io_then (encode_u64 (Rgetattr.mtime_sec m)) (
    io_then (encode_u64 (Rgetattr.mtime_nsec m)) (
    io_then (encode_u64 (Rgetattr.ctime_sec m)) (
    io_then (encode_u64 (Rgetattr.ctime_nsec m)) (
    io_then (encode_u64 (Rgetattr.btime_sec m)) (
    io_then (encode_u64 (Rgetattr.btime_nsec m)) (
    io_then (encode_u64 (Rgetattr.gen m)) (
    io_then (encode_u64 (Rgetattr.data_version m)) (
    io_return ()))))))))))))))))))))"

definition decode_Rgetattr :: "Rgetattr reader" where
  "decode_Rgetattr =
    io_bind decode_u64 (\<lambda>valid.
    io_bind decode_Qid (\<lambda>qid.
    io_bind decode_u32 (\<lambda>mode.
    io_bind decode_u32 (\<lambda>uid.
    io_bind decode_u32 (\<lambda>gid.
    io_bind decode_u64 (\<lambda>nlink.
    io_bind decode_u64 (\<lambda>rdev.
    io_bind decode_u64 (\<lambda>size'.
    io_bind decode_u64 (\<lambda>blksize.
    io_bind decode_u64 (\<lambda>blocks.
    io_bind decode_u64 (\<lambda>atime_sec.
    io_bind decode_u64 (\<lambda>atime_nsec.
    io_bind decode_u64 (\<lambda>mtime_sec.
    io_bind decode_u64 (\<lambda>mtime_nsec.
    io_bind decode_u64 (\<lambda>ctime_sec.
    io_bind decode_u64 (\<lambda>ctime_nsec.
    io_bind decode_u64 (\<lambda>btime_sec.
    io_bind decode_u64 (\<lambda>btime_nsec.
    io_bind decode_u64 (\<lambda>gen.
    io_bind decode_u64 (\<lambda>data_version.
    io_return \<lparr>Rgetattr.valid = valid, Rgetattr.qid = qid, Rgetattr.mode = mode,
      Rgetattr.uid = uid, Rgetattr.gid = gid, Rgetattr.nlink = nlink,
      Rgetattr.rdev = rdev, Rgetattr.size' = size', Rgetattr.blksize = blksize,
      Rgetattr.blocks = blocks, Rgetattr.atime_sec = atime_sec,
      Rgetattr.atime_nsec = atime_nsec, Rgetattr.mtime_sec = mtime_sec,
      Rgetattr.mtime_nsec = mtime_nsec, Rgetattr.ctime_sec = ctime_sec,
      Rgetattr.ctime_nsec = ctime_nsec, Rgetattr.btime_sec = btime_sec,
      Rgetattr.btime_nsec = btime_nsec, Rgetattr.gen = gen,
      Rgetattr.data_version = data_version\<rparr>))))))))))))))))))))"

record Rxattrwalk =
  size' :: u64

definition byte_size_Rxattrwalk :: "Rxattrwalk \<Rightarrow> u32" where
  "byte_size_Rxattrwalk m = 0 + byte_size_u64 (Rxattrwalk.size' m)"

definition encode_Rxattrwalk :: "Rxattrwalk \<Rightarrow> unit writer" where
  "encode_Rxattrwalk m =
    io_then (encode_u64 (Rxattrwalk.size' m)) (
    io_return ())"

definition decode_Rxattrwalk :: "Rxattrwalk reader" where
  "decode_Rxattrwalk =
    io_bind decode_u64 (\<lambda>size'.
    io_return \<lparr>Rxattrwalk.size' = size'\<rparr>)"

record Rreaddir =
  data :: Data

definition byte_size_Rreaddir :: "Rreaddir \<Rightarrow> u32" where
  "byte_size_Rreaddir m = 0 + byte_size_Data (Rreaddir.data m)"

definition encode_Rreaddir :: "Rreaddir \<Rightarrow> unit writer" where
  "encode_Rreaddir m =
    io_then (encode_Data (Rreaddir.data m)) (
    io_return ())"

definition decode_Rreaddir :: "Rreaddir reader" where
  "decode_Rreaddir =
    io_bind decode_Data (\<lambda>data.
    io_return \<lparr>Rreaddir.data = data\<rparr>)"

definition wf_Rreaddir :: "Rreaddir \<Rightarrow> bool" where
  "wf_Rreaddir m \<longleftrightarrow> wf_Data (Rreaddir.data m)"

record Rlock =
  status :: u8

definition byte_size_Rlock :: "Rlock \<Rightarrow> u32" where
  "byte_size_Rlock m = 0 + byte_size_u8 (Rlock.status m)"

definition encode_Rlock :: "Rlock \<Rightarrow> unit writer" where
  "encode_Rlock m =
    io_then (encode_u8 (Rlock.status m)) (
    io_return ())"

definition decode_Rlock :: "Rlock reader" where
  "decode_Rlock =
    io_bind decode_u8 (\<lambda>status.
    io_return \<lparr>Rlock.status = status\<rparr>)"

record Rgetlock =
  type' :: u8
  start :: u64
  length' :: u64
  proc_id :: u32
  client_id :: bytes

definition byte_size_Rgetlock :: "Rgetlock \<Rightarrow> u32" where
  "byte_size_Rgetlock m = 0 + byte_size_u8 (Rgetlock.type' m) + byte_size_u64 (Rgetlock.start m)
     + byte_size_u64 (Rgetlock.length' m) + byte_size_u32 (Rgetlock.proc_id m)
     + byte_size_String (Rgetlock.client_id m)"

definition encode_Rgetlock :: "Rgetlock \<Rightarrow> unit writer" where
  "encode_Rgetlock m =
    io_then (encode_u8 (Rgetlock.type' m)) (
    io_then (encode_u64 (Rgetlock.start m)) (
    io_then (encode_u64 (Rgetlock.length' m)) (
    io_then (encode_u32 (Rgetlock.proc_id m)) (
    io_then (encode_String (Rgetlock.client_id m)) (
    io_return ())))))"

definition decode_Rgetlock :: "Rgetlock reader" where
  "decode_Rgetlock =
    io_bind decode_u8 (\<lambda>type'.
    io_bind decode_u64 (\<lambda>start.
    io_bind decode_u64 (\<lambda>length'.
    io_bind decode_u32 (\<lambda>proc_id.
    io_bind decode_String (\<lambda>client_id.
    io_return \<lparr>Rgetlock.type' = type', Rgetlock.start = start, Rgetlock.length' = length',
      Rgetlock.proc_id = proc_id, Rgetlock.client_id = client_id\<rparr>)))))"

definition wf_Rgetlock :: "Rgetlock \<Rightarrow> bool" where
  "wf_Rgetlock m \<longleftrightarrow> wf_String (Rgetlock.client_id m)"

record Rlerror =
  ecode :: u32

definition byte_size_Rlerror :: "Rlerror \<Rightarrow> u32" where
  "byte_size_Rlerror m = 0 + byte_size_u32 (Rlerror.ecode m)"

definition encode_Rlerror :: "Rlerror \<Rightarrow> unit writer" where
  "encode_Rlerror m =
    io_then (encode_u32 (Rlerror.ecode m)) (
    io_return ())"

definition decode_Rlerror :: "Rlerror reader" where
  "decode_Rlerror =
    io_bind decode_u32 (\<lambda>ecode.
    io_return \<lparr>Rlerror.ecode = ecode\<rparr>)"

record Rerror =
  ename :: bytes

definition byte_size_Rerror :: "Rerror \<Rightarrow> u32" where
  "byte_size_Rerror m = 0 + byte_size_String (Rerror.ename m)"

definition encode_Rerror :: "Rerror \<Rightarrow> unit writer" where
  "encode_Rerror m =
    io_then (encode_String (Rerror.ename m)) (
    io_return ())"

definition decode_Rerror :: "Rerror reader" where
  "decode_Rerror =
    io_bind decode_String (\<lambda>ename.
    io_return \<lparr>Rerror.ename = ename\<rparr>)"

definition wf_Rerror :: "Rerror \<Rightarrow> bool" where
  "wf_Rerror m \<longleftrightarrow> wf_String (Rerror.ename m)"

record Rmkdir =
  qid :: Qid

definition byte_size_Rmkdir :: "Rmkdir \<Rightarrow> u32" where
  "byte_size_Rmkdir m = 0 + byte_size_Qid (Rmkdir.qid m)"

definition encode_Rmkdir :: "Rmkdir \<Rightarrow> unit writer" where
  "encode_Rmkdir m =
    io_then (encode_Qid (Rmkdir.qid m)) (
    io_return ())"

definition decode_Rmkdir :: "Rmkdir reader" where
  "decode_Rmkdir =
    io_bind decode_Qid (\<lambda>qid.
    io_return \<lparr>Rmkdir.qid = qid\<rparr>)"

record Dirent =
  qid :: Qid
  offset :: u64
  ty :: u8
  name :: bytes

definition byte_size_Dirent :: "Dirent \<Rightarrow> u32" where
  "byte_size_Dirent m = 0 + byte_size_Qid (Dirent.qid m) + byte_size_u64 (Dirent.offset m)
     + byte_size_u8 (Dirent.ty m) + byte_size_String (Dirent.name m)"

definition encode_Dirent :: "Dirent \<Rightarrow> unit writer" where
  "encode_Dirent m =
    io_then (encode_Qid (Dirent.qid m)) (
    io_then (encode_u64 (Dirent.offset m)) (
    io_then (encode_u8 (Dirent.ty m)) (
    io_then (encode_String (Dirent.name m)) (
    io_return ()))))"

definition decode_Dirent :: "Dirent reader" where
  "decode_Dirent =
    io_bind decode_Qid (\<lambda>qid.
    io_bind decode_u64 (\<lambda>offset.
    io_bind decode_u8 (\<lambda>ty.
    io_bind decode_String (\<lambda>name.
    io_return \<lparr>Dirent.qid = qid, Dirent.offset = offset, Dirent.ty = ty, Dirent.name = name\<rparr>))))"

definition wf_Dirent :: "Dirent \<Rightarrow> bool" where
  "wf_Dirent m \<longleftrightarrow> wf_String (Dirent.name m)"

record Rversion =
  msize :: u32
  version :: bytes

definition byte_size_Rversion :: "Rversion \<Rightarrow> u32" where
  "byte_size_Rversion m = 0 + byte_size_u32 (Rversion.msize m)
     + byte_size_String (Rversion.version m)"

definition encode_Rversion :: "Rversion \<Rightarrow> unit writer" where
  "encode_Rversion m =
    io_then (encode_u32 (Rversion.msize m)) (
    io_then (encode_String (Rversion.version m)) (
    io_return ()))"

definition decode_Rversion :: "Rversion reader" where
  "decode_Rversion =
    io_bind decode_u32 (\<lambda>msize.
    io_bind decode_String (\<lambda>version.
    io_return \<lparr>Rversion.msize = msize, Rversion.version = version\<rparr>))"

definition wf_Rversion :: "Rversion \<Rightarrow> bool" where
  "wf_Rversion m \<longleftrightarrow> wf_String (Rversion.version m)"

record Rwalk =
  wqids :: "Qid list"

definition byte_size_Rwalk :: "Rwalk \<Rightarrow> u32" where
  "byte_size_Rwalk m = 0 + byte_size_Vec byte_size_Qid (Rwalk.wqids m)"

definition encode_Rwalk :: "Rwalk \<Rightarrow> unit writer" where
  "encode_Rwalk m =
    io_then (encode_Vec encode_Qid (Rwalk.wqids m)) (
    io_return ())"

definition decode_Rwalk :: "Rwalk reader" where
  "decode_Rwalk =
    io_bind (decode_Vec decode_Qid) (\<lambda>wqids.
    io_return \<lparr>Rwalk.wqids = wqids\<rparr>)"

definition wf_Rwalk :: "Rwalk \<Rightarrow> bool" where
  "wf_Rwalk m \<longleftrightarrow> wf_Vec (\<lambda>_. True) (Rwalk.wqids m)"

record Rauth =
  aqid :: Qid

definition byte_size_Rauth :: "Rauth \<Rightarrow> u32" where
  "byte_size_Rauth m = 0 + byte_size_Qid (Rauth.aqid m)"

definition encode_Rauth :: "Rauth \<Rightarrow> unit writer" where
  "encode_Rauth m =
    io_then (encode_Qid (Rauth.aqid m)) (
    io_return ())"

definition decode_Rauth :: "Rauth reader" where
  "decode_Rauth =
    io_bind decode_Qid (\<lambda>aqid.
    io_return \<lparr>Rauth.aqid = aqid\<rparr>)"

record Rattach =
  qid :: Qid

definition byte_size_Rattach :: "Rattach \<Rightarrow> u32" where
  "byte_size_Rattach m = 0 + byte_size_Qid (Rattach.qid m)"

definition encode_Rattach :: "Rattach \<Rightarrow> unit writer" where
  "encode_Rattach m =
    io_then (encode_Qid (Rattach.qid m)) (
    io_return ())"

definition decode_Rattach :: "Rattach reader" where
  "decode_Rattach =
    io_bind decode_Qid (\<lambda>qid.
    io_return \<lparr>Rattach.qid = qid\<rparr>)"

section \<open>The derived methods keep the contract of \<open>WireFormat\<close>\<close>

lemma decodes_Rread:
  "decodes (\<lambda>m n. wf_Rread m \<and> n = length (payload encode_Rread m)) decode_Rread"
  unfolding decode_Rread_def
  by ((rule decodes_bind, rule io_decodes)+, rule decodes_return,
      simp add: wf_Rread_def payload_def [of encode_Rread] encode_Rread_def io_simps wire_simps)

interpretation Rread: wire_format byte_size_Rread encode_Rread decode_Rread wf_Rread
  using decodes_Rread
  by unfold_locales (simp_all add: payload_def [of encode_Rread] byte_size_Rread_def
      encode_Rread_def decode_Rread_def wf_Rread_def io_simps wire_simps)

lemma decodes_Rwrite:
  "decodes (\<lambda>m n. n = length (payload encode_Rwrite m)) decode_Rwrite"
  unfolding decode_Rwrite_def
  by ((rule decodes_bind, rule io_decodes)+, rule decodes_return,
      simp add: payload_def [of encode_Rwrite] encode_Rwrite_def io_simps wire_simps)

interpretation Rwrite: wire_format byte_size_Rwrite encode_Rwrite decode_Rwrite "\<lambda>_. True"
  using decodes_Rwrite
  by unfold_locales (simp_all add: payload_def [of encode_Rwrite] byte_size_Rwrite_def
      encode_Rwrite_def decode_Rwrite_def io_simps wire_simps)

lemma decodes_Rstatfs:
  "decodes (\<lambda>m n. n = length (payload encode_Rstatfs m)) decode_Rstatfs"
  unfolding decode_Rstatfs_def
  by ((rule decodes_bind, rule io_decodes)+, rule decodes_return,
      simp add: payload_def [of encode_Rstatfs] encode_Rstatfs_def io_simps wire_simps)

interpretation Rstatfs: wire_format byte_size_Rstatfs encode_Rstatfs decode_Rstatfs "\<lambda>_. True"
  using decodes_Rstatfs
  by unfold_locales (simp_all add: payload_def [of encode_Rstatfs] byte_size_Rstatfs_def
      encode_Rstatfs_def decode_Rstatfs_def io_simps wire_simps)

lemma decodes_Rlopen:
  "decodes (\<lambda>m n. n = length (payload encode_Rlopen m)) decode_Rlopen"
  unfolding decode_Rlopen_def
  by ((rule decodes_bind, rule io_decodes)+, rule decodes_return,
      simp add: payload_def [of encode_Rlopen] encode_Rlopen_def io_simps wire_simps)

interpretation Rlopen: wire_format byte_size_Rlopen encode_Rlopen decode_Rlopen "\<lambda>_. True"
  using decodes_Rlopen
  by unfold_locales (simp_all add: payload_def [of encode_Rlopen] byte_size_Rlopen_def
      encode_Rlopen_def decode_Rlopen_def io_simps wire_simps)

lemma decodes_Rlcreate:
  "decodes (\<lambda>m n. n = length (payload encode_Rlcreate m)) decode_Rlcreate"
  unfolding decode_Rlcreate_def
  by ((rule decodes_bind, rule io_decodes)+, rule decodes_return,
      simp add: payload_def [of encode_Rlcreate] encode_Rlcreate_def io_simps wire_simps)

interpretation Rlcreate: wire_format byte_size_Rlcreate encode_Rlcreate decode_Rlcreate "\<lambda>_. True"
  using decodes_Rlcreate
  by unfold_locales (simp_all add: payload_def [of encode_Rlcreate] byte_size_Rlcreate_def
      encode_Rlcreate_def decode_Rlcreate_def io_simps wire_simps)

lemma decodes_Rsymlink:
  "decodes (\<lambda>m n. n = length (payload encode_Rsymlink m)) decode_Rsymlink"
  unfolding decode_Rsymlink_def
  by ((rule decodes_bind, rule io_decodes)+, rule decodes_return,
      simp add: payload_def [of encode_Rsymlink] encode_Rsymlink_def io_simps wire_simps)

interpretation Rsymlink: wire_format byte_size_Rsymlink encode_Rsymlink decode_Rsymlink "\<lambda>_. True"
  using decodes_Rsymlink
  by unfold_locales (simp_all add: payload_def [of encode_Rsymlink] byte_size_Rsymlink_def
      encode_Rsymlink_def decode_Rsymlink_def io_simps wire_simps)

lemma decodes_Rmknod:
  "decodes (\<lambda>m n. n = length (payload encode_Rmknod m)) decode_Rmknod"
  unfolding decode_Rmknod_def
  by ((rule decodes_bind, rule io_decodes)+, rule decodes_return,
      simp add: payload_def [of encode_Rmknod] encode_Rmknod_def io_simps wire_simps)

interpretation Rmknod: wire_format byte_size_Rmknod encode_Rmknod decode_Rmknod "\<lambda>_. True"
  using decodes_Rmknod
  by unfold_locales (simp_all add: payload_def [of encode_Rmknod] byte_size_Rmknod_def
      encode_Rmknod_def decode_Rmknod_def io_simps wire_simps)

lemma decodes_Rreadlink:
  "decodes (\<lambda>m n. wf_Rreadlink m \<and> n = length (payload encode_Rreadlink m)) decode_Rreadlink"
  unfolding decode_Rreadlink_def
  by ((rule decodes_bind, rule io_decodes)+, rule decodes_return,
      simp add: wf_Rreadlink_def payload_def [of encode_Rreadlink] encode_Rreadlink_def io_simps wire_simps)

interpretation Rreadlink: wire_format byte_size_Rreadlink encode_Rreadlink decode_Rreadlink wf_Rreadlink
  using decodes_Rreadlink
  by unfold_locales (simp_all add: payload_def [of encode_Rreadlink] byte_size_Rreadlink_def
      encode_Rreadlink_def decode_Rreadlink_def wf_Rreadlink_def io_simps wire_simps)

lemma decodes_Rgetattr:
  "decodes (\<lambda>m n. n = length (payload encode_Rgetattr m)) decode_Rgetattr"
  unfolding decode_Rgetattr_def
  by ((rule decodes_bind, rule io_decodes)+, rule decodes_return,
      simp add: payload_def [of encode_Rgetattr] encode_Rgetattr_def io_simps wire_simps)

interpretation Rgetattr: wire_format byte_size_Rgetattr encode_Rgetattr decode_Rgetattr "\<lambda>_. True"
  using decodes_Rgetattr
  by unfold_locales (simp_all add: payload_def [of encode_Rgetattr] byte_size_Rgetattr_def
      encode_Rgetattr_def decode_Rgetattr_def io_simps wire_simps)

lemma decodes_Rxattrwalk:
  "decodes (\<lambda>m n. n = length (payload encode_Rxattrwalk m)) decode_Rxattrwalk"
  unfolding decode_Rxattrwalk_def
  by ((rule decodes_bind, rule io_decodes)+, rule decodes_return,
      simp add: payload_def [of encode_Rxattrwalk] encode_Rxattrwalk_def io_simps wire_simps)

interpretation Rxattrwalk: wire_format byte_size_Rxattrwalk encode_Rxattrwalk decode_Rxattrwalk "\<lambda>_. True"
  using decodes_Rxattrwalk
  by unfold_locales (simp_all add: payload_def [of encode_Rxattrwalk] byte_size_Rxattrwalk_def
      encode_Rxattrwalk_def decode_Rxattrwalk_def io_simps wire_simps)

lemma decodes_Rreaddir:
  "decodes (\<lambda>m n. wf_Rreaddir m \<and> n = length (payload encode_Rreaddir m)) decode_Rreaddir"
  unfolding decode_Rreaddir_def
  by ((rule decodes_bind, rule io_decodes)+, rule decodes_return,
      simp add: wf_Rreaddir_def payload_def [of encode_Rreaddir] encode_Rreaddir_def io_simps wire_simps)

interpretation Rreaddir: wire_format byte_size_Rreaddir encode_Rreaddir decode_Rreaddir wf_Rreaddir
  using decodes_Rreaddir
  by unfold_locales (simp_all add: payload_def [of encode_Rreaddir] byte_size_Rreaddir_def
      encode_Rreaddir_def decode_Rreaddir_def wf_Rreaddir_def io_simps wire_simps)

lemma decodes_Rlock:
  "decodes (\<lambda>m n. n = length (payload encode_Rlock m)) decode_Rlock"
  unfolding decode_Rlock_def
  by ((rule decodes_bind, rule io_decodes)+, rule decodes_return,
      simp add: payload_def [of encode_Rlock] encode_Rlock_def io_simps wire_simps)

interpretation Rlock: wire_format byte_size_Rlock encode_Rlock decode_Rlock "\<lambda>_. True"
  using decodes_Rlock
  by unfold_locales (simp_all add: payload_def [of encode_Rlock] byte_size_Rlock_def
      encode_Rlock_def decode_Rlock_def io_simps wire_simps)

lemma decodes_Rgetlock:
  "decodes (\<lambda>m n. wf_Rgetlock m \<and> n = length (payload encode_Rgetlock m)) decode_Rgetlock"
  unfolding decode_Rgetlock_def
  by ((rule decodes_bind, rule io_decodes)+, rule decodes_return,
      simp add: wf_Rgetlock_def payload_def [of encode_Rgetlock] encode_Rgetlock_def io_simps wire_simps)

interpretation Rgetlock: wire_format byte_size_Rgetlock encode_Rgetlock decode_Rgetlock wf_Rgetlock
  using decodes_Rgetlock
  by unfold_locales (simp_all add: payload_def [of encode_Rgetlock] byte_size_Rgetlock_def
      encode_Rgetlock_def decode_Rgetlock_def wf_Rgetlock_def io_simps wire_simps)

lemma decodes_Rlerror:
  "decodes (\<lambda>m n. n = length (payload encode_Rlerror m)) decode_Rlerror"
  unfolding decode_Rlerror_def
  by ((rule decodes_bind, rule io_decodes)+, rule decodes_return,
      simp add: payload_def [of encode_Rlerror] encode_Rlerror_def io_simps wire_simps)

interpretation Rlerror: wire_format byte_size_Rlerror encode_Rlerror decode_Rlerror "\<lambda>_. True"
  using decodes_Rlerror
  by unfold_locales (simp_all add: payload_def [of encode_Rlerror] byte_size_Rlerror_def
      encode_Rlerror_def decode_Rlerror_def io_simps wire_simps)

lemma decodes_Rerror:
  "decodes (\<lambda>m n. wf_Rerror m \<and> n = length (payload encode_Rerror m)) decode_Rerror"
  unfolding decode_Rerror_def
  by ((rule decodes_bind, rule io_decodes)+, rule decodes_return,
      simp add: wf_Rerror_def payload_def [of encode_Rerror] encode_Rerror_def io_simps wire_simps)

interpretation Rerror: wire_format byte_size_Rerror encode_Rerror decode_Rerror wf_Rerror
  using decodes_Rerror
  by unfold_locales (simp_all add: payload_def [of encode_Rerror] byte_size_Rerror_def
      encode_Rerror_def decode_Rerror_def wf_Rerror_def io_simps wire_simps)

lemma decodes_Rmkdir:
  "decodes (\<lambda>m n. n = length (payload encode_Rmkdir m)) decode_Rmkdir"
  unfolding decode_Rmkdir_def
  by ((rule decodes_bind, rule io_decodes)+, rule decodes_return,
      simp add: payload_def [of encode_Rmkdir] encode_Rmkdir_def io_simps wire_simps)

interpretation Rmkdir: wire_format byte_size_Rmkdir encode_Rmkdir decode_Rmkdir "\<lambda>_. True"
  using decodes_Rmkdir
  by unfold_locales (simp_all add: payload_def [of encode_Rmkdir] byte_size_Rmkdir_def
      encode_Rmkdir_def decode_Rmkdir_def io_simps wire_simps)

lemma decodes_Dirent:
  "decodes (\<lambda>m n. wf_Dirent m \<and> n = length (payload encode_Dirent m)) decode_Dirent"
  unfolding decode_Dirent_def
  by ((rule decodes_bind, rule io_decodes)+, rule decodes_return,
      simp add: wf_Dirent_def payload_def [of encode_Dirent] encode_Dirent_def io_simps wire_simps)

interpretation Dirent: wire_format byte_size_Dirent encode_Dirent decode_Dirent wf_Dirent
  using decodes_Dirent
  by unfold_locales (simp_all add: payload_def [of encode_Dirent] byte_size_Dirent_def
      encode_Dirent_def decode_Dirent_def wf_Dirent_def io_simps wire_simps)

lemma decodes_Rversion:
  "decodes (\<lambda>m n. wf_Rversion m \<and> n = length (payload encode_Rversion m)) decode_Rversion"
  unfolding decode_Rversion_def
  by ((rule decodes_bind, rule io_decodes)+, rule decodes_return,
      simp add: wf_Rversion_def payload_def [of encode_Rversion] encode_Rversion_def io_simps wire_simps)

interpretation Rversion: wire_format byte_size_Rversion encode_Rversion decode_Rversion wf_Rversion
  using decodes_Rversion
  by unfold_locales (simp_all add: payload_def [of encode_Rversion] byte_size_Rversion_def
      encode_Rversion_def decode_Rversion_def wf_Rversion_def io_simps wire_simps)

lemma decodes_Rwalk:
  "decodes (\<lambda>m n. wf_Rwalk m \<and> n = length (payload encode_Rwalk m)) decode_Rwalk"
  unfolding decode_Rwalk_def
  by ((rule decodes_bind, rule io_decodes)+, rule decodes_return,
      simp add: wf_Rwalk_def payload_def [of encode_Rwalk] encode_Rwalk_def io_simps wire_simps)

interpretation Rwalk: wire_format byte_size_Rwalk encode_Rwalk decode_Rwalk wf_Rwalk
  using decodes_Rwalk
  by unfold_locales (simp_all add: payload_def [of encode_Rwalk] byte_size_Rwalk_def
      encode_Rwalk_def decode_Rwalk_def wf_Rwalk_def io_simps wire_simps)

lemma decodes_Rauth:
  "decodes (\<lambda>m n. n = length (payload encode_Rauth m)) decode_Rauth"
  unfolding decode_Rauth_def
  by ((rule decodes_bind, rule io_decodes)+, rule decodes_return,
      simp add: payload_def [of encode_Rauth] encode_Rauth_def io_simps wire_simps)

interpretation Rauth: wire_format byte_size_Rauth encode_Rauth decode_Rauth "\<lambda>_. True"
  using decodes_Rauth
  by unfold_locales (simp_all add: payload_def [of encode_Rauth] byte_size_Rauth_def
      encode_Rauth_def decode_Rauth_def io_simps wire_simps)

lemma decodes_Rattach:
  "decodes (\<lambda>m n. n = length (payload encode_Rattach m)) decode_Rattach"
  unfolding decode_Rattach_def
  by ((rule decodes_bind, rule io_decodes)+, rule decodes_return,
      simp add: payload_def [of encode_Rattach] encode_Rattach_def io_simps wire_simps)

interpretation Rattach: wire_format byte_size_Rattach encode_Rattach decode_Rattach "\<lambda>_. True"
  using decodes_Rattach
  by unfold_locales (simp_all add: payload_def [of encode_Rattach] byte_size_Rattach_def
      encode_Rattach_def decode_Rattach_def io_simps wire_simps)

end
