(* ===== verification/Frames.thy ===== *)
theory Frames
  imports Tmessages Rmessages
begin

text \<open>
  The message type codes, the enums \<open>Tmessage\<close> and \<open>Rmessage\<close> and the framing of
  \<open>jetstream/src/coding/messages.rs\<close>: a frame is its own size (4 bytes), the type code (1 byte),
  the tag (2 bytes) and the message. A \<open>Tframe\<close> keeps a message that could not be decoded as an
  error, so that the server can answer its tag.
\<close>

section \<open>Message types\<close>

definition TLERROR :: u8 where "TLERROR = 6"
definition RLERROR :: u8 where "RLERROR = TLERROR + 1"
definition TSTATFS :: u8 where "TSTATFS = 8"
definition RSTATFS :: u8 where "RSTATFS = TSTATFS + 1"
definition TLOPEN :: u8 where "TLOPEN = 12"
definition RLOPEN :: u8 where "RLOPEN = TLOPEN + 1"
definition TLCREATE :: u8 where "TLCREATE = 14"
definition RLCREATE :: u8 where "RLCREATE = TLCREATE + 1"
definition TSYMLINK :: u8 where "TSYMLINK = 16"
definition RSYMLINK :: u8 where "RSYMLINK = TSYMLINK + 1"
definition TMKNOD :: u8 where "TMKNOD = 18"
definition RMKNOD :: u8 where "RMKNOD = TMKNOD + 1"
definition TRENAME :: u8 where "TRENAME = 20"
definition RRENAME :: u8 where "RRENAME = TRENAME + 1"
definition TREADLINK :: u8 where "TREADLINK = 22"
definition RREADLINK :: u8 where "RREADLINK = TREADLINK + 1"
definition TGETATTR :: u8 where "TGETATTR = 24"
definition RGETATTR :: u8 where "RGETATTR = TGETATTR + 1"
definition TSETATTR :: u8 where "TSETATTR = 26"
definition RSETATTR :: u8 where "RSETATTR = TSETATTR + 1"
definition TXATTRWALK :: u8 where "TXATTRWALK = 30"
definition RXATTRWALK :: u8 where "RXATTRWALK = TXATTRWALK + 1"
definition TXATTRCREATE :: u8 where "TXATTRCREATE = 32"
definition RXATTRCREATE :: u8 where "RXATTRCREATE = TXATTRCREATE + 1"
definition TREADDIR :: u8 where "TREADDIR = 40"
definition RREADDIR :: u8 where "RREADDIR = TREADDIR + 1"
definition TFSYNC :: u8 where "TFSYNC = 50"
definition RFSYNC :: u8 where "RFSYNC = TFSYNC + 1"
definition TLOCK :: u8 where "TLOCK = 52"
definition RLOCK :: u8 where "RLOCK = TLOCK + 1"
definition TGETLOCK :: u8 where "TGETLOCK = 54"
definition RGETLOCK :: u8 where "RGETLOCK = TGETLOCK + 1"
definition TLINK :: u8 where "TLINK = 70"
definition RLINK :: u8 where "RLINK = TLINK + 1"
definition TMKDIR :: u8 where "TMKDIR = 72"
definition RMKDIR :: u8 where "RMKDIR = TMKDIR + 1"
definition TRENAMEAT :: u8 where "TRENAMEAT = 74"
definition RRENAMEAT :: u8 where "RRENAMEAT = TRENAMEAT + 1"
definition TUNLINKAT :: u8 where "TUNLINKAT = 76"
definition RUNLINKAT :: u8 where "RUNLINKAT = TUNLINKAT + 1"
definition TVERSION :: u8 where "TVERSION = 100"
definition RVERSION :: u8 where "RVERSION = TVERSION + 1"
definition TAUTH :: u8 where "TAUTH = 102"
definition RAUTH :: u8 where "RAUTH = TAUTH + 1"
definition TATTACH :: u8 where "TATTACH = 104"
definition RATTACH :: u8 where "RATTACH = TATTACH + 1"
definition TERROR :: u8 where "TERROR = 106"
definition RERROR :: u8 where "RERROR = TERROR + 1"
definition TFLUSH :: u8 where "TFLUSH = 108"
definition RFLUSH :: u8 where "RFLUSH = TFLUSH + 1"
definition TWALK :: u8 where "TWALK = 110"
definition RWALK :: u8 where "RWALK = TWALK + 1"
definition TOPEN :: u8 where "TOPEN = 112"
definition ROPEN :: u8 where "ROPEN = TOPEN + 1"
definition TCREATE :: u8 where "TCREATE = 114"
definition RCREATE :: u8 where "RCREATE = TCREATE + 1"
definition TREAD :: u8 where "TREAD = 116"
definition RREAD :: u8 where "RREAD = TREAD + 1"
definition TWRITE :: u8 where "TWRITE = 118"
definition RWRITE :: u8 where "RWRITE = TWRITE + 1"
definition TCLUNK :: u8 where "TCLUNK = 120"
definition RCLUNK :: u8 where "RCLUNK = TCLUNK + 1"
definition TREMOVE :: u8 where "TREMOVE = 122"
definition RREMOVE :: u8 where "RREMOVE = TREMOVE + 1"
definition TSTAT :: u8 where "TSTAT = 124"
definition RSTAT :: u8 where "RSTAT = TSTAT + 1"
definition TWSTAT :: u8 where "TWSTAT = 126"
definition RWSTAT :: u8 where "RWSTAT = TWSTAT + 1"

lemmas message_types =
  TLERROR_def RLERROR_def TSTATFS_def RSTATFS_def TLOPEN_def RLOPEN_def TLCREATE_def RLCREATE_def
  TSYMLINK_def RSYMLINK_def TMKNOD_def RMKNOD_def TRENAME_def RRENAME_def TREADLINK_def
  RREADLINK_def TGETATTR_def RGETATTR_def TSETATTR_def RSETATTR_def TXATTRWALK_def RXATTRWALK_def
  TXATTRCREATE_def RXATTRCREATE_def TREADDIR_def RREADDIR_def TFSYNC_def RFSYNC_def TLOCK_def
  RLOCK_def TGETLOCK_def RGETLOCK_def TLINK_def RLINK_def TMKDIR_def RMKDIR_def TRENAMEAT_def
  RRENAMEAT_def TUNLINKAT_def RUNLINKAT_def TVERSION_def RVERSION_def TAUTH_def RAUTH_def
  TATTACH_def RATTACH_def TERROR_def RERROR_def TFLUSH_def RFLUSH_def TWALK_def RWALK_def
  TOPEN_def ROPEN_def TCREATE_def RCREATE_def TREAD_def RREAD_def TWRITE_def RWRITE_def
  TCLUNK_def RCLUNK_def TREMOVE_def RREMOVE_def TSTAT_def RSTAT_def TWSTAT_def RWSTAT_def

section \<open>Requests\<close>

datatype Tmessage =
    Version Tversion
  | Flush Tflush
  | Walk Twalk
  | Read Tread
  | Write Twrite
  | Clunk Tclunk
  | Remove Tremove
  | Attach Tattach
  | Auth Tauth
  | Statfs Tstatfs
  | Lopen Tlopen
  | Lcreate Tlcreate
  | Symlink Tsymlink
  | Mknod Tmknod
  | Rename Trename
  | Readlink Treadlink
  | GetAttr Tgetattr
  | SetAttr Tsetattr
  | XattrWalk Txattrwalk
  | XattrCreate Txattrcreate
  | Readdir Treaddir
  | Fsync Tfsync
  | Lock Tlock
  | GetLock Tgetlock
  | Link Tlink
  | Mkdir Tmkdir
  | RenameAt Trenameat
  | UnlinkAt Tunlinkat

record Tframe =
  tag :: u16
  msg :: "Tmessage io_result"

primrec byte_size_Tmessage :: "Tmessage \<Rightarrow> u32" where
  "byte_size_Tmessage (Tmessage.Version m) = byte_size_Tversion m"
| "byte_size_Tmessage (Tmessage.Flush m) = byte_size_Tflush m"
| "byte_size_Tmessage (Tmessage.Walk m) = byte_size_Twalk m"
| "byte_size_Tmessage (Tmessage.Read m) = byte_size_Tread m"
| "byte_size_Tmessage (Tmessage.Write m) = byte_size_Twrite m"
| "byte_size_Tmessage (Tmessage.Clunk m) = byte_size_Tclunk m"
| "byte_size_Tmessage (Tmessage.Remove m) = byte_size_Tremove m"
| "byte_size_Tmessage (Tmessage.Attach m) = byte_size_Tattach m"
| "byte_size_Tmessage (Tmessage.Auth m) = byte_size_Tauth m"
| "byte_size_Tmessage (Tmessage.Statfs m) = byte_size_Tstatfs m"
| "byte_size_Tmessage (Tmessage.Lopen m) = byte_size_Tlopen m"
| "byte_size_Tmessage (Tmessage.Lcreate m) = byte_size_Tlcreate m"
| "byte_size_Tmessage (Tmessage.Symlink m) = byte_size_Tsymlink m"
| "byte_size_Tmessage (Tmessage.Mknod m) = byte_size_Tmknod m"
| "byte_size_Tmessage (Tmessage.Rename m) = byte_size_Trename m"
| "byte_size_Tmessage (Tmessage.Readlink m) = byte_size_Treadlink m"
| "byte_size_Tmessage (Tmessage.GetAttr m) = byte_size_Tgetattr m"
| "byte_size_Tmessage (Tmessage.SetAttr m) = byte_size_Tsetattr m"
| "byte_size_Tmessage (Tmessage.XattrWalk m) = byte_size_Txattrwalk m"
| "byte_size_Tmessage (Tmessage.XattrCreate m) = byte_size_Txattrcreate m"
| "byte_size_Tmessage (Tmessage.Readdir m) = byte_size_Treaddir m"
| "byte_size_Tmessage (Tmessage.Fsync m) = byte_size_Tfsync m"
| "byte_size_Tmessage (Tmessage.Lock m) = byte_size_Tlock m"
| "byte_size_Tmessage (Tmessage.GetLock m) = byte_size_Tgetlock m"
| "byte_size_Tmessage (Tmessage.Link m) = byte_size_Tlink m"
| "byte_size_Tmessage (Tmessage.Mkdir m) = byte_size_Tmkdir m"
| "byte_size_Tmessage (Tmessage.RenameAt m) = byte_size_Trenameat m"
| "byte_size_Tmessage (Tmessage.UnlinkAt m) = byte_size_Tunlinkat m"

primrec Tmessage_type :: "Tmessage \<Rightarrow> u8" where
  "Tmessage_type (Tmessage.Version m) = TVERSION"
| "Tmessage_type (Tmessage.Flush m) = TFLUSH"
| "Tmessage_type (Tmessage.Walk m) = TWALK"
| "Tmessage_type (Tmessage.Read m) = TREAD"
| "Tmessage_type (Tmessage.Write m) = TWRITE"
| "Tmessage_type (Tmessage.Clunk m) = TCLUNK"
| "Tmessage_type (Tmessage.Remove m) = TREMOVE"
| "Tmessage_type (Tmessage.Attach m) = TATTACH"
| "Tmessage_type (Tmessage.Auth m) = TAUTH"
| "Tmessage_type (Tmessage.Statfs m) = TSTATFS"
| "Tmessage_type (Tmessage.Lopen m) = TLOPEN"
| "Tmessage_type (Tmessage.Lcreate m) = TLCREATE"
| "Tmessage_type (Tmessage.Symlink m) = TSYMLINK"
| "Tmessage_type (Tmessage.Mknod m) = TMKNOD"
| "Tmessage_type (Tmessage.Rename m) = TRENAME"
| "Tmessage_type (Tmessage.Readlink m) = TREADLINK"
| "Tmessage_type (Tmessage.GetAttr m) = TGETATTR"
| "Tmessage_type (Tmessage.SetAttr m) = TSETATTR"
| "Tmessage_type (Tmessage.XattrWalk m) = TXATTRWALK"
| "Tmessage_type (Tmessage.XattrCreate m) = TXATTRCREATE"
| "Tmessage_type (Tmessage.Readdir m) = TREADDIR"
| "Tmessage_type (Tmessage.Fsync m) = TFSYNC"
| "Tmessage_type (Tmessage.Lock m) = TLOCK"
| "Tmessage_type (Tmessage.GetLock m) = TGETLOCK"
| "Tmessage_type (Tmessage.Link m) = TLINK"
| "Tmessage_type (Tmessage.Mkdir m) = TMKDIR"
| "Tmessage_type (Tmessage.RenameAt m) = TRENAMEAT"
| "Tmessage_type (Tmessage.UnlinkAt m) = TUNLINKAT"

primrec encode_Tmessage :: "Tmessage \<Rightarrow> unit writer" where
  "encode_Tmessage (Tmessage.Version m) = encode_Tversion m"
| "encode_Tmessage (Tmessage.Flush m) = encode_Tflush m"
| "encode_Tmessage (Tmessage.Walk m) = encode_Twalk m"
| "encode_Tmessage (Tmessage.Read m) = encode_Tread m"
| "encode_Tmessage (Tmessage.Write m) = encode_Twrite m"
| "encode_Tmessage (Tmessage.Clunk m) = encode_Tclunk m"
| "encode_Tmessage (Tmessage.Remove m) = encode_Tremove m"
| "encode_Tmessage (Tmessage.Attach m) = encode_Tattach m"
| "encode_Tmessage (Tmessage.Auth m) = encode_Tauth m"
| "encode_Tmessage (Tmessage.Statfs m) = encode_Tstatfs m"
| "encode_Tmessage (Tmessage.Lopen m) = encode_Tlopen m"
| "encode_Tmessage (Tmessage.Lcreate m) = encode_Tlcreate m"
| "encode_Tmessage (Tmessage.Symlink m) = encode_Tsymlink m"
| "encode_Tmessage (Tmessage.Mknod m) = encode_Tmknod m"
| "encode_Tmessage (Tmessage.Rename m) = encode_Trename m"
| "encode_Tmessage (Tmessage.Readlink m) = encode_Treadlink m"
| "encode_Tmessage (Tmessage.GetAttr m) = encode_Tgetattr m"
| "encode_Tmessage (Tmessage.SetAttr m) = encode_Tsetattr m"
| "encode_Tmessage (Tmessage.XattrWalk m) = encode_Txattrwalk m"
| "encode_Tmessage (Tmessage.XattrCreate m) = encode_Txattrcreate m"
| "encode_Tmessage (Tmessage.Readdir m) = encode_Treaddir m"
| "encode_Tmessage (Tmessage.Fsync m) = encode_Tfsync m"
| "encode_Tmessage (Tmessage.Lock m) = encode_Tlock m"
| "encode_Tmessage (Tmessage.GetLock m) = encode_Tgetlock m"
| "encode_Tmessage (Tmessage.Link m) = encode_Tlink m"
| "encode_Tmessage (Tmessage.Mkdir m) = encode_Tmkdir m"
| "encode_Tmessage (Tmessage.RenameAt m) = encode_Trenameat m"
| "encode_Tmessage (Tmessage.UnlinkAt m) = encode_Tunlinkat m"

definition decode_Tmessage :: "u8 \<Rightarrow> Tmessage reader" where
  "decode_Tmessage t =
    (if t = TVERSION then io_bind decode_Tversion (\<lambda>m. io_return (Tmessage.Version m))
     else if t = TFLUSH then io_bind decode_Tflush (\<lambda>m. io_return (Tmessage.Flush m))
     else if t = TWALK then io_bind decode_Twalk (\<lambda>m. io_return (Tmessage.Walk m))
     else if t = TREAD then io_bind decode_Tread (\<lambda>m. io_return (Tmessage.Read m))
     else if t = TWRITE then io_bind decode_Twrite (\<lambda>m. io_return (Tmessage.Write m))
     else if t = TCLUNK then io_bind decode_Tclunk (\<lambda>m. io_return (Tmessage.Clunk m))
     else if t = TREMOVE then io_bind decode_Tremove (\<lambda>m. io_return (Tmessage.Remove m))
     else if t = TATTACH then io_bind decode_Tattach (\<lambda>m. io_return (Tmessage.Attach m))
     else if t = TAUTH then io_bind decode_Tauth (\<lambda>m. io_return (Tmessage.Auth m))
     else if t = TSTATFS then io_bind decode_Tstatfs (\<lambda>m. io_return (Tmessage.Statfs m))
     else if t = TLOPEN then io_bind decode_Tlopen (\<lambda>m. io_return (Tmessage.Lopen m))
     else if t = TLCREATE then io_bind decode_Tlcreate (\<lambda>m. io_return (Tmessage.Lcreate m))
     else if t = TSYMLINK then io_bind decode_Tsymlink (\<lambda>m. io_return (Tmessage.Symlink m))
     else if t = TMKNOD then io_bind decode_Tmknod (\<lambda>m. io_return (Tmessage.Mknod m))
     else if t = TRENAME then io_bind decode_Trename (\<lambda>m. io_return (Tmessage.Rename m))
     else if t = TREADLINK then io_bind decode_Treadlink (\<lambda>m. io_return (Tmessage.Readlink m))
     else if t = TGETATTR then io_bind decode_Tgetattr (\<lambda>m. io_return (Tmessage.GetAttr m))
     else if t = TSETATTR then io_bind decode_Tsetattr (\<lambda>m. io_return (Tmessage.SetAttr m))
     else if t = TXATTRWALK then io_bind decode_Txattrwalk (\<lambda>m. io_return (Tmessage.XattrWalk m))
     else if t = TXATTRCREATE then io_bind decode_Txattrcreate (\<lambda>m. io_return (Tmessage.XattrCreate m))
     else if t = TREADDIR then io_bind decode_Treaddir (\<lambda>m. io_return (Tmessage.Readdir m))
     else if t = TFSYNC then io_bind decode_Tfsync (\<lambda>m. io_return (Tmessage.Fsync m))
     else if t = TLOCK then io_bind decode_Tlock (\<lambda>m. io_return (Tmessage.Lock m))
     else if t = TGETLOCK then io_bind decode_Tgetlock (\<lambda>m. io_return (Tmessage.GetLock m))
     else if t = TLINK then io_bind decode_Tlink (\<lambda>m. io_return (Tmessage.Link m))
     else if t = TMKDIR then io_bind decode_Tmkdir (\<lambda>m. io_return (Tmessage.Mkdir m))
     else if t = TRENAMEAT then io_bind decode_Trenameat (\<lambda>m. io_return (Tmessage.RenameAt m))
     else if t = TUNLINKAT then io_bind decode_Tunlinkat (\<lambda>m. io_return (Tmessage.UnlinkAt m))
     else io_fail (Kind InvalidData))"

primrec wf_Tmessage :: "Tmessage \<Rightarrow> bool" where
  "wf_Tmessage (Tmessage.Version m) = wf_Tversion m"
| "wf_Tmessage (Tmessage.Flush m) = True"
| "wf_Tmessage (Tmessage.Walk m) = wf_Twalk m"
| "wf_Tmessage (Tmessage.Read m) = True"
| "wf_Tmessage (Tmessage.Write m) = wf_Twrite m"
| "wf_Tmessage (Tmessage.Clunk m) = True"
| "wf_Tmessage (Tmessage.Remove m) = True"
| "wf_Tmessage (Tmessage.Attach m) = wf_Tattach m"
| "wf_Tmessage (Tmessage.Auth m) = wf_Tauth m"
| "wf_Tmessage (Tmessage.Statfs m) = True"
| "wf_Tmessage (Tmessage.Lopen m) = True"
| "wf_Tmessage (Tmessage.Lcreate m) = wf_Tlcreate m"
| "wf_Tmessage (Tmessage.Symlink m) = wf_Tsymlink m"
| "wf_Tmessage (Tmessage.Mknod m) = wf_Tmknod m"
| "wf_Tmessage (Tmessage.Rename m) = wf_Trename m"
| "wf_Tmessage (Tmessage.Readlink m) = True"
| "wf_Tmessage (Tmessage.GetAttr m) = True"
| "wf_Tmessage (Tmessage.SetAttr m) = True"
| "wf_Tmessage (Tmessage.XattrWalk m) = wf_Txattrwalk m"
| "wf_Tmessage (Tmessage.XattrCreate m) = wf_Txattrcreate m"
| "wf_Tmessage (Tmessage.Readdir m) = True"
| "wf_Tmessage (Tmessage.Fsync m) = True"
| "wf_Tmessage (Tmessage.Lock m) = wf_Tlock m"
| "wf_Tmessage (Tmessage.GetLock m) = wf_Tgetlock m"
| "wf_Tmessage (Tmessage.Link m) = wf_Tlink m"
| "wf_Tmessage (Tmessage.Mkdir m) = wf_Tmkdir m"
| "wf_Tmessage (Tmessage.RenameAt m) = wf_Trenameat m"
| "wf_Tmessage (Tmessage.UnlinkAt m) = wf_Tunlinkat m"

text \<open>\<open>byte_size\<close> panics (\<open>None\<close>) on a frame whose message did not decode.\<close>

definition byte_size_Tframe :: "Tframe \<Rightarrow> u32 option" where
  "byte_size_Tframe f =
     (case Tframe.msg f of
        Inl e \<Rightarrow> None
      | Inr m \<Rightarrow> Some (of_nat (4 + 1 + 2) + byte_size_Tmessage m))"

definition encode_Tframe :: "Tframe \<Rightarrow> unit writer" where
  "encode_Tframe f =
     (case Tframe.msg f of
        Inl e \<Rightarrow> io_fail (Kind InvalidData)
      | Inr m \<Rightarrow>
          io_then (encode_u32 (the (byte_size_Tframe f))) (
          io_then (encode_u8 (Tmessage_type m)) (
          io_then (encode_u16 (Tframe.tag f)) (
          encode_Tmessage m))))"

definition decode_Tframe :: "Tframe reader" where
  "decode_Tframe =
     io_bind decode_u32 (\<lambda>byte_size.
       if byte_size < 4 then io_fail (Kind InvalidData)
       else io_take (unat (byte_size - 4)) (
         io_bind (read_exact 1) (\<lambda>ty.
         io_bind decode_u16 (\<lambda>tag.
         io_bind (io_try (decode_Tmessage (ty ! 0))) (\<lambda>msg.
         io_return \<lparr>Tframe.tag = tag, Tframe.msg = msg\<rparr>)))))"

section \<open>Replies\<close>

datatype Rmessage =
    Version Rversion
  | Flush
  | Walk Rwalk
  | Read Rread
  | Write Rwrite
  | Clunk
  | Remove
  | Attach Rattach
  | Auth Rauth
  | Statfs Rstatfs
  | Lopen Rlopen
  | Lcreate Rlcreate
  | Symlink Rsymlink
  | Mknod Rmknod
  | Rename
  | Readlink Rreadlink
  | GetAttr Rgetattr
  | SetAttr
  | XattrWalk Rxattrwalk
  | XattrCreate
  | Readdir Rreaddir
  | Fsync
  | Lock Rlock
  | GetLock Rgetlock
  | Link
  | Mkdir Rmkdir
  | RenameAt
  | UnlinkAt
  | Lerror Rlerror

record Rframe =
  tag :: u16
  msg :: Rmessage

primrec byte_size_Rmessage :: "Rmessage \<Rightarrow> u32" where
  "byte_size_Rmessage (Rmessage.Version m) = byte_size_Rversion m"
| "byte_size_Rmessage Rmessage.Flush = 0"
| "byte_size_Rmessage (Rmessage.Walk m) = byte_size_Rwalk m"
| "byte_size_Rmessage (Rmessage.Read m) = byte_size_Rread m"
| "byte_size_Rmessage (Rmessage.Write m) = byte_size_Rwrite m"
| "byte_size_Rmessage Rmessage.Clunk = 0"
| "byte_size_Rmessage Rmessage.Remove = 0"
| "byte_size_Rmessage (Rmessage.Attach m) = byte_size_Rattach m"
| "byte_size_Rmessage (Rmessage.Auth m) = byte_size_Rauth m"
| "byte_size_Rmessage (Rmessage.Statfs m) = byte_size_Rstatfs m"
| "byte_size_Rmessage (Rmessage.Lopen m) = byte_size_Rlopen m"
| "byte_size_Rmessage (Rmessage.Lcreate m) = byte_size_Rlcreate m"
| "byte_size_Rmessage (Rmessage.Symlink m) = byte_size_Rsymlink m"
| "byte_size_Rmessage (Rmessage.Mknod m) = byte_size_Rmknod m"
| "byte_size_Rmessage Rmessage.Rename = 0"
| "byte_size_Rmessage (Rmessage.Readlink m) = byte_size_Rreadlink m"
| "byte_size_Rmessage (Rmessage.GetAttr m) = byte_size_Rgetattr m"
| "byte_size_Rmessage Rmessage.SetAttr = 0"
| "byte_size_Rmessage (Rmessage.XattrWalk m) = byte_size_Rxattrwalk m"
| "byte_size_Rmessage Rmessage.XattrCreate = 0"
| "byte_size_Rmessage (Rmessage.Readdir m) = byte_size_Rreaddir m"
| "byte_size_Rmessage Rmessage.Fsync = 0"
| "byte_size_Rmessage (Rmessage.Lock m) = byte_size_Rlock m"
| "byte_size_Rmessage (Rmessage.GetLock m) = byte_size_Rgetlock m"
| "byte_size_Rmessage Rmessage.Link = 0"
| "byte_size_Rmessage (Rmessage.Mkdir m) = byte_size_Rmkdir m"
| "byte_size_Rmessage Rmessage.RenameAt = 0"
| "byte_size_Rmessage Rmessage.UnlinkAt = 0"
| "byte_size_Rmessage (Rmessage.Lerror m) = byte_size_Rlerror m"

primrec Rmessage_type :: "Rmessage \<Rightarrow> u8" where
  "Rmessage_type (Rmessage.Version m) = RVERSION"
| "Rmessage_type Rmessage.Flush = RFLUSH"
| "Rmessage_type (Rmessage.Walk m) = RWALK"
| "Rmessage_type (Rmessage.Read m) = RREAD"
| "Rmessage_type (Rmessage.Write m) = RWRITE"
| "Rmessage_type Rmessage.Clunk = RCLUNK"
| "Rmessage_type Rmessage.Remove = RREMOVE"
| "Rmessage_type (Rmessage.Attach m) = RATTACH"
| "Rmessage_type (Rmessage.Auth m) = RAUTH"
| "Rmessage_type (Rmessage.Statfs m) = RSTATFS"
| "Rmessage_type (Rmessage.Lopen m) = RLOPEN"
| "Rmessage_type (Rmessage.Lcreate m) = RLCREATE"
| "Rmessage_type (Rmessage.Symlink m) = RSYMLINK"
| "Rmessage_type (Rmessage.Mknod m) = RMKNOD"
| "Rmessage_type Rmessage.Rename = RRENAME"
| "Rmessage_type (Rmessage.Readlink m) = RREADLINK"
| "Rmessage_type (Rmessage.GetAttr m) = RGETATTR"
| "Rmessage_type Rmessage.SetAttr = RSETATTR"
| "Rmessage_type (Rmessage.XattrWalk m) = RXATTRWALK"
| "Rmessage_type Rmessage.XattrCreate = RXATTRCREATE"
| "Rmessage_type (Rmessage.Readdir m) = RREADDIR"
| "Rmessage_type Rmessage.Fsync = RFSYNC"
| "Rmessage_type (Rmessage.Lock m) = RLOCK"
| "Rmessage_type (Rmessage.GetLock m) = RGETLOCK"
| "Rmessage_type Rmessage.Link = RLINK"
| "Rmessage_type (Rmessage.Mkdir m) = RMKDIR"
| "Rmessage_type Rmessage.RenameAt = RRENAMEAT"
| "Rmessage_type Rmessage.UnlinkAt = RUNLINKAT"
| "Rmessage_type (Rmessage.Lerror m) = RLERROR"

primrec encode_Rmessage :: "Rmessage \<Rightarrow> unit writer" where
  "encode_Rmessage (Rmessage.Version m) = encode_Rversion m"
| "encode_Rmessage Rmessage.Flush = io_return ()"
| "encode_Rmessage (Rmessage.Walk m) = encode_Rwalk m"
| "encode_Rmessage (Rmessage.Read m) = encode_Rread m"
| "encode_Rmessage (Rmessage.Write m) = encode_Rwrite m"
| "encode_Rmessage Rmessage.Clunk = io_return ()"
| "encode_Rmessage Rmessage.Remove = io_return ()"
| "encode_Rmessage (Rmessage.Attach m) = encode_Rattach m"
| "encode_Rmessage (Rmessage.Auth m) = encode_Rauth m"
| "encode_Rmessage (Rmessage.Statfs m) = encode_Rstatfs m"
| "encode_Rmessage (Rmessage.Lopen m) = encode_Rlopen m"
| "encode_Rmessage (Rmessage.Lcreate m) = encode_Rlcreate m"
| "encode_Rmessage (Rmessage.Symlink m) = encode_Rsymlink m"
| "encode_Rmessage (Rmessage.Mknod m) = encode_Rmknod m"
| "encode_Rmessage Rmessage.Rename = io_return ()"
| "encode_Rmessage (Rmessage.Readlink m) = encode_Rreadlink m"
| "encode_Rmessage (Rmessage.GetAttr m) = encode_Rgetattr m"
| "encode_Rmessage Rmessage.SetAttr = io_return ()"
| "encode_Rmessage (Rmessage.XattrWalk m) = encode_Rxattrwalk m"
| "encode_Rmessage Rmessage.XattrCreate = io_return ()"
| "encode_Rmessage (Rmessage.Readdir m) = encode_Rreaddir m"
| "encode_Rmessage Rmessage.Fsync = io_return ()"
| "encode_Rmessage (Rmessage.Lock m) = encode_Rlock m"
| "encode_Rmessage (Rmessage.GetLock m) = encode_Rgetlock m"
| "encode_Rmessage Rmessage.Link = io_return ()"
| "encode_Rmessage (Rmessage.Mkdir m) = encode_Rmkdir m"
| "encode_Rmessage Rmessage.RenameAt = io_return ()"
| "encode_Rmessage Rmessage.UnlinkAt = io_return ()"
| "encode_Rmessage (Rmessage.Lerror m) = encode_Rlerror m"

definition decode_Rmessage :: "u8 \<Rightarrow> Rmessage reader" where
  "decode_Rmessage t =
    (if t = RVERSION then io_bind decode_Rversion (\<lambda>m. io_return (Rmessage.Version m))
     else if t = RFLUSH then io_return Rmessage.Flush
     else if t = RWALK then io_bind decode_Rwalk (\<lambda>m. io_return (Rmessage.Walk m))
     else if t = RREAD then io_bind decode_Rread (\<lambda>m. io_return (Rmessage.Read m))
     else if t = RWRITE then io_bind decode_Rwrite (\<lambda>m. io_return (Rmessage.Write m))
     else if t = RCLUNK then io_return Rmessage.Clunk
     else if t = RREMOVE then io_return Rmessage.Remove
     else if t = RATTACH then io_bind decode_Rattach (\<lambda>m. io_return (Rmessage.Attach m))
     else if t = RAUTH then io_bind decode_Rauth (\<lambda>m. io_return (Rmessage.Auth m))
     else if t = RSTATFS then io_bind decode_Rstatfs (\<lambda>m. io_return (Rmessage.Statfs m))
     else if t = RLOPEN then io_bind decode_Rlopen (\<lambda>m. io_return (Rmessage.Lopen m))
     else if t = RLCREATE then io_bind decode_Rlcreate (\<lambda>m. io_return (Rmessage.Lcreate m))
     else if t = RSYMLINK then io_bind decode_Rsymlink (\<lambda>m. io_return (Rmessage.Symlink m))
     else if t = RMKNOD then io_bind decode_Rmknod (\<lambda>m. io_return (Rmessage.Mknod m))
     else if t = RRENAME then io_return Rmessage.Rename
     else if t = RREADLINK then io_bind decode_Rreadlink (\<lambda>m. io_return (Rmessage.Readlink m))
     else if t = RGETATTR then io_bind decode_Rgetattr (\<lambda>m. io_return (Rmessage.GetAttr m))
     else if t = RSETATTR then io_return Rmessage.SetAttr
     else if t = RXATTRWALK then io_bind decode_Rxattrwalk (\<lambda>m. io_return (Rmessage.XattrWalk m))
     else if t = RXATTRCREATE then io_return Rmessage.XattrCreate
     else if t = RREADDIR then io_bind decode_Rreaddir (\<lambda>m. io_return (Rmessage.Readdir m))
     else if t = RFSYNC then io_return Rmessage.Fsync
     else if t = RLOCK then io_bind decode_Rlock (\<lambda>m. io_return (Rmessage.Lock m))
     else if t = RGETLOCK then io_bind decode_Rgetlock (\<lambda>m. io_return (Rmessage.GetLock m))
     else if t = RLINK then io_return Rmessage.Link
     else if t = RMKDIR then io_bind decode_Rmkdir (\<lambda>m. io_return (Rmessage.Mkdir m))
     else if t = RRENAMEAT then io_return Rmessage.RenameAt
     else if t = RUNLINKAT then io_return Rmessage.UnlinkAt
     else if t = RLERROR then io_bind decode_Rlerror (\<lambda>m. io_return (Rmessage.Lerror m))
     else io_fail (Kind InvalidData))"

primrec wf_Rmessage :: "Rmessage \<Rightarrow> bool" where
  "wf_Rmessage (Rmessage.Version m) = wf_Rversion m"
| "wf_Rmessage Rmessage.Flush = True"
| "wf_Rmessage (Rmessage.Walk m) = wf_Rwalk m"
| "wf_Rmessage (Rmessage.Read m) = wf_Rread m"
| "wf_Rmessage (Rmessage.Write m) = True"
| "wf_Rmessage Rmessage.Clunk = True"
| "wf_Rmessage Rmessage.Remove = True"
| "wf_Rmessage (Rmessage.Attach m) = True"
| "wf_Rmessage (Rmessage.Auth m) = True"
| "wf_Rmessage (Rmessage.Statfs m) = True"
| "wf_Rmessage (Rmessage.Lopen m) = True"
| "wf_Rmessage (Rmessage.Lcreate m) = True"
| "wf_Rmessage (Rmessage.Symlink m) = True"
| "wf_Rmessage (Rmessage.Mknod m) = True"
| "wf_Rmessage Rmessage.Rename = True"
| "wf_Rmessage (Rmessage.Readlink m) = wf_Rreadlink m"
| "wf_Rmessage (Rmessage.GetAttr m) = True"
| "wf_Rmessage Rmessage.SetAttr = True"
| "wf_Rmessage (Rmessage.XattrWalk m) = True"
| "wf_Rmessage Rmessage.XattrCreate = True"
| "wf_Rmessage (Rmessage.Readdir m) = wf_Rreaddir m"
| "wf_Rmessage Rmessage.Fsync = True"
| "wf_Rmessage (Rmessage.Lock m) = True"
| "wf_Rmessage (Rmessage.GetLock m) = wf_Rgetlock m"
| "wf_Rmessage Rmessage.Link = True"
| "wf_Rmessage (Rmessage.Mkdir m) = True"
| "wf_Rmessage Rmessage.RenameAt = True"
| "wf_Rmessage Rmessage.UnlinkAt = True"
| "wf_Rmessage (Rmessage.Lerror m) = True"

definition byte_size_Rframe :: "Rframe \<Rightarrow> u32" where
  "byte_size_Rframe f = of_nat (4 + 1 + 2) + byte_size_Rmessage (Rframe.msg f)"

definition encode_Rframe :: "Rframe \<Rightarrow> unit writer" where
  "encode_Rframe f =
     io_then (encode_u32 (byte_size_Rframe f)) (
     io_then (encode_u8 (Rmessage_type (Rframe.msg f))) (
     io_then (encode_u16 (Rframe.tag f)) (
     encode_Rmessage (Rframe.msg f))))"

text \<open>
  Unlike \<open>Tframe::decode\<close>, the size is not compared with 4 before 4 is subtracted from it; the
  subtraction wraps.
\<close>

definition decode_Rframe :: "Rframe reader" where
  "decode_Rframe =
     io_bind decode_u32 (\<lambda>byte_size.
       io_take (unat (byte_size - 4)) (
         io_bind (read_exact 1) (\<lambda>ty.
         io_bind decode_u16 (\<lambda>tag.
         io_bind (decode_Rmessage (ty ! 0)) (\<lambda>msg.
         io_return \<lparr>Rframe.tag = tag, Rframe.msg = msg\<rparr>)))))"

section \<open>Frames that fit\<close>

text \<open>
  A request fits when its message does and the whole frame is shorter than 4 GiB, which only
  a \<open>Twalk\<close> of tens of thousands of long names could miss. Replies are always shorter.
\<close>

definition wf_Tframe :: "Tframe \<Rightarrow> bool" where
  "wf_Tframe f \<longleftrightarrow>
     (case Tframe.msg f of
        Inl e \<Rightarrow> False
      | Inr m \<Rightarrow> wf_Tmessage m \<and> 7 + length (payload encode_Tmessage m) < 2 ^ 32)"

definition wf_Rframe :: "Rframe \<Rightarrow> bool" where
  "wf_Rframe f \<longleftrightarrow> wf_Rmessage (Rframe.msg f)"

text \<open>The layout of a frame on the wire.\<close>

definition frame_bytes :: "u8 \<Rightarrow> u16 \<Rightarrow> bytes \<Rightarrow> bytes" where
  "frame_bytes t g body =
     payload encode_u32 (of_nat (7 + length body)) @ t # payload encode_u16 g @ body"

section \<open>The messages\<close>

lemmas T_appends =
  Tversion.encode_appends Tflush.encode_appends [OF TrueI] Twalk.encode_appends
  Tread.encode_appends [OF TrueI] Twrite.encode_appends Tclunk.encode_appends [OF TrueI]
  Tremove.encode_appends [OF TrueI] Tattach.encode_appends Tauth.encode_appends
  Tstatfs.encode_appends [OF TrueI] Tlopen.encode_appends [OF TrueI] Tlcreate.encode_appends
  Tsymlink.encode_appends Tmknod.encode_appends Trename.encode_appends
  Treadlink.encode_appends [OF TrueI] Tgetattr.encode_appends [OF TrueI]
  Tsetattr.encode_appends [OF TrueI] Txattrwalk.encode_appends Txattrcreate.encode_appends
  Treaddir.encode_appends [OF TrueI] Tfsync.encode_appends [OF TrueI] Tlock.encode_appends
  Tgetlock.encode_appends Tlink.encode_appends Tmkdir.encode_appends Trenameat.encode_appends
  Tunlinkat.encode_appends

lemmas T_sizes =
  Tversion.byte_size_payload Tflush.byte_size_payload [OF TrueI] Twalk.byte_size_payload
  Tread.byte_size_payload [OF TrueI] Twrite.byte_size_payload Tclunk.byte_size_payload [OF TrueI]
  Tremove.byte_size_payload [OF TrueI] Tattach.byte_size_payload Tauth.byte_size_payload
  Tstatfs.byte_size_payload [OF TrueI] Tlopen.byte_size_payload [OF TrueI]
  Tlcreate.byte_size_payload Tsymlink.byte_size_payload Tmknod.byte_size_payload
  Trename.byte_size_payload Treadlink.byte_size_payload [OF TrueI]
  Tgetattr.byte_size_payload [OF TrueI] Tsetattr.byte_size_payload [OF TrueI]
  Txattrwalk.byte_size_payload Txattrcreate.byte_size_payload
  Treaddir.byte_size_payload [OF TrueI] Tfsync.byte_size_payload [OF TrueI]
  Tlock.byte_size_payload Tgetlock.byte_size_payload Tlink.byte_size_payload
  Tmkdir.byte_size_payload Trenameat.byte_size_payload Tunlinkat.byte_size_payload

lemmas T_payloads =
  Tversion.decode_payload Tflush.decode_payload [OF TrueI] Twalk.decode_payload
  Tread.decode_payload [OF TrueI] Twrite.decode_payload Tclunk.decode_payload [OF TrueI]
  Tremove.decode_payload [OF TrueI] Tattach.decode_payload Tauth.decode_payload
  Tstatfs.decode_payload [OF TrueI] Tlopen.decode_payload [OF TrueI] Tlcreate.decode_payload
  Tsymlink.decode_payload Tmknod.decode_payload Trename.decode_payload
  Treadlink.decode_payload [OF TrueI] Tgetattr.decode_payload [OF TrueI]
  Tsetattr.decode_payload [OF TrueI] Txattrwalk.decode_payload Txattrcreate.decode_payload
  Treaddir.decode_payload [OF TrueI] Tfsync.decode_payload [OF TrueI] Tlock.decode_payload
  Tgetlock.decode_payload Tlink.decode_payload Tmkdir.decode_payload Trenameat.decode_payload
  Tunlinkat.decode_payload

lemmas T_decodes =
  Tversion.decode_decodes Tflush.decode_decodes Twalk.decode_decodes Tread.decode_decodes
  Twrite.decode_decodes Tclunk.decode_decodes Tremove.decode_decodes Tattach.decode_decodes
  Tauth.decode_decodes Tstatfs.decode_decodes Tlopen.decode_decodes Tlcreate.decode_decodes
  Tsymlink.decode_decodes Tmknod.decode_decodes Trename.decode_decodes Treadlink.decode_decodes
  Tgetattr.decode_decodes Tsetattr.decode_decodes Txattrwalk.decode_decodes
  Txattrcreate.decode_decodes Treaddir.decode_decodes Tfsync.decode_decodes Tlock.decode_decodes
  Tgetlock.decode_decodes Tlink.decode_decodes Tmkdir.decode_decodes Trenameat.decode_decodes
  Tunlinkat.decode_decodes

lemma payload_Tmessage_unit [simp]: "encode_Tmessage m = io_return () \<Longrightarrow> payload encode_Tmessage m = []"
  by (simp add: payload_def io_simps)

lemma encode_Tmessage_appends: "wf_Tmessage m \<Longrightarrow> encode_Tmessage m w = (Ok (), w @ payload encode_Tmessage m)"
  by (cases m) (simp_all add: payload_def [of encode_Tmessage] T_appends io_simps)

lemma byte_size_Tmessage_payload:
  "wf_Tmessage m \<Longrightarrow> byte_size_Tmessage m = of_nat (length (payload encode_Tmessage m))"
  by (cases m) (simp_all add: payload_def [of encode_Tmessage] T_appends T_sizes io_simps)

lemma decode_Tmessage_payload:
  "wf_Tmessage m \<Longrightarrow> decode_Tmessage (Tmessage_type m) (payload encode_Tmessage m @ r) = (Ok m, r)"
  by (cases m) (simp_all add: payload_def [of encode_Tmessage] decode_Tmessage_def message_types
      T_appends T_payloads io_simps)


lemmas R_appends =
  Rversion.encode_appends Rwalk.encode_appends Rread.encode_appends
  Rwrite.encode_appends [OF TrueI] Rattach.encode_appends [OF TrueI]
  Rauth.encode_appends [OF TrueI] Rstatfs.encode_appends [OF TrueI]
  Rlopen.encode_appends [OF TrueI] Rlcreate.encode_appends [OF TrueI]
  Rsymlink.encode_appends [OF TrueI] Rmknod.encode_appends [OF TrueI] Rreadlink.encode_appends
  Rgetattr.encode_appends [OF TrueI] Rxattrwalk.encode_appends [OF TrueI] Rreaddir.encode_appends
  Rlock.encode_appends [OF TrueI] Rgetlock.encode_appends Rmkdir.encode_appends [OF TrueI]
  Rlerror.encode_appends [OF TrueI]

lemmas R_sizes =
  Rversion.byte_size_payload Rwalk.byte_size_payload Rread.byte_size_payload
  Rwrite.byte_size_payload [OF TrueI] Rattach.byte_size_payload [OF TrueI]
  Rauth.byte_size_payload [OF TrueI] Rstatfs.byte_size_payload [OF TrueI]
  Rlopen.byte_size_payload [OF TrueI] Rlcreate.byte_size_payload [OF TrueI]
  Rsymlink.byte_size_payload [OF TrueI] Rmknod.byte_size_payload [OF TrueI]
  Rreadlink.byte_size_payload Rgetattr.byte_size_payload [OF TrueI]
  Rxattrwalk.byte_size_payload [OF TrueI] Rreaddir.byte_size_payload
  Rlock.byte_size_payload [OF TrueI] Rgetlock.byte_size_payload
  Rmkdir.byte_size_payload [OF TrueI] Rlerror.byte_size_payload [OF TrueI]

lemmas R_payloads =
  Rversion.decode_payload Rwalk.decode_payload Rread.decode_payload
  Rwrite.decode_payload [OF TrueI] Rattach.decode_payload [OF TrueI]
  Rauth.decode_payload [OF TrueI] Rstatfs.decode_payload [OF TrueI]
  Rlopen.decode_payload [OF TrueI] Rlcreate.decode_payload [OF TrueI]
  Rsymlink.decode_payload [OF TrueI] Rmknod.decode_payload [OF TrueI] Rreadlink.decode_payload
  Rgetattr.decode_payload [OF TrueI] Rxattrwalk.decode_payload [OF TrueI] Rreaddir.decode_payload
  Rlock.decode_payload [OF TrueI] Rgetlock.decode_payload Rmkdir.decode_payload [OF TrueI]
  Rlerror.decode_payload [OF TrueI]

lemmas R_decodes =
  Rversion.decode_decodes Rwalk.decode_decodes Rread.decode_decodes Rwrite.decode_decodes
  Rattach.decode_decodes Rauth.decode_decodes Rstatfs.decode_decodes Rlopen.decode_decodes
  Rlcreate.decode_decodes Rsymlink.decode_decodes Rmknod.decode_decodes Rreadlink.decode_decodes
  Rgetattr.decode_decodes Rxattrwalk.decode_decodes Rreaddir.decode_decodes Rlock.decode_decodes
  Rgetlock.decode_decodes Rmkdir.decode_decodes Rlerror.decode_decodes

lemma payload_Rmessage_unit [simp]: "encode_Rmessage m = io_return () \<Longrightarrow> payload encode_Rmessage m = []"
  by (simp add: payload_def io_simps)

lemma encode_Rmessage_appends: "wf_Rmessage m \<Longrightarrow> encode_Rmessage m w = (Ok (), w @ payload encode_Rmessage m)"
  by (cases m) (simp_all add: payload_def [of encode_Rmessage] R_appends io_simps)

lemma byte_size_Rmessage_payload:
  "wf_Rmessage m \<Longrightarrow> byte_size_Rmessage m = of_nat (length (payload encode_Rmessage m))"
  by (cases m) (simp_all add: payload_def [of encode_Rmessage] R_appends R_sizes io_simps)

lemma decode_Rmessage_payload:
  "wf_Rmessage m \<Longrightarrow> decode_Rmessage (Rmessage_type m) (payload encode_Rmessage m @ r) = (Ok m, r)"
  by (cases m) (simp_all add: payload_def [of encode_Rmessage] decode_Rmessage_def message_types
      R_appends R_payloads io_simps)


lemma decodes_Tmessage:
  "decodes (\<lambda>m n. wf_Tmessage m \<and> n = length (payload encode_Tmessage m)) (decode_Tmessage t)"
  unfolding decode_Tmessage_def
  by ((rule decodes_if, rule decodes_map, rule T_decodes, simp add: payload_def)+, rule decodes_fail)

lemma decodes_Rmessage:
  "decodes (\<lambda>m n. wf_Rmessage m \<and> n = length (payload encode_Rmessage m)) (decode_Rmessage t)"
  unfolding decode_Rmessage_def
  by ((rule decodes_if,
       ((rule decodes_return, simp) | (rule decodes_map, rule R_decodes, simp add: payload_def)))+,
      rule decodes_fail)

lemma length_frame_bytes: "length (frame_bytes t g body) = 7 + length body"
  by (simp add: frame_bytes_def)

lemma encode_Tframe_appends:
  assumes "Tframe.msg f = Ok m" "wf_Tmessage m"
  shows "encode_Tframe f w =
    (Ok (), w @ frame_bytes (Tmessage_type m) (Tframe.tag f) (payload encode_Tmessage m))"
  using assms
  by (simp add: encode_Tframe_def byte_size_Tframe_def wire_simps io_simps encode_Tmessage_appends
      byte_size_Tmessage_payload frame_bytes_def payload_u8)

lemma encode_Rframe_appends:
  assumes "wf_Rframe f"
  shows "encode_Rframe f w = (Ok (), w @
    frame_bytes (Rmessage_type (Rframe.msg f)) (Rframe.tag f) (payload encode_Rmessage (Rframe.msg f)))"
  using assms
  by (simp add: encode_Rframe_def byte_size_Rframe_def wf_Rframe_def wire_simps io_simps
      encode_Rmessage_appends byte_size_Rmessage_payload frame_bytes_def payload_u8)

text \<open>The header of a frame, read back: the size field limits the reader to the rest of the frame.\<close>

lemma frame_header:
  assumes "7 + length body < 2 ^ 32"
  obtains sz where
    "decode_u32 (frame_bytes t g body @ r) = (Ok sz, t # payload encode_u16 g @ body @ r)"
    and "\<not> sz < 4" and "unat (sz - 4) = 3 + length body"
proof
  let ?sz = "of_nat (7 + length body) :: u32"
  show "decode_u32 (frame_bytes t g body @ r) = (Ok ?sz, t # payload encode_u16 g @ body @ r)"
    by (simp add: frame_bytes_def wire_simps)
  have u: "unat ?sz = 7 + length body"
    using assms by (intro unat_of_nat_u32) simp
  then show "\<not> ?sz < 4"
    by (simp add: word_less_nat_alt del: of_nat_add)
  then show "unat (?sz - 4) = 3 + length body"
    using u by (simp add: unat_sub not_less del: of_nat_add)
qed

lemma decode_Tframe_bytes:
  assumes "7 + length body < 2 ^ 32" "decode_Tmessage t body = (m, s)"
  shows "decode_Tframe (frame_bytes t g body @ r) = (Ok \<lparr>Tframe.tag = g, Tframe.msg = m\<rparr>, s @ r)"
proof -
  let ?k = "io_bind (read_exact 1) (\<lambda>ty. io_bind decode_u16 (\<lambda>tag.
    io_bind (io_try (decode_Tmessage (ty ! 0))) (\<lambda>msg.
    io_return \<lparr>Tframe.tag = tag, Tframe.msg = msg\<rparr>)))"
  have k: "?k (t # payload encode_u16 g @ body) = (Ok \<lparr>Tframe.tag = g, Tframe.msg = m\<rparr>, s)"
    by (simp add: io_simps wire_simps assms(2))
  have "io_take (3 + length body) ?k ((t # payload encode_u16 g @ body) @ r) =
      (Ok \<lparr>Tframe.tag = g, Tframe.msg = m\<rparr>, s @ r)"
    by (rule io_take_exact) (use k in simp_all)
  moreover obtain sz where
    "decode_u32 (frame_bytes t g body @ r) = (Ok sz, t # payload encode_u16 g @ body @ r)"
    "\<not> sz < 4" "unat (sz - 4) = 3 + length body"
    by (rule frame_header [OF assms(1)])
  ultimately show ?thesis by (simp add: decode_Tframe_def io_simps)
qed

lemma decode_Rframe_bytes:
  assumes "7 + length body < 2 ^ 32" "decode_Rmessage t body = (Ok m, s)"
  shows "decode_Rframe (frame_bytes t g body @ r) = (Ok \<lparr>Rframe.tag = g, Rframe.msg = m\<rparr>, s @ r)"
proof -
  let ?k = "io_bind (read_exact 1) (\<lambda>ty. io_bind decode_u16 (\<lambda>tag.
    io_bind (decode_Rmessage (ty ! 0)) (\<lambda>msg.
    io_return \<lparr>Rframe.tag = tag, Rframe.msg = msg\<rparr>)))"
  have k: "?k (t # payload encode_u16 g @ body) = (Ok \<lparr>Rframe.tag = g, Rframe.msg = m\<rparr>, s)"
    by (simp add: io_simps wire_simps assms(2))
  have "io_take (3 + length body) ?k ((t # payload encode_u16 g @ body) @ r) =
      (Ok \<lparr>Rframe.tag = g, Rframe.msg = m\<rparr>, s @ r)"
    by (rule io_take_exact) (use k in simp_all)
  moreover obtain sz where
    "decode_u32 (frame_bytes t g body @ r) = (Ok sz, t # payload encode_u16 g @ body @ r)"
    "\<not> sz < 4" "unat (sz - 4) = 3 + length body"
    by (rule frame_header [OF assms(1)])
  ultimately show ?thesis by (simp add: decode_Rframe_def io_simps)
qed

interpretation Tframe: wire_codec "\<lambda>f. the (byte_size_Tframe f)" encode_Tframe decode_Tframe wf_Tframe
proof
  fix f w r assume "wf_Tframe f"
  then obtain m where f: "Tframe.msg f = Ok m" "wf_Tmessage m"
    and len: "7 + length (payload encode_Tmessage m) < 2 ^ 32"
    by (auto simp: wf_Tframe_def split: sum.splits)
  have pay: "payload encode_Tframe f =
      frame_bytes (Tmessage_type m) (Tframe.tag f) (payload encode_Tmessage m)"
    by (simp add: payload_def [of encode_Tframe] encode_Tframe_appends [OF f])
  show "encode_Tframe f w = (Ok (), w @ payload encode_Tframe f)"
    by (simp add: pay encode_Tframe_appends [OF f])
  show "the (byte_size_Tframe f) = of_nat (length (payload encode_Tframe f))"
    by (simp add: pay byte_size_Tframe_def f length_frame_bytes byte_size_Tmessage_payload)
  have "decode_Tmessage (Tmessage_type m) (payload encode_Tmessage m) = (Ok m, [])"
    using decode_Tmessage_payload [OF f(2), of "[]"] by simp
  from decode_Tframe_bytes [OF len this] show "decode_Tframe (payload encode_Tframe f @ r) = (Ok f, r)"
    by (simp add: pay f(1) [symmetric])
qed

text \<open>No reply is near the 4 GiB that the size field can count.\<close>

lemma length_payload_Vec_Qid:
  assumes "wf_Vec (\<lambda>_. True) qs"
  shows "length (payload (encode_Vec encode_Qid) qs) \<le> 851957"
proof -
  have "length (concat (map (payload encode_Qid) qs)) = 13 * length qs" by (induction qs) simp_all
  with assms show ?thesis by (simp add: Qid.payload_Vec) (simp add: wf_Vec_def)
qed

lemmas Rmessage_encoders =
  encode_Rversion_def encode_Rwalk_def encode_Rread_def encode_Rwrite_def encode_Rattach_def
  encode_Rauth_def encode_Rstatfs_def encode_Rlopen_def encode_Rlcreate_def encode_Rsymlink_def
  encode_Rmknod_def encode_Rreadlink_def encode_Rgetattr_def encode_Rxattrwalk_def
  encode_Rreaddir_def encode_Rlock_def encode_Rgetlock_def encode_Rmkdir_def encode_Rlerror_def

lemmas Rmessage_wfs =
  wf_Rversion_def wf_Rwalk_def wf_Rread_def wf_Rreadlink_def wf_Rreaddir_def wf_Rgetlock_def

lemma wf_Rmessage_length: "wf_Rmessage m \<Longrightarrow> length (payload encode_Rmessage m) \<le> 33554436"
  by (cases m)
    (auto simp: payload_def [of encode_Rmessage] Rmessage_encoders Rmessage_wfs wire_simps io_simps
      dest: length_payload_String length_payload_Data length_payload_Vec_Qid)

interpretation Rframe: wire_format byte_size_Rframe encode_Rframe decode_Rframe wf_Rframe
proof
  fix f w r assume f: "wf_Rframe f"
  then have m: "wf_Rmessage (Rframe.msg f)" by (simp add: wf_Rframe_def)
  have len: "7 + length (payload encode_Rmessage (Rframe.msg f)) < 2 ^ 32"
    using wf_Rmessage_length [OF m] by simp
  have pay: "payload encode_Rframe f = frame_bytes (Rmessage_type (Rframe.msg f)) (Rframe.tag f)
      (payload encode_Rmessage (Rframe.msg f))"
    by (simp add: payload_def [of encode_Rframe] encode_Rframe_appends [OF f])
  show "encode_Rframe f w = (Ok (), w @ payload encode_Rframe f)"
    by (simp add: pay encode_Rframe_appends [OF f])
  show "byte_size_Rframe f = of_nat (length (payload encode_Rframe f))"
    by (simp add: pay byte_size_Rframe_def length_frame_bytes byte_size_Rmessage_payload [OF m])
  have "decode_Rmessage (Rmessage_type (Rframe.msg f)) (payload encode_Rmessage (Rframe.msg f)) =
      (Ok (Rframe.msg f), [])"
    using decode_Rmessage_payload [OF m, of "[]"] by simp
  from decode_Rframe_bytes [OF len this] show "decode_Rframe (payload encode_Rframe f @ r) = (Ok f, r)"
    by (simp add: pay)
next
  have pay: "length (payload encode_Rframe f) = 7 + length (payload encode_Rmessage (Rframe.msg f))"
    if "wf_Rframe f" for f
    using encode_Rframe_appends [OF that] by (simp add: payload_def [of encode_Rframe] length_frame_bytes)
  let ?Q = "\<lambda>f n. wf_Rframe f \<and> n = 3 + length (payload encode_Rmessage (Rframe.msg f))"
  have inner: "decodes ?Q (io_bind (read_exact 1) (\<lambda>ty. io_bind decode_u16 (\<lambda>tag.
      io_bind (decode_Rmessage (ty ! 0)) (\<lambda>msg. io_return \<lparr>Rframe.tag = tag, Rframe.msg = msg\<rparr>))))"
    by (rule decodes_bind [OF decodes_read_exact], rule decodes_bind [OF u16.decode_decodes],
        rule decodes_bind [OF decodes_Rmessage], rule decodes_return) (auto simp: wf_Rframe_def)
  show "decodes (\<lambda>f n. wf_Rframe f \<and> n = length (payload encode_Rframe f)) decode_Rframe"
    unfolding decode_Rframe_def
    by (rule decodes_bind [OF u32.decode_decodes], rule decodes_weaken [OF decodes_take [OF inner]])
      (auto simp: pay)
qed

lemma length_payload_Tframe:
  "Tframe.msg f = Ok m \<Longrightarrow> wf_Tmessage m \<Longrightarrow>
     length (payload encode_Tframe f) = 7 + length (payload encode_Tmessage m)"
  using encode_Tframe_appends [of f m] by (simp add: payload_def [of encode_Tframe] length_frame_bytes)

lemma decodes_Tframe:
  "decodes (\<lambda>f n. 7 \<le> n \<and> (\<forall>m. Tframe.msg f = Ok m \<longrightarrow>
     wf_Tframe f \<and> n = length (payload encode_Tframe f))) decode_Tframe"
  unfolding decode_Tframe_def
proof (rule decodes_bind [OF u32.decode_decodes])
  fix sz :: u32 and k
  assume k: "True \<and> k = length (payload encode_u32 sz)"
  let ?inner = "io_bind (read_exact 1) (\<lambda>ty. io_bind decode_u16 (\<lambda>tag.
      io_bind (io_try (decode_Tmessage (ty ! 0))) (\<lambda>msg.
      io_return \<lparr>Tframe.tag = tag, Tframe.msg = msg\<rparr>)))"
  let ?Q = "\<lambda>f n. 3 \<le> n \<and> (\<forall>m. Tframe.msg f = Ok m \<longrightarrow>
      wf_Tmessage m \<and> n = 3 + length (payload encode_Tmessage m))"
  have inner: "decodes ?Q ?inner"
    by (rule decodes_bind [OF decodes_read_exact], rule decodes_bind [OF u16.decode_decodes],
        rule decodes_bind [OF decodes_try [OF decodes_Tmessage]], rule decodes_return) auto
  show "decodes (\<lambda>f n. 7 \<le> k + n \<and> (\<forall>m. Tframe.msg f = Ok m \<longrightarrow>
      wf_Tframe f \<and> k + n = length (payload encode_Tframe f)))
    (if sz < 4 then io_fail (Kind InvalidData) else io_take (unat (sz - 4)) ?inner)"
  proof (cases "sz < 4")
    case True
    then show ?thesis by (simp add: decodes_fail)
  next
    case False
    then have "unat (sz - 4) = unat sz - 4" "4 \<le> unat sz"
      by (simp_all add: unat_sub not_less word_le_nat_alt)
    then have "unat (sz - 4) \<le> 4294967291" using unat_lt [of sz] by simp
    with k False show ?thesis
      using decodes_take [OF inner, of "unat (sz - 4)"]
      by (auto elim!: decodes_weaken simp: wf_Tframe_def length_payload_Tframe)
  qed
qed

lemma decode_Tmessage_unknown:
  assumes "\<And>m. t \<noteq> Tmessage_type m"
  shows "decode_Tmessage t r = (Err (Kind InvalidData), r)"
  using assms [of "Tmessage.Version undefined"] assms [of "Tmessage.Flush undefined"]
    assms [of "Tmessage.Walk undefined"] assms [of "Tmessage.Read undefined"]
    assms [of "Tmessage.Write undefined"] assms [of "Tmessage.Clunk undefined"]
    assms [of "Tmessage.Remove undefined"] assms [of "Tmessage.Attach undefined"]
    assms [of "Tmessage.Auth undefined"] assms [of "Tmessage.Statfs undefined"]
    assms [of "Tmessage.Lopen undefined"] assms [of "Tmessage.Lcreate undefined"]
    assms [of "Tmessage.Symlink undefined"] assms [of "Tmessage.Mknod undefined"]
    assms [of "Tmessage.Rename undefined"] assms [of "Tmessage.Readlink undefined"]
    assms [of "Tmessage.GetAttr undefined"] assms [of "Tmessage.SetAttr undefined"]
    assms [of "Tmessage.XattrWalk undefined"] assms [of "Tmessage.XattrCreate undefined"]
    assms [of "Tmessage.Readdir undefined"] assms [of "Tmessage.Fsync undefined"]
    assms [of "Tmessage.Lock undefined"] assms [of "Tmessage.GetLock undefined"]
    assms [of "Tmessage.Link undefined"] assms [of "Tmessage.Mkdir undefined"]
    assms [of "Tmessage.RenameAt undefined"] assms [of "Tmessage.UnlinkAt undefined"]
  by (simp add: decode_Tmessage_def io_simps)

section \<open>Properties\<close>

definition sample_walk :: Tframe where
  "sample_walk =
     \<lparr>Tframe.tag = 5, msg = Ok (Tmessage.Walk \<lparr>Twalk.fid = 1, newfid = 2, wnames = [str ''usr'', str ''bin'']\<rparr>)\<rparr>"

lemma wf_sample_walk: "wf_Tframe sample_walk"
  by (simp add: wf_Tframe_def sample_walk_def wf_Twalk_def wf_Vec_def wf_String_def str_def
      payload_def [of encode_Tmessage] encode_Twalk_def encode_Vec_def encode_String_def
      wire_simps io_simps)

text \<open>
  C3. A request frame that fits is encoded into as many bytes as \<open>byte_size\<close> announces, and decoding
  them returns the frame and leaves whatever follows it unread.
\<close>

theorem Tframe_roundtrip:
  assumes "wf_Tframe f"
  shows "\<exists>bs. encode_Tframe f [] = (Ok (), bs) \<and> byte_size_Tframe f = Some (of_nat (length bs)) \<and>
    decode_Tframe (bs @ rest) = (Ok f, rest)"
proof (intro exI conjI)
  show "encode_Tframe f [] = (Ok (), payload encode_Tframe f)"
    using Tframe.encode_appends [OF assms, of "[]"] by simp
  have "byte_size_Tframe f \<noteq> None"
    using assms by (auto simp: wf_Tframe_def byte_size_Tframe_def split: sum.splits)
  then show "byte_size_Tframe f = Some (of_nat (length (payload encode_Tframe f)))"
    using Tframe.byte_size_payload [OF assms] by auto
  show "decode_Tframe (payload encode_Tframe f @ rest) = (Ok f, rest)"
    by (rule Tframe.decode_payload [OF assms])
qed

theorem Tframe_roundtrip_witness:
  "\<exists>bs. encode_Tframe sample_walk [] = (Ok (), bs) \<and>
     byte_size_Tframe sample_walk = Some (of_nat (length bs)) \<and>
     decode_Tframe (bs @ [1, 2, 3]) = (Ok sample_walk, [1, 2, 3])"
  by (rule Tframe_roundtrip [OF wf_sample_walk])



text \<open>
  Whatever bytes a request frame is decoded from, a frame with a decoded body can be encoded
  again, into as many bytes as were consumed, and any receiver decodes the same frame from them;
  no decode that succeeds consumes fewer than the 7 bytes of the header.
\<close>

theorem Tframe_reencode:
  assumes "decode_Tframe r = (Ok f, r')"
  shows "\<exists>p. r = p @ r' \<and> 7 \<le> length p \<and>
    (\<forall>m. Tframe.msg f = Ok m \<longrightarrow>
       (\<exists>bs. encode_Tframe f w = (Ok (), w @ bs) \<and> length bs = length p \<and>
          decode_Tframe (bs @ q) = (Ok f, q)))"
proof -
  from decodesD [OF decodes_Tframe assms] obtain p where
    p: "r = p @ r'" "7 \<le> length p \<and>
      (\<forall>m. Tframe.msg f = Ok m \<longrightarrow> wf_Tframe f \<and> length p = length (payload encode_Tframe f))" .
  then show ?thesis
    by (intro exI [of _ p]) (auto simp: Tframe.encode_appends Tframe.decode_payload)
qed

theorem Tframe_reencode_witness:
  "\<exists>bs. encode_Tframe \<lparr>Tframe.tag = 0x0201, msg = Ok (Tmessage.Clunk \<lparr>Tclunk.fid = 3\<rparr>)\<rparr> [] = (Ok (), [] @ bs) \<and>
     length bs = 11 \<and>
     decode_Tframe (bs @ [9]) = (Ok \<lparr>Tframe.tag = 0x0201, msg = Ok (Tmessage.Clunk \<lparr>Tclunk.fid = 3\<rparr>)\<rparr>, [9])"
proof -
  let ?f = "\<lparr>Tframe.tag = 0x0201, msg = Ok (Tmessage.Clunk \<lparr>Tclunk.fid = 3\<rparr>)\<rparr>"
  let ?r = "[11, 0, 0, 0, 120, 1, 2, 3, 0, 0, 0] :: bytes"
  have "decode_Tframe ?r = (Ok ?f, [])" by code_simp
  from Tframe_reencode [OF this, of "[]" "[9]"] show ?thesis by auto
qed

text \<open>
  Frames written one after the other are read back one after the other: a stream of request
  frames has exactly one reading.
\<close>

theorem Tframe_stream:
  assumes "list_all wf_Tframe fs"
  shows "\<exists>bs. encode_each encode_Tframe fs [] = (Ok (), bs) \<and>
    decode_times decode_Tframe (length fs) (bs @ rest) = (Ok fs, rest)"
  using Tframe.encode_each_appends [OF assms, of "[]"] Tframe.decode_times_payload [OF assms, of rest]
  by simp

theorem Tframe_stream_witness:
  "\<exists>bs. encode_each encode_Tframe [sample_walk, sample_walk] [] = (Ok (), bs) \<and>
     decode_times decode_Tframe (length [sample_walk, sample_walk]) (bs @ []) = (Ok [sample_walk, sample_walk], [])"
  by (rule Tframe_stream) (simp add: wf_sample_walk)

text \<open>
  C40. A frame whose message type is not known is decoded into an error for its tag, and its body is
  left in the stream, where the next read takes it for the header of the next frame.
\<close>

theorem Tframe_unknown_type:
  assumes "\<And>m. t \<noteq> Tmessage_type m" and "7 + length body < 2 ^ 32"
  shows "decode_Tframe (frame_bytes t g body @ rest) =
    (Ok \<lparr>Tframe.tag = g, msg = Err (Kind InvalidData)\<rparr>, body @ rest)"
  by (rule decode_Tframe_bytes [OF assms(2) decode_Tmessage_unknown [OF assms(1)]])

theorem Tframe_unknown_type_witness:
  "decode_Tframe (frame_bytes 0 7 [1, 2, 3] @ []) =
    (Ok \<lparr>Tframe.tag = 7, msg = Err (Kind InvalidData)\<rparr>, [1, 2, 3] @ [])"
proof (rule Tframe_unknown_type)
  show "0 \<noteq> Tmessage_type m" for m by (cases m) (simp_all add: message_types)
qed simp

end
