(* ===== verification/Errors.thy ===== *)
theory Errors
  imports Libc Frames
begin

text \<open>
  How an \<open>io::Error\<close> becomes a reply: \<open>error_to_rmessage\<close> of \<open>coding/wire_format.rs\<close> (an
  \<open>Rlerror\<close>) and of \<open>ufs/mod.rs\<close> (the same as an \<open>Rmessage\<close>), and the implementation of
  \<open>WireFormat\<close> for \<open>io::Result<T>\<close> that rests on the first.
\<close>

section \<open>Definitions\<close>

definition errno_of_kind :: "libc \<Rightarrow> error_kind \<Rightarrow> i32" where
  "errno_of_kind c k =
     (case k of
        NotFound \<Rightarrow> c ENOENT
      | PermissionDenied \<Rightarrow> c EPERM
      | ConnectionRefused \<Rightarrow> c ECONNREFUSED
      | ConnectionReset \<Rightarrow> c ECONNRESET
      | ConnectionAborted \<Rightarrow> c ECONNABORTED
      | NotConnected \<Rightarrow> c ENOTCONN
      | AddrInUse \<Rightarrow> c EADDRINUSE
      | AddrNotAvailable \<Rightarrow> c EADDRNOTAVAIL
      | BrokenPipe \<Rightarrow> c EPIPE
      | AlreadyExists \<Rightarrow> c EEXIST
      | WouldBlock \<Rightarrow> c EWOULDBLOCK
      | InvalidInput \<Rightarrow> c EINVAL
      | InvalidData \<Rightarrow> c EINVAL
      | TimedOut \<Rightarrow> c ETIMEDOUT
      | WriteZero \<Rightarrow> c EIO
      | Interrupted \<Rightarrow> c EINTR
      | Other \<Rightarrow> c EIO
      | UnexpectedEof \<Rightarrow> c EIO
      | _ \<Rightarrow> c EIO)"

definition error_to_rlerror :: "libc \<Rightarrow> io_error \<Rightarrow> Rlerror" where
  "error_to_rlerror c err =
     \<lparr>Rlerror.ecode =
       (case raw_os_error err of
          Some errno \<Rightarrow> errno
        | None \<Rightarrow> errno_of_kind c (case err of Kind k \<Rightarrow> k | Os _ \<Rightarrow> Uncategorized))\<rparr>"

definition error_to_rmessage :: "libc \<Rightarrow> io_error \<Rightarrow> Rmessage" where
  "error_to_rmessage c err = Rmessage.Lerror (error_to_rlerror c err)"

definition byte_size_Result :: "libc \<Rightarrow> ('a \<Rightarrow> u32) \<Rightarrow> 'a io_result \<Rightarrow> u32" where
  "byte_size_Result c byte_size x =
     (case x of
        Inr v \<Rightarrow> byte_size v
      | Inl err \<Rightarrow> byte_size_Rlerror (error_to_rlerror c err))"

definition encode_Result :: "libc \<Rightarrow> ('a \<Rightarrow> unit writer) \<Rightarrow> 'a io_result \<Rightarrow> unit writer" where
  "encode_Result c encode x =
     (case x of
        Inr v \<Rightarrow> encode v
      | Inl err \<Rightarrow> encode_Rlerror (error_to_rlerror c err))"

definition decode_Result :: "'a reader \<Rightarrow> 'a io_result reader" where
  "decode_Result decode =
     io_bind decode_Rlerror (\<lambda>err.
       if Rlerror.ecode err = 0 then io_bind decode (\<lambda>v. io_return (Ok v))
       else io_fail (Os (Rlerror.ecode err)))"

section \<open>Properties\<close>

text \<open>
  The encoding of \<open>io::Result<T>\<close> is not undone by its decoding: a successful value is written
  without the error code that \<open>decode\<close> expects in front of it, so a nonzero \<open>u32\<close> comes back as the
  error with that number.
\<close>

theorem Result_not_roundtrip:
  assumes "x \<noteq> 0"
  shows "encode_Result c encode_u32 (Ok x) [] = (Ok (), payload encode_u32 x) \<and>
    decode_Result decode_u32 (payload encode_u32 x @ rest) = (Err (Os x), rest)"
  using assms
  by (simp add: encode_Result_def decode_Result_def decode_Rlerror_def wire_simps io_simps)

theorem Result_not_roundtrip_witness:
  "encode_Result linux encode_u32 (Ok 5) [] = (Ok (), payload encode_u32 5) \<and>
    decode_Result decode_u32 (payload encode_u32 5 @ []) = (Err (Os 5), [])"
  by (rule Result_not_roundtrip) simp

end
