(* ===== verification/Ufs.thy ===== *)
theory Ufs
  imports ReadDir Errors
begin

text \<open>
  The free functions and the data of \<open>jetstream/src/ufs/mod.rs\<close>: the 9P constants and their
  \<open>libc\<close> counterparts, fids, the server's configuration and state, \<open>stat\<close>, \<open>lookup\<close>,
  \<open>open_fid\<close>, the case-insensitive lookup and the walk of the directory tree.

  Every one of them runs on a pair of the server and the world (\<open>'w\<close>). Closing a descriptor
  when its \<open>File\<close> is dropped is not modelled.
\<close>

unbundle bit_operations_syntax

section \<open>Constants\<close>

definition P9_RDONLY :: u32 where "P9_RDONLY = 0x0"
definition P9_WRONLY :: u32 where "P9_WRONLY = 0x1"
definition P9_RDWR :: u32 where "P9_RDWR = 0x2"
definition P9_NOACCESS :: u32 where "P9_NOACCESS = 0x3"
definition P9_CREATE :: u32 where "P9_CREATE = 0x40"
definition P9_EXCL :: u32 where "P9_EXCL = 0x80"
definition P9_NOCTTY :: u32 where "P9_NOCTTY = 0x100"
definition P9_TRUNC :: u32 where "P9_TRUNC = 0x200"
definition P9_APPEND :: u32 where "P9_APPEND = 0x400"
definition P9_NONBLOCK :: u32 where "P9_NONBLOCK = 0x800"
definition P9_DSYNC :: u32 where "P9_DSYNC = 0x1000"
definition P9_FASYNC :: u32 where "P9_FASYNC = 0x2000"
definition P9_DIRECT :: u32 where "P9_DIRECT = 0x4000"
definition P9_LARGEFILE :: u32 where "P9_LARGEFILE = 0x8000"
definition P9_DIRECTORY :: u32 where "P9_DIRECTORY = 0x10000"
definition P9_NOFOLLOW :: u32 where "P9_NOFOLLOW = 0x20000"
definition P9_NOATIME :: u32 where "P9_NOATIME = 0x40000"
definition P9_SYNC :: u32 where "P9_SYNC = 0x100000"

definition MAPPED_FLAGS :: "libc \<Rightarrow> (u32 \<times> i32) list" where
  "MAPPED_FLAGS c =
    [(P9_WRONLY, c O_WRONLY), (P9_RDWR, c O_RDWR), (P9_CREATE, c O_CREAT), (P9_EXCL, c O_EXCL),
     (P9_NOCTTY, c O_NOCTTY), (P9_TRUNC, c O_TRUNC), (P9_APPEND, c O_APPEND),
     (P9_NONBLOCK, c O_NONBLOCK), (P9_DSYNC, c O_DSYNC), (P9_FASYNC, 0), (P9_DIRECT, c O_DIRECT),
     (P9_LARGEFILE, c O_LARGEFILE), (P9_DIRECTORY, c O_DIRECTORY), (P9_NOFOLLOW, c O_NOFOLLOW),
     (P9_NOATIME, c O_NOATIME), (P9_SYNC, c O_SYNC)]"

definition P9_QTDIR :: u8 where "P9_QTDIR = 0x80"
definition P9_QTSYMLINK :: u8 where "P9_QTSYMLINK = 0x02"
definition P9_QTFILE :: u8 where "P9_QTFILE = 0x00"

definition P9_GETATTR_BASIC :: u64 where "P9_GETATTR_BASIC = 0x7ff"

definition P9_SETATTR_MODE :: u32 where "P9_SETATTR_MODE = 0x001"
definition P9_SETATTR_UID :: u32 where "P9_SETATTR_UID = 0x002"
definition P9_SETATTR_GID :: u32 where "P9_SETATTR_GID = 0x004"
definition P9_SETATTR_SIZE :: u32 where "P9_SETATTR_SIZE = 0x008"
definition P9_SETATTR_ATIME :: u32 where "P9_SETATTR_ATIME = 0x010"
definition P9_SETATTR_MTIME :: u32 where "P9_SETATTR_MTIME = 0x020"
definition P9_SETATTR_CTIME :: u32 where "P9_SETATTR_CTIME = 0x040"
definition P9_SETATTR_ATIME_SET :: u32 where "P9_SETATTR_ATIME_SET = 0x080"
definition P9_SETATTR_MTIME_SET :: u32 where "P9_SETATTR_MTIME_SET = 0x100"

definition P9_LOCK_TYPE_UNLCK :: u8 where "P9_LOCK_TYPE_UNLCK = 2"
definition P9_LOCK_SUCCESS :: u8 where "P9_LOCK_SUCCESS = 0"

definition MIN_MESSAGE_SIZE :: u32 where "MIN_MESSAGE_SIZE = 256"
definition MAX_MESSAGE_SIZE :: u32 where "MAX_MESSAGE_SIZE = 64 * 1024 + 24"

section \<open>Fids and the server\<close>

datatype FileType = Regular | Directory | Other

definition FileType_of_mode :: "libc \<Rightarrow> u32 \<Rightarrow> FileType" where
  "FileType_of_mode c m =
     (let fmt = m AND c S_IFMT in
      if fmt = c S_IFREG then Regular else if fmt = c S_IFDIR then Directory else FileType.Other)"

record Fid =
  path :: fd
  file' :: "fd option"
  filetype :: FileType

definition Qid_of_stat :: "libc \<Rightarrow> stat64 \<Rightarrow> Qid" where
  "Qid_of_stat c st =
     \<lparr>Qid.ty = (let fmt = st_mode st AND c S_IFMT in
               if fmt = c S_IFDIR then P9_QTDIR
               else if fmt = c S_IFREG then P9_QTFILE
               else if fmt = c S_IFLNK then P9_QTSYMLINK
               else 0),
      version = ucast (st_mtime st),
      path = st_ino st\<rparr>"

type_synonym ServerIdMap = "u32 \<rightharpoonup> u32"

record Config =
  root :: bytes
  msize :: u32
  uid_map :: ServerIdMap
  gid_map :: ServerIdMap
  ascii_casefold :: bool

definition Config_default :: Config where
  "Config_default =
     \<lparr>root = str ''/'', msize = MAX_MESSAGE_SIZE, uid_map = Map.empty, gid_map = Map.empty,
      ascii_casefold = False\<rparr>"

record Server =
  fids :: "u32 \<rightharpoonup> Fid"
  proc :: fd
  cfg :: Config

definition map_id_from_host :: "ServerIdMap \<Rightarrow> u32 \<Rightarrow> u32" where
  "map_id_from_host m i = (case m i of None \<Rightarrow> i | Some v \<Rightarrow> v)"

section \<open>System calls on the server's state\<close>

type_synonym ('w, 'a) srv = "(Server \<times> 'w, 'a) comp"

text \<open>\<open>syscall!\<close>: a failing call is \<open>io::Error::last_os_error()\<close>.\<close>

definition sys :: "('w, 'a) syscall \<Rightarrow> ('w, 'a) srv" where
  "sys f = (\<lambda>(sv, w).
     case f w of
       (Inl errno, w') \<Rightarrow> Some (Err (Os errno), (sv, w'))
     | (Inr x, w') \<Rightarrow> Some (Ok x, (sv, w')))"

text \<open>A method of \<open>std::fs::File\<close>.\<close>

definition std_fs :: "('w \<Rightarrow> 'a io_result \<times> 'w) \<Rightarrow> ('w, 'a) srv" where
  "std_fs f = (\<lambda>(sv, w). case f w of (r, w') \<Rightarrow> Some (r, (sv, w')))"

definition server :: "('w, Server) srv" where
  "server = (\<lambda>(sv, w). Some (Ok sv, (sv, w)))"

definition set_fids :: "((u32 \<rightharpoonup> Fid) \<Rightarrow> (u32 \<rightharpoonup> Fid)) \<Rightarrow> ('w, unit) srv" where
  "set_fids f = (\<lambda>(sv, w). Some (Ok (), (sv\<lparr>fids := f (fids sv)\<rparr>, w)))"

definition ebadf :: "'w os \<Rightarrow> io_error" where
  "ebadf os = Os (libc os EBADF)"

text \<open>\<open>self.fids.get(&n).ok_or_else(ebadf)?\<close> and \<open>....and_then(|fid| fid.file.as_ref())...\<close>\<close>

definition get_fid :: "'w os \<Rightarrow> u32 \<Rightarrow> ('w, Fid) srv" where
  "get_fid os n = comp_bind server (\<lambda>sv.
     case fids sv n of None \<Rightarrow> comp_fail (ebadf os) | Some f \<Rightarrow> comp_return f)"

definition get_file :: "'w os \<Rightarrow> u32 \<Rightarrow> ('w, fd) srv" where
  "get_file os n = comp_bind server (\<lambda>sv.
     case Option.bind (fids sv n) file' of
       None \<Rightarrow> comp_fail (ebadf os) | Some f \<Rightarrow> comp_return f)"

section \<open>Helpers\<close>

definition string_to_cstring :: "'w os \<Rightarrow> bytes \<Rightarrow> ('w, bytes) srv" where
  "string_to_cstring os s =
     (if 0 \<in> set s then comp_fail (Os (libc os EINVAL)) else comp_return s)"

definition statat :: "'w os \<Rightarrow> fd \<Rightarrow> bytes \<Rightarrow> i32 \<Rightarrow> ('w, stat64) srv" where
  "statat os d nm fl = sys (fstatat64 os d nm (fl OR libc os AT_SYMLINK_NOFOLLOW))"

definition stat :: "'w os \<Rightarrow> fd \<Rightarrow> ('w, stat64) srv" where
  "stat os f = statat os f [] (libc os AT_EMPTY_PATH)"

definition path_flags :: "libc \<Rightarrow> i32" where
  "path_flags c = c O_PATH OR c O_NOFOLLOW OR c O_CLOEXEC"

definition lookup :: "'w os \<Rightarrow> fd \<Rightarrow> bytes \<Rightarrow> ('w, fd) srv" where
  "lookup os parent nm = sys (openat64 os parent nm (path_flags (libc os)) 0)"

text \<open>\<open>format!("self/fd/{}", fd)\<close>\<close>

fun dec :: "nat \<Rightarrow> bytes" where
  "dec n = (if n < 10 then [of_nat (48 + n)] else dec (n div 10) @ [of_nat (48 + n mod 10)])"

definition dec_i32 :: "i32 \<Rightarrow> bytes" where
  "dec_i32 n = (if sint n < 0 then 45 # dec (nat (- sint n)) else dec (nat (sint n)))"

definition proc_fd_path :: "fd \<Rightarrow> bytes" where
  "proc_fd_path f = str ''self/fd/'' @ dec_i32 f"

text \<open>The translation of 9P open flags, shared by \<open>open_fid\<close> and \<open>lcreate\<close>.\<close>

definition map_flags :: "libc \<Rightarrow> i32 \<Rightarrow> u32 \<Rightarrow> i32" where
  "map_flags c init p9_flags =
     (let fl = fold (\<lambda>(p9f, oflag) acc. if p9_flags AND p9f \<noteq> 0 then acc OR oflag else acc)
                 (MAPPED_FLAGS c) init in
      if p9_flags AND P9_NOACCESS = P9_RDONLY then fl OR c O_RDONLY else fl)"

definition open_fid :: "'w os \<Rightarrow> fd \<Rightarrow> fd \<Rightarrow> u32 \<Rightarrow> ('w, fd) srv" where
  "open_fid os pr pth p9_flags =
     comp_bind (string_to_cstring os (proc_fd_path pth)) (\<lambda>pathname.
       sys (openat64 os pr pathname
              (map_flags (libc os) (libc os O_CLOEXEC) p9_flags AND NOT (libc os O_NOFOLLOW)) 0))"

section \<open>Case-insensitive lookup\<close>

definition to_ascii_lowercase :: "u8 \<Rightarrow> u8" where
  "to_ascii_lowercase c = (if 0x41 \<le> c \<and> c \<le> 0x5A then c + 0x20 else c)"

definition eq_ignore_ascii_case :: "bytes \<Rightarrow> bytes \<Rightarrow> bool" where
  "eq_ignore_ascii_case a b \<longleftrightarrow> map to_ascii_lowercase a = map to_ascii_lowercase b"

text \<open>The loop over the directory: it ends only if the kernel ends the directory.\<close>

partial_function (option) casefold_loop ::
    "'w os \<Rightarrow> fd \<Rightarrow> bytes \<Rightarrow> ReadDir \<Rightarrow> Server \<times> 'w \<Rightarrow> (fd io_result \<times> (Server \<times> 'w)) option" where
  "casefold_loop os parent nm rd s =
     (case ReadDir_next os rd (snd s) of
        None \<Rightarrow> None
      | Some (r, rd', w') \<Rightarrow>
          (case r of
             Inl e \<Rightarrow> Some (Err e, (fst s, w'))
           | Inr None \<Rightarrow> Some (Err (Os (libc os ENOENT)), (fst s, w'))
           | Inr (Some entry) \<Rightarrow>
               if eq_ignore_ascii_case nm (DirEntry.name entry)
               then lookup os parent (DirEntry.name entry) (fst s, w')
               else casefold_loop os parent nm rd' (fst s, w')))"

declare casefold_loop.simps [code]

definition ascii_casefold_lookup :: "'w os \<Rightarrow> fd \<Rightarrow> fd \<Rightarrow> bytes \<Rightarrow> ('w, fd) srv" where
  "ascii_casefold_lookup os pr parent nm =
     comp_bind (open_fid os pr parent P9_DIRECTORY) (\<lambda>d.
     comp_bind (std_fs (read_dir os d 0)) (\<lambda>dirents.
       casefold_loop os parent nm dirents))"

section \<open>Walking\<close>

text \<open>
  \<open>lookup(...).or_else(...)\<close>: the case-insensitive lookup is tried after \<open>ENOENT\<close> only.
\<close>

definition lookup_casefold :: "'w os \<Rightarrow> fd \<Rightarrow> bool \<Rightarrow> fd \<Rightarrow> bytes \<Rightarrow> ('w, fd) srv" where
  "lookup_casefold os pr casefold parent nm =
     comp_bind (comp_try (lookup os parent nm)) (\<lambda>r.
       case r of
         Inr f \<Rightarrow> comp_return f
       | Inl e \<Rightarrow>
           if casefold \<and> raw_os_error e = Some (libc os ENOENT)
           then ascii_casefold_lookup os pr parent nm
           else comp_fail e)"

text \<open>One round of the loop: the new \<open>current\<close> and the entry pushed on \<open>mds\<close>.\<close>

definition walk_step :: "'w os \<Rightarrow> fd \<Rightarrow> bool \<Rightarrow> fd \<Rightarrow> bytes \<Rightarrow> ('w, fd \<times> stat64) srv" where
  "walk_step os pr casefold cur wname =
     comp_bind (string_to_cstring os wname) (\<lambda>nm.
     comp_bind (lookup_casefold os pr casefold cur nm) (\<lambda>f.
     comp_bind (stat os f) (\<lambda>st. comp_return (f, st))))"

text \<open>
  \<open>mds\<close> is an out-parameter that keeps what was pushed before an error, so the result carries it
  next to the \<open>io::Result\<close>. \<open>owned\<close> tells \<open>MaybeOwned::Owned\<close> from the borrowed start.
\<close>

fun do_walk_from ::
    "'w os \<Rightarrow> fd \<Rightarrow> bool \<Rightarrow> bool \<Rightarrow> fd \<Rightarrow> bytes list \<Rightarrow> ('w, fd io_result \<times> stat64 list) srv" where
  "do_walk_from os pr casefold owned cur [] =
     (if owned then comp_return (Ok cur, [])
      else comp_bind (comp_try (std_fs (try_clone os cur))) (\<lambda>r. comp_return (r, [])))"
| "do_walk_from os pr casefold owned cur (wname # wnms) =
     comp_bind (comp_try (walk_step os pr casefold cur wname)) (\<lambda>r.
       case r of
         Inl e \<Rightarrow> comp_return (Err e, [])
       | Inr (f, st) \<Rightarrow>
           comp_bind (do_walk_from os pr casefold True f wnms) (\<lambda>(res, mds).
             comp_return (res, st # mds)))"

definition do_walk ::
    "'w os \<Rightarrow> fd \<Rightarrow> bytes list \<Rightarrow> fd \<Rightarrow> bool \<Rightarrow> ('w, fd io_result \<times> stat64 list) srv" where
  "do_walk os pr wnms from casefold = do_walk_from os pr casefold False from wnms"

section \<open>Entries of a directory listing\<close>

lemma encode_String_Ok:
  "encode_String s w = (Ok (), w') \<longleftrightarrow>
     length s \<le> 65535 \<and> w' = w @ payload encode_u16 (of_nat (length s)) @ s"
  by (auto simp: encode_String_def io_simps wire_simps)

lemma encode_Dirent_Ok:
  "encode_Dirent e w = (Ok (), w') \<longleftrightarrow>
     length (Dirent.name e) \<le> 65535 \<and>
     w' = w @ payload encode_Qid (Dirent.qid e) @ payload encode_u64 (Dirent.offset e)
            @ payload encode_u8 (Dirent.ty e)
            @ payload encode_u16 (of_nat (length (Dirent.name e))) @ Dirent.name e"
  by (auto simp: encode_Dirent_def io_then_def io_bind_eq_Ok wire_simps Qid.encode_appends
      encode_String_Ok io_simps)

lemma byte_size_Dirent_eq: "byte_size_Dirent e = of_nat (24 + length (Dirent.name e))"
  by (simp add: byte_size_Dirent_def byte_size_String_def wire_simps Qid.byte_size_payload)

lemma encode_Dirent_grows:
  assumes "encode_Dirent e w = (Ok (), w')"
  shows "length w' = length w + unat (byte_size_Dirent e)" and "24 \<le> unat (byte_size_Dirent e)"
proof -
  from assms have n: "length (Dirent.name e) \<le> 65535"
    and w': "length w' = length w + 24 + length (Dirent.name e)"
    by (simp_all add: encode_Dirent_Ok)
  have "unat (byte_size_Dirent e) = 24 + length (Dirent.name e)"
    unfolding byte_size_Dirent_eq using n by (intro unat_of_nat_small) simp
  with w' show "length w' = length w + unat (byte_size_Dirent e)"
    and "24 \<le> unat (byte_size_Dirent e)" by simp_all
qed

lemma encode_Dirent_room:
  assumes "(Ok (), w') = encode_Dirent e w" and "\<not> cap - length w < unat (byte_size_Dirent e)"
  shows "cap - length w' < cap - length w"
  using encode_Dirent_grows [OF assms(1) [symmetric]] assms(2) by simp

section \<open>Computations that leave the server alone\<close>

text \<open>\<open>keeps m\<close>: \<open>m\<close> may act on the world but does not change the \<open>Server\<close>.\<close>

definition keeps :: "('w, 'a) srv \<Rightarrow> bool" where
  "keeps m \<longleftrightarrow> (\<forall>s r t. m s = Some (r, t) \<longrightarrow> fst t = fst s)"

named_theorems keeps_intros \<open>computations that leave the server alone\<close>

lemma keepsI: "(\<And>s r t. m s = Some (r, t) \<Longrightarrow> fst t = fst s) \<Longrightarrow> keeps m"
  unfolding keeps_def by blast

lemma keepsD: "keeps m \<Longrightarrow> m s = Some (r, t) \<Longrightarrow> fst t = fst s"
  unfolding keeps_def by blast

lemma keeps_return [keeps_intros]: "keeps (comp_return x)"
  by (simp add: keeps_def io_simps)

lemma keeps_fail [keeps_intros]: "keeps (comp_fail e)"
  by (simp add: keeps_def io_simps)

lemma keeps_bind [keeps_intros]:
  assumes "keeps m" and "\<And>x. keeps (f x)"
  shows "keeps (comp_bind m f)"
proof (rule keepsI)
  fix s r t assume "comp_bind m f s = Some (r, t)"
  then consider e where "m s = Some (Err e, t)"
    | x s' where "m s = Some (Ok x, s')" "f x s' = Some (r, t)"
    by (auto simp: comp_bind_eq_Some)
  then show "fst t = fst s"
    using keepsD [OF assms(1)] keepsD [OF assms(2)] by cases metis+
qed

lemma keeps_try [keeps_intros]: "keeps m \<Longrightarrow> keeps (comp_try m)"
  by (auto simp: keeps_def comp_try_def split: option.splits)

lemma keeps_if [keeps_intros]: "keeps m \<Longrightarrow> keeps m' \<Longrightarrow> keeps (if c then m else m')"
  by simp

lemma keeps_Let [keeps_intros]: "(\<And>x. keeps (f x)) \<Longrightarrow> keeps (Let y f)"
  by simp

lemma keeps_case_option [keeps_intros]:
  "keeps m \<Longrightarrow> (\<And>x. keeps (f x)) \<Longrightarrow> keeps (case y of None \<Rightarrow> m | Some x \<Rightarrow> f x)"
  by (cases y) simp_all

lemma keeps_case_sum [keeps_intros]:
  "(\<And>e. keeps (f e)) \<Longrightarrow> (\<And>x. keeps (g x)) \<Longrightarrow> keeps (case y of Inl e \<Rightarrow> f e | Inr x \<Rightarrow> g x)"
  by (cases y) simp_all

lemma keeps_case_prod [keeps_intros]:
  "(\<And>a b. keeps (f a b)) \<Longrightarrow> keeps (case y of (a, b) \<Rightarrow> f a b)"
  by (cases y) simp

lemma keeps_sys [keeps_intros]: "keeps (sys f)"
  by (auto simp: keeps_def sys_def split: prod.splits sum.splits)

lemma keeps_std_fs [keeps_intros]: "keeps (std_fs f)"
  by (auto simp: keeps_def std_fs_def split: prod.splits)

lemma keeps_server [keeps_intros]: "keeps server"
  by (auto simp: keeps_def server_def)

lemma keeps_get_fid [keeps_intros]: "keeps (get_fid os n)"
  unfolding get_fid_def by (intro keeps_intros)

lemma keeps_get_file [keeps_intros]: "keeps (get_file os n)"
  unfolding get_file_def by (intro keeps_intros)

lemma keeps_string_to_cstring [keeps_intros]: "keeps (string_to_cstring os s)"
  unfolding string_to_cstring_def by (intro keeps_intros)

lemma keeps_statat [keeps_intros]: "keeps (statat os d nm fl)"
  unfolding statat_def by (intro keeps_intros)

lemma keeps_stat [keeps_intros]: "keeps (stat os f)"
  unfolding stat_def by (intro keeps_intros)

lemma keeps_lookup [keeps_intros]: "keeps (lookup os d nm)"
  unfolding lookup_def by (intro keeps_intros)

lemma keeps_open_fid [keeps_intros]: "keeps (open_fid os pr pth fl)"
  unfolding open_fid_def by (intro keeps_intros)

lemma casefold_loop_fst:
  assumes "casefold_loop os parent nm rd s = Some y"
  shows "fst (snd y) = fst s"
proof (rule casefold_loop.raw_induct
    [where P = "\<lambda>os parent nm rd s y. fst (snd y) = fst s", OF _ assms])
  fix loop :: "'a os \<Rightarrow> fd \<Rightarrow> bytes \<Rightarrow> ReadDir \<Rightarrow> Server \<times> 'a \<Rightarrow> (fd io_result \<times> Server \<times> 'a) option"
    and os parent nm rd s y
  assume IH: "\<And>os parent nm rd s y. loop os parent nm rd s = Some y \<Longrightarrow> fst (snd y) = fst s"
    and y: "(case ReadDir_next os rd (snd s) of
        None \<Rightarrow> None
      | Some (r, rd', w') \<Rightarrow>
          (case r of
             Inl e \<Rightarrow> Some (Err e, (fst s, w'))
           | Inr None \<Rightarrow> Some (Err (Os (libc os ENOENT)), (fst s, w'))
           | Inr (Some entry) \<Rightarrow>
               if eq_ignore_ascii_case nm (DirEntry.name entry)
               then lookup os parent (DirEntry.name entry) (fst s, w')
               else loop os parent nm rd' (fst s, w'))) = Some y"
  show "fst (snd y) = fst s"
    using y by (cases y)
      (auto split: option.splits sum.splits prod.splits if_splits
        dest: IH keepsD [OF keeps_lookup])
qed

lemma keeps_casefold_loop [keeps_intros]: "keeps (casefold_loop os parent nm rd)"
  by (rule keepsI) (auto dest: casefold_loop_fst)

lemma keeps_ascii_casefold_lookup [keeps_intros]: "keeps (ascii_casefold_lookup os pr d nm)"
  unfolding ascii_casefold_lookup_def by (intro keeps_intros)

lemma keeps_lookup_casefold [keeps_intros]: "keeps (lookup_casefold os pr casefold d nm)"
  unfolding lookup_casefold_def by (intro keeps_intros)

lemma keeps_walk_step [keeps_intros]: "keeps (walk_step os pr casefold d nm)"
  unfolding walk_step_def by (intro keeps_intros)

lemma keeps_do_walk_from [keeps_intros]: "keeps (do_walk_from os pr casefold owned cur wnms)"
proof (induction wnms arbitrary: owned cur)
  case Nil
  show ?case unfolding do_walk_from.simps by (intro keeps_intros)
next
  case (Cons wname wnms)
  show ?case unfolding do_walk_from.simps by (intro keeps_intros Cons.IH)
qed

lemma keeps_do_walk [keeps_intros]: "keeps (do_walk os pr wnms from casefold)"
  unfolding do_walk_def by (intro keeps_intros)

section \<open>Partial correctness on the server's state\<close>

lemma wlp_keeps:
  assumes "keeps m" and "\<And>r w'. Q r (sv, w')"
  shows "wlp m Q (sv, w)"
proof (rule wlpI)
  fix r t assume "m (sv, w) = Some (r, t)"
  from keepsD [OF assms(1) this] have "t = (sv, snd t)" by (cases t) simp
  then show "Q r t" using assms(2) by metis
qed

lemma wlp_bind_keeps:
  assumes "keeps m" and "\<And>e w'. Q (Err e) (sv, w')" and "\<And>x w'. wlp (f x) Q (sv, w')"
  shows "wlp (comp_bind m f) Q (sv, w)"
proof (rule wlp_bind, rule wlp_keeps [OF assms(1)])
  fix r w'
  show "case r of Inl e \<Rightarrow> Q (Err e) (sv, w') | Inr x \<Rightarrow> wlp (f x) Q (sv, w')"
    using assms(2,3) by (cases r) simp_all
qed

text \<open>Equations that run the accesses to the server.\<close>

lemma bind_server [io_simps]: "comp_bind server f (sv, w) = f sv (sv, w)"
  by (simp add: comp_bind_def server_def)

lemma bind_set_fids [io_simps]: "comp_bind (set_fids g) f (sv, w) = f () (sv\<lparr>fids := g (fids sv)\<rparr>, w)"
  by (simp add: comp_bind_def set_fids_def)

lemma bind_get_fid [io_simps]:
  "comp_bind (get_fid os n) f (sv, w) =
     (case fids sv n of None \<Rightarrow> Some (Err (ebadf os), (sv, w)) | Some x \<Rightarrow> f x (sv, w))"
  by (simp add: get_fid_def comp_bind_def server_def io_simps split: option.splits)

lemma bind_get_file [io_simps]:
  "comp_bind (get_file os n) f (sv, w) =
     (case Option.bind (fids sv n) file' of
        None \<Rightarrow> Some (Err (ebadf os), (sv, w)) | Some x \<Rightarrow> f x (sv, w))"
  by (simp add: get_file_def comp_bind_def server_def io_simps split: option.splits)

lemma bind_sys [io_simps]:
  "comp_bind (sys g) f (sv, w) =
     (case g w of (Inl e, w') \<Rightarrow> Some (Err (Os e), (sv, w')) | (Inr x, w') \<Rightarrow> f x (sv, w'))"
  by (simp add: comp_bind_def sys_def split: prod.splits sum.splits)

lemma bind_std_fs [io_simps]:
  "comp_bind (std_fs g) f (sv, w) =
     (case g w of (Inl e, w') \<Rightarrow> Some (Err e, (sv, w')) | (Inr x, w') \<Rightarrow> f x (sv, w'))"
  by (simp add: comp_bind_def std_fs_def split: prod.splits sum.splits)

lemma wlp_bind_server [wlp_intros]: "wlp (f sv) Q (sv, w) \<Longrightarrow> wlp (comp_bind server f) Q (sv, w)"
  by (simp add: wlp_def comp_bind_def server_def)

lemma wlp_bind_set_fids [wlp_intros]:
  "wlp (f ()) Q (sv\<lparr>fids := g (fids sv)\<rparr>, w) \<Longrightarrow> wlp (comp_bind (set_fids g) f) Q (sv, w)"
  by (simp add: wlp_def comp_bind_def set_fids_def)

lemma wlp_set_fids [wlp_intros]: "Q (Ok ()) (sv\<lparr>fids := g (fids sv)\<rparr>, w) \<Longrightarrow> wlp (set_fids g) Q (sv, w)"
  by (simp add: wlp_def set_fids_def)

lemma wlp_bind_get_fid [wlp_intros]:
  assumes "fids sv n = None \<Longrightarrow> Q (Err (ebadf os)) (sv, w)"
    and "\<And>x. fids sv n = Some x \<Longrightarrow> wlp (f x) Q (sv, w)"
  shows "wlp (comp_bind (get_fid os n) f) Q (sv, w)"
  using assms by (cases "fids sv n") (simp_all add: wlp_def io_simps)

lemma wlp_bind_get_file [wlp_intros]:
  assumes "Option.bind (fids sv n) file' = None \<Longrightarrow> Q (Err (ebadf os)) (sv, w)"
    and "\<And>x. Option.bind (fids sv n) file' = Some x \<Longrightarrow> wlp (f x) Q (sv, w)"
  shows "wlp (comp_bind (get_file os n) f) Q (sv, w)"
  using assms by (cases "Option.bind (fids sv n) file'") (simp_all add: wlp_def io_simps)

section \<open>Computations that always return\<close>

lemma total_sys [total_intros]: "total (sys f)"
  by (auto simp: total_def sys_def split: prod.splits sum.splits)

lemma total_std_fs [total_intros]: "total (std_fs f)"
  by (auto simp: total_def std_fs_def split: prod.splits)

lemma total_server [total_intros]: "total server"
  by (auto simp: total_def server_def)

lemma total_set_fids [total_intros]: "total (set_fids g)"
  by (auto simp: total_def set_fids_def)

lemma total_get_fid [total_intros]: "total (get_fid os n)"
  unfolding get_fid_def by (intro total_intros)

lemma total_get_file [total_intros]: "total (get_file os n)"
  unfolding get_file_def by (intro total_intros)

lemma total_string_to_cstring [total_intros]: "total (string_to_cstring os s)"
  unfolding string_to_cstring_def by (intro total_intros)

lemma total_statat [total_intros]: "total (statat os d nm fl)"
  unfolding statat_def by (intro total_intros)

lemma total_stat [total_intros]: "total (stat os f)"
  unfolding stat_def by (intro total_intros)

lemma total_lookup [total_intros]: "total (lookup os d nm)"
  unfolding lookup_def by (intro total_intros)

lemma total_open_fid [total_intros]: "total (open_fid os pr pth fl)"
  unfolding open_fid_def by (intro total_intros)

section \<open>The case-insensitive lookup\<close>

lemma casefold_loop_step:
  assumes "ReadDir_next os rd w = Some (r, rd', w')"
  shows "casefold_loop os parent nm rd (sv, w) =
     (case r of
        Inl e \<Rightarrow> Some (Err e, (sv, w'))
      | Inr None \<Rightarrow> Some (Err (Os (libc os ENOENT)), (sv, w'))
      | Inr (Some entry) \<Rightarrow>
          if eq_ignore_ascii_case nm (DirEntry.name entry)
          then lookup os parent (DirEntry.name entry) (sv, w')
          else casefold_loop os parent nm rd' (sv, w'))"
  using assms by (subst casefold_loop.simps) (simp split: sum.split option.split)

lemma casefold_loop_drains:
  assumes "drains os rd w es w'"
  shows "case find (\<lambda>e. eq_ignore_ascii_case nm (DirEntry.name e)) es of
      None \<Rightarrow> casefold_loop os parent nm rd (sv, w) = Some (Err (Os (libc os ENOENT)), (sv, w'))
    | Some e \<Rightarrow> \<exists>w1. casefold_loop os parent nm rd (sv, w) = lookup os parent (DirEntry.name e) (sv, w1)"
  using assms
proof (induction rule: drains.induct)
  case (drains_end rd w rd' w')
  from casefold_loop_step [OF this] show ?case by simp
next
  case (drains_entry rd w e rd' w1 es w')
  note step = casefold_loop_step [OF drains_entry.hyps(1), of parent nm sv]
  show ?case
  proof (cases "eq_ignore_ascii_case nm (DirEntry.name e)")
    case True
    with step show ?thesis by auto
  next
    case False
    with step drains_entry.IH show ?thesis by (simp split: option.splits)
  qed
qed

text \<open>
  The case-insensitive lookup always comes to an end on a directory that does: it opens the
  first entry in the kernel's order whose name equals the wanted one up to ASCII case, under the
  name that entry has, and fails with \<open>ENOENT\<close> after the last entry if there is none.
\<close>

theorem casefold_lookup_first:
  assumes "open_fid os pr parent P9_DIRECTORY (sv, w) = Some (Ok d, (sv, w1))"
    and "read_dir os d 0 w1 = (Ok rd, w2)" and "kernel_dir os d w2 es w3"
  shows "case find (\<lambda>e. eq_ignore_ascii_case nm (DirEntry.name e)) es of
      None \<Rightarrow> ascii_casefold_lookup os pr parent nm (sv, w) = Some (Err (Os (libc os ENOENT)), (sv, w3))
    | Some e \<Rightarrow> \<exists>w'. ascii_casefold_lookup os pr parent nm (sv, w) =
        lookup os parent (DirEntry.name e) (sv, w') \<and>
        lookup os parent (DirEntry.name e) (sv, w') \<noteq> None"
proof -
  have "drains os rd w2 es w3"
    using kernel_dir_drains [OF assms(3)] read_dir_buffered [OF assms(2)] by blast
  note loop = casefold_loop_drains [OF this, where nm = nm and parent = parent and sv = sv]
  have "ascii_casefold_lookup os pr parent nm (sv, w) = casefold_loop os parent nm rd (sv, w2)"
    using assms(1,2) by (simp add: ascii_casefold_lookup_def comp_bind_def std_fs_def)
  moreover have "lookup os parent n (sv, w') \<noteq> None" for n w'
    using total_lookup [of os parent n] unfolding total_def by blast
  ultimately show ?thesis using loop by (auto split: option.splits)
qed

theorem casefold_lookup_first_witness:
  "ascii_casefold_lookup sample_os 3 4 (str ''README'')
     (\<lparr>fids = Map.empty, proc = 3, cfg = Config_default\<rparr>,
      [dirent_bytes \<lparr>ino = 1, offset = 10, type' = 8, name = str ''ReadMe''\<rparr>]) \<noteq> None"
proof -
  let ?e = "\<lparr>ino = 1, offset = 10, type' = 8, name = str ''ReadMe''\<rparr>"
  let ?sv = "\<lparr>fids = Map.empty, proc = 3, cfg = Config_default\<rparr>"
  have "kernel_dir sample_os 7 [] [] []"
    by (rule kernel_end) (simp add: sample_os_def)
  then have k: "kernel_dir sample_os 7 [dirent_bytes ?e] (?e # [] @ []) []"
    by (rule kernel_chunk [rotated 3])
      (simp_all add: sample_os_def dirent_ok_def dirent_reclen_def READ_DIR_BUF_def
        size_of_LinuxDirent64_def str_def)
  have o: "open_fid sample_os 3 4 P9_DIRECTORY (?sv, [dirent_bytes ?e]) = Some (Ok 7, (?sv, [dirent_bytes ?e]))"
    by (simp add: open_fid_def comp_bind_def string_to_cstring_def proc_fd_path_def dec_i32_def
        str_def sample_os_def sys_def io_simps)
  have d: "read_dir sample_os 7 0 [dirent_bytes ?e] =
      (Ok \<lparr>buf = [], dir = 7, current = 0, end' = 0\<rparr>, [dirent_bytes ?e])"
    by (simp add: read_dir_def sample_os_def)
  have "eq_ignore_ascii_case (str ''README'') (str ''ReadMe'')"
    by (simp add: eq_ignore_ascii_case_def to_ascii_lowercase_def str_def)
  with casefold_lookup_first [OF o d k, of "str ''README''"] show ?thesis by auto
qed
end
