(* ===== verification/Server.thy ===== *)
theory Server
  imports Ufs
begin

text \<open>
  The methods of \<open>Server\<close> in \<open>jetstream/src/ufs/mod.rs\<close>, one definition each, and \<open>handle\<close> and
  \<open>handle_message\<close>, which dispatch on the message of a \<open>Tframe\<close>. The state is the \<open>Server\<close> and
  the world that the system calls act on.
\<close>

unbundle bit_operations_syntax

section \<open>Construction\<close>

definition Server_with_config :: "'w os \<Rightarrow> Config \<Rightarrow> 'w \<Rightarrow> Server io_result \<times> 'w" where
  "Server_with_config os c w =
     (case openat64 os (libc os AT_FDCWD) (str ''/proc'') (path_flags (libc os)) 0 w of
        (Inl errno, w') \<Rightarrow> (Err (Os errno), w')
      | (Inr f, w') \<Rightarrow> (Ok \<lparr>fids = Map.empty, proc = f, cfg = c\<rparr>, w'))"

definition Server_new ::
    "'w os \<Rightarrow> bytes \<Rightarrow> ServerIdMap \<Rightarrow> ServerIdMap \<Rightarrow> 'w \<Rightarrow> Server io_result \<times> 'w" where
  "Server_new os rt um gm =
     Server_with_config os
       \<lparr>root = rt, msize = MAX_MESSAGE_SIZE, uid_map = um, gid_map = gm, ascii_casefold = False\<rparr>"

definition keep_fds :: "Server \<Rightarrow> fd list" where
  "keep_fds sv = [proc sv]"

section \<open>Session\<close>

definition Server_auth :: "'w os \<Rightarrow> Tauth \<Rightarrow> ('w, Rauth) srv" where
  "Server_auth os m = comp_fail (Os (libc os EOPNOTSUPP))"

definition Server_attach :: "'w os \<Rightarrow> Tattach \<Rightarrow> ('w, Rattach) srv" where
  "Server_attach os m = comp_bind server (\<lambda>sv.
     case fids sv (Tattach.fid m) of
       None \<Rightarrow>
         if 0 \<in> set (root (cfg sv)) then comp_fail (Kind InvalidData)
         else comp_bind (sys (openat64 os (libc os AT_FDCWD) (root (cfg sv))
                               (path_flags (libc os)) 0)) (\<lambda>root_path.
              comp_bind (stat os root_path) (\<lambda>st.
              comp_bind (set_fids (\<lambda>t. t(Tattach.fid m \<mapsto>
                  \<lparr>path = root_path, file' = None,
                   filetype = FileType_of_mode (libc os) (st_mode st)\<rparr>))) (\<lambda>_.
              comp_return \<lparr>Rattach.qid = Qid_of_stat (libc os) st\<rparr>)))
     | Some _ \<Rightarrow> comp_fail (Os (libc os EBADF)))"

definition Server_version :: "'w os \<Rightarrow> Tversion \<Rightarrow> ('w, Rversion) srv" where
  "Server_version os m = (\<lambda>(sv, w).
     if Tversion.msize m < MIN_MESSAGE_SIZE then Some (Err (Os (libc os EINVAL)), (sv, w))
     else let ms = min (msize (cfg sv)) (Tversion.msize m) in
       Some (Ok \<lparr>Rversion.msize = ms,
                 version = if Tversion.version m = str ''9P2000.L'' then str ''9P2000.L''
                           else str ''unknown''\<rparr>,
             (sv\<lparr>fids := Map.empty, cfg := (cfg sv)\<lparr>msize := ms\<rparr>\<rparr>, w)))"

definition Server_flush :: "Tflush \<Rightarrow> ('w, unit) srv" where
  "Server_flush m = comp_return ()"

text \<open>The \<open>match\<close> on the result of \<open>do_walk\<close>.\<close>

definition walk_store :: "'w os \<Rightarrow> Twalk \<Rightarrow> fd io_result \<Rightarrow> stat64 list \<Rightarrow> ('w, unit) srv" where
  "walk_store os m res mds =
     (case res of
        Inr done_path \<Rightarrow>
          if length mds = length (Twalk.wnames m)
          then comp_bind (if mds = [] then stat os done_path else comp_return (last mds))
                 (\<lambda>st. set_fids (\<lambda>t. t(Twalk.newfid m \<mapsto>
                    \<lparr>path = done_path, file' = None,
                     filetype = FileType_of_mode (libc os) (st_mode st)\<rparr>)))
          else comp_return ()
      | Inl e \<Rightarrow> if mds = [] then comp_fail e else comp_return ())"

definition Server_walk :: "'w os \<Rightarrow> Twalk \<Rightarrow> ('w, Rwalk) srv" where
  "Server_walk os m = comp_bind server (\<lambda>sv.
     if Twalk.fid m \<noteq> Twalk.newfid m \<and> fids sv (Twalk.newfid m) \<noteq> None
     then comp_fail (Os (libc os EBADF))
     else
       comp_bind (get_fid os (Twalk.fid m)) (\<lambda>f.
       comp_bind (do_walk os (proc sv) (Twalk.wnames m) (path f) (ascii_casefold (cfg sv)))
         (\<lambda>(res, mds).
            comp_bind (walk_store os m res mds) (\<lambda>_.
              comp_return \<lparr>Rwalk.wqids = map (Qid_of_stat (libc os)) mds\<rparr>))))"

definition Server_clunk :: "'w os \<Rightarrow> Tclunk \<Rightarrow> ('w, unit) srv" where
  "Server_clunk os m = comp_bind server (\<lambda>sv.
     case fids sv (Tclunk.fid m) of
       None \<Rightarrow> comp_fail (Os (libc os EBADF))
     | Some _ \<Rightarrow> set_fids (\<lambda>t. t(Tclunk.fid m := None)))"

definition Server_remove :: "'w os \<Rightarrow> Tremove \<Rightarrow> ('w, unit) srv" where
  "Server_remove os m = comp_fail (Os (libc os EOPNOTSUPP))"

section \<open>Reading and writing\<close>

definition read_header_size :: u32 where
  "read_header_size =
     byte_size_Rframe \<lparr>Rframe.tag = 0, msg = Rmessage.Read \<lparr>Rread.data = Data []\<rparr>\<rparr>"

definition Server_read :: "'w os \<Rightarrow> Tread \<Rightarrow> ('w, Rread) srv" where
  "Server_read os m =
     comp_bind (get_file os (Tread.fid m)) (\<lambda>f.
     comp_bind server (\<lambda>sv.
       let capacity = min (msize (cfg sv) - read_header_size) (Tread.count m) in
       comp_bind (std_fs (read_at os f (unat capacity) (Tread.offset m))) (\<lambda>bs.
         comp_return \<lparr>Rread.data = Data bs\<rparr>)))"

definition Server_write :: "'w os \<Rightarrow> Twrite \<Rightarrow> ('w, Rwrite) srv" where
  "Server_write os m =
     comp_bind (get_file os (Twrite.fid m)) (\<lambda>f.
     comp_bind (std_fs (write_at os f (data_bytes (Twrite.data m)) (Twrite.offset m))) (\<lambda>n.
       comp_return \<lparr>Rwrite.count = of_nat n\<rparr>))"

definition Server_fsync :: "'w os \<Rightarrow> Tfsync \<Rightarrow> ('w, unit) srv" where
  "Server_fsync os m =
     comp_bind (get_file os (Tfsync.fid m)) (\<lambda>f.
       if Tfsync.datasync m = 0 then std_fs (sync_all os f) else std_fs (sync_data os f))"

section \<open>Opening and creating\<close>

definition Server_lopen :: "'w os \<Rightarrow> Tlopen \<Rightarrow> ('w, Rlopen) srv" where
  "Server_lopen os m =
     comp_bind (get_fid os (Tlopen.fid m)) (\<lambda>f.
     comp_bind server (\<lambda>sv.
     comp_bind (open_fid os (proc sv) (path f) (Tlopen.flags m)) (\<lambda>opened.
     comp_bind (stat os opened) (\<lambda>st.
     comp_bind (set_fids (\<lambda>t. t(Tlopen.fid m \<mapsto> f\<lparr>file' := Some opened\<rparr>))) (\<lambda>_.
       comp_return \<lparr>Rlopen.qid = Qid_of_stat (libc os) st, iounit = 0\<rparr>)))))"

definition Server_lcreate :: "'w os \<Rightarrow> Tlcreate \<Rightarrow> ('w, Rlcreate) srv" where
  "Server_lcreate os m =
     comp_bind (get_fid os (Tlcreate.fid m)) (\<lambda>f.
     if filetype f \<noteq> Directory then comp_fail (Os (libc os ENOTDIR))
     else
       let fl = map_flags (libc os)
                  (libc os O_CLOEXEC OR libc os O_CREAT OR libc os O_EXCL) (Tlcreate.flags m) in
       comp_bind (string_to_cstring os (Tlcreate.name m)) (\<lambda>nm.
       comp_bind (sys (openat64 os (path f) nm fl (Tlcreate.mode m))) (\<lambda>created.
       comp_bind (stat os created) (\<lambda>st.
       let f' = f\<lparr>file' := Some created, filetype := Regular\<rparr> in
       comp_bind (set_fids (\<lambda>t. t(Tlcreate.fid m \<mapsto> f'))) (\<lambda>_.
       comp_bind (lookup os (path f) nm) (\<lambda>new_path.
       comp_bind (set_fids (\<lambda>t. t(Tlcreate.fid m \<mapsto> f'\<lparr>path := new_path\<rparr>))) (\<lambda>_.
         comp_return \<lparr>Rlcreate.qid = Qid_of_stat (libc os) st, iounit = 0\<rparr>)))))))"

definition Server_mkdir :: "'w os \<Rightarrow> Tmkdir \<Rightarrow> ('w, Rmkdir) srv" where
  "Server_mkdir os m =
     comp_bind (get_fid os (Tmkdir.dfid m)) (\<lambda>f.
     comp_bind (string_to_cstring os (Tmkdir.name m)) (\<lambda>nm.
     comp_bind (sys (mkdirat os (path f) nm (Tmkdir.mode m))) (\<lambda>_.
     comp_bind (statat os (path f) nm 0) (\<lambda>st.
       comp_return \<lparr>Rmkdir.qid = Qid_of_stat (libc os) st\<rparr>))))"

definition Server_symlink :: "'w os \<Rightarrow> Tsymlink \<Rightarrow> ('w, Rsymlink) srv" where
  "Server_symlink os m = comp_fail (Os (libc os EACCES))"

definition Server_mknod :: "'w os \<Rightarrow> Tmknod \<Rightarrow> ('w, Rmknod) srv" where
  "Server_mknod os m = comp_fail (Os (libc os EACCES))"

section \<open>Names\<close>

definition Server_rename :: "'w os \<Rightarrow> Trename \<Rightarrow> ('w, unit) srv" where
  "Server_rename os m = comp_fail (Os (libc os EOPNOTSUPP))"

definition Server_link :: "'w os \<Rightarrow> Tlink \<Rightarrow> ('w, unit) srv" where
  "Server_link os m =
     comp_bind (get_fid os (Tlink.fid m)) (\<lambda>tgt.
     comp_bind (string_to_cstring os (proc_fd_path (path tgt))) (\<lambda>pth.
     comp_bind (get_fid os (Tlink.dfid m)) (\<lambda>d.
     comp_bind (string_to_cstring os (Tlink.name m)) (\<lambda>nm.
     comp_bind server (\<lambda>sv.
       sys (linkat os (proc sv) pth (path d) nm (libc os AT_SYMLINK_FOLLOW)))))))"

definition Server_rename_at :: "'w os \<Rightarrow> Trenameat \<Rightarrow> ('w, unit) srv" where
  "Server_rename_at os m =
     comp_bind (get_fid os (Trenameat.olddirfid m)) (\<lambda>olddir.
     comp_bind (string_to_cstring os (Trenameat.oldname m)) (\<lambda>old.
     comp_bind (get_fid os (Trenameat.newdirfid m)) (\<lambda>newdir.
     comp_bind (string_to_cstring os (Trenameat.newname m)) (\<lambda>new.
       sys (renameat os (path olddir) old (path newdir) new)))))"

definition Server_unlink_at :: "'w os \<Rightarrow> Tunlinkat \<Rightarrow> ('w, unit) srv" where
  "Server_unlink_at os m =
     comp_bind (get_fid os (Tunlinkat.dirfd m)) (\<lambda>d.
     comp_bind (string_to_cstring os (Tunlinkat.name m)) (\<lambda>nm.
       sys (unlinkat os (path d) nm (Tunlinkat.flags m))))"

definition Server_readlink :: "'w os \<Rightarrow> Treadlink \<Rightarrow> ('w, Rreadlink) srv" where
  "Server_readlink os m =
     comp_bind (get_fid os (Treadlink.fid m)) (\<lambda>f.
     comp_bind (sys (readlinkat os (path f) [] (unat (libc os PATH_MAX)))) (\<lambda>link.
       if utf8_valid link then comp_return \<lparr>Rreadlink.target = link\<rparr>
       else comp_fail (Kind InvalidData)))"

section \<open>Attributes\<close>

definition Server_statfs :: "'w os \<Rightarrow> Tstatfs \<Rightarrow> ('w, Rstatfs) srv" where
  "Server_statfs os m =
     comp_bind (get_fid os (Tstatfs.fid m)) (\<lambda>f.
     comp_bind (sys (fstatfs64 os (path f))) (\<lambda>out.
       comp_return
         \<lparr>Rstatfs.ty = ucast (f_type out), bsize = ucast (f_bsize out), blocks = f_blocks out,
          bfree = f_bfree out, bavail = f_bavail out, files = f_files out, ffree = f_ffree out,
          fsid = f_fsid out, namelen = ucast (f_namelen out)\<rparr>))"

definition Server_get_attr :: "'w os \<Rightarrow> Tgetattr \<Rightarrow> ('w, Rgetattr) srv" where
  "Server_get_attr os m =
     comp_bind (get_fid os (Tgetattr.fid m)) (\<lambda>f.
     comp_bind (stat os (path f)) (\<lambda>st.
     comp_bind server (\<lambda>sv.
       comp_return
         \<lparr>Rgetattr.valid = P9_GETATTR_BASIC, qid = Qid_of_stat (libc os) st, mode = st_mode st,
          uid = map_id_from_host (uid_map (cfg sv)) (st_uid st),
          gid = map_id_from_host (gid_map (cfg sv)) (st_gid st),
          nlink = st_nlink st, rdev = st_rdev st, size' = st_size st,
          blksize = st_blksize st, blocks = st_blocks st,
          atime_sec = st_atime st, atime_nsec = st_atime_nsec st,
          mtime_sec = st_mtime st, mtime_nsec = st_mtime_nsec st,
          ctime_sec = st_ctime st, ctime_nsec = st_ctime_nsec st,
          btime_sec = 0, btime_nsec = 0, gen = 0, data_version = 0\<rparr>)))"

text \<open>\<open>if c { ...? }\<close>\<close>

definition comp_when :: "bool \<Rightarrow> ('s, unit) comp \<Rightarrow> ('s, unit) comp" where
  "comp_when c m = (if c then m else comp_return ())"

definition setattr_time :: "libc \<Rightarrow> u32 \<Rightarrow> u32 \<Rightarrow> u32 \<Rightarrow> u64 \<Rightarrow> u64 \<Rightarrow> timespec" where
  "setattr_time c vld time_bit set_flag sec nsec =
     \<lparr>tv_sec = sec,
      tv_nsec = if vld AND time_bit = 0 then scast (c UTIME_OMIT)
                else if vld AND set_flag = 0 then scast (c UTIME_NOW)
                else nsec\<rparr>"

definition Server_set_attr :: "'w os \<Rightarrow> Tsetattr \<Rightarrow> ('w, unit) srv" where
  "Server_set_attr os m =
     comp_bind (get_fid os (Tsetattr.fid m)) (\<lambda>f.
     comp_bind (string_to_cstring os (proc_fd_path (path f))) (\<lambda>pth.
     comp_bind server (\<lambda>sv.
     let vld = Tsetattr.valid m in
     comp_bind (comp_when (vld AND P9_SETATTR_MODE \<noteq> 0)
       (sys (fchmodat os (proc sv) pth (Tsetattr.mode m) 0))) (\<lambda>_.
     comp_bind (comp_when (vld AND (P9_SETATTR_UID OR P9_SETATTR_GID) \<noteq> 0)
       (sys (fchownat os (proc sv) pth
          (if vld AND P9_SETATTR_UID \<noteq> 0 then Tsetattr.uid m else - 1)
          (if vld AND P9_SETATTR_GID \<noteq> 0 then Tsetattr.gid m else - 1) 0))) (\<lambda>_.
     comp_bind (comp_when (vld AND P9_SETATTR_SIZE \<noteq> 0)
       (comp_bind
          (if filetype f = Directory then comp_fail (Os (libc os EISDIR))
           else case file' f of
                  Some opened \<Rightarrow> comp_return opened
                | None \<Rightarrow> open_fid os (proc sv) (path f) (P9_NONBLOCK OR P9_RDWR))
          (\<lambda>h. std_fs (set_len os h (Tsetattr.size' m))))) (\<lambda>_.
     comp_bind (comp_when (vld AND (P9_SETATTR_ATIME OR P9_SETATTR_MTIME) \<noteq> 0)
       (sys (utimensat os (proc sv) pth
          (setattr_time (libc os) vld P9_SETATTR_ATIME P9_SETATTR_ATIME_SET
             (Tsetattr.atime_sec m) (Tsetattr.atime_nsec m),
           setattr_time (libc os) vld P9_SETATTR_MTIME P9_SETATTR_MTIME_SET
             (Tsetattr.mtime_sec m) (Tsetattr.mtime_nsec m)) 0))) (\<lambda>_.
     comp_when (vld AND P9_SETATTR_CTIME \<noteq> 0 \<and> vld AND NOT P9_SETATTR_CTIME = 0)
       (sys (fchownat os (proc sv) pth (- 1) (- 1) 0))))))))) "

definition Server_xattr_walk :: "'w os \<Rightarrow> Txattrwalk \<Rightarrow> ('w, Rxattrwalk) srv" where
  "Server_xattr_walk os m = comp_fail (Os (libc os EOPNOTSUPP))"

definition Server_xattr_create :: "'w os \<Rightarrow> Txattrcreate \<Rightarrow> ('w, unit) srv" where
  "Server_xattr_create os m = comp_fail (Os (libc os EOPNOTSUPP))"

section \<open>Locks\<close>

definition Server_lock :: "'w os \<Rightarrow> Tlock \<Rightarrow> ('w, Rlock) srv" where
  "Server_lock os m =
     comp_bind (get_file os (Tlock.fid m)) (\<lambda>f.
     comp_bind (sys (fstat64 os f)) (\<lambda>_.
       comp_return \<lparr>Rlock.status = P9_LOCK_SUCCESS\<rparr>))"

definition Server_get_lock :: "'w os \<Rightarrow> Tgetlock \<Rightarrow> ('w, Rgetlock) srv" where
  "Server_get_lock os m =
     comp_bind (get_file os (Tgetlock.fid m)) (\<lambda>f.
     comp_bind (sys (fstat64 os f)) (\<lambda>_.
       comp_return
         \<lparr>Rgetlock.type' = P9_LOCK_TYPE_UNLCK, start = Tgetlock.start m,
          length' = Tgetlock.length' m, proc_id = Tgetlock.proc_id m,
          client_id = Tgetlock.client_id m\<rparr>))"

section \<open>Reading directories\<close>

definition readdir_header_size :: u32 where
  "readdir_header_size =
     byte_size_Rframe \<lparr>Rframe.tag = 0, msg = Rmessage.Readdir \<lparr>Rreaddir.data = Data []\<rparr>\<rparr>"

text \<open>The body of the loop up to the entry it would write.\<close>

definition readdir_entry :: "'w os \<Rightarrow> fd \<Rightarrow> DirEntry \<Rightarrow> ('w, Dirent) srv" where
  "readdir_entry os dir_path dirent =
     comp_bind (statat os dir_path (DirEntry.name dirent) 0) (\<lambda>st.
       if utf8_valid (DirEntry.name dirent)
       then comp_return \<lparr>Dirent.qid = Qid_of_stat (libc os) st, offset = DirEntry.offset dirent,
                         ty = DirEntry.type' dirent, name = DirEntry.name dirent\<rparr>
       else comp_fail (Kind InvalidData))"

text \<open>
  The loop writes into a \<open>Cursor\<close> over a vector of capacity \<open>cap\<close> and stops before the first
  entry that does not fit; \<open>out\<close> is what the cursor holds.
\<close>

function (sequential) readdir_loop ::
    "'w os \<Rightarrow> fd \<Rightarrow> nat \<Rightarrow> ReadDir \<Rightarrow> bytes \<Rightarrow> Server \<times> 'w \<Rightarrow> (bytes io_result \<times> (Server \<times> 'w)) option"
where
  "readdir_loop os dir_path cap dirents out s =
     (case ReadDir_next os dirents (snd s) of
        None \<Rightarrow> None
      | Some (Inl e, dirents', w') \<Rightarrow> Some (Err e, (fst s, w'))
      | Some (Inr None, dirents', w') \<Rightarrow> Some (Ok out, (fst s, w'))
      | Some (Inr (Some dirent), dirents', w') \<Rightarrow>
          (case readdir_entry os dir_path dirent (fst s, w') of
             None \<Rightarrow> None
           | Some (Inl e, s') \<Rightarrow> Some (Err e, s')
           | Some (Inr entry, s') \<Rightarrow>
               if cap - length out < unat (byte_size_Dirent entry) then Some (Ok out, s')
               else (case encode_Dirent entry out of
                       (Inl e, out') \<Rightarrow> Some (Err e, s')
                     | (Inr _, out') \<Rightarrow> readdir_loop os dir_path cap dirents' out' s')))"
  by pat_completeness auto
termination
  by (relation "measure (\<lambda>(os, dir_path, cap, dirents, out, s). cap - length out)")
    (auto intro: encode_Dirent_room)

definition Server_readdir :: "'w os \<Rightarrow> Treaddir \<Rightarrow> ('w, Rreaddir) srv" where
  "Server_readdir os m =
     comp_bind (get_fid os (Treaddir.fid m)) (\<lambda>f.
     if filetype f \<noteq> Directory then comp_fail (Os (libc os ENOTDIR))
     else comp_bind server (\<lambda>sv.
       let cnt = min (msize (cfg sv) - readdir_header_size) (Treaddir.count m) in
       comp_bind (case file' f of None \<Rightarrow> comp_fail (ebadf os) | Some d \<Rightarrow> comp_return d) (\<lambda>d.
       comp_bind (std_fs (read_dir os d (Treaddir.offset m))) (\<lambda>dirents.
       comp_bind (readdir_loop os (path f) (with_capacity os (unat cnt)) dirents []) (\<lambda>out.
         comp_return \<lparr>Rreaddir.data = Data out\<rparr>)))))"

section \<open>Dispatch\<close>

definition comp_map :: "('a \<Rightarrow> 'b) \<Rightarrow> ('s, 'a) comp \<Rightarrow> ('s, 'b) comp" where
  "comp_map f m = comp_bind m (\<lambda>x. comp_return (f x))"

text \<open>The \<open>match msg\<close> of \<open>handle\<close>, which \<open>handle_message\<close> repeats.\<close>

primrec Server_dispatch :: "'w os \<Rightarrow> Tmessage \<Rightarrow> ('w, Rmessage) srv" where
  "Server_dispatch os (Tmessage.Version m) = comp_map Rmessage.Version (Server_version os m)"
| "Server_dispatch os (Tmessage.Flush m) = comp_map (\<lambda>_. Rmessage.Flush) (Server_flush m)"
| "Server_dispatch os (Tmessage.Walk m) = comp_map Rmessage.Walk (Server_walk os m)"
| "Server_dispatch os (Tmessage.Read m) = comp_map Rmessage.Read (Server_read os m)"
| "Server_dispatch os (Tmessage.Write m) = comp_map Rmessage.Write (Server_write os m)"
| "Server_dispatch os (Tmessage.Clunk m) = comp_map (\<lambda>_. Rmessage.Clunk) (Server_clunk os m)"
| "Server_dispatch os (Tmessage.Remove m) = comp_map (\<lambda>_. Rmessage.Remove) (Server_remove os m)"
| "Server_dispatch os (Tmessage.Attach m) = comp_map Rmessage.Attach (Server_attach os m)"
| "Server_dispatch os (Tmessage.Auth m) = comp_map Rmessage.Auth (Server_auth os m)"
| "Server_dispatch os (Tmessage.Statfs m) = comp_map Rmessage.Statfs (Server_statfs os m)"
| "Server_dispatch os (Tmessage.Lopen m) = comp_map Rmessage.Lopen (Server_lopen os m)"
| "Server_dispatch os (Tmessage.Lcreate m) = comp_map Rmessage.Lcreate (Server_lcreate os m)"
| "Server_dispatch os (Tmessage.Symlink m) = comp_map Rmessage.Symlink (Server_symlink os m)"
| "Server_dispatch os (Tmessage.Mknod m) = comp_map Rmessage.Mknod (Server_mknod os m)"
| "Server_dispatch os (Tmessage.Rename m) = comp_map (\<lambda>_. Rmessage.Rename) (Server_rename os m)"
| "Server_dispatch os (Tmessage.Readlink m) = comp_map Rmessage.Readlink (Server_readlink os m)"
| "Server_dispatch os (Tmessage.GetAttr m) = comp_map Rmessage.GetAttr (Server_get_attr os m)"
| "Server_dispatch os (Tmessage.SetAttr m) = comp_map (\<lambda>_. Rmessage.SetAttr) (Server_set_attr os m)"
| "Server_dispatch os (Tmessage.XattrWalk m) = comp_map Rmessage.XattrWalk (Server_xattr_walk os m)"
| "Server_dispatch os (Tmessage.XattrCreate m) =
     comp_map (\<lambda>_. Rmessage.XattrCreate) (Server_xattr_create os m)"
| "Server_dispatch os (Tmessage.Readdir m) = comp_map Rmessage.Readdir (Server_readdir os m)"
| "Server_dispatch os (Tmessage.Fsync m) = comp_map (\<lambda>_. Rmessage.Fsync) (Server_fsync os m)"
| "Server_dispatch os (Tmessage.Lock m) = comp_map Rmessage.Lock (Server_lock os m)"
| "Server_dispatch os (Tmessage.GetLock m) = comp_map Rmessage.GetLock (Server_get_lock os m)"
| "Server_dispatch os (Tmessage.Link m) = comp_map (\<lambda>_. Rmessage.Link) (Server_link os m)"
| "Server_dispatch os (Tmessage.Mkdir m) = comp_map Rmessage.Mkdir (Server_mkdir os m)"
| "Server_dispatch os (Tmessage.RenameAt m) = comp_map (\<lambda>_. Rmessage.RenameAt) (Server_rename_at os m)"
| "Server_dispatch os (Tmessage.UnlinkAt m) = comp_map (\<lambda>_. Rmessage.UnlinkAt) (Server_unlink_at os m)"

text \<open>Errors while handling requests are never fatal: \<open>rmsg.unwrap_or_else(error_to_rmessage)\<close>.\<close>

definition Server_handle :: "'w os \<Rightarrow> Tframe \<Rightarrow> ('w, Rframe) srv" where
  "Server_handle os tx =
     comp_bind
       (comp_try (case Tframe.msg tx of
                    Inr m \<Rightarrow> Server_dispatch os m
                  | Inl e \<Rightarrow> comp_fail (Kind InvalidData)))
       (\<lambda>rmsg. comp_return
          \<lparr>Rframe.tag = Tframe.tag tx,
           msg = (case rmsg of Inr m \<Rightarrow> m | Inl e \<Rightarrow> error_to_rmessage (libc os) e)\<rparr>)"

text \<open>
  \<open>handle_message\<close> reads a frame of at most \<open>msize\<close> bytes and writes the response; \<open>flush\<close> on a
  vector does nothing. The reader is what is left of the input, the writer what was written.
\<close>

definition Server_handle_message ::
    "'w os \<Rightarrow> bytes \<Rightarrow> bytes \<Rightarrow> Server \<times> 'w \<Rightarrow> (unit io_result \<times> bytes \<times> bytes \<times> Server \<times> 'w) option" where
  "Server_handle_message os reader writer s =
     (case io_take (unat (msize (cfg (fst s)))) decode_Tframe reader of
        (Inl e, reader') \<Rightarrow> Some (Err e, reader', writer, s)
      | (Inr tx, reader') \<Rightarrow>
          (case Server_handle os tx s of
             None \<Rightarrow> None
           | Some (Inl e, s') \<Rightarrow> Some (Err e, reader', writer, s')
           | Some (Inr response, s') \<Rightarrow>
               (case encode_Rframe response writer of
                  (r, writer') \<Rightarrow> Some (r, reader', writer', s'))))"

end
