(* ===== verification/ServerLogic.thy ===== *)
theory ServerLogic
  imports Server
begin

text \<open>
  What a request does to the \<open>Server\<close>, by rules of partial correctness: most methods leave the
  table of fids alone (\<open>keeps\<close>), the others change the entry of one fid (\<open>fid_change\<close>) and only
  if they succeed, \<open>lcreate\<close> apart. \<open>dispatch_post\<close> collects this for all requests.
\<close>

declare readdir_loop.simps [simp del]

lemma keeps_readdir_entry [keeps_intros]: "keeps (readdir_entry os d e)"
  unfolding readdir_entry_def by (intro keeps_intros)

lemma readdir_loop_elim:
  assumes "readdir_loop os d cap rd out s = Some (r, t)"
  obtains (next_error) e rd' w' where
      "ReadDir_next os rd (snd s) = Some (Err e, rd', w')" "r = Err e" "t = (fst s, w')"
  | (exhausted) rd' w' where
      "ReadDir_next os rd (snd s) = Some (Ok None, rd', w')" "r = Ok out" "t = (fst s, w')"
  | (entry_error) de rd' w' e where
      "ReadDir_next os rd (snd s) = Some (Ok (Some de), rd', w')"
      "readdir_entry os d de (fst s, w') = Some (Err e, t)" "r = Err e"
  | (full) de rd' w' entry where
      "ReadDir_next os rd (snd s) = Some (Ok (Some de), rd', w')"
      "readdir_entry os d de (fst s, w') = Some (Ok entry, t)"
      "cap - length out < unat (byte_size_Dirent entry)" "r = Ok out"
  | (encode_error) de rd' w' entry e out' where
      "ReadDir_next os rd (snd s) = Some (Ok (Some de), rd', w')"
      "readdir_entry os d de (fst s, w') = Some (Ok entry, t)"
      "encode_Dirent entry out = (Err e, out')" "r = Err e"
  | (more) de rd' w' entry s' out' where
      "ReadDir_next os rd (snd s) = Some (Ok (Some de), rd', w')"
      "readdir_entry os d de (fst s, w') = Some (Ok entry, s')"
      "unat (byte_size_Dirent entry) \<le> cap - length out"
      "encode_Dirent entry out = (Ok (), out')"
      "readdir_loop os d cap rd' out' s' = Some (r, t)"
proof -
  note eq = assms [unfolded readdir_loop.simps [of os d cap rd out s]]
  from eq obtain nx rd' w' where next': "ReadDir_next os rd (snd s) = Some (nx, rd', w')"
    by (cases "ReadDir_next os rd (snd s)") auto
  consider e where "nx = Err e" | "nx = Ok None" | de where "nx = Ok (Some de)"
    by (metis sum.exhaust option.exhaust)
  then show thesis
  proof cases
    case 1 with eq next' show thesis by (auto intro: next_error)
  next
    case 2 with eq next' show thesis by (auto intro: exhausted)
  next
    case 3
    with eq next' obtain en s' where en: "readdir_entry os d de (fst s, w') = Some (en, s')"
      by (cases "readdir_entry os d de (fst s, w')") auto
    obtain er out' where er: "encode_Dirent entry out = (er, out')" if "en = Ok entry" for entry
      by (cases en) (auto split: prod.splits, metis prod.exhaust)
    show thesis
      using eq next' 3 en er
      by (cases en; cases er)
        (auto split: if_splits intro: entry_error full encode_error more)
  qed
qed

lemma keeps_readdir_loop [keeps_intros]: "keeps (readdir_loop os d cap rd out)"
proof (rule keepsI)
  fix s r t assume "readdir_loop os d cap rd out s = Some (r, t)"
  then show "fst t = fst s"
  proof (induction os d cap rd out s rule: readdir_loop.induct)
    case (1 os d cap rd out s)
    from 1(2) show ?case
    proof (cases rule: readdir_loop_elim)
      case (more de rd' w' entry s' out')
      from 1(1) [OF more(1) refl refl refl refl more(2) refl refl _ more(4) [symmetric] _ more(5)]
        keepsD [OF keeps_readdir_entry more(2)] more(3)
      show ?thesis by simp
    qed (auto dest: keepsD [OF keeps_readdir_entry])
  qed
qed

section \<open>Methods that keep the server\<close>

lemmas Server_defs =
  Server_auth_def Server_flush_def Server_read_def Server_write_def Server_remove_def
  Server_statfs_def Server_symlink_def Server_mknod_def Server_rename_def Server_readlink_def
  Server_get_attr_def Server_set_attr_def Server_xattr_walk_def Server_xattr_create_def
  Server_readdir_def Server_fsync_def Server_lock_def Server_get_lock_def Server_link_def
  Server_mkdir_def Server_rename_at_def Server_unlink_at_def

lemma keeps_comp_when [keeps_intros]: "keeps m \<Longrightarrow> keeps (comp_when c m)"
  by (simp add: comp_when_def keeps_return)

lemma keeps_comp_map [keeps_intros]: "keeps m \<Longrightarrow> keeps (comp_map f m)"
  unfolding comp_map_def by (intro keeps_intros)

lemma keeps_Server [keeps_intros]:
  "keeps (Server_auth os auth)" "keeps (Server_flush flush)" "keeps (Server_read os read)"
  "keeps (Server_write os write)" "keeps (Server_remove os remove)"
  "keeps (Server_statfs os statfs)" "keeps (Server_symlink os symlink)"
  "keeps (Server_mknod os mknod)" "keeps (Server_rename os rename)"
  "keeps (Server_readlink os readlink)" "keeps (Server_get_attr os get_attr)"
  "keeps (Server_set_attr os set_attr)" "keeps (Server_xattr_walk os xattr_walk)"
  "keeps (Server_xattr_create os xattr_create)" "keeps (Server_readdir os readdir)"
  "keeps (Server_fsync os fsync)" "keeps (Server_lock os lock)"
  "keeps (Server_get_lock os get_lock)" "keeps (Server_link os link)"
  "keeps (Server_mkdir os mkdir)" "keeps (Server_rename_at os rename_at)"
  "keeps (Server_unlink_at os unlink_at)"
  unfolding Server_defs by (intro keeps_intros)+

section \<open>Methods that change the server\<close>

text \<open>
  \<open>fid_change sv n f sv'\<close>: \<open>sv'\<close> is \<open>sv\<close> with the entry of the fid \<open>n\<close> set to \<open>f\<close>.
\<close>

definition fid_change :: "Server \<Rightarrow> u32 \<Rightarrow> Fid option \<Rightarrow> Server \<Rightarrow> bool" where
  "fid_change sv n f sv' \<longleftrightarrow> sv' = sv\<lparr>fids := (fids sv)(n := f)\<rparr>"

lemma wlp_attach:
  "wlp (Server_attach os m) (\<lambda>r (sv', w').
     case r of
       Inl e \<Rightarrow> sv' = sv
     | Inr v \<Rightarrow> fids sv (Tattach.fid m) = None \<and>
         (\<exists>p st. v = \<lparr>Rattach.qid = Qid_of_stat (libc os) st\<rparr> \<and>
            fid_change sv (Tattach.fid m)
              (Some \<lparr>path = p, file' = None, filetype = FileType_of_mode (libc os) (st_mode st)\<rparr>) sv'))
   (sv, w)"
  unfolding Server_attach_def
  by (intro wlp_intros wlp_bind_keeps [OF keeps_sys] wlp_bind_keeps [OF keeps_stat])
    (auto simp: fid_change_def)

lemma wlp_clunk:
  "wlp (Server_clunk os m) (\<lambda>r (sv', w').
     case r of
       Inl e \<Rightarrow> sv' = sv \<and> w' = w \<and> e = ebadf os \<and> fids sv (Tclunk.fid m) = None
     | Inr v \<Rightarrow> w' = w \<and> fids sv (Tclunk.fid m) \<noteq> None \<and> fid_change sv (Tclunk.fid m) None sv')
   (sv, w)"
  unfolding Server_clunk_def
  by (intro wlp_intros) (auto simp: fid_change_def ebadf_def)

lemma wlp_lopen:
  "wlp (Server_lopen os m) (\<lambda>r (sv', w').
     case r of
       Inl e \<Rightarrow> sv' = sv
     | Inr v \<Rightarrow> \<exists>f opened. fids sv (Tlopen.fid m) = Some f \<and>
         fid_change sv (Tlopen.fid m) (Some (f\<lparr>file' := Some opened\<rparr>)) sv')
   (sv, w)"
  unfolding Server_lopen_def
  by (intro wlp_intros wlp_bind_keeps [OF keeps_open_fid] wlp_bind_keeps [OF keeps_stat])
    (auto simp: fid_change_def)

lemma wlp_lcreate:
  "wlp (Server_lcreate os m) (\<lambda>r (sv', w').
     case r of
       Inl e \<Rightarrow> sv' = sv \<or> (\<exists>f created. fids sv (Tlcreate.fid m) = Some f \<and> filetype f = Directory \<and>
         fid_change sv (Tlcreate.fid m) (Some (f\<lparr>file' := Some created, filetype := Regular\<rparr>)) sv')
     | Inr v \<Rightarrow> \<exists>f created p. fids sv (Tlcreate.fid m) = Some f \<and> filetype f = Directory \<and>
         fid_change sv (Tlcreate.fid m)
           (Some (f\<lparr>file' := Some created, filetype := Regular, path := p\<rparr>)) sv')
   (sv, w)"
  unfolding Server_lcreate_def
  by (intro wlp_intros wlp_bind_keeps [OF keeps_string_to_cstring] wlp_bind_keeps [OF keeps_sys]
      wlp_bind_keeps [OF keeps_stat] wlp_bind_keeps [OF keeps_lookup])
    (auto simp: fid_change_def)


text \<open>
  What the two results of \<open>do_walk\<close> have to do with each other: a complete walk has one entry for
  every name, one that fails on a name has fewer.
\<close>

definition walk_result :: "bool \<Rightarrow> bytes list \<Rightarrow> fd io_result \<Rightarrow> stat64 list \<Rightarrow> bool" where
  "walk_result owned wnms res mds \<longleftrightarrow>
     (case res of
        Inl _ \<Rightarrow> (if wnms = [] then mds = [] \<and> \<not> owned else length mds < length wnms)
      | Inr _ \<Rightarrow> length mds = length wnms)"

lemma do_walk_from_lengths:
  "do_walk_from os pr casefold owned cur wnms s = Some (r, t) \<Longrightarrow>
     \<exists>res mds. r = Ok (res, mds) \<and> walk_result owned wnms res mds"
proof (induction wnms arbitrary: owned cur s r t)
  case Nil
  then show ?case
    by (cases owned)
      (auto simp: walk_result_def comp_bind_eq_Some comp_try_def io_simps split: option.splits sum.splits)
next
  case (Cons wname wnms)
  let ?step = "walk_step os pr casefold cur wname"
  from Cons.prems obtain x s1 where x: "?step s = Some (x, s1)"
    by (cases "?step s") (auto simp: comp_bind_def comp_try_def)
  show ?case
  proof (cases x)
    case (Inl e)
    with Cons.prems x have "r = Ok (Err e, [])"
      by (simp add: comp_bind_def comp_try_def io_simps)
    then show ?thesis by (simp add: walk_result_def)
  next
    case (Inr y)
    obtain f st where y: "y = (f, st)" by (cases y)
    with Cons.prems x Inr obtain r' s2 where
      rec': "do_walk_from os pr casefold True f wnms s1 = Some (r', s2)"
      by (cases "do_walk_from os pr casefold True f wnms s1")
        (auto simp: comp_bind_def comp_try_def)
    from Cons.IH [OF rec'] obtain res mds where
      r': "r' = Ok (res, mds)" "walk_result True wnms res mds"
      by blast
    with Cons.prems x Inr y rec' have "r = Ok (res, st # mds)"
      by (simp add: comp_bind_def comp_try_def io_simps)
    moreover from r'(2) have "walk_result owned (wname # wnms) res (st # mds)"
      by (auto simp: walk_result_def split: sum.splits if_splits)
    ultimately show ?thesis by blast
  qed
qed

lemma wlp_do_walk:
  "wlp (do_walk os pr wnms from casefold) (\<lambda>r (sv', w').
     sv' = sv \<and> (\<exists>res mds. r = Ok (res, mds) \<and> walk_result False wnms res mds)) (sv, w)"
proof (rule wlpI)
  fix r t assume run: "do_walk os pr wnms from casefold (sv, w) = Some (r, t)"
  from keepsD [OF keeps_do_walk run] have "fst t = sv" by simp
  with do_walk_from_lengths [OF run [unfolded do_walk_def]]
  show "case t of (sv', w') \<Rightarrow> sv' = sv \<and> (\<exists>res mds. r = Ok (res, mds) \<and> walk_result False wnms res mds)"
    by (cases t) simp
qed

lemma wlp_walk_store:
  assumes "walk_result False (Twalk.wnames m) res mds"
  shows "wlp (walk_store os m res mds) (\<lambda>r (sv', w').
     case r of
       Inl e \<Rightarrow> sv' = sv
     | Inr v \<Rightarrow> length mds \<le> length (Twalk.wnames m) \<and> (mds = [] \<longrightarrow> Twalk.wnames m = []) \<and>
         (if length mds = length (Twalk.wnames m)
          then \<exists>p ft. fid_change sv (Twalk.newfid m) (Some \<lparr>path = p, file' = None, filetype = ft\<rparr>) sv'
          else sv' = sv))
   (sv, w)"
proof (cases res)
  case (Inl e)
  show ?thesis
    unfolding walk_store_def Inl sum.case using assms Inl
    by (intro wlp_intros) (auto simp: walk_result_def split: if_splits)
next
  case (Inr f)
  show ?thesis
    unfolding walk_store_def Inr sum.case using assms Inr
    by (intro wlp_intros wlp_bind_keeps [OF keeps_stat])
      (auto simp: walk_result_def fid_change_def)
qed

definition walk_post :: "Twalk \<Rightarrow> Server \<Rightarrow> Rwalk io_result \<Rightarrow> Server \<Rightarrow> bool" where
  "walk_post m sv r sv' \<longleftrightarrow>
     (case r of
        Inl e \<Rightarrow> sv' = sv
      | Inr v \<Rightarrow> fids sv (Twalk.fid m) \<noteq> None \<and>
         (Twalk.newfid m = Twalk.fid m \<or> fids sv (Twalk.newfid m) = None) \<and>
         length (Rwalk.wqids v) \<le> length (Twalk.wnames m) \<and>
         (Rwalk.wqids v = [] \<longrightarrow> Twalk.wnames m = []) \<and>
         (if length (Rwalk.wqids v) = length (Twalk.wnames m)
          then \<exists>p ft. fid_change sv (Twalk.newfid m) (Some \<lparr>path = p, file' = None, filetype = ft\<rparr>) sv'
          else sv' = sv))"

lemma wlp_walk: "wlp (Server_walk os m) (\<lambda>r t. walk_post m sv r (fst t)) (sv, w)"
proof -
  have store: "wlp (comp_bind (walk_store os m res mds) (\<lambda>_.
      comp_return \<lparr>Rwalk.wqids = map (Qid_of_stat (libc os)) mds\<rparr>))
        (\<lambda>r t. walk_post m sv r (fst t)) (sv, w')"
    if "walk_result False (Twalk.wnames m) res mds" "fids sv (Twalk.fid m) = Some f"
      "\<not> (Twalk.fid m \<noteq> Twalk.newfid m \<and> fids sv (Twalk.newfid m) \<noteq> None)" for res mds f w'
    using that(2,3)
    by (auto intro!: wlp_bind wlp_mono [OF wlp_walk_store [OF that(1)]] wlp_return
        simp: walk_post_def split: sum.splits)
  show ?thesis
    unfolding Server_walk_def
    by (intro wlp_intros wlp_bind [of "do_walk _ _ _ _ _"] wlp_mono [OF wlp_do_walk])
      (auto simp: store walk_post_def [of _ _ "Err _"] split: sum.splits)
qed


section \<open>Requests and the server they leave\<close>

text \<open>
  The fids that are live after a request that got a given reply, as a client can compute them.
\<close>

definition live_after :: "Tmessage \<Rightarrow> Rmessage \<Rightarrow> u32 set \<Rightarrow> u32 set" where
  "live_after m r D =
     (case (m, r) of
        (Tmessage.Version _, Rmessage.Version _) \<Rightarrow> {}
      | (Tmessage.Attach a, Rmessage.Attach _) \<Rightarrow> insert (Tattach.fid a) D
      | (Tmessage.Walk a, Rmessage.Walk v) \<Rightarrow>
          if length (Rwalk.wqids v) = length (Twalk.wnames a) then insert (Twalk.newfid a) D else D
      | (Tmessage.Clunk a, Rmessage.Clunk) \<Rightarrow> D - {Tclunk.fid a}
      | _ \<Rightarrow> D)"

text \<open>The fids whose entry a request may change.\<close>

definition touched :: "Tmessage \<Rightarrow> u32 set" where
  "touched m =
     (case m of
        Tmessage.Version _ \<Rightarrow> UNIV
      | Tmessage.Attach a \<Rightarrow> {Tattach.fid a}
      | Tmessage.Walk a \<Rightarrow> {Twalk.newfid a}
      | Tmessage.Clunk a \<Rightarrow> {Tclunk.fid a}
      | Tmessage.Lopen a \<Rightarrow> {Tlopen.fid a}
      | Tmessage.Lcreate a \<Rightarrow> {Tlcreate.fid a}
      | _ \<Rightarrow> {})"

definition dispatch_post :: "Tmessage \<Rightarrow> Server \<Rightarrow> Rmessage io_result \<Rightarrow> Server \<Rightarrow> bool" where
  "dispatch_post m sv r sv' \<longleftrightarrow>
     (case r of
        Inl e \<Rightarrow> dom (fids sv') = dom (fids sv) \<and> cfg sv' = cfg sv \<and>
          ((\<forall>a. m \<noteq> Tmessage.Lcreate a) \<longrightarrow> sv' = sv)
      | Inr v \<Rightarrow> dom (fids sv') = live_after m v (dom (fids sv)) \<and>
          Rmessage_type v = Tmessage_type m + 1 \<and>
          (case m of
             Tmessage.Version a \<Rightarrow> MIN_MESSAGE_SIZE \<le> Tversion.msize a \<and>
               cfg sv' = (cfg sv)\<lparr>msize := min (msize (cfg sv)) (Tversion.msize a)\<rparr>
           | _ \<Rightarrow> cfg sv' = cfg sv)) \<and>
     proc sv' = proc sv \<and>
     (\<forall>n. n \<notin> touched m \<longrightarrow> fids sv' n = fids sv n)"

lemmas type_simps = message_types Tmessage_type.simps Rmessage_type.simps

lemma wlp_comp_map:
  "wlp m (\<lambda>r t. case r of Inl e \<Rightarrow> Q (Err e) t | Inr x \<Rightarrow> Q (Ok (f x)) t) s \<Longrightarrow> wlp (comp_map f m) Q s"
  unfolding comp_map_def
  by (rule wlp_bind) (auto elim!: wlp_mono intro!: wlp_return split: sum.splits)

lemma dispatch_keeps:
  assumes "keeps c" and "\<And>D x. live_after m (f x) D = D"
    and "\<And>x. Rmessage_type (f x) = Tmessage_type m + 1"
    and "\<And>a. m \<noteq> Tmessage.Version a"
  shows "wlp (comp_map f c) (\<lambda>r t. dispatch_post m sv r (fst t)) (sv, w)"
  by (rule wlp_comp_map, rule wlp_keeps [OF assms(1)])
    (use assms(2-4) in \<open>auto simp: dispatch_post_def split: sum.splits Tmessage.splits\<close>)

lemma dispatch_version:
  "wlp (comp_map Rmessage.Version (Server_version os a))
     (\<lambda>r t. dispatch_post (Tmessage.Version a) sv r (fst t)) (sv, w)"
  by (rule wlp_comp_map)
    (simp add: wlp_def Server_version_def dispatch_post_def live_after_def touched_def type_simps
      Let_def not_less)

lemma fid_change_simps:
  assumes "fid_change sv n f sv'"
  shows "fids sv' = (fids sv)(n := f)" "cfg sv' = cfg sv" "proc sv' = proc sv"
  using assms by (simp_all add: fid_change_def)

lemma dispatch_post_change:
  assumes "fid_change sv n f sv'" and "touched m = {n}" and "\<And>a. m \<noteq> Tmessage.Version a"
    and "live_after m v (dom (fids sv)) = (if f = None then dom (fids sv) - {n} else insert n (dom (fids sv)))"
    and "Rmessage_type v = Tmessage_type m + 1"
  shows "dispatch_post m sv (Ok v) sv'"
  using assms(2-5) by (auto simp: dispatch_post_def fid_change_simps [OF assms(1)] split: Tmessage.splits)

lemma dispatch_post_same: "dispatch_post m sv (Err e) sv"
  by (simp add: dispatch_post_def)

lemma dispatch_attach:
  "wlp (comp_map Rmessage.Attach (Server_attach os a))
     (\<lambda>r t. dispatch_post (Tmessage.Attach a) sv r (fst t)) (sv, w)"
  by (rule wlp_comp_map, rule wlp_mono [OF wlp_attach [where sv = sv]])
    (clarsimp simp: dispatch_post_same split: sum.splits,
      erule dispatch_post_change; auto simp: live_after_def touched_def type_simps)

lemma dispatch_walk_Ok:
  assumes "walk_post a sv (Ok v) sv'"
  shows "dispatch_post (Tmessage.Walk a) sv (Ok (Rmessage.Walk v)) sv'"
proof (cases "length (Rwalk.wqids v) = length (Twalk.wnames a)")
  case True
  with assms obtain p ft where
    "fid_change sv (Twalk.newfid a) (Some \<lparr>path = p, file' = None, filetype = ft\<rparr>) sv'"
    by (auto simp: walk_post_def)
  with True show ?thesis
    by (intro dispatch_post_change) (auto simp: live_after_def touched_def type_simps)
next
  case False
  with assms show ?thesis
    by (simp add: walk_post_def dispatch_post_def live_after_def type_simps)
qed

lemma dispatch_walk:
  "wlp (comp_map Rmessage.Walk (Server_walk os a))
     (\<lambda>r t. dispatch_post (Tmessage.Walk a) sv r (fst t)) (sv, w)"
proof (rule wlp_comp_map, rule wlp_mono [OF wlp_walk [where sv = sv]])
  fix r and t :: "Server \<times> 'a" assume post: "walk_post a sv r (fst t)"
  show "case r of Inl e \<Rightarrow> dispatch_post (Tmessage.Walk a) sv (Err e) (fst t)
      | Inr x \<Rightarrow> dispatch_post (Tmessage.Walk a) sv (Ok (Rmessage.Walk x)) (fst t)"
    using post
    by (cases r) (simp_all add: dispatch_walk_Ok, simp add: walk_post_def dispatch_post_def)
qed

lemma dispatch_clunk:
  "wlp (comp_map (\<lambda>_. Rmessage.Clunk) (Server_clunk os a))
     (\<lambda>r t. dispatch_post (Tmessage.Clunk a) sv r (fst t)) (sv, w)"
  by (rule wlp_comp_map, rule wlp_mono [OF wlp_clunk [where sv = sv]])
    (clarsimp simp: dispatch_post_same split: sum.splits,
      erule dispatch_post_change; auto simp: live_after_def touched_def type_simps)

lemma dispatch_lopen:
  "wlp (comp_map Rmessage.Lopen (Server_lopen os a))
     (\<lambda>r t. dispatch_post (Tmessage.Lopen a) sv r (fst t)) (sv, w)"
  by (rule wlp_comp_map, rule wlp_mono [OF wlp_lopen [where sv = sv]])
    (clarsimp simp: dispatch_post_same split: sum.splits,
      erule dispatch_post_change; auto simp: live_after_def touched_def type_simps)

lemma dispatch_lcreate_Err:
  assumes "fid_change sv (Tlcreate.fid a) (Some f') sv'" and "fids sv (Tlcreate.fid a) = Some f"
  shows "dispatch_post (Tmessage.Lcreate a) sv (Err e) sv'"
  using assms(2) by (auto simp: dispatch_post_def fid_change_simps [OF assms(1)] touched_def)

lemma dispatch_lcreate:
  "wlp (comp_map Rmessage.Lcreate (Server_lcreate os a))
     (\<lambda>r t. dispatch_post (Tmessage.Lcreate a) sv r (fst t)) (sv, w)"
proof (rule wlp_comp_map, rule wlp_mono [OF wlp_lcreate [where sv = sv]], clarify)
  fix r :: "Rlcreate io_result" and sv' and w' :: 'a
  assume post: "case r of
       Inl e \<Rightarrow> sv' = sv \<or> (\<exists>f created. fids sv (Tlcreate.fid a) = Some f \<and> filetype f = Directory \<and>
         fid_change sv (Tlcreate.fid a) (Some (f\<lparr>file' := Some created, filetype := Regular\<rparr>)) sv')
     | Inr v \<Rightarrow> \<exists>f created p. fids sv (Tlcreate.fid a) = Some f \<and> filetype f = Directory \<and>
         fid_change sv (Tlcreate.fid a)
           (Some (f\<lparr>file' := Some created, filetype := Regular, path := p\<rparr>)) sv'"
  show "case r of Inl e \<Rightarrow> dispatch_post (Tmessage.Lcreate a) sv (Err e) (fst (sv', w'))
      | Inr x \<Rightarrow> dispatch_post (Tmessage.Lcreate a) sv (Ok (Rmessage.Lcreate x)) (fst (sv', w'))"
  proof (cases r)
    case (Inl e)
    with post show ?thesis by (auto simp: dispatch_post_same dest: dispatch_lcreate_Err)
  next
    case (Inr v)
    with post obtain f f' where "fids sv (Tlcreate.fid a) = Some f"
      "fid_change sv (Tlcreate.fid a) (Some f') sv'" by auto
    with Inr show ?thesis
      by (auto elim!: dispatch_post_change simp: live_after_def touched_def type_simps)
  qed
qed

lemma wlp_dispatch:
  "wlp (Server_dispatch os m) (\<lambda>r t. dispatch_post m sv r (fst t)) (sv, w)"
  by (cases m)
    (simp_all only: Server_dispatch.simps dispatch_version dispatch_attach dispatch_walk
      dispatch_clunk dispatch_lopen dispatch_lcreate,
     (rule dispatch_keeps, rule keeps_Server; simp add: live_after_def type_simps)+)

end
