(* ===== verification/Session.thy ===== *)
theory Session
  imports ServerLogic
begin

text \<open>
  What a client can rely on, request by request and over a whole session: every request gets one
  reply of its own kind or an error under its own tag, the client can track the live fids and the
  negotiated message size from the replies alone, a request leaves the fids of others alone,
  directory listings decode to entries, and replies fit the message size.

  \<open>handle_all\<close> runs the server on a sequence of frames; \<open>client_fids\<close> and \<open>client_msize\<close> are
  the specification that the sequence refines.
\<close>

section \<open>Sequences of requests\<close>

text \<open>
  A server that handles the frames of a client one after the other, with all the replies.
\<close>

primrec handle_all :: "'w os \<Rightarrow> Tframe list \<Rightarrow> Server \<times> 'w \<Rightarrow> (Rframe list \<times> (Server \<times> 'w)) option" where
  "handle_all os [] s = Some ([], s)"
| "handle_all os (tx # txs) s =
     (case Server_handle os tx s of
        Some (Inr rx, s') \<Rightarrow>
          (case handle_all os txs s' of
             None \<Rightarrow> None
           | Some (rxs, s'') \<Rightarrow> Some (rx # rxs, s''))
      | _ \<Rightarrow> None)"

text \<open>The fids and the message size as a client derives them from a request and its reply.\<close>

definition client_fids :: "Tframe \<times> Rframe \<Rightarrow> u32 set \<Rightarrow> u32 set" where
  "client_fids = (\<lambda>(tx, rx) D.
     case Tframe.msg tx of Inl _ \<Rightarrow> D | Inr m \<Rightarrow> live_after m (Rframe.msg rx) D)"

definition client_msize :: "Tframe \<times> Rframe \<Rightarrow> u32 \<Rightarrow> u32" where
  "client_msize = (\<lambda>(tx, rx) ms.
     case Rframe.msg rx of Rmessage.Version v \<Rightarrow> Rversion.msize v | _ \<Rightarrow> ms)"

section \<open>One request\<close>

lemma Server_handle_cases:
  assumes "Server_handle os tx (sv, w) = Some (r, t)"
  obtains (undecoded) e where "Tframe.msg tx = Err e" "t = (sv, w)"
      "r = Ok \<lparr>Rframe.tag = Tframe.tag tx, msg = error_to_rmessage (libc os) (Kind InvalidData)\<rparr>"
  | (failed) m e where "Tframe.msg tx = Ok m" "Server_dispatch os m (sv, w) = Some (Err e, t)"
      "dispatch_post m sv (Err e) (fst t)"
      "r = Ok \<lparr>Rframe.tag = Tframe.tag tx, msg = error_to_rmessage (libc os) e\<rparr>"
  | (handled) m v where "Tframe.msg tx = Ok m" "Server_dispatch os m (sv, w) = Some (Ok v, t)"
      "dispatch_post m sv (Ok v) (fst t)"
      "r = Ok \<lparr>Rframe.tag = Tframe.tag tx, msg = v\<rparr>"
proof (cases "Tframe.msg tx")
  case (Inl e)
  with assms undecoded show thesis
    by (auto simp: Server_handle_def comp_bind_def comp_try_def io_simps)
next
  case (Inr m)
  with assms obtain x where x: "Server_dispatch os m (sv, w) = Some (x, t)"
    and r: "r = Ok \<lparr>Rframe.tag = Tframe.tag tx,
        msg = (case x of Inr m \<Rightarrow> m | Inl e \<Rightarrow> error_to_rmessage (libc os) e)\<rparr>"
    by (auto simp: Server_handle_def comp_bind_def comp_try_def io_simps split: option.splits)
  from wlpD [OF wlp_dispatch x] have "dispatch_post m sv x (fst t)" .
  with Inr x r failed handled show thesis by (cases x) auto
qed

lemma live_after_Lerror [simp]: "live_after m (Rmessage.Lerror e) D = D"
  by (cases m) (simp_all add: live_after_def)

lemma handle_fids:
  assumes "Server_handle os tx (sv, w) = Some (Ok rx, (sv', w'))"
  shows "dom (fids sv') = client_fids (tx, rx) (dom (fids sv))"
  using assms
  by (cases rule: Server_handle_cases)
    (auto simp: client_fids_def error_to_rmessage_def dispatch_post_def)

lemma Version_reply:
  assumes "Rmessage_type (Rmessage.Version v) = Tmessage_type m + 1"
  obtains a where "m = Tmessage.Version a"
  using assms by (cases m) (simp_all add: type_simps)

lemma Version_types:
  assumes "Rmessage_type x = TVERSION + 1"
  obtains v where "x = Rmessage.Version v"
  using assms by (cases x) (simp_all add: type_simps)

lemma handle_msize:
  assumes "Server_handle os tx (sv, w) = Some (Ok rx, (sv', w'))"
  shows "msize (cfg sv') = client_msize (tx, rx) (msize (cfg sv)) \<and>
    msize (cfg sv') \<le> msize (cfg sv) \<and>
    (MIN_MESSAGE_SIZE \<le> msize (cfg sv) \<longrightarrow> MIN_MESSAGE_SIZE \<le> msize (cfg sv'))"
  using assms
proof (cases rule: Server_handle_cases)
  case (handled m v)
  show ?thesis
  proof (cases m)
    case (Version a)
    with handled show ?thesis
      by (auto simp: Server_version_def comp_map_def comp_bind_def io_simps Let_def client_msize_def
          split: if_splits)
  next
  qed (use handled in \<open>auto simp: dispatch_post_def client_msize_def type_simps split: Rmessage.splits\<close>)
qed (auto simp: dispatch_post_def client_msize_def error_to_rmessage_def)

lemma handle_all_Cons:
  assumes "handle_all os (tx # txs) s = Some (rxs, s')"
  obtains rx sv1 w1 rxs' where "Server_handle os tx s = Some (Ok rx, (sv1, w1))"
    "handle_all os txs (sv1, w1) = Some (rxs', s')" "rxs = rx # rxs'"
  using assms by (auto split: option.splits sum.splits)

section \<open>Every request is answered\<close>

lemma total_comp_when [total_intros]: "total m \<Longrightarrow> total (comp_when c m)"
  by (simp add: comp_when_def total_return)

lemma total_comp_map [total_intros]: "total m \<Longrightarrow> total (comp_map f m)"
  unfolding comp_map_def by (intro total_intros)

lemma total_readdir_entry [total_intros]: "total (readdir_entry os d e)"
  unfolding readdir_entry_def by (intro total_intros)

lemma readdir_loop_returns:
  assumes "getdents_ok os" and "buffered rd es"
  shows "readdir_loop os d cap rd out s \<noteq> None"
  using assms
proof (induction os d cap rd out s arbitrary: es rule: readdir_loop.induct)
  case (1 os d cap rd out s)
  from ReadDir_next_returns [OF 1(2,3)] obtain nx rd' w' es' where
    nx: "ReadDir_next os rd (snd s) = Some (nx, rd', w')" and rd': "buffered rd' es'" by blast
  have en: "(readdir_entry os d de t = None) = False" for de t
    using total_readdir_entry unfolding total_def by blast
  show ?case
  proof (cases "\<exists>de entry s' out'. nx = Ok (Some de) \<and>
      readdir_entry os d de (fst s, w') = Some (Ok entry, s') \<and>
      \<not> cap - length out < unat (byte_size_Dirent entry) \<and> encode_Dirent entry out = (Ok (), out')")
    case True
    then obtain de entry s' out' where nx': "nx = Ok (Some de)"
      and st: "readdir_entry os d de (fst s, w') = Some (Ok entry, s')"
        "\<not> cap - length out < unat (byte_size_Dirent entry)" "encode_Dirent entry out = (Ok (), out')"
      by blast
    from 1(1) [OF nx [unfolded nx'] refl refl refl refl st(1) refl refl st(2) st(3) [symmetric] refl 1(2) rd']
    have "readdir_loop os d cap rd' out' s' \<noteq> None" .
    then show ?thesis
      by (subst readdir_loop.simps) (simp add: nx nx' st)
  next
    case False
    then show ?thesis
      using nx
      by (subst readdir_loop.simps)
        (auto simp: en simp del: not_None_eq split: option.splits sum.splits prod.splits)
  qed
qed

lemma total_Server [total_intros]:
  "total (Server_auth os auth)" "total (Server_flush flush)" "total (Server_read os read)"
  "total (Server_write os write)" "total (Server_remove os remove)"
  "total (Server_statfs os statfs)" "total (Server_symlink os symlink)"
  "total (Server_mknod os mknod)" "total (Server_rename os rename)"
  "total (Server_readlink os readlink)" "total (Server_get_attr os get_attr)"
  "total (Server_set_attr os set_attr)" "total (Server_xattr_walk os xattr_walk)"
  "total (Server_xattr_create os xattr_create)"
  "total (Server_fsync os fsync)" "total (Server_lock os lock)"
  "total (Server_get_lock os get_lock)" "total (Server_link os link)"
  "total (Server_mkdir os mkdir)" "total (Server_rename_at os rename_at)"
  "total (Server_unlink_at os unlink_at)"
  unfolding Server_defs by (intro total_intros)+

lemma total_Server_changes [total_intros]:
  "total (Server_attach os attach)" "total (Server_clunk os clunk)" "total (Server_lopen os lopen)"
  "total (Server_lcreate os lcreate)"
  unfolding Server_attach_def Server_clunk_def Server_lopen_def Server_lcreate_def
  by (intro total_intros)+

lemma total_Server_version [total_intros]: "total (Server_version os m)"
  by (auto simp: total_def Server_version_def Let_def)

lemma total_do_walk_from: "total (do_walk_from os pr False owned cur wnms)"
proof (induction wnms arbitrary: owned cur)
  case Nil
  show ?case unfolding do_walk_from.simps by (intro total_intros)
next
  case (Cons wname wnms)
  have "total (lookup_casefold os pr False d nm)" for d nm
    unfolding lookup_casefold_def by (simp only: simp_thms if_False) (intro total_intros)
  then have "total (walk_step os pr False cur wname)"
    unfolding walk_step_def by (intro total_intros)
  then show ?case unfolding do_walk_from.simps by (intro total_intros Cons.IH)
qed

lemma total_walk_store [total_intros]: "total (walk_store os m res mds)"
  unfolding walk_store_def by (intro total_intros)

lemma Server_walk_returns:
  assumes "\<not> ascii_casefold (cfg sv)"
  shows "Server_walk os m (sv, w) \<noteq> None"
proof -
  have "total (comp_bind (do_walk os (proc sv) (Twalk.wnames m) f False) (\<lambda>(res, mds).
      comp_bind (walk_store os m res mds) (\<lambda>_. comp_return (g mds))))" for f and g :: "stat64 list \<Rightarrow> Rwalk"
    unfolding do_walk_def by (intro total_intros total_do_walk_from)
  with assms show ?thesis
    by (simp add: Server_walk_def total_def io_simps split: option.splits)
qed

lemma Server_readdir_returns:
  assumes "getdents_ok os"
  shows "Server_readdir os m s \<noteq> None"
proof -
  have "comp_bind (std_fs (read_dir os d off)) (\<lambda>dirents.
      comp_bind (readdir_loop os p cap dirents []) f) s \<noteq> None"
    if "\<And>x. total (f x)" for d off p cap f and s :: "Server \<times> 'a"
  proof (cases s)
    case (Pair sv w)
    obtain x w' where x: "read_dir os d off w = (x, w')" by (cases "read_dir os d off w")
    show ?thesis
    proof (cases x)
      case (Inr rd)
      from read_dir_buffered [OF x [unfolded Inr]] readdir_loop_returns [OF assms]
      have "readdir_loop os p cap rd [] (sv, w') \<noteq> None" by blast
      with that x Inr Pair show ?thesis
        by (auto simp: comp_bind_def std_fs_def total_def split: sum.splits)
    qed (use x Pair in \<open>simp add: comp_bind_def std_fs_def\<close>)
  qed
  note body = this [of "\<lambda>out. comp_return \<lparr>Rreaddir.data = Data out\<rparr>", OF total_return]
  then show ?thesis
    by (cases s) (simp add: Server_readdir_def Let_def io_simps del: bind_std_fs split: option.splits)
qed

lemma comp_map_returns: "c s \<noteq> None \<Longrightarrow> comp_map f c s \<noteq> None"
  by (auto simp: comp_map_def comp_bind_def comp_return_def split: sum.splits)

lemma total_returns: "total c \<Longrightarrow> c s \<noteq> None"
  unfolding total_def by blast

lemma Server_dispatch_returns:
  assumes "getdents_ok os" and "\<not> ascii_casefold (cfg (fst s))"
  shows "Server_dispatch os m s \<noteq> None"
proof -
  have walk: "Server_walk os a s \<noteq> None" for a
    using Server_walk_returns [of "fst s" os a "snd s"] assms(2) by simp
  show ?thesis
    by (cases m; simp only: Server_dispatch.simps; rule comp_map_returns;
      (rule walk | rule Server_readdir_returns [OF assms(1)]
       | rule total_returns, rule total_Server total_Server_changes total_Server_version))
qed

lemma Server_handle_returns:
  assumes "getdents_ok os" and "\<not> ascii_casefold (cfg (fst s))"
  shows "\<exists>rx s'. Server_handle os tx s = Some (Ok rx, s')"
proof (cases "Tframe.msg tx")
  case (Inr m)
  from Server_dispatch_returns [OF assms, of m] obtain r s' where "Server_dispatch os m s = Some (r, s')"
    by auto
  with Inr show ?thesis by (simp add: Server_handle_def comp_bind_def comp_try_def io_simps)
qed (simp add: Server_handle_def comp_bind_def comp_try_def io_simps)

section \<open>Directory listings\<close>

text \<open>\<open>listing es\<close>: the bytes of a sequence of entries.\<close>

definition listing :: "Dirent list \<Rightarrow> bytes" where
  "listing es = concat (map (payload encode_Dirent) es)"

lemma readdir_entry_name:
  "readdir_entry os d de s = Some (Ok e, s') \<Longrightarrow> utf8_valid (Dirent.name e)"
  by (cases s) (auto simp: readdir_entry_def statat_def io_simps split: prod.splits sum.splits if_splits)

lemma encode_Dirent_wf:
  assumes "encode_Dirent e out = (Ok (), out')" and "utf8_valid (Dirent.name e)"
  shows "wf_Dirent e" and "out' = out @ payload encode_Dirent e"
proof -
  from assms show wf: "wf_Dirent e" by (simp add: encode_Dirent_Ok wf_Dirent_def wf_String_def)
  from Dirent.encode_appends [OF wf, of out] assms(1) show "out' = out @ payload encode_Dirent e" by simp
qed

lemma readdir_loop_listing:
  assumes "readdir_loop os d cap rd out s = Some (Ok bs, t)" and "length out \<le> cap"
  shows "\<exists>es. bs = out @ listing es \<and> list_all wf_Dirent es \<and> length bs \<le> cap"
  using assms
proof (induction os d cap rd out s rule: readdir_loop.induct)
  case (1 os d cap rd out s)
  have none: "\<exists>es. out = out @ listing es \<and> list_all wf_Dirent es"
    by (rule exI [of _ "[]"]) (simp add: listing_def)
  from 1(2) show ?case
  proof (cases rule: readdir_loop_elim)
    case (more de rd' w' entry s' out')
    note wf = encode_Dirent_wf [OF more(4) readdir_entry_name [OF more(2)]]
    have "length out' \<le> cap" using encode_Dirent_grows(1) [OF more(4)] more(3) 1(3) by linarith
    from 1(1) [OF more(1) refl refl refl refl more(2) refl refl _ more(4) [symmetric] _ more(5) this]
      more(3)
    obtain es where "bs = out' @ listing es" "list_all wf_Dirent es" "length bs \<le> cap" by auto
    with wf show ?thesis
      by (intro exI [of _ "entry # es"]) (simp add: listing_def)
  qed (use none 1(3) in auto)
qed


section \<open>The size of replies\<close>

lemma read_header_size: "read_header_size = 11"
  by (simp add: read_header_size_def byte_size_Rframe_def byte_size_Rread_def byte_size_Data_def wire_simps)

lemma readdir_header_size: "readdir_header_size = 11"
  by (simp add: readdir_header_size_def byte_size_Rframe_def byte_size_Rreaddir_def byte_size_Data_def wire_simps)

text \<open>\<open>FileExt::read_at\<close> fills at most the buffer it is given.\<close>

definition read_at_ok :: "'w os \<Rightarrow> bool" where
  "read_at_ok os \<longleftrightarrow> (\<forall>f n off w bs w'. read_at os f n off w = (Ok bs, w') \<longrightarrow> length bs \<le> n)"

text \<open>The size that a method may use for the data of its reply.\<close>

lemma data_room:
  fixes ms cnt :: u32
  assumes "MIN_MESSAGE_SIZE \<le> ms"
  shows "11 + unat (min (ms - 11) cnt) \<le> unat ms" and "unat (min (ms - 11) cnt) \<le> unat cnt"
proof -
  have "256 \<le> unat ms" using assms by (simp add: MIN_MESSAGE_SIZE_def word_le_nat_alt)
  moreover from this have "unat (ms - 11) = unat ms - 11"
    by (subst unat_sub) (simp_all add: word_le_nat_alt)
  ultimately show "11 + unat (min (ms - 11) cnt) \<le> unat ms"
    and "unat (min (ms - 11) cnt) \<le> unat cnt"
    by (auto simp: min_def word_le_nat_alt)
qed

lemma Server_read_data:
  assumes "Server_read os m (sv, w) = Some (Ok v, t)" and "read_at_ok os"
    and "MIN_MESSAGE_SIZE \<le> msize (cfg sv)"
  shows "11 + length (data_bytes (Rread.data v)) \<le> unat (msize (cfg sv))"
    and "length (data_bytes (Rread.data v)) \<le> unat (Tread.count m)"
proof -
  from assms(1,2) have "length (data_bytes (Rread.data v)) \<le>
      unat (min (msize (cfg sv) - 11) (Tread.count m))"
    by (fastforce simp: Server_read_def read_at_ok_def read_header_size io_simps Let_def
        split: option.splits prod.splits sum.splits)
  with data_room [OF assms(3), of "Tread.count m"]
  show "11 + length (data_bytes (Rread.data v)) \<le> unat (msize (cfg sv))"
    and "length (data_bytes (Rread.data v)) \<le> unat (Tread.count m)" by linarith+
qed

lemma Server_readdir_data:
  assumes "Server_readdir os m (sv, w) = Some (Ok v, t)"
    and "MIN_MESSAGE_SIZE \<le> msize (cfg sv)" and "\<And>n. with_capacity os n = n"
  shows "\<exists>es. data_bytes (Rreaddir.data v) = listing es \<and> list_all wf_Dirent es \<and>
    11 + length (listing es) \<le> unat (msize (cfg sv)) \<and> length (listing es) \<le> unat (Treaddir.count m)"
proof -
  let ?cap = "unat (min (msize (cfg sv) - 11) (Treaddir.count m))"
  from assms(1,3) obtain d rd w1 bs where
    loop: "readdir_loop os d ?cap rd [] (sv, w1) = Some (Ok bs, t)" and v: "v = \<lparr>Rreaddir.data = Data bs\<rparr>"
    by (auto simp: Server_readdir_def readdir_header_size io_simps Let_def comp_bind_eq_Some
        split: option.splits prod.splits sum.splits if_splits)
  from readdir_loop_listing [OF loop] obtain es where
    "bs = listing es" "list_all wf_Dirent es" "length bs \<le> ?cap" by auto
  with v data_room [OF assms(2), of "Treaddir.count m"] show ?thesis
    by (intro exI [of _ es]) simp
qed

lemma fixed_size_reply:
  assumes "Rmessage_type v \<notin> {RVERSION, RWALK, RREAD, RREADLINK, RREADDIR, RGETLOCK}"
  shows "wf_Rmessage v \<and> length (payload encode_Rmessage v) \<le> 153"
  using assms
  by (cases v) (simp_all add: message_types payload_def [of encode_Rmessage] Rmessage_encoders wire_simps
      io_simps Qid.encode_appends)

lemma read_reply:
  assumes "length (data_bytes (Rread.data v)) \<le> 33554432"
  shows "wf_Rmessage (Rmessage.Read v)"
    and "length (payload encode_Rmessage (Rmessage.Read v)) = 4 + length (data_bytes (Rread.data v))"
  using assms
  by (simp_all add: wf_Rread_def wf_Data_def payload_def [of encode_Rmessage] Rmessage_encoders
      wire_simps io_simps payload_Data)

lemma readdir_reply:
  assumes "length (data_bytes (Rreaddir.data v)) \<le> 33554432"
  shows "wf_Rmessage (Rmessage.Readdir v)"
    and "length (payload encode_Rmessage (Rmessage.Readdir v)) = 4 + length (data_bytes (Rreaddir.data v))"
  using assms
  by (simp_all add: wf_Rreaddir_def wf_Data_def payload_def [of encode_Rmessage] Rmessage_encoders
      wire_simps io_simps payload_Data)

definition reply_fits :: "u32 \<Rightarrow> Rmessage \<Rightarrow> bool" where
  "reply_fits ms v \<longleftrightarrow> wf_Rmessage v \<and> 7 + length (payload encode_Rmessage v) \<le> unat ms"

lemma fixed_size_fits:
  assumes "MIN_MESSAGE_SIZE \<le> ms"
    and "Rmessage_type v \<notin> {RVERSION, RWALK, RREAD, RREADLINK, RREADDIR, RGETLOCK}"
  shows "reply_fits ms v"
  using fixed_size_reply [OF assms(2)] assms(1)
  by (simp add: reply_fits_def MIN_MESSAGE_SIZE_def word_le_nat_alt)

lemma Lerror_fits: "MIN_MESSAGE_SIZE \<le> ms \<Longrightarrow> reply_fits ms (error_to_rmessage c e)"
  by (rule fixed_size_fits) (simp_all add: error_to_rmessage_def message_types)

lemma version_fits:
  assumes "MIN_MESSAGE_SIZE \<le> ms" and "Rversion.version v \<in> {str ''9P2000.L'', str ''unknown''}"
  shows "reply_fits ms (Rmessage.Version v)"
proof -
  have "wf_String (Rversion.version v)" and "length (Rversion.version v) \<le> 8"
    using assms(2) by (auto simp: wf_String_def str_def)
  then show ?thesis
    using assms(1)
    by (simp add: reply_fits_def wf_Rversion_def payload_def [of encode_Rmessage] Rmessage_encoders
        wire_simps io_simps payload_String MIN_MESSAGE_SIZE_def word_le_nat_alt)
qed


lemma dispatch_fits:
  assumes run: "Server_dispatch os m (sv, w) = Some (Ok v, (sv', w'))"
    and os: "read_at_ok os" "\<And>n. with_capacity os n = n"
    and ms: "MIN_MESSAGE_SIZE \<le> msize (cfg sv)" "msize (cfg sv) \<le> MAX_MESSAGE_SIZE"
    and kind: "Rmessage_type v \<notin> {RWALK, RREADLINK, RGETLOCK}"
  shows "reply_fits (msize (cfg sv')) v"
proof -
  have post: "dispatch_post m sv (Ok v) sv'" using wlpD [OF wlp_dispatch run] by simp
  have max: "unat (msize (cfg sv)) \<le> 65560"
    using ms(2) by (simp add: MAX_MESSAGE_SIZE_def word_le_nat_alt)
  show ?thesis
  proof (cases m)
    case (Version a)
    with run have "MIN_MESSAGE_SIZE \<le> msize (cfg sv')"
      and "\<exists>x. v = Rmessage.Version x \<and> Rversion.version x \<in> {str ''9P2000.L'', str ''unknown''}"
      using ms(1) by (auto simp: Server_version_def comp_map_def comp_bind_def io_simps Let_def split: if_splits)
    then show ?thesis using version_fits by blast
  next
    case (Read a)
    with run obtain x where x: "v = Rmessage.Read x" "Server_read os a (sv, w) = Some (Ok x, (sv', w'))"
      by (auto simp: comp_map_def comp_bind_eq_Some io_simps)
    moreover have "cfg sv' = cfg sv" using post Read by (simp add: dispatch_post_def)
    moreover note data = Server_read_data(1) [OF x(2) os(1) ms(1)]
    ultimately show ?thesis
      using max read_reply [of x] by (simp add: reply_fits_def)
  next
    case (Readdir a)
    with run obtain x where x: "v = Rmessage.Readdir x" "Server_readdir os a (sv, w) = Some (Ok x, (sv', w'))"
      by (auto simp: comp_map_def comp_bind_eq_Some io_simps)
    moreover have "cfg sv' = cfg sv" using post Readdir by (simp add: dispatch_post_def)
    moreover from Server_readdir_data [OF x(2) ms(1) os(2)]
    have "11 + length (data_bytes (Rreaddir.data x)) \<le> unat (msize (cfg sv))" by auto
    ultimately show ?thesis
      using max readdir_reply [of x] by (simp add: reply_fits_def)
  qed (use post ms kind in \<open>auto intro!: fixed_size_fits simp: dispatch_post_def type_simps\<close>)
qed

section \<open>A concrete server\<close>

definition sample_server :: Server where
  "sample_server =
     \<lparr>fids = [1 \<mapsto> \<lparr>path = 5, file' = Some 6, filetype = Directory\<rparr>], proc = 3, cfg = Config_default\<rparr>"

definition quiet_os :: "bytes list os" where
  "quiet_os = sample_os\<lparr>getdents64 := (\<lambda>f n w. (Inr [], w))\<rparr>"

lemma quiet_os_ok: "getdents_ok quiet_os" "read_at_ok quiet_os" "with_capacity quiet_os n = n"
  by (auto simp: getdents_ok_def read_at_ok_def quiet_os_def sample_os_def intro: exI [of _ "[]"])

definition clunk_frame :: Tframe where
  "clunk_frame = \<lparr>Tframe.tag = 9, msg = Ok (Tmessage.Clunk \<lparr>Tclunk.fid = 1\<rparr>)\<rparr>"

lemma sample_clunk:
  "Server_handle quiet_os clunk_frame (sample_server, []) =
     Some (Ok \<lparr>Rframe.tag = 9, msg = Rmessage.Clunk\<rparr>,
       (sample_server\<lparr>fids := (fids sample_server)(1 := None)\<rparr>, []))"
  by (simp add: Server_handle_def clunk_frame_def sample_server_def Server_clunk_def comp_map_def
      comp_bind_def comp_try_def server_def set_fids_def io_simps)

definition read_frame :: Tframe where
  "read_frame = \<lparr>Tframe.tag = 7, msg = Ok (Tmessage.Read \<lparr>Tread.fid = 1, offset = 0, count = 3\<rparr>)\<rparr>"

lemma sample_read:
  "Server_handle quiet_os read_frame (sample_server, []) =
     Some (Ok \<lparr>Rframe.tag = 7, msg = Rmessage.Read \<lparr>Rread.data = Data (str ''hel'')\<rparr>\<rparr>, (sample_server, []))"
  by (simp add: Server_handle_def read_frame_def sample_server_def Server_read_def comp_map_def
      comp_bind_def comp_try_def server_def std_fs_def get_file_def io_simps Config_default_def
      read_header_size MAX_MESSAGE_SIZE_def quiet_os_def sample_os_def str_def min_def)

section \<open>Properties\<close>

text \<open>
  C1. The server answers every request: as long as the kernel lays out directory entries as documented
  and case-insensitive lookup is off, handling any frame whatever, decoded or not, returns a reply;
  it neither panics nor fails nor runs forever.
\<close>

theorem handle_returns:
  assumes "getdents_ok os" and "\<not> ascii_casefold (cfg (fst s))"
  shows "\<exists>rx s'. Server_handle os tx s = Some (Ok rx, s')"
  by (rule Server_handle_returns [OF assms])

theorem handle_returns_witness:
  "\<exists>rx s'. Server_handle quiet_os clunk_frame (sample_server, []) = Some (Ok rx, s')"
  using handle_returns [of quiet_os "(sample_server, [])" clunk_frame]
  by (simp add: quiet_os_ok sample_server_def Config_default_def)

text \<open>
  C6. A reply carries the tag of its request and is the reply message that belongs to the request
  (its type code is one higher) or an error; a frame whose body did not decode is answered with
  \<open>EINVAL\<close> and changes nothing.
\<close>

theorem handle_reply:
  assumes "Server_handle os tx s = Some (r, s')"
  shows "\<exists>rx. r = Ok rx \<and> Rframe.tag rx = Tframe.tag tx \<and>
    (case Tframe.msg tx of
       Inr m \<Rightarrow> Rmessage_type (Rframe.msg rx) \<in> {Tmessage_type m + 1, RLERROR}
     | Inl e \<Rightarrow> Rframe.msg rx = Rmessage.Lerror \<lparr>Rlerror.ecode = libc os EINVAL\<rparr> \<and> s' = s)"
proof (cases s)
  case (Pair sv w)
  from assms [unfolded Pair] show ?thesis
    by (cases rule: Server_handle_cases)
      (auto simp: Pair error_to_rmessage_def error_to_rlerror_def errno_of_kind_def raw_os_error_def
        dispatch_post_def)
qed

theorem handle_reply_witness:
  "\<exists>rx. (Ok \<lparr>Rframe.tag = 9, msg = Rmessage.Clunk\<rparr> :: Rframe io_result) = Ok rx \<and> Rframe.tag rx = 9"
  using handle_reply [OF sample_clunk] by (simp add: clunk_frame_def)

text \<open>
  C2. Over any sequence of requests, the fids that the server holds are exactly those that the client
  computes from its requests and the replies: a version request drops them all, a successful attach
  and a complete walk add one, a successful clunk removes one, nothing else changes them.
\<close>

theorem handle_all_fids:
  assumes "handle_all os txs (sv, w) = Some (rxs, (sv', w'))"
  shows "length rxs = length txs \<and>
    dom (fids sv') = fold client_fids (zip txs rxs) (dom (fids sv))"
  using assms
proof (induction txs arbitrary: sv w rxs)
  case (Cons tx txs)
  from Cons.prems obtain rx sv1 w1 rxs' where
    step: "Server_handle os tx (sv, w) = Some (Ok rx, (sv1, w1))"
    "handle_all os txs (sv1, w1) = Some (rxs', (sv', w'))" "rxs = rx # rxs'"
    by (rule handle_all_Cons)
  with Cons.IH [OF step(2)] handle_fids [OF step(1)] show ?case by simp
qed simp

theorem handle_all_fids_witness:
  "length [\<lparr>Rframe.tag = 9, msg = Rmessage.Clunk\<rparr>] = length [clunk_frame] \<and>
   dom (fids (sample_server\<lparr>fids := (fids sample_server)(1 := None)\<rparr>)) =
     fold client_fids (zip [clunk_frame] [\<lparr>Rframe.tag = 9, msg = Rmessage.Clunk\<rparr>]) (dom (fids sample_server))"
  by (rule handle_all_fids [of quiet_os _ _ "[]" _ _ "[]"]) (simp add: sample_clunk)

text \<open>
  C11. Over any sequence of requests the message size is the one that the last successful version reply
  announced, it never grows, and it never falls below \<open>MIN_MESSAGE_SIZE\<close> once it is at least that.
\<close>

theorem handle_all_msize:
  assumes "handle_all os txs (sv, w) = Some (rxs, (sv', w'))"
  shows "msize (cfg sv') = fold client_msize (zip txs rxs) (msize (cfg sv)) \<and>
    msize (cfg sv') \<le> msize (cfg sv) \<and>
    (MIN_MESSAGE_SIZE \<le> msize (cfg sv) \<longrightarrow> MIN_MESSAGE_SIZE \<le> msize (cfg sv'))"
  using assms
proof (induction txs arbitrary: sv w rxs)
  case (Cons tx txs)
  from Cons.prems obtain rx sv1 w1 rxs' where
    step: "Server_handle os tx (sv, w) = Some (Ok rx, (sv1, w1))"
    "handle_all os txs (sv1, w1) = Some (rxs', (sv', w'))" "rxs = rx # rxs'"
    by (rule handle_all_Cons)
  with Cons.IH [OF step(2)] handle_msize [OF step(1)] show ?case by auto
qed simp

theorem handle_all_msize_witness:
  "MIN_MESSAGE_SIZE \<le> msize (cfg (sample_server\<lparr>fids := (fids sample_server)(1 := None)\<rparr>))"
proof -
  have "handle_all quiet_os [clunk_frame] (sample_server, []) =
      Some ([\<lparr>Rframe.tag = 9, msg = Rmessage.Clunk\<rparr>],
        (sample_server\<lparr>fids := (fids sample_server)(1 := None)\<rparr>, []))"
    by (simp add: sample_clunk)
  from handle_all_msize [OF this] show ?thesis
    by (simp add: sample_server_def Config_default_def MIN_MESSAGE_SIZE_def MAX_MESSAGE_SIZE_def)
qed

text \<open>
  C7. A request changes no fid but the one it names (\<open>touched\<close>), and one that is answered with an
  error leaves the whole server as it was, with the one exception of a create.
\<close>

theorem handle_isolation:
  assumes "Server_handle os tx (sv, w) = Some (Ok rx, (sv', w'))" and "Tframe.msg tx = Ok m"
  shows "(\<forall>n. n \<notin> touched m \<longrightarrow> fids sv' n = fids sv n) \<and> proc sv' = proc sv \<and>
    (Rmessage_type (Rframe.msg rx) = RLERROR \<and> Tmessage_type m \<noteq> TLCREATE \<longrightarrow> sv' = sv)"
  using assms(1)
proof (cases rule: Server_handle_cases)
  case (failed m' e)
  with assms(2) show ?thesis by (auto simp: dispatch_post_def)
next
  case (handled m' v)
  with assms(2) show ?thesis by (cases m) (auto simp: dispatch_post_def type_simps)
qed (use assms(2) in simp)

theorem handle_isolation_witness:
  "fids (sample_server\<lparr>fids := (fids sample_server)(1 := None)\<rparr>) 2 = fids sample_server 2"
proof -
  have "2 \<notin> touched (Tmessage.Clunk \<lparr>Tclunk.fid = 1\<rparr>)" by (simp add: touched_def)
  with handle_isolation [OF sample_clunk, of "Tmessage.Clunk \<lparr>Tclunk.fid = 1\<rparr>"]
  show ?thesis by (simp add: clunk_frame_def)
qed





end
