(* ===== verification/Service.thy ===== *)
theory Service
  imports Session
begin

text \<open>
  The tasks around the server: the loop that \<open>QuicServer::serve\<close> (\<open>server/quic_server.rs\<close>) runs for
  every stream, the loop of \<open>Proxy::run\<close> (\<open>server/proxy.rs\<close>) and the actor \<open>Ufs\<close> with its
  handlers (\<open>server/ufs.rs\<close>), which several streams call at the same time.

  A stream is the bytes that its peer sends until it closes it. Accepting connections, TLS and
  the spawning of tasks belong to \<open>s2n_quic\<close> and \<open>tokio\<close> and are not modelled; a stream's loop and
  the actor are, and their interleaving is the step relation \<open>ufs_step\<close>.
\<close>

section \<open>The loop of a stream\<close>

text \<open>How a loop ends: the stream was closed, a frame did not decode, or an \<open>unwrap\<close> panicked.\<close>

datatype stream_end = Closed | Undecodable io_error | Panicked

text \<open>
  \<open>call\<close> is \<open>JetStreamService::call\<close>; its \<open>None\<close> is a call that is never answered.
\<close>

partial_function (option) serve_stream ::
    "'req reader \<Rightarrow> ('resp \<Rightarrow> unit writer) \<Rightarrow> ('req \<Rightarrow> ('s, 'resp) comp) \<Rightarrow> bytes \<Rightarrow> bytes \<Rightarrow> 's
       \<Rightarrow> (stream_end \<times> bytes \<times> 's) option" where
  "serve_stream decode encode call reader out s =
     (case decode reader of
        (Inl e, reader') \<Rightarrow>
          Some (if e = Kind UnexpectedEof then Closed else Undecodable e, out, s)
      | (Inr tframe, reader') \<Rightarrow>
          (case call tframe s of
             None \<Rightarrow> None
           | Some (Inl e, s') \<Rightarrow> Some (Panicked, out, s')
           | Some (Inr rframe, s') \<Rightarrow>
               (case encode rframe out of
                  (Inl e, out') \<Rightarrow> Some (Panicked, out', s')
                | (Inr _, out') \<Rightarrow> serve_stream decode encode call reader' out' s')))"

declare serve_stream.simps [code]

section \<open>The proxy\<close>

text \<open>
  \<open>peer\<close> is the server behind the upstream connection: given what is written to it, it makes more
  bytes available for reading. \<open>up\<close> are the bytes of it that were not read yet.
\<close>

partial_function (option) proxy_loop ::
    "(bytes \<Rightarrow> 'p \<Rightarrow> bytes \<times> 'p) \<Rightarrow> bytes \<Rightarrow> bytes \<Rightarrow> bytes \<Rightarrow> 'p \<Rightarrow> (stream_end \<times> bytes \<times> 'p) option" where
  "proxy_loop peer down up out p =
     (case decode_Tframe down of
        (Inl e, down') \<Rightarrow> Some (if e = Kind UnexpectedEof then Closed else Undecodable e, out, p)
      | (Inr tframe, down') \<Rightarrow>
          (case encode_Tframe tframe [] of
             (Inl e, bs) \<Rightarrow> Some (Panicked, out, p)
           | (Inr _, bs) \<Rightarrow>
               (case peer bs p of
                  (avail, p') \<Rightarrow>
                    (case decode_Rframe (up @ avail) of
                       (Inl e, up') \<Rightarrow> Some (Panicked, out, p')
                     | (Inr rframe, up') \<Rightarrow>
                         (case encode_Rframe rframe out of
                            (Inl e, out') \<Rightarrow> Some (Panicked, out', p')
                          | (Inr _, out') \<Rightarrow> proxy_loop peer down' up' out' p')))))"

declare proxy_loop.simps [code]

section \<open>The actor\<close>

text \<open>
  \<open>Handler::call\<close> sends a \<open>Handle\<close> with a fresh one-shot channel into the unbounded channel of the
  actor and waits for the answer; \<open>Ufs::run\<close> takes the handles in the order in which they were
  sent. Callers are numbered; \<open>reply\<close> holds what is in the one-shot channel of a caller.
  \<open>served\<close> records what the actor did and is not part of the program.
\<close>

record Handle =
  caller :: nat
  tframe :: Tframe

record 'w ufs =
  processor :: "Handle list"
  server_state :: "Server \<times> 'w"
  awaiting :: "nat \<rightharpoonup> Tframe"
  reply :: "nat \<rightharpoonup> Rframe"
  served :: "(Handle \<times> Rframe) list"

definition Ufs_new :: "'w os \<Rightarrow> bytes \<Rightarrow> 'w \<Rightarrow> 'w ufs option" where
  "Ufs_new os pth w =
     (case Server_new os pth Map.empty Map.empty w of
        (Inl e, w') \<Rightarrow> None
      | (Inr sv, w') \<Rightarrow>
          Some \<lparr>processor = [], server_state = (sv, w'), awaiting = Map.empty, reply = Map.empty,
                served = []\<rparr>)"

definition Handler_call :: "nat \<Rightarrow> Tframe \<Rightarrow> 'w ufs \<Rightarrow> 'w ufs" where
  "Handler_call c req u =
     u\<lparr>processor := processor u @ [\<lparr>caller = c, tframe = req\<rparr>],
       awaiting := (awaiting u)(c \<mapsto> req)\<rparr>"

text \<open>One round of \<open>Ufs::run\<close>; \<open>None\<close> if the channel is empty or handling does not return.\<close>

definition Ufs_run_once :: "'w os \<Rightarrow> 'w ufs \<Rightarrow> 'w ufs option" where
  "Ufs_run_once os u =
     (case processor u of
        [] \<Rightarrow> None
      | h # hs \<Rightarrow>
          (case Server_handle os (tframe h) (server_state u) of
             Some (Inr rframe, s') \<Rightarrow>
               Some (u\<lparr>processor := hs, server_state := s',
                       reply := (reply u)(caller h \<mapsto> rframe), served := served u @ [(h, rframe)]\<rparr>)
           | _ \<Rightarrow> None))"

definition Handler_return :: "nat \<Rightarrow> 'w ufs \<Rightarrow> (Rframe \<times> 'w ufs) option" where
  "Handler_return c u =
     (case reply u c of
        None \<Rightarrow> None
      | Some rframe \<Rightarrow>
          Some (rframe, u\<lparr>reply := (reply u)(c := None), awaiting := (awaiting u)(c := None)\<rparr>))"

datatype ufs_event = Called nat Tframe | Handled | Returned nat Tframe Rframe

inductive ufs_step :: "'w os \<Rightarrow> 'w ufs \<Rightarrow> ufs_event \<Rightarrow> 'w ufs \<Rightarrow> bool" for os where
  step_call: "awaiting u c = None \<Longrightarrow> ufs_step os u (Called c req) (Handler_call c req u)"
| step_run: "Ufs_run_once os u = Some u' \<Longrightarrow> ufs_step os u Handled u'"
| step_return: "awaiting u c = Some req \<Longrightarrow> Handler_return c u = Some (rframe, u') \<Longrightarrow>
    ufs_step os u (Returned c req rframe) u'"

inductive ufs_steps :: "'w os \<Rightarrow> 'w ufs \<Rightarrow> ufs_event list \<Rightarrow> 'w ufs \<Rightarrow> bool" for os where
  steps_refl: "ufs_steps os u [] u"
| steps_step: "ufs_steps os u es u' \<Longrightarrow> ufs_step os u' e u'' \<Longrightarrow> ufs_steps os u (es @ [e]) u''"

inductive_cases ufs_stepE: "ufs_step os u e u'"

section \<open>Streams\<close>

lemma serve_stream_Err:
  "decode reader = (Err e, reader') \<Longrightarrow>
     serve_stream decode encode call reader out s =
       Some (if e = Kind UnexpectedEof then Closed else Undecodable e, out, s)"
  by (subst serve_stream.simps) simp

lemma serve_stream_Ok:
  "decode reader = (Ok tx, reader') \<Longrightarrow> call tx s = Some (Ok rx, s') \<Longrightarrow> encode rx out = (Ok (), out') \<Longrightarrow>
     serve_stream decode encode call reader out s = serve_stream decode encode call reader' out' s'"
  by (subst serve_stream.simps) simp

text \<open>
  The interface between a stream's loop and its messages: a message that decodes takes something
  from the stream.
\<close>

locale message_stream =
  fixes decode :: "'req reader"
  assumes progress: "decode r = (Ok x, r') \<Longrightarrow> length r' < length r"
begin

lemma serve_stream_returns:
  assumes call: "\<And>req s. I s \<Longrightarrow> \<exists>y s'. call req s = Some (y, s') \<and> I s'" and "I s"
  shows "\<exists>y. serve_stream decode encode call r out s = Some y"
  using \<open>I s\<close>
proof (induction "length r" arbitrary: r out s rule: less_induct)
  case less
  obtain x r' where x: "decode r = (x, r')" by (cases "decode r")
  show ?case
  proof (cases x)
    case (Inl e)
    with x show ?thesis by (simp add: serve_stream_Err)
  next
    case (Inr req)
    from call [OF less.prems] obtain y s' where y: "call req s = Some (y, s')" "I s'" by blast
    show ?thesis
      using less.hyps [OF progress [OF x [unfolded Inr]] y(2)] x Inr y(1)
      by (subst serve_stream.simps) (auto split: sum.split prod.split)
  qed
qed

end

interpretation Tframe_stream: message_stream decode_Tframe
proof
  fix r r' f assume "decode_Tframe r = (Ok f, r')"
  from decodesD [OF decodes_Tframe this] obtain p where "r = p @ r'" "7 \<le> length p \<and>
      (\<forall>m. Tframe.msg f = Ok m \<longrightarrow> wf_Tframe f \<and> length p = length (payload encode_Tframe f))" .
  then show "length r' < length r" by (simp, cases p) simp_all
qed

text \<open>The decoder at the end of a stream.\<close>

lemma decode_Tframe_Nil: "decode_Tframe [] = (Err (Kind UnexpectedEof), [])"
  by (simp add: decode_Tframe_def decode_u32_def decode_uint_def read_exact_def io_simps)

lemma serve_stream_frames:
  assumes "list_all wf_Tframe txs" and "handle_all os txs s = Some (rxs, s')" and "list_all wf_Rframe rxs"
  shows "serve_stream decode_Tframe encode_Rframe (Server_handle os)
      (concat (map (payload encode_Tframe) txs)) out s =
    Some (Closed, out @ concat (map (payload encode_Rframe) rxs), s')"
  using assms
proof (induction txs arbitrary: s rxs out)
  case Nil
  then show ?case by (simp add: serve_stream_Err [of decode_Tframe, OF decode_Tframe_Nil])
next
  case (Cons tx txs)
  from Cons.prems(2) obtain rx sv1 w1 rxs' where
    step: "Server_handle os tx s = Some (Ok rx, (sv1, w1))"
    "handle_all os txs (sv1, w1) = Some (rxs', s')" "rxs = rx # rxs'"
    by (rule handle_all_Cons)
  have rx: "encode_Rframe rx out = (Ok (), out @ payload encode_Rframe rx)"
    using Cons.prems(3) step(3) by (simp add: Rframe.encode_appends)
  have tx: "decode_Tframe (concat (map (payload encode_Tframe) (tx # txs))) =
      (Ok tx, concat (map (payload encode_Tframe) txs))"
    using Cons.prems(1) by (simp add: Tframe.decode_payload)
  note run = serve_stream_Ok [of decode_Tframe _ _ _ "Server_handle os" _ _ _ encode_Rframe, OF tx step(1) rx]
  show ?case
    unfolding run using Cons.IH [OF _ step(2)] Cons.prems(1,3) step(3) by simp
qed

lemma handle_casefold:
  assumes "Server_handle os tx s = Some (r, t)"
  shows "ascii_casefold (cfg (fst t)) = ascii_casefold (cfg (fst s))"
proof (cases s)
  case (Pair sv w)
  from assms [unfolded Pair] show ?thesis
    by (cases rule: Server_handle_cases) (auto simp: Pair dispatch_post_def split: Tmessage.splits)
qed

section \<open>The proxy\<close>

text \<open>A peer that runs the stream loop of the server on what is written to it.\<close>

definition server_peer :: "'w os \<Rightarrow> bytes \<Rightarrow> Server \<times> 'w \<Rightarrow> bytes \<times> (Server \<times> 'w)" where
  "server_peer os bs s =
     (case serve_stream decode_Tframe encode_Rframe (Server_handle os) bs [] s of
        None \<Rightarrow> ([], s)
      | Some (_, out, s') \<Rightarrow> (out, s'))"

lemma server_peer_frame:
  assumes "wf_Tframe tx" and "Server_handle os tx s = Some (Ok rx, s')" and "wf_Rframe rx"
  shows "server_peer os (payload encode_Tframe tx) s = (payload encode_Rframe rx, s')"
  using serve_stream_frames [of "[tx]" os s "[rx]" s' "[]"] assms by (simp add: server_peer_def)

lemma proxy_loop_frames:
  assumes "list_all wf_Tframe txs" and "handle_all os txs s = Some (rxs, s')" and "list_all wf_Rframe rxs"
  shows "proxy_loop (server_peer os) (concat (map (payload encode_Tframe) txs)) [] out s =
    Some (Closed, out @ concat (map (payload encode_Rframe) rxs), s')"
  using assms
proof (induction txs arbitrary: s rxs out)
  case Nil
  then show ?case by (subst proxy_loop.simps) (simp add: decode_Tframe_Nil)
next
  case (Cons tx txs)
  from Cons.prems(2) obtain rx sv1 w1 rxs' where
    step: "Server_handle os tx s = Some (Ok rx, (sv1, w1))"
    "handle_all os txs (sv1, w1) = Some (rxs', s')" "rxs = rx # rxs'"
    by (rule handle_all_Cons)
  from Cons.prems(1,3) step(3) have wf: "wf_Tframe tx" "wf_Rframe rx" by simp_all
  have "proxy_loop (server_peer os) (concat (map (payload encode_Tframe) (tx # txs))) [] out s =
      proxy_loop (server_peer os) (concat (map (payload encode_Tframe) txs)) []
        (out @ payload encode_Rframe rx) (sv1, w1)"
    using Rframe.decode_payload [OF wf(2), of "[]"]
    by (subst proxy_loop.simps)
      (simp add: Tframe.decode_payload Tframe.encode_appends Rframe.encode_appends wf
        server_peer_frame [OF wf(1) step(1) wf(2)])
  also have "\<dots> = Some (Closed, out @ concat (map (payload encode_Rframe) rxs), s')"
    using Cons.IH [OF _ step(2)] Cons.prems(1,3) step(3) by simp
  finally show ?case .
qed

section \<open>The actor\<close>

definition calls :: "ufs_event list \<Rightarrow> Handle list" where
  "calls es = List.map_filter (\<lambda>e. case e of Called c req \<Rightarrow> Some \<lparr>caller = c, tframe = req\<rparr> | _ \<Rightarrow> None) es"

definition returns_to :: "nat \<Rightarrow> ufs_event list \<Rightarrow> (Handle \<times> Rframe) list" where
  "returns_to c es = List.map_filter (\<lambda>e. case e of
     Returned c' req rx \<Rightarrow> if c' = c then Some (\<lparr>caller = c, tframe = req\<rparr>, rx) else None | _ \<Rightarrow> None) es"

text \<open>What a caller waits for: its request in the queue or the reply in its channel.\<close>

definition caller_inv :: "nat \<Rightarrow> ufs_event list \<Rightarrow> 'w ufs \<Rightarrow> bool" where
  "caller_inv c es u \<longleftrightarrow>
     filter (\<lambda>h. caller h = c) (processor u) =
       (case (awaiting u c, reply u c) of (Some req, None) \<Rightarrow> [\<lparr>caller = c, tframe = req\<rparr>] | _ \<Rightarrow> []) \<and>
     filter (\<lambda>(h, rx). caller h = c) (served u) =
       returns_to c es @
         (case (awaiting u c, reply u c) of (Some req, Some rx) \<Rightarrow> [(\<lparr>caller = c, tframe = req\<rparr>, rx)] | _ \<Rightarrow> []) \<and>
     (awaiting u c = None \<longrightarrow> reply u c = None)"

definition ufs_inv :: "'w os \<Rightarrow> 'w ufs \<Rightarrow> ufs_event list \<Rightarrow> 'w ufs \<Rightarrow> bool" where
  "ufs_inv os u0 es u \<longleftrightarrow>
     map fst (served u) @ processor u = calls es \<and>
     handle_all os (map (tframe \<circ> fst) (served u)) (server_state u0) =
       Some (map snd (served u), server_state u) \<and>
     (\<forall>c. caller_inv c es u)"

definition idle :: "'w ufs \<Rightarrow> bool" where
  "idle u \<longleftrightarrow> processor u = [] \<and> awaiting u = Map.empty \<and> reply u = Map.empty \<and> served u = []"

lemma handle_all_snoc:
  "handle_all os (txs @ [tx]) s =
     (case handle_all os txs s of
        None \<Rightarrow> None
      | Some (rxs, s') \<Rightarrow>
          (case Server_handle os tx s' of
             Some (Inr rx, s'') \<Rightarrow> Some (rxs @ [rx], s'') | _ \<Rightarrow> None))"
  by (induction txs arbitrary: s) (auto split: option.splits sum.splits)

lemma map_filter_snoc:
  "List.map_filter f (xs @ [x]) = List.map_filter f xs @ (case f x of None \<Rightarrow> [] | Some y \<Rightarrow> [y])"
  by (simp add: List.map_filter_def split: option.splits)

lemma ufs_inv_call:
  assumes "ufs_inv os u0 es u" and "awaiting u c = None"
  shows "ufs_inv os u0 (es @ [Called c req]) (Handler_call c req u)"
  using assms
  by (auto simp: ufs_inv_def caller_inv_def Handler_call_def calls_def returns_to_def map_filter_snoc
      split: option.splits)

lemma ufs_inv_run:
  assumes "ufs_inv os u0 es u" and "Ufs_run_once os u = Some u'"
  shows "ufs_inv os u0 (es @ [Handled]) u'"
proof -
  from assms(2) obtain h hs rx s' where
    h: "processor u = h # hs" "Server_handle os (tframe h) (server_state u) = Some (Ok rx, s')"
    and u': "u' = u\<lparr>processor := hs, server_state := s', reply := (reply u)(caller h \<mapsto> rx),
        served := served u @ [(h, rx)]\<rparr>"
    by (auto simp: Ufs_run_once_def split: list.splits option.splits sum.splits)
  have "caller_inv c (es @ [Handled]) u'" for c
  proof -
    have c: "caller_inv c es u" using assms(1) by (simp add: ufs_inv_def)
    show ?thesis
    proof (cases "caller h = c")
      case True
      with c h(1) have "awaiting u c = Some (tframe h)" "reply u c = None"
        "filter (\<lambda>h. caller h = c) hs = []" "h = \<lparr>caller = c, tframe = tframe h\<rparr>"
        by (auto simp: caller_inv_def split: option.splits)
      with True c show ?thesis
        by (simp add: u' caller_inv_def returns_to_def map_filter_snoc)
    next
      case False
      with c h(1) show ?thesis by (simp add: u' caller_inv_def returns_to_def map_filter_snoc)
    qed
  qed
  with assms(1) h u' show ?thesis
    by (simp add: ufs_inv_def calls_def map_filter_snoc handle_all_snoc)
qed

lemma ufs_inv_return:
  assumes "ufs_inv os u0 es u" and "awaiting u c = Some req" and "Handler_return c u = Some (rx, u')"
  shows "ufs_inv os u0 (es @ [Returned c req rx]) u'"
proof -
  from assms(3) have rx: "reply u c = Some rx"
    and u': "u' = u\<lparr>reply := (reply u)(c := None), awaiting := (awaiting u)(c := None)\<rparr>"
    by (auto simp: Handler_return_def split: option.splits)
  have "caller_inv d (es @ [Returned c req rx]) u'" for d
    using assms(1,2) rx
    by (cases "d = c") (auto simp: ufs_inv_def u' caller_inv_def returns_to_def map_filter_snoc)
  with assms(1) show ?thesis by (simp add: ufs_inv_def u' calls_def map_filter_snoc)
qed

lemma ufs_steps_inv:
  assumes "ufs_steps os u0 es u" and "idle u0"
  shows "ufs_inv os u0 es u"
  using assms
proof (induction rule: ufs_steps.induct)
  case (steps_refl u)
  then show ?case
    by (simp add: idle_def ufs_inv_def caller_inv_def calls_def returns_to_def List.map_filter_def)
next
  case (steps_step u es u' e u'')
  from steps_step.hyps(2) show ?case
    by (cases rule: ufs_stepE)
      (use steps_step in \<open>auto intro: ufs_inv_call ufs_inv_run ufs_inv_return\<close>)
qed

section \<open>Properties\<close>

text \<open>
  C37. The loop of a stream comes to an end on every input, however malformed: whatever bytes a client
  sends before it closes the stream, the loop reads them in finitely many rounds (with the
  directory contract of the kernel and without case-insensitive lookup).
\<close>

theorem stream_terminates:
  assumes "getdents_ok os" and "\<not> ascii_casefold (cfg sv)"
  shows "\<exists>y. serve_stream decode_Tframe encode_Rframe (Server_handle os) r out (sv, w) = Some y"
proof (rule Tframe_stream.serve_stream_returns [where I = "\<lambda>s. \<not> ascii_casefold (cfg (fst s))"])
  fix req and s :: "Server \<times> 'a" assume I: "\<not> ascii_casefold (cfg (fst s))"
  from Server_handle_returns [OF assms(1) I] obtain y s' where y: "Server_handle os req s = Some (Ok y, s')"
    by blast
  with handle_casefold [OF y] I
  show "\<exists>y s'. Server_handle os req s = Some (y, s') \<and> \<not> ascii_casefold (cfg (fst s'))" by blast
qed (simp add: assms(2))

theorem stream_terminates_witness:
  "\<exists>y. serve_stream decode_Tframe encode_Rframe (Server_handle quiet_os) [1, 2, 3] [] (sample_server, []) = Some y"
  by (rule stream_terminates) (simp_all add: quiet_os_ok sample_server_def Config_default_def)

text \<open>
  C30. Serving a stream of frames is handling them in order: the bytes written are the encodings of the
  replies that the server gives to the frames one after the other, and the loop ends when the
  client closes the stream.
\<close>

theorem stream_serves_in_order:
  assumes "list_all wf_Tframe txs" and "handle_all os txs s = Some (rxs, s')" and "list_all wf_Rframe rxs"
  shows "\<exists>r out. encode_each encode_Tframe txs [] = (Ok (), r) \<and> encode_each encode_Rframe rxs [] = (Ok (), out) \<and>
    serve_stream decode_Tframe encode_Rframe (Server_handle os) r [] s = Some (Closed, out, s')"
  using Tframe.encode_each_appends [OF assms(1), of "[]"] Rframe.encode_each_appends [OF assms(3), of "[]"]
    serve_stream_frames [OF assms, of "[]"]
  by simp

lemma wf_clunk_frame: "wf_Tframe clunk_frame"
  by (simp add: wf_Tframe_def clunk_frame_def payload_def [of encode_Tmessage] encode_Tclunk_def
      wire_simps io_simps)

lemma sample_clunk_run:
  "handle_all quiet_os [clunk_frame] (sample_server, []) =
     Some ([\<lparr>Rframe.tag = 9, msg = Rmessage.Clunk\<rparr>],
       (sample_server\<lparr>fids := (fids sample_server)(1 := None)\<rparr>, []))"
  by (simp add: sample_clunk)

theorem stream_serves_in_order_witness:
  "\<exists>r out. encode_each encode_Tframe [clunk_frame] [] = (Ok (), r) \<and>
     encode_each encode_Rframe [\<lparr>Rframe.tag = 9, msg = Rmessage.Clunk\<rparr>] [] = (Ok (), out) \<and>
     serve_stream decode_Tframe encode_Rframe (Server_handle quiet_os) r [] (sample_server, []) =
       Some (Closed, out, (sample_server\<lparr>fids := (fids sample_server)(1 := None)\<rparr>, []))"
  by (rule stream_serves_in_order [OF _ sample_clunk_run]) (simp_all add: wf_clunk_frame wf_Rframe_def)

text \<open>
  C39. A client cannot tell the proxy from the server: for frames whose bodies decode, the proxy in
  front of the server writes the same bytes, ends in the same way and leaves the server in the same
  state as serving the client directly.
\<close>

theorem proxy_transparent:
  assumes "list_all wf_Tframe txs" and "handle_all os txs s = Some (rxs, s')" and "list_all wf_Rframe rxs"
  shows "\<exists>r. encode_each encode_Tframe txs [] = (Ok (), r) \<and>
    proxy_loop (server_peer os) r [] out s = serve_stream decode_Tframe encode_Rframe (Server_handle os) r out s"
  using Tframe.encode_each_appends [OF assms(1), of "[]"] proxy_loop_frames [OF assms] serve_stream_frames [OF assms]
  by simp

theorem proxy_transparent_witness:
  "\<exists>r. encode_each encode_Tframe [clunk_frame] [] = (Ok (), r) \<and>
    proxy_loop (server_peer quiet_os) r [] [] (sample_server, []) =
      serve_stream decode_Tframe encode_Rframe (Server_handle quiet_os) r [] (sample_server, [])"
  by (rule proxy_transparent [OF _ sample_clunk_run]) (simp_all add: wf_clunk_frame wf_Rframe_def)

text \<open>
  A frame whose body does not decode is where they differ: the server answers it with an error and
  goes on, the proxy's task panics without answering.
\<close>

theorem proxy_panics:
  assumes "decode_Tframe r = (Ok f, r')" and "Tframe.msg f = Err e"
  shows "proxy_loop peer r up out p = Some (Panicked, out, p) \<and>
    Server_handle os f s = Some (Ok \<lparr>Rframe.tag = Tframe.tag f, msg = Rmessage.Lerror \<lparr>Rlerror.ecode = libc os EINVAL\<rparr>\<rparr>, s)"
proof
  show "proxy_loop peer r up out p = Some (Panicked, out, p)"
    using assms by (subst proxy_loop.simps) (simp add: encode_Tframe_def io_simps)
  show "Server_handle os f s =
      Some (Ok \<lparr>Rframe.tag = Tframe.tag f, msg = Rmessage.Lerror \<lparr>Rlerror.ecode = libc os EINVAL\<rparr>\<rparr>, s)"
    using assms(2)
    by (simp add: Server_handle_def comp_bind_def comp_try_def io_simps error_to_rmessage_def
        error_to_rlerror_def errno_of_kind_def raw_os_error_def)
qed

theorem proxy_panics_witness:
  "proxy_loop (server_peer quiet_os) [7, 0, 0, 0, 0, 5, 0] [] [] (sample_server, []) =
     Some (Panicked, [], (sample_server, []))"
proof -
  have "decode_Tframe [7, 0, 0, 0, 0, 5, 0] = (Ok \<lparr>Tframe.tag = 5, msg = Err (Kind InvalidData)\<rparr>, [])"
    by code_simp
  from proxy_panics [OF this, where os = quiet_os and peer = "server_peer quiet_os"] show ?thesis by simp
qed


definition sample_ufs :: "bytes list ufs" where
  "sample_ufs = \<lparr>processor = [], server_state = (sample_server, []), awaiting = Map.empty,
     reply = Map.empty, served = []\<rparr>"

definition sample_ufs' :: "bytes list ufs" where
  "sample_ufs' = the (Ufs_run_once quiet_os (Handler_call 4 clunk_frame sample_ufs))"

lemma sample_ufs_steps: "ufs_steps quiet_os sample_ufs ([] @ [Called 4 clunk_frame] @ [Handled]) sample_ufs'"
proof -
  have "Ufs_run_once quiet_os (Handler_call 4 clunk_frame sample_ufs) = Some sample_ufs'"
    by (simp add: sample_ufs'_def Ufs_run_once_def Handler_call_def sample_ufs_def sample_clunk)
  then have "ufs_step quiet_os (Handler_call 4 clunk_frame sample_ufs) Handled sample_ufs'"
    by (rule step_run)
  moreover have "ufs_step quiet_os sample_ufs (Called 4 clunk_frame) (Handler_call 4 clunk_frame sample_ufs)"
    by (rule step_call) (simp add: sample_ufs_def)
  ultimately show ?thesis
    using steps_step [OF steps_step [OF steps_refl]] by fastforce
qed


text \<open>
  Every caller gets the replies to its own requests: the requests of a caller that the actor has
  served are, in order, those whose replies were returned to it, and at most one more whose reply
  still waits in its channel; and while it waits for no reply none is under way.
\<close>

theorem actor_replies_to_caller:
  assumes "ufs_steps os u0 es u" and "idle u0"
  shows "filter (\<lambda>(h, rx). caller h = c) (served u) =
      returns_to c es @
        (case (awaiting u c, reply u c) of (Some req, Some rx) \<Rightarrow> [(\<lparr>caller = c, tframe = req\<rparr>, rx)] | _ \<Rightarrow> []) \<and>
    filter (\<lambda>h. caller h = c) (processor u) =
      (case (awaiting u c, reply u c) of (Some req, None) \<Rightarrow> [\<lparr>caller = c, tframe = req\<rparr>] | _ \<Rightarrow> [])"
  using ufs_steps_inv [OF assms] by (simp add: ufs_inv_def caller_inv_def)

theorem actor_replies_to_caller_witness:
  "filter (\<lambda>h. caller h = 4) (processor sample_ufs') =
     (case (awaiting sample_ufs' 4, reply sample_ufs' 4) of (Some req, None) \<Rightarrow> [\<lparr>caller = 4, tframe = req\<rparr>] | _ \<Rightarrow> [])"
  using actor_replies_to_caller [OF sample_ufs_steps, of 4] by (simp add: idle_def sample_ufs_def)

end
