(* ===== verification/ConfigParse.thy ===== *)
theory ConfigParse
  imports Ufs
begin

text \<open>
  \<open>Config::from_str\<close> of \<open>ufs/mod.rs\<close>, which reads options of the form \<open>kind=value\<close> separated by
  colons, with the string functions of the standard library that it uses, and the protocol
  versions of \<open>versions.rs\<close>.
\<close>

section \<open>Splitting strings\<close>

text \<open>\<open>str::split(c)\<close>: never empty, one part more than there are separators.\<close>

fun split_char :: "u8 \<Rightarrow> bytes \<Rightarrow> bytes list" where
  "split_char c [] = [[]]"
| "split_char c (x # xs) =
     (if x = c then [] # split_char c xs
      else (case split_char c xs of p # ps \<Rightarrow> (x # p) # ps | [] \<Rightarrow> [[x]]))"

text \<open>\<open>str::splitn(2, c)\<close>: the part before the first separator and, if there is one, the rest.\<close>

definition splitn2 :: "u8 \<Rightarrow> bytes \<Rightarrow> bytes \<times> bytes option" where
  "splitn2 c xs =
     (let kind = takeWhile (\<lambda>x. x \<noteq> c) xs; rest = dropWhile (\<lambda>x. x \<noteq> c) xs in
      (kind, case rest of [] \<Rightarrow> None | _ # value' \<Rightarrow> Some value'))"

definition parse_bool :: "bytes \<Rightarrow> bool option" where
  "parse_bool s = (if s = str ''true'' then Some True else if s = str ''false'' then Some False else None)"

section \<open>Options\<close>

datatype config_error = NotKindValue | NotBoolean | UnrecognizedOption

definition config_option :: "Config \<Rightarrow> bytes \<Rightarrow> config_error + Config" where
  "config_option c opt =
     (case splitn2 61 opt of
        (kind, None) \<Rightarrow> Err NotKindValue
      | (kind, Some value') \<Rightarrow>
          if kind = str ''ascii_casefold''
          then (case parse_bool value' of
                  None \<Rightarrow> Err NotBoolean
                | Some b \<Rightarrow> Ok (c\<lparr>ascii_casefold := b\<rparr>))
          else Err UnrecognizedOption)"

fun config_options :: "Config \<Rightarrow> bytes list \<Rightarrow> config_error + Config" where
  "config_options c [] = Ok c"
| "config_options c (opt # opts) =
     (case config_option c opt of Inl e \<Rightarrow> Err e | Inr c' \<Rightarrow> config_options c' opts)"

definition Config_from_str :: "bytes \<Rightarrow> config_error + Config" where
  "Config_from_str params =
     (if params = [] then Ok Config_default
      else config_options Config_default (split_char 58 params))"

section \<open>Protocol versions\<close>

datatype Version = V9P2000 | V9P2000U | V9P2000L | V9P2000Lu | V9P2024q9p

definition Version_from_str :: "bytes \<Rightarrow> Version option" where
  "Version_from_str s =
     (if s = str ''9P2000'' then Some V9P2000
      else if s = str ''9P2000.u'' then Some V9P2000U
      else if s = str ''9P2000.L'' then Some V9P2000L
      else if s = str ''9P2000.Lu'' then Some V9P2000Lu
      else if s = str ''9P2024.q9p'' then Some V9P2024q9p
      else None)"

text \<open>\<open>From<&str>\<close> and \<open>From<String>\<close>, which panic on an unknown version.\<close>

definition Version_from :: "bytes \<Rightarrow> Version option" where
  "Version_from s =
     (if s = str ''9P2000'' then Some V9P2000
      else if s = str ''9P2000.u'' then Some V9P2000U
      else if s = str ''9P2000.L'' then Some V9P2000L
      else if s = str ''9P2000.Lu'' then Some V9P2000Lu
      else if s = str ''9P2024.q9p'' then Some V9P2024q9p
      else None)"

primrec Version_into :: "Version \<Rightarrow> bytes" where
  "Version_into V9P2000 = str ''9P2000''"
| "Version_into V9P2000U = str ''9P2000.u''"
| "Version_into V9P2000L = str ''9P2000.L''"
| "Version_into V9P2000Lu = str ''9P2000.Lu''"
| "Version_into V9P2024q9p = str ''9P2024.q9p''"

section \<open>Lemmas\<close>

fun join :: "u8 \<Rightarrow> bytes list \<Rightarrow> bytes" where
  "join c [] = []"
| "join c [p] = p"
| "join c (p # ps) = p @ c # join c ps"

lemma split_char_not_Nil [simp]: "split_char c xs \<noteq> []"
  by (cases xs) (auto split: list.splits)

lemma split_char_append:
  "c \<notin> set p \<Longrightarrow> split_char c (p @ c # xs) = p # split_char c xs"
  by (induction p) auto

lemma split_char_part: "c \<notin> set p \<Longrightarrow> split_char c p = [p]"
  by (induction p) auto

lemma split_char_join:
  assumes "ps \<noteq> []" and "\<And>p. p \<in> set ps \<Longrightarrow> c \<notin> set p"
  shows "split_char c (join c ps) = ps"
  using assms by (induction c ps rule: join.induct) (simp_all add: split_char_part split_char_append)

lemma join_Cons: "ps \<noteq> [] \<Longrightarrow> join c (p # ps) = p @ c # join c ps"
  by (cases ps) simp_all

lemma join_Cons_Cons: "join c ((x # p) # ps) = x # join c (p # ps)"
  by (cases ps) simp_all

lemma join_split_char: "join c (split_char c xs) = xs"
proof (induction xs)
  case (Cons x xs)
  obtain p ps where ps: "split_char c xs = p # ps" by (cases "split_char c xs") simp_all
  with Cons show ?case by (simp add: join_Cons join_Cons_Cons)
qed simp

definition casefold_option :: "bool \<Rightarrow> bytes" where
  "casefold_option b = str ''ascii_casefold='' @ (if b then str ''true'' else str ''false'')"

lemma config_option_casefold: "config_option c (casefold_option b) = Ok (c\<lparr>ascii_casefold := b\<rparr>)"
  by (simp add: config_option_def casefold_option_def splitn2_def parse_bool_def str_def)

lemma config_options_casefold:
  "config_options c (map casefold_option bs) = Ok (c\<lparr>ascii_casefold := last (ascii_casefold c # bs)\<rparr>)"
  by (induction bs arbitrary: c) (simp_all add: config_option_casefold)

lemma default_casefold [simp]: "ascii_casefold Config_default = False"
  by (simp add: Config_default_def)

lemma config_option_Ok:
  assumes "config_option c opt = Ok c'"
  obtains b where "opt = casefold_option b" and "c' = c\<lparr>ascii_casefold := b\<rparr>"
proof -
  from assms obtain v b where v: "splitn2 61 opt = (str ''ascii_casefold'', Some v)"
    "parse_bool v = Some b" "c' = c\<lparr>ascii_casefold := b\<rparr>"
    by (auto simp: config_option_def split: prod.splits option.splits if_splits)
  then obtain x where "takeWhile (\<lambda>x. x \<noteq> 61) opt = str ''ascii_casefold''" "dropWhile (\<lambda>x. x \<noteq> 61) opt = x # v"
    by (auto simp: splitn2_def Let_def split: list.splits)
  moreover from this have "x = 61" using hd_dropWhile [of "\<lambda>x. x \<noteq> 61" opt] by simp
  ultimately have "opt = str ''ascii_casefold'' @ 61 # v" by (metis takeWhile_dropWhile_id)
  with v(2) have "opt = casefold_option b"
    by (auto simp: casefold_option_def parse_bool_def str_def split: if_splits)
  from that [OF this v(3)] show thesis .
qed

lemma config_options_Ok:
  "config_options c opts = Ok c' \<Longrightarrow> \<exists>bs. opts = map casefold_option bs"
proof (induction opts arbitrary: c)
  case (Cons opt opts)
  from Cons.prems obtain c1 where c1: "config_option c opt = Ok c1" "config_options c1 opts = Ok c'"
    by (auto split: sum.splits)
  from config_option_Ok [OF c1(1)] obtain b where "opt = casefold_option b" .
  with Cons.IH [OF c1(2)] show ?case by (metis list.simps(9))
qed simp

section \<open>Properties\<close>

text \<open>
  The configuration strings that are accepted are the empty one, which is the default
  configuration, and the colon-separated sequences of \<open>ascii_casefold=true\<close> and
  \<open>ascii_casefold=false\<close>, of which the last one counts; every other string is an error.
\<close>

theorem Config_from_str_accepts:
  "Config_from_str params = Ok c \<longleftrightarrow>
     (\<exists>bs. params = join 58 (map casefold_option bs) \<and>
        c = Config_default\<lparr>ascii_casefold := last (False # bs)\<rparr>)"
proof
  assume ok: "Config_from_str params = Ok c"
  show "\<exists>bs. params = join 58 (map casefold_option bs) \<and>
      c = Config_default\<lparr>ascii_casefold := last (False # bs)\<rparr>"
  proof (cases "params = []")
    case True
    with ok show ?thesis by (intro exI [of _ "[]"]) (auto simp: Config_from_str_def Config_default_def)
  next
    case False
    with ok obtain bs where bs: "split_char 58 params = map casefold_option bs"
      by (auto simp: Config_from_str_def dest: config_options_Ok)
    then have "params = join 58 (map casefold_option bs)" using join_split_char [of 58 params] by simp
    with ok False bs show ?thesis
      by (intro exI [of _ bs])
        (simp add: Config_from_str_def config_options_casefold)
  qed
next
  assume "\<exists>bs. params = join 58 (map casefold_option bs) \<and>
      c = Config_default\<lparr>ascii_casefold := last (False # bs)\<rparr>"
  then obtain bs where bs: "params = join 58 (map casefold_option bs)"
    "c = Config_default\<lparr>ascii_casefold := last (False # bs)\<rparr>" by blast
  show "Config_from_str params = Ok c"
  proof (cases bs)
    case Nil
    with bs show ?thesis by (simp add: Config_from_str_def Config_default_def)
  next
    case (Cons b bs')
    have "58 \<notin> set (casefold_option b)" for b by (simp add: casefold_option_def str_def)
    then have "split_char 58 params = map casefold_option bs"
      unfolding bs(1) using Cons by (intro split_char_join) auto
    moreover have "params \<noteq> []"
      using bs(1) Cons by (cases bs') (simp_all add: casefold_option_def str_def)
    ultimately show ?thesis
      using bs(2) by (simp add: Config_from_str_def config_options_casefold)
  qed
qed

text \<open>
  Every protocol version is printed to the string that it is parsed from, and no other string
  is accepted.
\<close>

theorem Version_roundtrip: "Version_from_str s = Some v \<longleftrightarrow> s = Version_into v"
  by (cases v) (auto simp: Version_from_str_def str_def)

end
