(* ===== verification/AddressRange.thy ===== *)
theory AddressRange
  imports Prelude "HOL-Library.Monad_Syntax"
begin

text \<open>
  \<open>AddressRange\<close> of \<open>libcrosvm/resources/src/address_range.rs\<close>, inclusive ranges of 64-bit
  addresses, and the part of \<open>BTreeSet\<close> that the allocator uses on them.

  The workspace of \<open>libcrosvm\<close> builds every profile with overflow checks, so an addition or
  subtraction that leaves the type panics. Code that can panic returns an option whose \<open>None\<close> is
  the panic, and \<open>checked_add\<close> is both the library's method and the checked operator.
\<close>

section \<open>Ranges\<close>

record AddressRange =
  start :: u64
  end' :: u64

definition from_start_and_end :: "u64 \<Rightarrow> u64 \<Rightarrow> AddressRange" where
  "from_start_and_end s e = \<lparr>start = s, end' = e\<rparr>"

definition AddressRange_empty :: AddressRange where
  "AddressRange_empty = \<lparr>start = 1, end' = 0\<rparr>"

definition from_start_and_size :: "u64 \<Rightarrow> u64 \<Rightarrow> AddressRange option" where
  "from_start_and_size s size' =
     (if size' = 0 then Some AddressRange_empty
      else (case checked_add s (size' - 1) of
              Some e \<Rightarrow> Some \<lparr>start = s, end' = e\<rparr>
            | None \<Rightarrow> None))"

definition is_empty :: "AddressRange \<Rightarrow> bool" where
  "is_empty r \<longleftrightarrow> end' r < start r"

definition contains :: "AddressRange \<Rightarrow> u64 \<Rightarrow> bool" where
  "contains r address \<longleftrightarrow> start r \<le> address \<and> address \<le> end' r"

definition contains_range :: "AddressRange \<Rightarrow> AddressRange \<Rightarrow> bool" where
  "contains_range r other \<longleftrightarrow> \<not> is_empty other \<and> start r \<le> start other \<and> end' other \<le> end' r"

definition intersect :: "AddressRange \<Rightarrow> AddressRange \<Rightarrow> AddressRange" where
  "intersect r other = \<lparr>start = max (start r) (start other), end' = min (end' r) (end' other)\<rparr>"

definition overlaps :: "AddressRange \<Rightarrow> AddressRange \<Rightarrow> bool" where
  "overlaps r other \<longleftrightarrow> \<not> is_empty (intersect r other)"

text \<open>The subtraction and the addition cannot overflow, as the comments of the code argue.\<close>

definition non_overlapping_ranges :: "AddressRange \<Rightarrow> AddressRange \<Rightarrow> AddressRange \<times> AddressRange" where
  "non_overlapping_ranges r other =
     (if start other \<le> start r then AddressRange_empty
      else \<lparr>start = min (start r) (start other),
            end' = min (max (start r) (start other) - 1) (end' r)\<rparr>,
      if end' r \<le> end' other then AddressRange_empty
      else \<lparr>start = max (min (end' r) (end' other) + 1) (start r),
            end' = max (end' r) (end' other)\<rparr>)"

definition split_at :: "AddressRange \<Rightarrow> u64 \<Rightarrow> AddressRange \<times> AddressRange" where
  "split_at r split_start =
     (if split_start \<le> start r \<or> end' r < split_start then (r, AddressRange_empty)
      else (\<lparr>start = start r, end' = split_start - 1\<rparr>, \<lparr>start = split_start, end' = end' r\<rparr>))"

definition range_len :: "AddressRange \<Rightarrow> u64 option" where
  "range_len r = (if is_empty r then Some 0 else checked_add (end' r - start r) 1)"

section \<open>The order of ranges\<close>

datatype ordering = Less | Equal | Greater

definition cmp :: "'a::linorder \<Rightarrow> 'a \<Rightarrow> ordering" where
  "cmp a b = (if a < b then Less else if a = b then Equal else Greater)"

definition then_with :: "ordering \<Rightarrow> ordering \<Rightarrow> ordering" where
  "then_with a b = (if a = Equal then b else a)"

definition range_cmp :: "AddressRange \<Rightarrow> AddressRange \<Rightarrow> ordering" where
  "range_cmp r other =
     (case (is_empty r, is_empty other) of
        (True, True) \<Rightarrow> Equal
      | (True, False) \<Rightarrow> Less
      | (False, True) \<Rightarrow> Greater
      | (False, False) \<Rightarrow> then_with (cmp (start r) (start other)) (cmp (end' r) (end' other)))"

section \<open>Sets of ranges\<close>

text \<open>
  A \<open>BTreeSet<AddressRange>\<close> is the list of its elements in the order of iteration. Its \<open>insert\<close>
  keeps an element that is equal to the new one, its \<open>remove\<close> says whether there was one.
\<close>

type_synonym range_set = "AddressRange list"

fun btree_insert :: "AddressRange \<Rightarrow> range_set \<Rightarrow> range_set" where
  "btree_insert r [] = [r]"
| "btree_insert r (x # xs) =
     (case range_cmp r x of
        Less \<Rightarrow> r # x # xs
      | Equal \<Rightarrow> x # xs
      | Greater \<Rightarrow> x # btree_insert r xs)"

fun btree_remove :: "AddressRange \<Rightarrow> range_set \<Rightarrow> bool \<times> range_set" where
  "btree_remove r [] = (False, [])"
| "btree_remove r (x # xs) =
     (case range_cmp r x of
        Less \<Rightarrow> (False, x # xs)
      | Equal \<Rightarrow> (True, xs)
      | Greater \<Rightarrow> (case btree_remove r xs of (b, xs') \<Rightarrow> (b, x # xs')))"

text \<open>\<open>range((Unbounded, Included(r))).max()\<close> and \<open>range((Excluded(r), Unbounded)).min()\<close>.\<close>

definition btree_max_le :: "AddressRange \<Rightarrow> range_set \<Rightarrow> AddressRange option" where
  "btree_max_le r rs = List.find (\<lambda>x. range_cmp x r \<noteq> Greater) (rev rs)"

definition btree_min_gt :: "AddressRange \<Rightarrow> range_set \<Rightarrow> AddressRange option" where
  "btree_min_gt r rs = List.find (\<lambda>x. range_cmp x r = Greater) rs"

text \<open>\<open>Iterator::find\<close> with a closure that may panic.\<close>

fun find_checked :: "('a \<Rightarrow> bool option) \<Rightarrow> 'a list \<Rightarrow> 'a option option" where
  "find_checked P [] = Some None"
| "find_checked P (x # xs) = do { b \<leftarrow> P x; if b then Some (Some x) else find_checked P xs }"

section \<open>Ranges as sets of addresses\<close>

definition addrs :: "AddressRange \<Rightarrow> u64 set" where
  "addrs r = {start r..end' r}"

lemma addrs_empty_iff: "addrs r = {} \<longleftrightarrow> is_empty r"
  by (auto simp: addrs_def is_empty_def)

lemma addrs_AddressRange_empty [simp]: "addrs AddressRange_empty = {}"
  by (simp add: addrs_empty_iff is_empty_def AddressRange_empty_def)

lemma addrs_intersect: "addrs (intersect r s) = addrs r \<inter> addrs s"
  by (auto simp: addrs_def intersect_def)

lemma overlaps_iff: "overlaps r s \<longleftrightarrow> addrs r \<inter> addrs s \<noteq> {}"
  by (simp add: overlaps_def addrs_empty_iff [symmetric] addrs_intersect)

lemma contains_range_iff: "contains_range r s \<longleftrightarrow> addrs s \<noteq> {} \<and> addrs s \<subseteq> addrs r"
  by (auto simp: contains_range_def addrs_def is_empty_def)

lemma disjoint_ranges:
  assumes "\<not> is_empty r" and "\<not> is_empty s" and "addrs r \<inter> addrs s = {}"
  shows "end' r < start s \<or> end' s < start r"
proof (rule ccontr)
  assume "\<not> ?thesis"
  with assms(1,2) have "max (start r) (start s) \<in> addrs r \<inter> addrs s"
    by (auto simp: addrs_def is_empty_def max_def)
  with assms(3) show False by blast
qed

text \<open>Stepping back and forth by one address where there is one.\<close>

lemma le_pred_iff: "a < b \<Longrightarrow> x \<le> b - 1 \<longleftrightarrow> x < (b :: u64)"
  by uint_arith

lemma succ_le_iff: "a < b \<Longrightarrow> a + 1 \<le> x \<longleftrightarrow> a < (x :: u64)"
  by uint_arith

lemma addrs_non_overlapping:
  assumes "non_overlapping_ranges r s = (before, after)"
  shows "addrs before = {x \<in> addrs r. x < start s}" and "addrs after = {x \<in> addrs r. end' s < x}"
proof -
  have before: "before = (if start s \<le> start r then AddressRange_empty
      else \<lparr>start = start r, end' = min (start s - 1) (end' r)\<rparr>)"
    and after: "after = (if end' r \<le> end' s then AddressRange_empty
      else \<lparr>start = max (end' s + 1) (start r), end' = end' r\<rparr>)"
    using assms by (auto simp: non_overlapping_ranges_def max_def min_def)
  show "addrs before = {x \<in> addrs r. x < start s}"
    by (cases "start r < start s") (auto simp: before addrs_def le_pred_iff AddressRange_empty_def)
  show "addrs after = {x \<in> addrs r. end' s < x}"
    by (cases "end' s < end' r") (auto simp: after addrs_def succ_le_iff AddressRange_empty_def)
qed

section \<open>Lemmas on sets of ranges\<close>

text \<open>What holds of the free regions: none is empty, they are in order and no two overlap.\<close>

definition separated :: "range_set \<Rightarrow> bool" where
  "separated rs \<longleftrightarrow> list_all (\<lambda>r. \<not> is_empty r) rs \<and> sorted_wrt (\<lambda>r s. end' r < start s) rs"

definition covered :: "range_set \<Rightarrow> u64 set" where
  "covered rs = (\<Union>r \<in> set rs. addrs r)"

lemma covered_simps [simp]:
  "covered [] = {}" "covered (r # rs) = addrs r \<union> covered rs" "covered (rs @ rs') = covered rs \<union> covered rs'"
  by (auto simp: covered_def)

lemma range_cmp_eq: "\<not> is_empty r \<Longrightarrow> range_cmp r s = Equal \<longleftrightarrow> r = s"
  by (auto simp: range_cmp_def is_empty_def then_with_def cmp_def split: if_splits bool.splits)

lemma range_cmp_apart:
  assumes "\<not> is_empty r" and "\<not> is_empty s"
  shows "end' r < start s \<Longrightarrow> range_cmp r s = Less" and "end' s < start r \<Longrightarrow> range_cmp r s = Greater"
  using assms by (auto simp: range_cmp_def is_empty_def then_with_def cmp_def)

lemma separated_simps [simp]:
  "separated []"
  "separated (r # rs) \<longleftrightarrow> \<not> is_empty r \<and> (\<forall>s \<in> set rs. end' r < start s) \<and> separated rs"
  by (auto simp: separated_def)

lemma separated_append:
  "separated (xs @ ys) \<longleftrightarrow> separated xs \<and> separated ys \<and> (\<forall>x \<in> set xs. \<forall>y \<in> set ys. end' x < start y)"
  by (auto simp: separated_def sorted_wrt_append)

lemma separated_nonempty: "separated rs \<Longrightarrow> r \<in> set rs \<Longrightarrow> \<not> is_empty r"
  by (simp add: separated_def list_all_iff)

lemma separated_insert:
  assumes "separated rs" and "\<not> is_empty r" and "addrs r \<inter> covered rs = {}"
  shows "separated (btree_insert r rs) \<and> set (btree_insert r rs) = insert r (set rs)"
  using assms
proof (induction rs)
  case (Cons x xs)
  from Cons.prems have x: "\<not> is_empty x" "separated xs" "addrs r \<inter> covered xs = {}" by auto
  from Cons.prems have "end' r < start x \<or> end' x < start r"
    by (intro disjoint_ranges) auto
  then show ?case
  proof
    assume "end' r < start x"
    with Cons.prems x show ?thesis
      by (auto simp: range_cmp_apart is_empty_def)
  next
    assume "end' x < start r"
    with Cons.prems x Cons.IH show ?thesis by (simp add: range_cmp_apart) blast
  qed
qed simp

lemma separated_remove:
  assumes "separated rs" and "r \<in> set rs"
  shows "\<exists>rs'. btree_remove r rs = (True, rs') \<and> separated rs' \<and> set rs' = set rs - {r} \<and>
    covered rs' = covered rs - addrs r"
  using assms
proof (induction rs)
  case (Cons x xs)
  show ?case
  proof (cases "x = r")
    case True
    with Cons.prems have "s \<in> set xs \<Longrightarrow> end' r < start s" for s by auto
    then have "r \<notin> set xs" "covered xs \<inter> addrs r = {}"
      using Cons.prems True by (fastforce simp: covered_def addrs_def is_empty_def)+
    moreover have "range_cmp r r = Equal" using True Cons.prems by (simp add: range_cmp_eq)
    ultimately show ?thesis using True Cons.prems by auto
  next
    case False
    with Cons.prems have r: "r \<in> set xs" "end' x < start r" "\<not> is_empty x" "\<not> is_empty r" "separated xs"
      by (auto dest: separated_nonempty)
    then have "addrs x \<inter> addrs r = {}" by (auto simp: addrs_def)
    moreover from Cons.IH r obtain xs' where "btree_remove r xs = (True, xs')" "separated xs'"
      "set xs' = set xs - {r}" "covered xs' = covered xs - addrs r" by blast
    ultimately show ?thesis using False r Cons.prems by (auto simp: range_cmp_apart)
  qed
qed simp

lemma covered_insert: "set rs' = insert r (set rs) \<Longrightarrow> covered rs' = addrs r \<union> covered rs"
  by (simp add: covered_def)

lemma find_checked_None: "find_checked P xs = Some None \<longleftrightarrow> (\<forall>x \<in> set xs. P x = Some False)"
  by (induction xs) (auto split: bind_splits if_splits)

lemma find_checked_Some:
  "find_checked P xs = Some (Some x) \<Longrightarrow>
     \<exists>ys zs. xs = ys @ x # zs \<and> P x = Some True \<and> (\<forall>y \<in> set ys. P y = Some False)"
proof (induction xs)
  case (Cons y ys)
  show ?case
  proof (cases "P y = Some True")
    case True
    with Cons.prems show ?thesis by force
  next
    case False
    with Cons.prems have "P y = Some False" "find_checked P ys = Some (Some x)"
      by (auto split: bind_splits if_splits)
    with Cons.IH obtain us vs where "ys = us @ x # vs" "P x = Some True" "\<forall>y \<in> set us. P y = Some False" by blast
    with \<open>P y = Some False\<close> show ?thesis by (intro exI [of _ "y # us"] exI [of _ vs]) auto
  qed
qed simp

lemma find_checked_total: "(\<And>x. x \<in> set xs \<Longrightarrow> P x \<noteq> None) \<Longrightarrow> find_checked P xs \<noteq> None"
  by (induction xs) (auto split: bind_splits)

section \<open>Properties\<close>

text \<open>
  Cutting one range out of another gives exactly the addresses below it and those above it, as
  two ranges that do not overlap, without overflow at either end of the address space.
\<close>

theorem non_overlapping_ranges_difference:
  assumes "\<not> is_empty other" and "non_overlapping_ranges r other = (before, after)"
  shows "addrs before \<union> addrs after = addrs r - addrs other \<and> addrs before \<inter> addrs after = {}"
proof -
  from assms(1) have "start other \<le> end' other" by (simp add: is_empty_def not_less)
  then show ?thesis
    unfolding addrs_non_overlapping [OF assms(2)] addrs_def [of other] by auto
qed

theorem non_overlapping_ranges_difference_witness:
  "addrs \<lparr>start = 0, end' = 2\<rparr> \<union> addrs \<lparr>start = 6, end' = 0xFFFFFFFFFFFFFFFF\<rparr> =
     addrs \<lparr>start = 0, end' = 0xFFFFFFFFFFFFFFFF\<rparr> - addrs \<lparr>start = 3, end' = 5\<rparr>"
  using non_overlapping_ranges_difference [of "\<lparr>start = 3, end' = 5\<rparr>" "\<lparr>start = 0, end' = 0xFFFFFFFFFFFFFFFF\<rparr>"
      "\<lparr>start = 0, end' = 2\<rparr>" "\<lparr>start = 6, end' = 0xFFFFFFFFFFFFFFFF\<rparr>"]
  by (simp add: is_empty_def non_overlapping_ranges_def)

end
