(* ===== verification/AddressAllocator.thy ===== *)
theory AddressAllocator
  imports AddressRange "HOL-Library.AList"
begin

text \<open>
  \<open>AddressAllocator\<close> of \<open>libcrosvm/resources/src/address_allocator.rs\<close>: the allocations that were
  handed out, by name, and the free regions of its pools. The tags and the errors are those of
  \<open>libcrosvm/resources/src/lib.rs\<close>.

  An operation takes the allocator and gives \<open>None\<close> if it panics and else its result and the
  allocator after it. A \<open>HashMap\<close> is an association list; the order in which it is iterated is not
  specified by the library and is the parameter \<open>order\<close>.
\<close>

section \<open>Names and errors\<close>

datatype Alloc =
    Anon u64
  | PciBar u8 u8 u8 u8
  | GpuRenderNode
  | PmemDevice u64
  | Pstore
  | PciBridgeWindow u8 u8 u8
  | PciBridgePrefetchWindow u8 u8 u8
  | FileBacked u64

datatype alloc_error =
    AllocSizeZero
  | BadAlignment
  | BadAlloc Alloc
  | ExistingAlloc Alloc
  | InvalidAlloc Alloc
  | IOPortOutOfRange AddressRange
  | MissingPlatformMMIOAddresses
  | NoIoAllocator
  | OutOfBounds
  | OutOfSpace
  | PoolOverflow u64 u64
  | RegionOverlap AddressRange

type_synonym 'a alloc_result = "alloc_error + 'a"

type_synonym allocs = "(Alloc \<times> AddressRange \<times> string) list"

section \<open>The allocator\<close>

record AddressAllocator =
  pools :: "AddressRange list"
  min_align :: u64
  preferred_align :: u64
  allocs :: allocs
  regions :: range_set

text \<open>\<open>u64::is_power_of_two\<close>.\<close>

definition is_power_of_two :: "u64 \<Rightarrow> bool" where
  "is_power_of_two a \<longleftrightarrow> list_ex (\<lambda>k. a = 2 ^ k) [0..<64]"

definition new_from_list ::
    "AddressRange list \<Rightarrow> u64 option \<Rightarrow> u64 option \<Rightarrow> AddressAllocator alloc_result" where
  "new_from_list ps min_al preferred =
     (let ps = filter (\<lambda>p. \<not> is_empty p) ps;
          min_al = (case min_al of None \<Rightarrow> 4 | Some a \<Rightarrow> a) in
      if \<not> is_power_of_two min_al \<or> min_al = 0 then Err BadAlignment
      else
        let preferred = (case preferred of None \<Rightarrow> min_al | Some a \<Rightarrow> a) in
        if \<not> is_power_of_two preferred \<or> preferred < min_al then Err BadAlignment
        else Ok \<lparr>pools = ps, min_align = min_al, preferred_align = preferred, allocs = [],
                 regions = fold btree_insert ps []\<rparr>)"

definition AddressAllocator_new ::
    "AddressRange \<Rightarrow> u64 option \<Rightarrow> u64 option \<Rightarrow> AddressAllocator alloc_result" where
  "AddressAllocator_new pool min_al preferred = new_from_list [pool] min_al preferred"

definition internal_allocate_from_slot ::
    "AddressRange \<Rightarrow> AddressRange \<Rightarrow> Alloc \<Rightarrow> string \<Rightarrow> AddressAllocator
       \<Rightarrow> (u64 alloc_result \<times> AddressAllocator) option" where
  "internal_allocate_from_slot slot rng alloc tag a =
     (case btree_remove slot (regions a) of
        (False, _) \<Rightarrow> None
      | (True, rs) \<Rightarrow>
          (case non_overlapping_ranges slot rng of
             (before, after) \<Rightarrow>
               let rs = (if \<not> is_empty before then btree_insert before rs else rs);
                   rs = (if \<not> is_empty after then btree_insert after rs else rs) in
               Some (Ok (start rng),
                     a\<lparr>regions := rs, allocs := AList.update alloc (rng, tag) (allocs a)\<rparr>)))"

text \<open>The two closures that look for a region, and the address that is taken in it.\<close>

definition fits_forward :: "u64 \<Rightarrow> u64 \<Rightarrow> AddressRange \<Rightarrow> bool option" where
  "fits_forward size' alignment rng = do {
     m \<leftarrow> checked_sub size' 1;
     e \<leftarrow> (let r = start rng mod alignment in
           if r = 0 then Some (checked_add (start rng) m)
           else do {
             k \<leftarrow> checked_add m alignment;
             k \<leftarrow> checked_sub k r;
             Some (checked_add (start rng) k) });
     Some (case e of None \<Rightarrow> False | Some e \<Rightarrow> e \<le> end' rng) }"

definition fits_reverse :: "u64 \<Rightarrow> u64 \<Rightarrow> AddressRange \<Rightarrow> bool option" where
  "fits_reverse size' alignment rng = do {
     m \<leftarrow> checked_sub size' 1;
     case checked_sub (end' rng) m of
       None \<Rightarrow> Some False
     | Some s \<Rightarrow> do {
         k \<leftarrow> checked_sub alignment 1;
         Some (start rng \<le> s AND NOT k) } }"

definition start_forward :: "u64 \<Rightarrow> AddressRange \<Rightarrow> u64 option" where
  "start_forward alignment slot =
     (let r = start slot mod alignment in
      if r = 0 then Some (start slot)
      else do { k \<leftarrow> checked_add (start slot) alignment; checked_sub k r })"

definition start_reverse :: "u64 \<Rightarrow> u64 \<Rightarrow> AddressRange \<Rightarrow> u64 option" where
  "start_reverse size' alignment slot = do {
     m \<leftarrow> checked_sub size' 1;
     s \<leftarrow> checked_sub (end' slot) m;
     k \<leftarrow> checked_sub alignment 1;
     Some (s AND NOT k) }"

definition internal_allocate_with_align ::
    "u64 \<Rightarrow> Alloc \<Rightarrow> string \<Rightarrow> u64 \<Rightarrow> bool \<Rightarrow> AddressAllocator
       \<Rightarrow> (u64 alloc_result \<times> AddressAllocator) option" where
  "internal_allocate_with_align size' alloc tag alignment reverse a =
     (let alignment = max (min_align a) alignment in
      if map_of (allocs a) alloc \<noteq> None then Some (Err (ExistingAlloc alloc), a)
      else if size' = 0 then Some (Err AllocSizeZero, a)
      else if \<not> is_power_of_two alignment then Some (Err BadAlignment, a)
      else do {
        region \<leftarrow> (if \<not> reverse then find_checked (fits_forward size' alignment) (regions a)
                  else find_checked (fits_reverse size' alignment) (rev (regions a)));
        case region of
          Some slot \<Rightarrow> do {
            s \<leftarrow> (if \<not> reverse then start_forward alignment slot
                 else start_reverse size' alignment slot);
            e \<leftarrow> checked_add s size';
            e \<leftarrow> checked_sub e 1;
            internal_allocate_from_slot slot \<lparr>start = s, end' = e\<rparr> alloc tag a }
        | None \<Rightarrow> Some (Err OutOfSpace, a) })"

definition reverse_allocate_with_align ::
    "u64 \<Rightarrow> Alloc \<Rightarrow> string \<Rightarrow> u64 \<Rightarrow> AddressAllocator \<Rightarrow> (u64 alloc_result \<times> AddressAllocator) option" where
  "reverse_allocate_with_align size' alloc tag alignment =
     internal_allocate_with_align size' alloc tag alignment True"

definition reverse_allocate ::
    "u64 \<Rightarrow> Alloc \<Rightarrow> string \<Rightarrow> AddressAllocator \<Rightarrow> (u64 alloc_result \<times> AddressAllocator) option" where
  "reverse_allocate size' alloc tag a = do {
     (r, a') \<leftarrow> reverse_allocate_with_align size' alloc tag (preferred_align a) a;
     case r of
       Inr pref_alloc \<Rightarrow> Some (Ok pref_alloc, a')
     | Inl _ \<Rightarrow> reverse_allocate_with_align size' alloc tag (min_align a') a' }"

definition allocate_with_align ::
    "u64 \<Rightarrow> Alloc \<Rightarrow> string \<Rightarrow> u64 \<Rightarrow> AddressAllocator \<Rightarrow> (u64 alloc_result \<times> AddressAllocator) option" where
  "allocate_with_align size' alloc tag alignment =
     internal_allocate_with_align size' alloc tag alignment False"

definition allocate ::
    "u64 \<Rightarrow> Alloc \<Rightarrow> string \<Rightarrow> AddressAllocator \<Rightarrow> (u64 alloc_result \<times> AddressAllocator) option" where
  "allocate size' alloc tag a = do {
     (r, a') \<leftarrow> allocate_with_align size' alloc tag (preferred_align a) a;
     case r of
       Inr pref_alloc \<Rightarrow> Some (Ok pref_alloc, a')
     | Inl _ \<Rightarrow> allocate_with_align size' alloc tag (min_align a') a' }"

definition find_overlapping ::
    "(allocs \<Rightarrow> allocs) \<Rightarrow> AddressRange \<Rightarrow> AddressAllocator \<Rightarrow> Alloc option" where
  "find_overlapping order rng a =
     (if is_empty rng then None
      else map_option fst (List.find (\<lambda>(_, alloc_range, _). overlaps alloc_range rng) (order (allocs a))))"

definition allocate_at ::
    "(allocs \<Rightarrow> allocs) \<Rightarrow> AddressRange \<Rightarrow> Alloc \<Rightarrow> string \<Rightarrow> AddressAllocator
       \<Rightarrow> (unit alloc_result \<times> AddressAllocator) option" where
  "allocate_at order rng alloc tag a =
     (if map_of (allocs a) alloc \<noteq> None then Some (Err (ExistingAlloc alloc), a)
      else if is_empty rng then Some (Err AllocSizeZero, a)
      else
        (case List.find (\<lambda>avail_range. contains_range avail_range rng) (regions a) of
           Some slot \<Rightarrow> do {
             (r, a') \<leftarrow> internal_allocate_from_slot slot rng alloc tag a;
             Some (case r of Inl e \<Rightarrow> Err e | Inr _ \<Rightarrow> Ok (), a') }
         | None \<Rightarrow>
             (case find_overlapping order rng a of
                Some existing_alloc \<Rightarrow> Some (Err (ExistingAlloc existing_alloc), a)
              | None \<Rightarrow> Some (Err OutOfSpace, a))))"

definition insert_at :: "AddressRange \<Rightarrow> AddressAllocator \<Rightarrow> unit alloc_result \<times> AddressAllocator" where
  "insert_at slot a =
     (if is_empty slot then (Err AllocSizeZero, a)
      else
        let smaller_merge =
              (case btree_max_le slot (regions a) of
                 None \<Rightarrow> Ok None
               | Some smaller \<Rightarrow>
                   (case checked_add (end' smaller) 1 of
                      None \<Rightarrow> Err (RegionOverlap slot)
                    | Some next_addr \<Rightarrow>
                        (case cmp next_addr (start slot) of
                           Less \<Rightarrow> Ok None
                         | Equal \<Rightarrow> Ok (Some smaller)
                         | Greater \<Rightarrow> Err (RegionOverlap slot))));
            larger_merge =
              (case btree_min_gt slot (regions a) of
                 None \<Rightarrow> Ok None
               | Some larger \<Rightarrow>
                   (case checked_sub (start larger) 1 of
                      None \<Rightarrow> Err (RegionOverlap slot)
                    | Some prev_addr \<Rightarrow>
                        (case cmp (end' slot) prev_addr of
                           Less \<Rightarrow> Ok None
                         | Equal \<Rightarrow> Ok (Some larger)
                         | Greater \<Rightarrow> Err (RegionOverlap slot)))) in
        (case smaller_merge of
           Inl e \<Rightarrow> (Err e, a)
         | Inr smaller_merge \<Rightarrow>
             (case larger_merge of
                Inl e \<Rightarrow> (Err e, a)
              | Inr larger_merge \<Rightarrow>
                  let (slot, rs) = (case smaller_merge of
                        None \<Rightarrow> (slot, regions a)
                      | Some smaller \<Rightarrow> (slot\<lparr>start := start smaller\<rparr>, snd (btree_remove smaller (regions a))));
                      (slot, rs) = (case larger_merge of
                        None \<Rightarrow> (slot, rs)
                      | Some larger \<Rightarrow> (slot\<lparr>end' := end' larger\<rparr>, snd (btree_remove larger rs))) in
                  (Ok (), a\<lparr>regions := btree_insert slot rs\<rparr>))))"

definition release :: "Alloc \<Rightarrow> AddressAllocator \<Rightarrow> AddressRange alloc_result \<times> AddressAllocator" where
  "release alloc a =
     (case map_of (allocs a) alloc of
        None \<Rightarrow> (Err (BadAlloc alloc), a)
      | Some (rng, _) \<Rightarrow>
          (case insert_at rng (a\<lparr>allocs := AList.delete alloc (allocs a)\<rparr>) of
             (Inl e, a') \<Rightarrow> (Err e, a')
           | (Inr _, a') \<Rightarrow> (Ok rng, a')))"

definition release_containing ::
    "(allocs \<Rightarrow> allocs) \<Rightarrow> u64 \<Rightarrow> AddressAllocator \<Rightarrow> AddressRange alloc_result \<times> AddressAllocator" where
  "release_containing order value' a =
     (case find_overlapping order \<lparr>start = value', end' = value'\<rparr> a of
        Some alloc \<Rightarrow> release alloc a
      | None \<Rightarrow> (Err OutOfSpace, a))"

definition get_max_addr :: "AddressAllocator \<Rightarrow> u64" where
  "get_max_addr a = fold (\<lambda>rng x. max x (end' rng)) (regions a) 0"

definition get :: "Alloc \<Rightarrow> AddressAllocator \<Rightarrow> (AddressRange \<times> string) option" where
  "get alloc a = map_of (allocs a) alloc"

definition address_from_pci_offset :: "Alloc \<Rightarrow> u64 \<Rightarrow> u64 \<Rightarrow> AddressAllocator \<Rightarrow> u64 alloc_result" where
  "address_from_pci_offset alloc offset size' a =
     (case alloc of
        PciBar _ _ _ _ \<Rightarrow>
          (case map_of (allocs a) alloc of
             Some (pci_bar_range, _) \<Rightarrow>
               (case checked_add (start pci_bar_range) offset of
                  None \<Rightarrow> Err OutOfBounds
                | Some address \<Rightarrow>
                    (case from_start_and_size address size' of
                       None \<Rightarrow> Err OutOfBounds
                     | Some offset_range \<Rightarrow>
                         if contains_range pci_bar_range offset_range then Ok address else Err OutOfBounds))
           | None \<Rightarrow> Err (InvalidAlloc alloc))
      | _ \<Rightarrow> Err (InvalidAlloc alloc))"

section \<open>The invariant\<close>

text \<open>
  The addresses that are free and those held by a name. The invariant is what the comment on
  \<open>pools\<close> promises, that free regions and allocations make up the pools, and that nothing is in two
  of them.
\<close>

abbreviation free :: "AddressAllocator \<Rightarrow> u64 set" where
  "free a \<equiv> covered (regions a)"

definition held :: "AddressAllocator \<Rightarrow> Alloc \<Rightarrow> u64 set" where
  "held a k = (case map_of (allocs a) k of None \<Rightarrow> {} | Some (r, _) \<Rightarrow> addrs r)"

definition allocator_inv :: "AddressAllocator \<Rightarrow> bool" where
  "allocator_inv a \<longleftrightarrow>
     is_power_of_two (min_align a) \<and> is_power_of_two (preferred_align a) \<and> min_align a \<le> preferred_align a \<and>
     separated (regions a) \<and> distinct (map fst (allocs a)) \<and>
     (\<forall>k r t. map_of (allocs a) k = Some (r, t) \<longrightarrow> \<not> is_empty r) \<and>
     (\<forall>k. held a k \<inter> free a = {}) \<and> (\<forall>k k'. k \<noteq> k' \<longrightarrow> held a k \<inter> held a k' = {}) \<and>
     free a \<union> (\<Union>k. held a k) = covered (pools a)"

lemma is_power_of_two_iff: "is_power_of_two a \<longleftrightarrow> (\<exists>k < 64. a = 2 ^ k)"
  by (auto simp: is_power_of_two_def list_ex_iff)

lemma is_power_of_twoE:
  assumes "is_power_of_two a"
  obtains k where "k < 64" and "a = 2 ^ k" and "unat a = 2 ^ k"
  using assms unat_exp [where 'a = 64] by (auto simp: is_power_of_two_iff)

text \<open>What taking a range under a name and giving it back do to an allocator.\<close>

definition took :: "Alloc \<Rightarrow> AddressRange \<Rightarrow> string \<Rightarrow> AddressAllocator \<Rightarrow> AddressAllocator \<Rightarrow> bool" where
  "took k r t a a' \<longleftrightarrow>
     map_of (allocs a) k = None \<and> \<not> is_empty r \<and> addrs r \<subseteq> free a \<and>
     map_of (allocs a') = (map_of (allocs a))(k \<mapsto> (r, t)) \<and> free a' = free a - addrs r \<and>
     separated (regions a') \<and> distinct (map fst (allocs a')) \<and>
     pools a' = pools a \<and> min_align a' = min_align a \<and> preferred_align a' = preferred_align a"

definition gave :: "Alloc \<Rightarrow> AddressRange \<Rightarrow> AddressAllocator \<Rightarrow> AddressAllocator \<Rightarrow> bool" where
  "gave k r a a' \<longleftrightarrow>
     (\<exists>t. map_of (allocs a) k = Some (r, t)) \<and>
     map_of (allocs a') = (map_of (allocs a))(k := None) \<and> free a' = free a \<union> addrs r \<and>
     separated (regions a') \<and> distinct (map fst (allocs a')) \<and>
     pools a' = pools a \<and> min_align a' = min_align a \<and> preferred_align a' = preferred_align a"

lemma took_held: "took k r t a a' \<Longrightarrow> held a' = (held a)(k := addrs r)"
  by (auto simp: took_def held_def fun_eq_iff)

lemma gave_held: "gave k r a a' \<Longrightarrow> held a' = (held a)(k := {}) \<and> held a k = addrs r"
  by (auto simp: gave_def held_def fun_eq_iff)

lemma held_fresh: "map_of (allocs a) k = None \<Longrightarrow> held a k = {}"
  by (simp add: held_def)

lemma took_inv:
  assumes "allocator_inv a" and "took k r t a a'"
  shows "allocator_inv a'"
proof -
  have h: "held a' = (held a)(k := addrs r)" "held a k = {}"
    using took_held [OF assms(2)] assms(2) by (simp_all add: took_def held_fresh)
  have f: "free a' = free a - addrs r" "addrs r \<subseteq> free a" using assms(2) by (simp_all add: took_def)
  have disjoint: "held a' x \<inter> held a' y = {}" if "x \<noteq> y" for x y
    using assms(1) f(2) that unfolding h allocator_inv_def by (auto simp: disjoint_iff)
  have apart: "held a' x \<inter> free a' = {}" for x
    using assms(1) f unfolding h allocator_inv_def by (auto simp: disjoint_iff)
  have "(\<Union>x. held a' x) = (\<Union>x. held a x) \<union> addrs r"
    using h(2) unfolding h(1) by (auto split: if_splits)
  then have union: "free a' \<union> (\<Union>x. held a' x) = covered (pools a')"
    using assms f by (auto simp: allocator_inv_def took_def)
  show ?thesis
    using assms disjoint apart union by (auto simp: allocator_inv_def took_def split: if_splits)
qed

lemma gave_inv:
  assumes "allocator_inv a" and "gave k r a a'"
  shows "allocator_inv a'"
proof -
  have h: "held a' = (held a)(k := {})" "held a k = addrs r"
    using gave_held [OF assms(2)] by simp_all
  have f: "free a' = free a \<union> addrs r" using assms(2) by (simp add: gave_def)
  have disjoint: "held a' x \<inter> held a' y = {}" if "x \<noteq> y" for x y
    using assms(1) that unfolding h allocator_inv_def by auto
  have apart: "held a' x \<inter> free a' = {}" for x
    using assms(1) unfolding f h(2) [symmetric] unfolding h(1) allocator_inv_def by (auto simp: disjoint_iff)
  have union: "free a' \<union> (\<Union>x. held a' x) = covered (pools a')"
    using assms unfolding f h(2) [symmetric] unfolding h(1)
    by (auto simp: allocator_inv_def gave_def split: if_splits)
  show ?thesis
    using assms disjoint apart union by (auto simp: allocator_inv_def gave_def split: if_splits)
qed

section \<open>Allocating\<close>

lemma internal_allocate_from_slot_takes:
  assumes "allocator_inv a" and "slot \<in> set (regions a)" and "contains_range slot rng"
    and "map_of (allocs a) k = None"
  shows "\<exists>a'. internal_allocate_from_slot slot rng k t a = Some (Ok (start rng), a') \<and> took k rng t a a'"
proof -
  obtain before after where ba: "non_overlapping_ranges slot rng = (before, after)" by fastforce
  note split = addrs_non_overlapping [OF ba]
  from assms(3) have rng: "\<not> is_empty rng" "addrs rng \<subseteq> addrs slot"
    by (simp_all add: contains_range_iff addrs_empty_iff)
  from assms(1) have sep: "separated (regions a)" by (simp add: allocator_inv_def)
  from separated_remove [OF sep assms(2)] obtain rs where rs: "btree_remove slot (regions a) = (True, rs)"
    "separated rs" "covered rs = free a - addrs slot" by blast
  define rs1 where "rs1 = (if \<not> is_empty before then btree_insert before rs else rs)"
  define rs2 where "rs2 = (if \<not> is_empty after then btree_insert after rs1 else rs1)"
  have sub: "addrs before \<subseteq> addrs slot" "addrs after \<subseteq> addrs slot" using split by auto
  have "addrs before \<inter> covered rs = {}" using sub rs(3) by auto
  then have 1: "separated rs1 \<and> covered rs1 = covered rs \<union> addrs before"
    using separated_insert [OF rs(2), of before] rs(2)
    by (auto simp: rs1_def addrs_empty_iff [symmetric] covered_insert)
  have "addrs after \<inter> covered rs1 = {}"
    using sub rs(3) 1 split rng(1) by (auto simp: is_empty_def)
  then have 2: "separated rs2 \<and> covered rs2 = covered rs1 \<union> addrs after"
    using separated_insert [of rs1 after] 1
    by (auto simp: rs2_def addrs_empty_iff [symmetric] covered_insert)
  have "addrs slot \<subseteq> free a" using assms(2) by (auto simp: covered_def)
  then have "covered rs2 = free a - addrs rng"
    using 1 2 rs(3) split rng by (auto simp: addrs_def not_le)
  moreover have "internal_allocate_from_slot slot rng k t a =
      Some (Ok (start rng), a\<lparr>regions := rs2, allocs := AList.update k (rng, t) (allocs a)\<rparr>)"
    unfolding internal_allocate_from_slot_def rs(1) ba rs2_def rs1_def by (simp add: Let_def)
  ultimately show ?thesis
    using 2 rng assms(1,4) \<open>addrs slot \<subseteq> free a\<close>
    by (auto simp: took_def update_conv' distinct_update allocator_inv_def)
qed

text \<open>An aligned place of a size in a region.\<close>

definition fit :: "u64 \<Rightarrow> u64 \<Rightarrow> AddressRange \<Rightarrow> u64 \<Rightarrow> bool" where
  "fit size' alignment r s \<longleftrightarrow>
     unat alignment dvd unat s \<and> start r \<le> s \<and> unat s + unat size' \<le> Suc (unat (end' r))"

lemma unat_lt64: "unat (x :: u64) < 2 ^ 64"
  using unat_lt [of x] by simp

lemma unat_below_max:
  assumes "x \<noteq> (- 1 :: u64)"
  shows "unat x + 1 < 2 ^ 64"
proof (rule ccontr)
  assume "\<not> ?thesis"
  with unat_lt64 [of x] have "unat x = 2 ^ 64 - 1" by linarith
  then have "unat x = unat (- 1 :: u64)" by (simp add: unsigned_minus_1_eq_mask mask_eq_exp_minus_1)
  with assms show False by (simp only: word_unat_eq_iff)
qed

lemma checked_add_le:
  "(case checked_add a b of None \<Rightarrow> False | Some e \<Rightarrow> e \<le> c) \<longleftrightarrow> unat a + unat b \<le> unat (c :: u64)"
proof (cases "checked_add a b")
  case None
  then have "2 ^ 64 \<le> unat a + unat b" by (simp add: checked_add_None)
  with None show ?thesis using unat_lt64 [of c] by simp
next
  case (Some e)
  then have "unat e = unat a + unat b" by (auto simp only: checked_add_Some)
  with Some show ?thesis by (simp add: word_le_nat_alt)
qed

lemma size_pred:
  assumes "size' \<noteq> (0 :: u64)"
  obtains m where "checked_sub size' 1 = Some m" and "unat size' = Suc (unat m)"
proof (rule that)
  show "checked_sub size' 1 = Some (size' - 1)" using assms by (simp add: checked_sub_def word_le_nat_alt unat_gt_0 Suc_le_eq)
  show "unat size' = Suc (unat (size' - 1))" using assms by (simp add: unat_minus_one unat_gt_0)
qed

lemma fits_forward_spec:
  assumes al: "is_power_of_two al" and size: "size' \<noteq> 0" and b: "fits_forward size' al r = Some b"
  shows "if b then \<exists>s. start_forward al r = Some s \<and> fit size' al r s \<and> (\<forall>s'. fit size' al r s' \<longrightarrow> s \<le> s')
    else \<forall>s. \<not> fit size' al r s"
proof -
  from al obtain k where k: "k < 64" "unat al = 2 ^ k" by (rule is_power_of_twoE)
  from size obtain m where m: "checked_sub size' 1 = Some m" "unat size' = Suc (unat m)" by (rule size_pred)
  let ?x = "unat (start r)" and ?A = "2 ^ k :: nat"
  have mod: "unat (start r mod al) = ?x mod ?A" by (simp add: unat_mod k)
  show ?thesis
  proof (cases "start r mod al = 0")
    case True
    then have 0: "?A dvd ?x" using mod by (simp add: mod_eq_0_iff_dvd)
    have "b \<longleftrightarrow> ?x + unat m \<le> unat (end' r)"
      using b True m(1) by (simp add: fits_forward_def checked_add_le mod_0_imp_dvd)
    with True 0 m(2) k(2) show ?thesis
      by (auto simp: start_forward_def fit_def word_le_nat_alt)
  next
    case False
    then have x: "?x mod ?A \<noteq> 0" using mod by (metis unat_eq_zero)
    have lt: "?x mod ?A < ?A" by simp
    define S where "S = ?x + ?A - ?x mod ?A"
    have S: "S + ?x mod ?A = ?x + ?A" "?x \<le> S" "?A dvd S"
      using lt dvd_next_multiple [of ?A ?x] unfolding S_def by linarith+
    have "fits_forward size' al r = Option.bind (checked_add m al) (\<lambda>c.
        Option.bind (checked_sub c (start r mod al)) (\<lambda>d.
        Some (case checked_add (start r) d of None \<Rightarrow> False | Some e \<Rightarrow> e \<le> end' r)))"
      unfolding fits_forward_def m(1) Let_def using False by simp
    with b obtain c d where c: "checked_add m al = Some c" "checked_sub c (start r mod al) = Some d"
      and bd: "b = (case checked_add (start r) d of None \<Rightarrow> False | Some e \<Rightarrow> e \<le> end' r)"
      by (auto simp: bind_eq_Some_conv)
    from c(2) have "d = c - start r mod al" "start r mod al \<le> c" by (auto simp only: checked_sub_Some)
    then have "unat d = unat c - ?x mod ?A" by (simp only: unat_sub mod)
    moreover from c(1) have "unat c = unat m + ?A" by (auto simp only: checked_add_Some k(2))
    ultimately have "?x + unat d = S + unat m" using lt S(1) by linarith
    with bd have fits: "b \<longleftrightarrow> S + unat m \<le> unat (end' r)" by (simp only: checked_add_le)
    have least: "S \<le> unat s'" if "fit size' al r s'" for s'
      using that x unfolding S_def by (intro least_multiple) (auto simp: fit_def k word_le_nat_alt)
    show ?thesis
    proof (cases b)
      case True
      with fits have s: "S < 2 ^ 64" using unat_lt64 [of "end' r"] by linarith
      have "S + ?A \<le> 2 ^ 64"
      proof -
        have "?A dvd 2 ^ 64" using k(1) by (intro le_imp_power_dvd) simp
        then have "S + ?A \<le> 2 ^ 64 \<or> 2 ^ 64 \<le> S"
          using S(3) dvd_imp_le [of ?A "2 ^ 64 - S"] by (cases "S < 2 ^ 64") auto
        with s show ?thesis by simp
      qed
      then have "?x + ?A < 2 ^ 64" using lt S(1) by linarith
      moreover from this have "unat (start r + al) = ?x + ?A" by (simp add: unat_word_ariths k)
      ultimately have st: "start_forward al r = Some (start r + al - start r mod al)"
        and un: "unat (start r + al - start r mod al) = S"
        using False lt unfolding S_def by (simp_all add: start_forward_def Let_def checked_add_def checked_sub_def k
            word_le_nat_alt mod unat_sub trans_le_add2 less_imp_le)
      have "fit size' al r (start r + al - start r mod al)"
        using True fits m(2) S
        by (auto simp: fit_def un k word_le_nat_alt)
      with st un least True show ?thesis by (auto simp: word_le_nat_alt)
    next
      case False
      then show ?thesis using fits least m(2) by (force simp: fit_def)
    qed
  qed
qed

lemma fits_reverse_spec:
  assumes al: "is_power_of_two al" and size: "size' \<noteq> 0"
  shows "\<exists>b. fits_reverse size' al r = Some b \<and>
    (if b then \<exists>s. start_reverse size' al r = Some s \<and> fit size' al r s \<and> (\<forall>s'. fit size' al r s' \<longrightarrow> s' \<le> s)
     else \<forall>s. \<not> fit size' al r s)"
proof -
  from al obtain k where k: "k < 64" "al = 2 ^ k" "unat al = 2 ^ k" by (rule is_power_of_twoE)
  from size obtain m where m: "checked_sub size' 1 = Some m" "unat size' = Suc (unat m)" by (rule size_pred)
  have al1: "checked_sub al 1 = Some (2 ^ k - 1)"
    using k by (simp add: checked_sub_def word_le_nat_alt)
  show ?thesis
  proof (cases "m \<le> end' r")
    case False
    then have "fits_reverse size' al r = Some False" using m(1) by (simp add: fits_reverse_def checked_sub_def)
    moreover have "\<not> fit size' al r s" for s using False m(2) by (auto simp: fit_def word_le_nat_alt)
    ultimately show ?thesis by auto
  next
    case True
    define x where "x = end' r - m"
    define s where "s = x AND NOT (2 ^ k - 1)"
    have x: "unat x + unat m = unat (end' r)" using True by (simp add: x_def unat_sub word_le_nat_alt)
    have s: "unat s = unat x - unat x mod 2 ^ k" using k(1) by (simp add: s_def unat_and_not_pred)
    have below: "checked_sub (end' r) m = Some x" using True by (simp add: checked_sub_def x_def)
    have fits: "fits_reverse size' al r = Some (start r \<le> s)" "start_reverse size' al r = Some s"
      by (simp_all add: fits_reverse_def start_reverse_def m(1) below al1 s_def)
    have "2 ^ k dvd unat s" unfolding s by (rule dvd_minus_mod)
    moreover have "unat s \<le> unat x" by (simp add: s)
    ultimately have fit_s: "fit size' al r s" if "start r \<le> s"
      using that x m(2) k(3) by (auto simp: fit_def)
    have greatest: "s' \<le> s" if "fit size' al r s'" for s'
      using that greatest_multiple [of "2 ^ k" "unat s'" "unat x"] x m(2) k(3)
      by (simp add: fit_def word_le_nat_alt s)
    then have "\<not> fit size' al r s'" if "\<not> start r \<le> s" for s'
      using that by (force simp: fit_def)
    with fits fit_s greatest show ?thesis by auto
  qed
qed

lemma fits_forward_returns:
  assumes "is_power_of_two al" and "size' \<noteq> 0" and "unat size' + unat al \<le> 2 ^ 64"
  shows "fits_forward size' al r \<noteq> None"
proof -
  from assms(1) obtain k where k: "unat al = 2 ^ k" by (rule is_power_of_twoE)
  from assms(2) obtain m where m: "checked_sub size' 1 = Some m" "unat size' = Suc (unat m)" by (rule size_pred)
  have c: "checked_add m al = Some (m + al)" "unat (m + al) = unat m + unat al"
    using assms(3) m(2) by (simp_all add: checked_add_def unat_word_ariths)
  have "unat (start r mod al) < unat al" by (simp add: unat_mod k)
  then have "start r mod al \<le> m + al" unfolding word_le_nat_alt c(2) by simp
  then show ?thesis
    unfolding fits_forward_def m(1) by (simp add: c(1) checked_sub_def Let_def)
qed

text \<open>
  What a request has to satisfy for the arithmetic to stay within 64 bits, and what it gets: a
  place that fits in a free region, the lowest one that there is or, in reverse, the highest one.
\<close>

definition in_bounds :: "u64 \<Rightarrow> u64 \<Rightarrow> AddressAllocator \<Rightarrow> bool" where
  "in_bounds size' alignment a \<longleftrightarrow> unat size' + unat alignment \<le> 2 ^ 64 \<and> - 1 \<notin> free a"

definition fits_free :: "u64 \<Rightarrow> u64 \<Rightarrow> AddressAllocator \<Rightarrow> u64 \<Rightarrow> bool" where
  "fits_free size' alignment a s \<longleftrightarrow> (\<exists>r \<in> set (regions a). fit size' alignment r s)"

definition best :: "bool \<Rightarrow> (u64 \<Rightarrow> bool) \<Rightarrow> u64 \<Rightarrow> bool" where
  "best reverse P s \<longleftrightarrow> P s \<and> (\<forall>s'. P s' \<longrightarrow> (if reverse then s' \<le> s else s \<le> s'))"

lemma fit_bounds: "fit size' al r s \<Longrightarrow> size' \<noteq> 0 \<Longrightarrow> start r \<le> s \<and> s \<le> end' r"
  unfolding fit_def word_le_nat_alt by (elim size_pred conjE) (intro conjI, assumption, linarith)

lemma best_in_order:
  assumes "separated (xs @ r # ys)" and "size' \<noteq> 0"
    and "best reverse (fit size' al r) s"
    and "\<And>x. x \<in> set (if reverse then ys else xs) \<Longrightarrow> \<forall>s. \<not> fit size' al x s"
  shows "best reverse (\<lambda>s. \<exists>r \<in> set (xs @ r # ys). fit size' al r s) s"
proof -
  have s: "start r \<le> s" "s \<le> end' r" using assms(2,3) fit_bounds by (auto simp: best_def)
  have ord: "\<And>x. x \<in> set xs \<Longrightarrow> end' x < start r" "\<And>y. y \<in> set ys \<Longrightarrow> end' r < start y"
    using assms(1) by (auto simp: separated_append)
  have bound: "if reverse then s' \<le> s else s \<le> s'" if x: "x \<in> set (xs @ r # ys)" and f: "fit size' al x s'" for x s'
    using x assms(3,4) ord(1) [of x] ord(2) [of x] f fit_bounds [OF f assms(2)] s
    by (auto simp: best_def split: if_splits)
  have "\<exists>x \<in> set (xs @ r # ys). fit size' al x s" using assms(3) by (auto simp: best_def)
  then show ?thesis unfolding best_def using bound by blast
qed

definition find_region :: "bool \<Rightarrow> u64 \<Rightarrow> u64 \<Rightarrow> range_set \<Rightarrow> AddressRange option option" where
  "find_region reverse size' al rs =
     (if \<not> reverse then find_checked (fits_forward size' al) rs
      else find_checked (fits_reverse size' al) (rev rs))"

definition place :: "bool \<Rightarrow> u64 \<Rightarrow> u64 \<Rightarrow> AddressRange \<Rightarrow> u64 option" where
  "place reverse size' al slot =
     (if \<not> reverse then start_forward al slot else start_reverse size' al slot)"

lemma find_region_None:
  assumes "is_power_of_two al" and "size' \<noteq> 0" and "find_region reverse size' al rs = Some None" and "r \<in> set rs"
  shows "\<not> fit size' al r s"
proof (cases reverse)
  case True
  with assms(3,4) have "fits_reverse size' al r = Some False"
    by (simp add: find_region_def find_checked_None)
  with fits_reverse_spec [OF assms(1,2), of r] show ?thesis by auto
next
  case False
  with assms(3,4) have "fits_forward size' al r = Some False"
    by (simp add: find_region_def find_checked_None)
  with fits_forward_spec [OF assms(1,2) this] show ?thesis by auto
qed

lemma find_region_Some:
  assumes "is_power_of_two al" and "size' \<noteq> 0" and "separated rs"
    and found: "find_region reverse size' al rs = Some (Some slot)"
  shows "\<exists>s. slot \<in> set rs \<and> place reverse size' al slot = Some s \<and> fit size' al slot s \<and>
    best reverse (\<lambda>s. \<exists>r \<in> set rs. fit size' al r s) s"
proof (cases reverse)
  case True
  with found obtain us vs where rs: "rev rs = us @ slot # vs" "fits_reverse size' al slot = Some True"
    and no: "\<forall>y \<in> set us. fits_reverse size' al y = Some False"
    by (auto simp: find_region_def dest!: find_checked_Some)
  have rs': "rs = rev vs @ slot # rev us" using arg_cong [OF rs(1), of rev] by simp
  from fits_reverse_spec [OF assms(1,2), of slot] rs(2) obtain s where
    s: "start_reverse size' al slot = Some s" "best True (fit size' al slot) s" by (auto simp: best_def)
  have none: "\<forall>s. \<not> fit size' al y s" if "y \<in> set (rev us)" for y
    using fits_reverse_spec [OF assms(1,2), of y] no that by auto
  have "best True (\<lambda>s. \<exists>r \<in> set (rev vs @ slot # rev us). fit size' al r s) s"
    using assms(3) rs' none s(2) assms(2) by (intro best_in_order) auto
  with s True rs' show ?thesis by (auto simp: place_def best_def)
next
  case False
  with found obtain us vs where rs: "rs = us @ slot # vs" "fits_forward size' al slot = Some True"
    and no: "\<forall>y \<in> set us. fits_forward size' al y = Some False"
    by (auto simp: find_region_def dest!: find_checked_Some)
  from fits_forward_spec [OF assms(1,2) rs(2)] obtain s where
    s: "start_forward al slot = Some s" "best False (fit size' al slot) s" by (auto simp: best_def)
  have none: "\<forall>s. \<not> fit size' al y s" if "y \<in> set us" for y
    using fits_forward_spec [OF assms(1,2), of y False] no that by auto
  have "best False (\<lambda>s. \<exists>r \<in> set (us @ slot # vs). fit size' al r s) s"
    using assms(3) rs none s(2) assms(2) by (intro best_in_order) auto
  with s False rs show ?thesis by (auto simp: place_def best_def)
qed

lemma find_region_returns:
  assumes "is_power_of_two al" and "size' \<noteq> 0" and "unat size' + unat al \<le> 2 ^ 64"
  shows "find_region reverse size' al rs \<noteq> None"
proof -
  have "fits_reverse size' al r \<noteq> None" for r using fits_reverse_spec [OF assms(1,2), of r] by auto
  with fits_forward_returns [OF assms] find_checked_total show ?thesis
    unfolding find_region_def by (metis (full_types))
qed

lemma internal_allocate_with_align_alt:
  assumes "map_of (allocs a) k = None" and "size' \<noteq> 0" and "is_power_of_two (max (min_align a) al)"
  shows "internal_allocate_with_align size' k t al reverse a =
    Option.bind (find_region reverse size' (max (min_align a) al) (regions a)) (\<lambda>region.
      case region of
        None \<Rightarrow> Some (Err OutOfSpace, a)
      | Some slot \<Rightarrow>
          Option.bind (place reverse size' (max (min_align a) al) slot) (\<lambda>s.
          Option.bind (checked_add s size') (\<lambda>e.
          Option.bind (checked_sub e 1) (\<lambda>e.
            internal_allocate_from_slot slot \<lparr>start = s, end' = e\<rparr> k t a))))"
  using assms
  unfolding internal_allocate_with_align_def Let_def find_region_def place_def by simp

text \<open>The range that is taken, where computing its end does not overflow.\<close>

lemma taken_range:
  assumes "fit size' al slot s" and "size' \<noteq> 0" and "checked_add s size' = Some e"
  shows "checked_sub e 1 = Some (s + size' - 1) \<and> contains_range slot \<lparr>start = s, end' = s + size' - 1\<rparr> \<and>
    unat (s + size' - 1) = unat s + unat size' - 1"
proof -
  from assms(3) have e: "e = s + size'" "unat e = unat s + unat size'" by (auto simp only: checked_add_Some)
  from assms(2) obtain m where "checked_sub size' 1 = Some m" and m: "unat size' = Suc (unat m)"
    by (rule size_pred)
  have "e \<noteq> 0" using e(2) m by auto
  then have "unat (e - 1) = unat e - 1" "checked_sub e 1 = Some (e - 1)"
    by (simp_all add: unat_minus_one checked_sub_def word_le_nat_alt unat_gt_0 Suc_le_eq)
  with assms(1) e m show ?thesis
    by (auto simp: fit_def contains_range_def is_empty_def word_le_nat_alt word_less_nat_alt)
qed

definition allocated ::
    "bool \<Rightarrow> u64 \<Rightarrow> Alloc \<Rightarrow> string \<Rightarrow> u64 \<Rightarrow> AddressAllocator \<Rightarrow> u64 alloc_result \<Rightarrow> AddressAllocator \<Rightarrow> bool" where
  "allocated reverse size' k t al a res a' \<longleftrightarrow>
     (case res of
        Inl e \<Rightarrow> a' = a \<and>
          (if map_of (allocs a) k \<noteq> None then e = ExistingAlloc k
           else if size' = 0 then e = AllocSizeZero
           else if \<not> is_power_of_two al then e = BadAlignment
           else e = OutOfSpace \<and> (\<forall>s. \<not> fits_free size' al a s))
      | Inr s \<Rightarrow>
          size' \<noteq> 0 \<and> is_power_of_two al \<and> best reverse (fits_free size' al a) s \<and>
          unat s + unat size' \<le> 2 ^ 64 \<and>
          took k \<lparr>start = s, end' = s + size' - 1\<rparr> t a a')"

lemma internal_allocate_with_align_spec:
  assumes inv: "allocator_inv a" and run: "internal_allocate_with_align size' k t al reverse a = Some (res, a')"
  shows "allocated reverse size' k t (max (min_align a) al) a res a'"
proof (cases "map_of (allocs a) k = None \<and> size' \<noteq> 0 \<and> is_power_of_two (max (min_align a) al)")
  case False
  with run show ?thesis
    by (auto simp: allocated_def internal_allocate_with_align_def Let_def split: if_splits)
next
  case True
  let ?A = "max (min_align a) al"
  from inv have sep: "separated (regions a)" by (simp add: allocator_inv_def)
  note run' = run [unfolded internal_allocate_with_align_alt [OF True [THEN conjunct1]
      True [THEN conjunct2, THEN conjunct1] True [THEN conjunct2, THEN conjunct2]]]
  from run' obtain region where region: "find_region reverse size' ?A (regions a) = Some region"
    by (auto simp: bind_eq_Some_conv)
  show ?thesis
  proof (cases region)
    case None
    with run' region have "res = Err OutOfSpace" "a' = a" by simp_all
    with find_region_None [of ?A size' reverse "regions a"] region None True show ?thesis
      by (auto simp: allocated_def fits_free_def)
  next
    case (Some slot)
    from find_region_Some [OF _ _ sep, of ?A size' reverse slot] region Some True obtain s where
      s: "slot \<in> set (regions a)" "place reverse size' ?A slot = Some s" "fit size' ?A slot s"
      "best reverse (fits_free size' ?A a) s" by (auto simp: fits_free_def [abs_def])
    from run' region Some s(2) obtain e where e: "checked_add s size' = Some e"
      by (auto simp: bind_eq_Some_conv)
    note taken = taken_range [OF s(3) _ e]
    from internal_allocate_from_slot_takes [OF inv s(1), of "\<lparr>start = s, end' = s + size' - 1\<rparr>" k t] taken True
    obtain b where b: "internal_allocate_from_slot slot \<lparr>start = s, end' = s + size' - 1\<rparr> k t a = Some (Ok s, b)"
      "took k \<lparr>start = s, end' = s + size' - 1\<rparr> t a b" by auto
    with run' region Some s(2) e taken True have "res = Ok s" "a' = b" by simp_all
    moreover have "unat s + unat size' \<le> 2 ^ 64"
      using s(3) unat_lt64 [of "end' slot"] unfolding fit_def by linarith
    ultimately show ?thesis using b(2) s(4) True by (simp add: allocated_def)
  qed
qed

lemma internal_allocate_with_align_returns:
  assumes inv: "allocator_inv a" and bounds: "in_bounds size' (max (min_align a) al) a"
  shows "\<exists>res a'. internal_allocate_with_align size' k t al reverse a = Some (res, a')"
proof (cases "map_of (allocs a) k = None \<and> size' \<noteq> 0 \<and> is_power_of_two (max (min_align a) al)")
  case False
  then show ?thesis by (auto simp: internal_allocate_with_align_def Let_def)
next
  case True
  let ?A = "max (min_align a) al"
  from inv have sep: "separated (regions a)" by (simp add: allocator_inv_def)
  note alt = internal_allocate_with_align_alt [OF True [THEN conjunct1]
      True [THEN conjunct2, THEN conjunct1] True [THEN conjunct2, THEN conjunct2]]
  from find_region_returns [of ?A size' reverse "regions a"] True bounds obtain region where
    region: "find_region reverse size' ?A (regions a) = Some region" by (auto simp: in_bounds_def)
  show ?thesis
  proof (cases region)
    case None
    with region show ?thesis by (simp add: alt)
  next
    case (Some slot)
    from find_region_Some [OF _ _ sep, of ?A size' reverse slot] region Some True obtain s where
      s: "slot \<in> set (regions a)" "place reverse size' ?A slot = Some s" "fit size' ?A slot s" by auto
    have "end' slot \<in> addrs slot" using separated_nonempty [OF sep s(1)] by (simp add: addrs_def is_empty_def)
    then have "end' slot \<noteq> - 1" using bounds s(1) by (auto simp: in_bounds_def covered_def)
    then have "unat (end' slot) + 1 < 2 ^ 64" by (rule unat_below_max)
    then have "unat s + unat size' < 2 ^ 64" using s(3) unfolding fit_def by linarith
    then have e: "checked_add s size' = Some (s + size')" by (simp add: checked_add_def)
    note taken = taken_range [OF s(3) _ e]
    from internal_allocate_from_slot_takes [OF inv s(1), of "\<lparr>start = s, end' = s + size' - 1\<rparr>" k t] taken True
    show ?thesis by (auto simp: alt region Some s(2) e)
  qed
qed

end
