(* ===== verification/AddressSpace.thy ===== *)
theory AddressSpace
  imports AddressAllocator
begin

text \<open>
  The operations of \<open>AddressAllocator\<close> in sequence: releasing gives back what was allocated, every
  operation keeps the invariant, and the contract that the clients of an allocator rely on.
\<close>

section \<open>Releasing\<close>

lemma btree_max_le_below:
  assumes "separated rs" and "\<not> is_empty slot" and "addrs slot \<inter> covered rs = {}"
    and "btree_max_le slot rs = Some x"
  shows "x \<in> set rs \<and> end' x < start slot"
proof -
  from assms(4) have x: "x \<in> set rs" "range_cmp x slot \<noteq> Greater"
    by (auto simp: btree_max_le_def find_Some_iff) (metis nth_mem set_rev length_rev)
  from assms(1) x(1) have "\<not> is_empty x" by (rule separated_nonempty)
  moreover have "addrs x \<inter> addrs slot = {}" using assms(3) x(1) by (auto simp: covered_def)
  ultimately show ?thesis
    using disjoint_ranges [of x slot] range_cmp_apart(2) [of x slot] assms(2) x by auto
qed

lemma btree_min_gt_above:
  assumes "separated rs" and "\<not> is_empty slot" and "addrs slot \<inter> covered rs = {}"
    and "btree_min_gt slot rs = Some y"
  shows "y \<in> set rs \<and> end' slot < start y"
proof -
  from assms(4) have y: "y \<in> set rs" "range_cmp y slot = Greater"
    by (auto simp: btree_min_gt_def find_Some_iff)
  from assms(1) y(1) have "\<not> is_empty y" by (rule separated_nonempty)
  moreover have "addrs y \<inter> addrs slot = {}" using assms(3) y(1) by (auto simp: covered_def)
  ultimately show ?thesis
    using disjoint_ranges [of y slot] range_cmp_apart(1) [of y slot] assms(2) y by auto
qed

text \<open>Removing a region and joining it to a slot next to it.\<close>

lemma join_region:
  assumes "separated rs" and "addrs slot \<inter> covered rs = {}" and "x \<in> set rs"
    and "addrs slot' = addrs slot \<union> addrs x"
  shows "separated (snd (btree_remove x rs)) \<and> set (snd (btree_remove x rs)) = set rs - {x} \<and>
    addrs slot' \<inter> covered (snd (btree_remove x rs)) = {} \<and>
    addrs slot' \<union> covered (snd (btree_remove x rs)) = addrs slot \<union> covered rs"
proof -
  from separated_remove [OF assms(1,3)] obtain rs' where "btree_remove x rs = (True, rs')" "separated rs'"
    "set rs' = set rs - {x}" "covered rs' = covered rs - addrs x" by blast
  moreover have "addrs x \<subseteq> covered rs" using assms(3) by (auto simp: covered_def)
  ultimately show ?thesis using assms(2,4) by auto
qed

lemma addrs_join_below:
  assumes "\<not> is_empty x" and "\<not> is_empty slot" and "end' x < start slot" and "end' x + 1 = start slot"
  shows "addrs (slot\<lparr>start := start x\<rparr>) = addrs slot \<union> addrs x"
proof -
  have "p \<le> end' x \<or> start slot \<le> p" for p
    using succ_le_iff [OF assms(3), of p] assms(4) by (auto simp: not_le)
  moreover have "start x \<le> end' x" "start slot \<le> end' slot" using assms(1,2) by (auto simp: is_empty_def)
  ultimately have "start x \<le> p \<and> p \<le> end' slot \<longleftrightarrow> start slot \<le> p \<and> p \<le> end' slot \<or> start x \<le> p \<and> p \<le> end' x" for p
    using assms(3) by (meson order.strict_trans1 order.strict_trans2 order.trans less_imp_le)
  then show ?thesis by (simp add: addrs_def set_eq_iff)
qed

lemma next_below:
  assumes "end' x < start slot"
  shows "checked_add (end' x) 1 = Some (end' x + 1)"
    and "cmp (end' x + 1) (start slot) = (if end' x + 1 = start slot then Equal else Less)"
proof -
  have "unat (end' x) + 1 < 2 ^ 64"
    using assms unat_lt64 [of "start slot"] unfolding word_less_nat_alt by linarith
  then show "checked_add (end' x) 1 = Some (end' x + 1)" by (simp add: checked_add_def)
  show "cmp (end' x + 1) (start slot) = (if end' x + 1 = start slot then Equal else Less)"
    using assms succ_le_iff [OF assms, of "start slot"] by (auto simp: cmp_def)
qed

lemma prev_above:
  assumes "end' slot < start y"
  shows "checked_sub (start y) 1 = Some (start y - 1)"
    and "cmp (end' slot) (start y - 1) = (if end' slot = start y - 1 then Equal else Less)"
proof -
  have "1 \<le> unat (start y)" using assms unfolding word_less_nat_alt by linarith
  then show "checked_sub (start y) 1 = Some (start y - 1)" by (simp add: checked_sub_def word_le_nat_alt)
  show "cmp (end' slot) (start y - 1) = (if end' slot = start y - 1 then Equal else Less)"
    using assms le_pred_iff [OF assms, of "end' slot"] by (auto simp: cmp_def)
qed

lemma addrs_join_above:
  assumes "\<not> is_empty y" and "\<not> is_empty slot" and "end' slot < start y" and "end' slot = start y - 1"
  shows "addrs (slot\<lparr>end' := end' y\<rparr>) = addrs slot \<union> addrs y"
proof -
  have "p \<le> end' slot \<or> start y \<le> p" for p
    using le_pred_iff [OF assms(3), of p] assms(4) by (auto simp: not_le)
  moreover have "start y \<le> end' y" "start slot \<le> end' slot" using assms(1,2) by (auto simp: is_empty_def)
  ultimately have "start slot \<le> p \<and> p \<le> end' y \<longleftrightarrow> start slot \<le> p \<and> p \<le> end' slot \<or> start y \<le> p \<and> p \<le> end' y" for p
    using assms(3) by (meson order.strict_trans1 order.strict_trans2 order.trans less_imp_le)
  then show ?thesis by (simp add: addrs_def set_eq_iff)
qed

lemma insert_at_joins:
  assumes sep: "separated (regions a)" and slot: "\<not> is_empty slot" "addrs slot \<inter> free a = {}"
  shows "\<exists>rs. insert_at slot a = (Ok (), a\<lparr>regions := rs\<rparr>) \<and> separated rs \<and> covered rs = free a \<union> addrs slot"
proof -
  define lower where "lower = (case btree_max_le slot (regions a) of None \<Rightarrow> None
    | Some x \<Rightarrow> if end' x + 1 = start slot then Some x else None)"
  define upper where "upper = (case btree_min_gt slot (regions a) of None \<Rightarrow> None
    | Some y \<Rightarrow> if end' slot = start y - 1 then Some y else None)"
  define slot1 where "slot1 = (case lower of None \<Rightarrow> slot | Some x \<Rightarrow> slot\<lparr>start := start x\<rparr>)"
  define rs1 where "rs1 = (case lower of None \<Rightarrow> regions a | Some x \<Rightarrow> snd (btree_remove x (regions a)))"
  define slot2 where "slot2 = (case upper of None \<Rightarrow> slot1 | Some y \<Rightarrow> slot1\<lparr>end' := end' y\<rparr>)"
  define rs2 where "rs2 = (case upper of None \<Rightarrow> rs1 | Some y \<Rightarrow> snd (btree_remove y rs1))"
  have x: "x \<in> set (regions a)" "end' x < start slot" "\<not> is_empty x" if "btree_max_le slot (regions a) = Some x" for x
    using btree_max_le_below [OF sep slot that] separated_nonempty [OF sep] by auto
  have y: "y \<in> set (regions a)" "end' slot < start y" "\<not> is_empty y" if "btree_min_gt slot (regions a) = Some y" for y
    using btree_min_gt_above [OF sep slot that] separated_nonempty [OF sep] by auto
  have 1: "separated rs1 \<and> addrs slot1 \<inter> covered rs1 = {} \<and> addrs slot1 \<union> covered rs1 = addrs slot \<union> free a \<and>
      \<not> is_empty slot1 \<and> end' slot1 = end' slot \<and> {y \<in> set (regions a). end' slot < start y} \<subseteq> set rs1"
  proof (cases lower)
    case None
    then show ?thesis using sep slot by (auto simp: slot1_def rs1_def)
  next
    case (Some l)
    then have l: "btree_max_le slot (regions a) = Some l" "end' l + 1 = start slot"
      by (auto simp: lower_def split: option.splits if_splits)
    note j = join_region [OF sep slot(2) x(1) [OF l(1)] addrs_join_below [OF x(3) [OF l(1)] slot(1) x(2) [OF l(1)] l(2)]]
    have "l \<notin> {y \<in> set (regions a). end' slot < start y}"
      using x(2,3) [OF l(1)] slot(1) by (auto simp: is_empty_def)
    with j x(2,3) [OF l(1)] slot(1) Some show ?thesis by (auto simp: slot1_def rs1_def is_empty_def)
  qed
  have 2: "separated rs2 \<and> addrs slot2 \<inter> covered rs2 = {} \<and> addrs slot2 \<union> covered rs2 = addrs slot \<union> free a \<and>
      \<not> is_empty slot2"
  proof (cases upper)
    case None
    then show ?thesis using 1 by (simp add: slot2_def rs2_def)
  next
    case (Some u)
    then have u: "btree_min_gt slot (regions a) = Some u" "end' slot = start u - 1"
      by (auto simp: upper_def split: option.splits if_splits)
    have mem: "u \<in> set rs1" using 1 y(1,2) [OF u(1)] by auto
    have "addrs (slot1\<lparr>end' := end' u\<rparr>) = addrs slot1 \<union> addrs u"
      using 1 y(2,3) [OF u(1)] u(2) by (intro addrs_join_above) auto
    from join_region [OF _ _ mem this] 1 y(2,3) [OF u(1)] Some show ?thesis
      by (auto simp: slot2_def rs2_def is_empty_def)
  qed
  have "insert_at slot a = (Ok (), a\<lparr>regions := btree_insert slot2 rs2\<rparr>)"
    using slot(1) x(2) y(2) unfolding insert_at_def slot2_def rs2_def slot1_def rs1_def
    by (cases "btree_max_le slot (regions a)"; cases "btree_min_gt slot (regions a)")
      (simp_all add: lower_def upper_def next_below prev_above Let_def)
  with separated_insert [of rs2 slot2] 2 show ?thesis by (auto simp: covered_insert)
qed

lemma release_gives:
  assumes inv: "allocator_inv a" and k: "map_of (allocs a) k = Some (r, t)"
  shows "\<exists>a'. release k a = (Ok r, a') \<and> gave k r a a'"
proof -
  define a1 where "a1 = a\<lparr>allocs := AList.delete k (allocs a)\<rparr>"
  have "held a k = addrs r" using k by (simp add: held_def)
  with inv have "addrs r \<inter> free a = {}" by (metis allocator_inv_def)
  moreover have "separated (regions a)" using inv by (simp add: allocator_inv_def)
  moreover have "\<not> is_empty r" using inv k by (metis allocator_inv_def)
  ultimately obtain rs where rs: "insert_at r a1 = (Ok (), a1\<lparr>regions := rs\<rparr>)" "separated rs"
    "covered rs = free a \<union> addrs r"
    using insert_at_joins [of a1 r] by (auto simp: a1_def)
  then have "release k a = (Ok r, a1\<lparr>regions := rs\<rparr>)" by (simp add: release_def k a1_def)
  moreover have "gave k r a (a1\<lparr>regions := rs\<rparr>)"
    using inv k rs by (auto simp: gave_def a1_def delete_conv' distinct_delete allocator_inv_def)
  ultimately show ?thesis by blast
qed

lemma release_missing: "map_of (allocs a) k = None \<Longrightarrow> release k a = (Err (BadAlloc k), a)"
  by (simp add: release_def)

text \<open>The order in which a \<open>HashMap\<close> is iterated: all of its entries, somehow.\<close>

definition hash_order :: "(allocs \<Rightarrow> allocs) \<Rightarrow> bool" where
  "hash_order order \<longleftrightarrow> (\<forall>xs. set (order xs) = set xs)"

lemma hash_order_id: "hash_order id"
  by (simp add: hash_order_def)

lemma find_overlapping_None:
  assumes "hash_order order" and "\<not> is_empty rng" and "find_overlapping order rng a = None"
  shows "held a k \<inter> addrs rng = {}"
proof (cases "map_of (allocs a) k")
  case (Some v)
  obtain r t where v: "v = (r, t)" by (cases v)
  with Some have "(k, r, t) \<in> set (order (allocs a))"
    using assms(1) by (simp add: hash_order_def map_of_SomeD)
  with assms(2,3) have "\<not> overlaps r rng" by (auto simp: find_overlapping_def find_None_iff)
  with Some v show ?thesis by (simp add: held_def overlaps_iff)
qed (simp add: held_def)

lemma find_overlapping_Some:
  assumes "hash_order order" and "allocator_inv a" and "find_overlapping order rng a = Some k"
  shows "\<exists>r t. map_of (allocs a) k = Some (r, t) \<and> addrs r \<inter> addrs rng \<noteq> {}"
proof -
  from assms(3) obtain x where x: "List.find (\<lambda>(_, r, _). overlaps r rng) (order (allocs a)) = Some x" "fst x = k"
    by (auto simp: find_overlapping_def split: if_splits)
  obtain r t where "x = (k, r, t)" using x(2) by (cases x) auto
  with x(1) have "(k, r, t) \<in> set (order (allocs a))" "overlaps r rng"
    by (auto simp: find_Some_iff) (metis nth_mem)
  then show ?thesis
    using assms(1,2) by (auto simp: hash_order_def allocator_inv_def overlaps_iff)
qed

definition allocated_at ::
    "AddressRange \<Rightarrow> Alloc \<Rightarrow> string \<Rightarrow> AddressAllocator \<Rightarrow> unit alloc_result \<Rightarrow> AddressAllocator \<Rightarrow> bool" where
  "allocated_at rng k t a res a' \<longleftrightarrow>
     (case res of
        Inl e \<Rightarrow> a' = a \<and>
          (if map_of (allocs a) k \<noteq> None then e = ExistingAlloc k
           else if is_empty rng then e = AllocSizeZero
           else (\<forall>slot \<in> set (regions a). \<not> addrs rng \<subseteq> addrs slot) \<and>
             (if \<forall>k'. held a k' \<inter> addrs rng = {} then e = OutOfSpace
              else \<exists>k'. e = ExistingAlloc k' \<and> held a k' \<inter> addrs rng \<noteq> {}))
      | Inr _ \<Rightarrow> took k rng t a a')"

lemma allocate_at_spec:
  assumes "hash_order order" and inv: "allocator_inv a"
  shows "\<exists>res a'. allocate_at order rng k t a = Some (res, a') \<and> allocated_at rng k t a res a'"
proof (cases "map_of (allocs a) k = None \<and> \<not> is_empty rng")
  case False
  then show ?thesis by (auto simp: allocate_at_def allocated_at_def)
next
  case True
  show ?thesis
  proof (cases "List.find (\<lambda>r. contains_range r rng) (regions a)")
    case (Some slot)
    then have "slot \<in> set (regions a)" "contains_range slot rng"
      by (auto simp: find_Some_iff)
    from internal_allocate_from_slot_takes [OF inv this, of k t] True Some show ?thesis
      by (auto simp: allocate_at_def allocated_at_def)
  next
    case None
    then have no: "\<forall>slot \<in> set (regions a). \<not> addrs rng \<subseteq> addrs slot"
      using True by (auto simp: find_None_iff contains_range_iff addrs_empty_iff)
    show ?thesis
    proof (cases "find_overlapping order rng a")
      case N: None
      with find_overlapping_None [OF assms(1) _ N] True None no show ?thesis
        by (auto simp: allocate_at_def allocated_at_def)
    next
      case (Some k')
      with find_overlapping_Some [OF assms(1) inv Some] have "held a k' \<inter> addrs rng \<noteq> {}"
        by (auto simp: held_def)
      with Some True None no show ?thesis by (auto simp: allocate_at_def allocated_at_def)
    qed
  qed
qed

section \<open>Preferred alignment\<close>

definition allocate_preferred ::
    "bool \<Rightarrow> u64 \<Rightarrow> Alloc \<Rightarrow> string \<Rightarrow> AddressAllocator \<Rightarrow> (u64 alloc_result \<times> AddressAllocator) option" where
  "allocate_preferred reverse size' k t a =
     (if reverse then reverse_allocate size' k t a else allocate size' k t a)"

definition chosen_align :: "u64 \<Rightarrow> AddressAllocator \<Rightarrow> u64" where
  "chosen_align size' a =
     (if \<exists>s. fits_free size' (preferred_align a) a s then preferred_align a else min_align a)"

lemma allocate_preferred_alt:
  "allocate_preferred reverse size' k t a =
     Option.bind (internal_allocate_with_align size' k t (preferred_align a) reverse a) (\<lambda>(r, a').
       case r of
         Inr s \<Rightarrow> Some (Ok s, a')
       | Inl _ \<Rightarrow> internal_allocate_with_align size' k t (min_align a') reverse a')"
  unfolding allocate_preferred_def reverse_allocate_def allocate_def allocate_with_align_def
    reverse_allocate_with_align_def by (induct reverse rule: bool.induct) simp_all

lemma allocate_preferred_spec:
  assumes inv: "allocator_inv a" and run: "allocate_preferred reverse size' k t a = Some (res, a')"
  shows "allocated reverse size' k t (chosen_align size' a) a res a'"
proof -
  from inv have al: "max (min_align a) (preferred_align a) = preferred_align a"
    "is_power_of_two (preferred_align a)" "is_power_of_two (min_align a)"
    by (simp_all add: allocator_inv_def)
  from run obtain r b where b: "internal_allocate_with_align size' k t (preferred_align a) reverse a = Some (r, b)"
    and rest: "(case r of Inr s \<Rightarrow> Some (Ok s, b) | Inl _ \<Rightarrow> internal_allocate_with_align size' k t (min_align b) reverse b) =
      Some (res, a')"
    by (auto simp: allocate_preferred_alt bind_eq_Some_conv)
  note first = internal_allocate_with_align_spec [OF inv b, unfolded al(1)]
  show ?thesis
  proof (cases r)
    case (Inr s)
    with rest first show ?thesis by (auto simp: allocated_def chosen_align_def best_def)
  next
    case (Inl e)
    with first have "b = a" by (simp add: allocated_def)
    with rest Inl have "internal_allocate_with_align size' k t (min_align a) reverse a = Some (res, a')" by simp
    note second = internal_allocate_with_align_spec [OF inv this, simplified]
    from first second Inl al(2,3) show ?thesis
      by (auto simp: allocated_def chosen_align_def took_def split: sum.splits if_splits)
  qed
qed

lemma allocate_preferred_returns:
  assumes inv: "allocator_inv a" and bounds: "in_bounds size' (preferred_align a) a"
  shows "\<exists>res a'. allocate_preferred reverse size' k t a = Some (res, a')"
proof -
  from inv have al: "max (min_align a) (preferred_align a) = preferred_align a" "min_align a \<le> preferred_align a"
    by (simp_all add: allocator_inv_def)
  from internal_allocate_with_align_returns [OF inv, of size' "preferred_align a" k t reverse] bounds al(1)
  obtain r b where b: "internal_allocate_with_align size' k t (preferred_align a) reverse a = Some (r, b)" by auto
  show ?thesis
  proof (cases r)
    case (Inr s)
    with b show ?thesis by (simp add: allocate_preferred_alt)
  next
    case (Inl e)
    with internal_allocate_with_align_spec [OF inv b] have "b = a" by (simp add: allocated_def)
    moreover have "in_bounds size' (max (min_align a) (min_align a)) a"
      using bounds al(2) by (auto simp: in_bounds_def word_le_nat_alt)
    from internal_allocate_with_align_returns [OF inv this, of k t reverse]
    obtain r' c where "internal_allocate_with_align size' k t (min_align a) reverse a = Some (r', c)" by blast
    ultimately show ?thesis using b Inl by (simp add: allocate_preferred_alt)
  qed
qed

section \<open>The contract of an allocator\<close>

text \<open>
  What the users of an allocator rely on: names acquire and relinquish sets of resources that are
  free, and what one name holds is neither free nor held by another.
\<close>

lemma Union_upd_empty: "f k = {} \<Longrightarrow> (\<Union>j. (f(k := X)) j) = (\<Union>j. f j) \<union> X"
  by (auto split: if_splits)

locale exclusive_pool =
  fixes inv :: "'s \<Rightarrow> bool" and avail :: "'s \<Rightarrow> 'r set" and owned :: "'s \<Rightarrow> 'k \<Rightarrow> 'r set"
    and acquire :: "'k \<Rightarrow> 'r set \<Rightarrow> 's \<Rightarrow> 's \<Rightarrow> bool" and relinquish :: "'k \<Rightarrow> 'r set \<Rightarrow> 's \<Rightarrow> 's \<Rightarrow> bool"
  assumes acquire: "inv s \<Longrightarrow> acquire k X s s' \<Longrightarrow>
      inv s' \<and> owned s k = {} \<and> X \<subseteq> avail s \<and> avail s' = avail s - X \<and> owned s' = (owned s)(k := X)"
    and relinquish: "inv s \<Longrightarrow> relinquish k X s s' \<Longrightarrow>
      inv s' \<and> owned s k = X \<and> avail s' = avail s \<union> X \<and> owned s' = (owned s)(k := {})"
    and exclusive: "inv s \<Longrightarrow> k \<noteq> k' \<Longrightarrow> owned s k \<inter> owned s k' = {}"
    and not_avail: "inv s \<Longrightarrow> owned s k \<inter> avail s = {}"
begin

definition changed :: "'s \<Rightarrow> 's \<Rightarrow> bool" where
  "changed s s' \<longleftrightarrow> (\<exists>k X. acquire k X s s' \<or> relinquish k X s s')"

definition total_set :: "'s \<Rightarrow> 'r set" where
  "total_set s = avail s \<union> (\<Union>k. owned s k)"

lemma acquire_total:
  assumes "inv s" and "acquire k X s s'"
  shows "total_set s' = total_set s"
proof -
  note law = acquire [OF assms]
  have "(\<Union>j. owned s' j) = (\<Union>j. owned s j) \<union> X"
    using law Union_upd_empty [of "owned s" k X] by metis
  with law show ?thesis by (auto simp: total_set_def)
qed

lemma relinquish_total:
  assumes "inv s" and "relinquish k X s s'"
  shows "total_set s' = total_set s"
proof -
  note law = relinquish [OF assms]
  have "(\<Union>j. owned s j) = (\<Union>j. owned s' j) \<union> X"
    using law Union_upd_empty [of "owned s'" k X] by (metis fun_upd_same fun_upd_triv fun_upd_upd)
  with law show ?thesis by (auto simp: total_set_def)
qed

lemma changed_keeps:
  assumes "inv s" and "changed s s'"
  shows "inv s' \<and> total_set s' = total_set s"
proof -
  from assms(2) consider k X where "acquire k X s s'" | k X where "relinquish k X s s'"
    unfolding changed_def by blast
  then show ?thesis
  proof cases
    case 1
    show ?thesis using acquire [OF assms(1) 1] acquire_total [OF assms(1) 1] by simp
  next
    case 2
    show ?thesis using relinquish [OF assms(1) 2] relinquish_total [OF assms(1) 2] by simp
  qed
qed

lemma run_keeps:
  assumes "changed\<^sup>*\<^sup>* s s'" and "inv s"
  shows "inv s' \<and> total_set s' = total_set s"
  using assms
proof (induction rule: rtranclp_induct)
  case (step y z)
  then show ?case using changed_keeps [of y z] by simp
qed simp

lemma acquire_relinquish:
  assumes "inv s" and "acquire k X s s'" and "relinquish k Y s' s''"
  shows "Y = X \<and> avail s'' = avail s \<and> owned s'' = owned s"
  using acquire [OF assms(1,2)] relinquish [OF _ assms(3)] fun_upd_triv [of "owned s" k] by auto

end

definition acquires :: "Alloc \<Rightarrow> u64 set \<Rightarrow> AddressAllocator \<Rightarrow> AddressAllocator \<Rightarrow> bool" where
  "acquires k X a a' \<longleftrightarrow> (\<exists>r t. X = addrs r \<and> took k r t a a')"

definition relinquishes :: "Alloc \<Rightarrow> u64 set \<Rightarrow> AddressAllocator \<Rightarrow> AddressAllocator \<Rightarrow> bool" where
  "relinquishes k X a a' \<longleftrightarrow> (\<exists>r. X = addrs r \<and> gave k r a a')"

interpretation pool: exclusive_pool allocator_inv "\<lambda>a. covered (regions a)" held acquires relinquishes
proof
  fix a k X a'
  assume a: "allocator_inv a" and "acquires k X a a'"
  then obtain r t where t: "X = addrs r" "took k r t a a'" by (auto simp: acquires_def)
  show "allocator_inv a' \<and> held a k = {} \<and> X \<subseteq> free a \<and> free a' = free a - X \<and> held a' = (held a)(k := X)"
    using took_inv [OF a t(2)] took_held [OF t(2)] t by (simp add: took_def held_fresh)
next
  fix a k X a'
  assume a: "allocator_inv a" and "relinquishes k X a a'"
  then obtain r where g: "X = addrs r" "gave k r a a'" by (auto simp: relinquishes_def)
  show "allocator_inv a' \<and> held a k = X \<and> free a' = free a \<union> X \<and> held a' = (held a)(k := {})"
    using gave_inv [OF a g(2)] gave_held [OF g(2)] g by (simp add: gave_def)
qed (auto simp: allocator_inv_def)

section \<open>Sequences of operations\<close>

datatype alloc_op =
    Allocate bool u64 Alloc string
  | AllocateWithAlign bool u64 Alloc string u64
  | AllocateAt AddressRange Alloc string
  | Release Alloc
  | ReleaseContaining u64

fun alloc_step :: "(allocs \<Rightarrow> allocs) \<Rightarrow> alloc_op \<Rightarrow> AddressAllocator \<Rightarrow> AddressAllocator option" where
  "alloc_step order (Allocate reverse size' k t) a =
     map_option snd (if reverse then reverse_allocate size' k t a else allocate size' k t a)"
| "alloc_step order (AllocateWithAlign reverse size' k t al) a =
     map_option snd (if reverse then reverse_allocate_with_align size' k t al a
                     else allocate_with_align size' k t al a)"
| "alloc_step order (AllocateAt r k t) a = map_option snd (allocate_at order r k t a)"
| "alloc_step order (Release k) a = Some (snd (release k a))"
| "alloc_step order (ReleaseContaining v) a = Some (snd (release_containing order v a))"

fun alloc_run :: "(allocs \<Rightarrow> allocs) \<Rightarrow> alloc_op list \<Rightarrow> AddressAllocator \<Rightarrow> AddressAllocator option" where
  "alloc_run order [] a = Some a"
| "alloc_run order (p # ps) a = Option.bind (alloc_step order p a) (alloc_run order ps)"

lemma took_changed: "took k r t a a' \<Longrightarrow> pool.changed a a'"
  by (auto simp: pool.changed_def acquires_def)

lemma gave_changed: "gave k r a a' \<Longrightarrow> pool.changed a a'"
  by (auto simp: pool.changed_def relinquishes_def)

lemma allocated_changed:
  "allocated reverse size' k t al a res a' \<Longrightarrow> a' = a \<or> pool.changed a a'"
  by (auto simp: allocated_def intro: took_changed split: sum.splits)

lemma release_changed:
  assumes "allocator_inv a"
  shows "snd (release k a) = a \<or> pool.changed a (snd (release k a))"
proof (cases "map_of (allocs a) k")
  case None
  then show ?thesis by (simp add: release_missing)
next
  case (Some v)
  with release_gives [OF assms, of k "fst v" "snd v"] show ?thesis by (auto intro: gave_changed)
qed

lemma alloc_step_changed:
  assumes "hash_order order" and inv: "allocator_inv a" and run: "alloc_step order p a = Some a'"
  shows "a' = a \<or> pool.changed a a'"
proof (cases p)
  case (Allocate reverse size' k t)
  with run obtain res where "allocate_preferred reverse size' k t a = Some (res, a')"
    by (auto simp: allocate_preferred_def)
  from allocated_changed [OF allocate_preferred_spec [OF inv this]] show ?thesis .
next
  case (AllocateWithAlign reverse size' k t al)
  with run obtain res where "internal_allocate_with_align size' k t al reverse a = Some (res, a')"
    by (cases reverse) (auto simp: allocate_with_align_def reverse_allocate_with_align_def)
  from allocated_changed [OF internal_allocate_with_align_spec [OF inv this]] show ?thesis .
next
  case (AllocateAt r k t)
  with run allocate_at_spec [OF assms(1) inv, of r k t] obtain res where "allocated_at r k t a res a'" by auto
  then show ?thesis by (cases res) (auto simp: allocated_at_def intro: took_changed)
next
  case (Release k)
  with run release_changed [OF inv, of k] show ?thesis by auto
next
  case (ReleaseContaining v)
  with run release_changed [OF inv] show ?thesis
    by (auto simp: release_containing_def split: option.splits)
qed

lemma alloc_run_changed:
  assumes "hash_order order" and "allocator_inv a" and "alloc_run order ps a = Some a'"
  shows "pool.changed\<^sup>*\<^sup>* a a'"
  using assms(2,3)
proof (induction ps arbitrary: a)
  case (Cons p ps)
  from Cons.prems(2) obtain b where b: "alloc_step order p a = Some b" "alloc_run order ps b = Some a'"
    by (auto simp: bind_eq_Some_conv)
  from alloc_step_changed [OF assms(1) Cons.prems(1) b(1)] show ?case
  proof
    assume "b = a"
    with Cons.IH Cons.prems(1) b(2) show ?thesis by simp
  next
    assume c: "pool.changed a b"
    with Cons.IH [OF _ b(2)] pool.changed_keeps [OF Cons.prems(1) c] show ?thesis
      by (meson converse_rtranclp_into_rtranclp)
  qed
qed simp

section \<open>New allocators\<close>

definition disjoint_pools :: "AddressRange list \<Rightarrow> bool" where
  "disjoint_pools ps \<longleftrightarrow> sorted_wrt (\<lambda>p q. addrs p \<inter> addrs q = {}) ps"

lemma fold_btree_insert:
  assumes "separated rs" and "list_all (\<lambda>p. \<not> is_empty p) ps" and "disjoint_pools ps"
    and "covered ps \<inter> covered rs = {}"
  shows "separated (fold btree_insert ps rs) \<and> covered (fold btree_insert ps rs) = covered ps \<union> covered rs"
  using assms
proof (induction ps arbitrary: rs)
  case (Cons p ps)
  have "addrs p \<inter> covered rs = {}" using Cons.prems(4) by auto
  then have p: "separated (btree_insert p rs)" "covered (btree_insert p rs) = addrs p \<union> covered rs"
    using separated_insert [of rs p] Cons.prems(1,2) by (simp_all add: covered_insert)
  have "covered ps \<inter> addrs p = {}" using Cons.prems(3) by (auto simp: disjoint_pools_def covered_def)
  with Cons.IH [OF p(1)] Cons.prems p(2) show ?case by (auto simp: disjoint_pools_def)
qed simp

lemma covered_filter: "covered (filter (\<lambda>p. \<not> is_empty p) ps) = covered ps"
  by (auto simp: covered_def addrs_empty_iff [symmetric])

lemma new_from_list_inv:
  assumes "new_from_list ps m p = Ok a" and "disjoint_pools ps"
  shows "allocator_inv a \<and> free a = covered ps \<and> allocs a = []"
proof -
  let ?ps = "filter (\<lambda>p. \<not> is_empty p) ps"
  from assms(1) have a: "pools a = ?ps" "regions a = fold btree_insert ?ps []" "allocs a = []"
    "is_power_of_two (min_align a)" "is_power_of_two (preferred_align a)" "min_align a \<le> preferred_align a"
    by (auto simp: new_from_list_def Let_def split: if_splits)
  have "disjoint_pools ?ps" using assms(2) by (simp add: disjoint_pools_def sorted_wrt_filter)
  then have "separated (regions a) \<and> free a = covered ?ps"
    using fold_btree_insert [of "[]" ?ps] by (simp add: a(2) list_all_iff)
  then show ?thesis using a by (simp add: allocator_inv_def held_def covered_filter)
qed

section \<open>Lemmas on single operations\<close>

lemma checked_add_eq:
  "checked_add a b = Some c \<longleftrightarrow> unat (c :: u64) = unat a + unat b"
  using checked_add_Some [of a b c] unat_lt64 [of c] by (auto simp: word_unat_eq_iff unat_word_ariths)

lemma range_in_bar:
  "(case from_start_and_size x size' of None \<Rightarrow> False | Some r' \<Rightarrow> contains_range r r') \<longleftrightarrow>
     size' \<noteq> 0 \<and> start r \<le> x \<and> unat x + unat size' \<le> Suc (unat (end' r))"
proof (cases "size' = 0")
  case True
  then show ?thesis by (simp add: from_start_and_size_def contains_range_def is_empty_def AddressRange_empty_def)
next
  case False
  then obtain m where m: "checked_sub size' 1 = Some m" "unat size' = Suc (unat m)" by (rule size_pred)
  then have "size' - 1 = m" by (auto simp: checked_sub_def split: if_splits)
  have "(case from_start_and_size x size' of None \<Rightarrow> False | Some r' \<Rightarrow> contains_range r r') \<longleftrightarrow>
      start r \<le> x \<and> (case checked_add x m of None \<Rightarrow> False | Some e \<Rightarrow> e \<le> end' r)"
  proof (cases "checked_add x m")
    case None
    with False \<open>size' - 1 = m\<close> show ?thesis by (simp add: from_start_and_size_def)
  next
    case (Some e)
    then have "x \<le> e" by (simp add: checked_add_eq word_le_nat_alt)
    with Some False \<open>size' - 1 = m\<close> show ?thesis
      by (simp add: from_start_and_size_def contains_range_def is_empty_def not_less)
  qed
  with False m(2) show ?thesis by (simp add: checked_add_le)
qed

lemma release_containing_held:
  assumes "allocator_inv a" and "hash_order order" and "v \<in> held a k"
  shows "\<exists>r a'. held a k = addrs r \<and> release_containing order v a = (Ok r, a') \<and> gave k r a a'"
proof (cases "find_overlapping order \<lparr>start = v, end' = v\<rparr> a")
  case None
  from find_overlapping_None [OF assms(2) _ None, of k] assms(3) show ?thesis by (auto simp: is_empty_def addrs_def)
next
  case (Some k')
  from find_overlapping_Some [OF assms(2,1) Some] obtain r t where
    k': "map_of (allocs a) k' = Some (r, t)" "v \<in> addrs r" by (auto simp: addrs_def)
  then have "held a k' = addrs r" by (simp add: held_def)
  moreover from this have "k' = k" using pool.exclusive [OF assms(1), of k' k] assms(3) k'(2) by auto
  moreover from release_gives [OF assms(1) k'(1)] obtain a' where "release k' a = (Ok r, a')" "gave k' r a a'" by blast
  ultimately show ?thesis using Some by (auto simp: release_containing_def)
qed

lemma fold_max_end:
  "m \<le> fold (\<lambda>r x. max x (end' r)) rs m \<and> (\<forall>r \<in> set rs. end' r \<le> fold (\<lambda>r x. max x (end' r)) rs m) \<and>
    (fold (\<lambda>r x. max x (end' r)) rs m = m \<or> (\<exists>r \<in> set rs. fold (\<lambda>r x. max x (end' r)) rs m = end' r))"
proof (induction rs arbitrary: m)
  case (Cons r rs)
  from Cons.IH [of "max m (end' r)"] show ?case by (auto simp: max_def split: if_splits)
qed simp

lemma fold_max_covered:
  assumes "separated rs"
  shows "fold (\<lambda>r x. max x (end' r)) rs 0 = (if covered rs = {} then 0 else Max (covered rs))"
proof (cases rs)
  case (Cons r rs')
  let ?m = "fold (\<lambda>r x. max x (end' r)) rs 0"
  have ends: "end' r \<in> covered rs" if "r \<in> set rs" for r
    using that separated_nonempty [OF assms that] by (force simp: covered_def addrs_def is_empty_def not_less)
  note top = fold_max_end [of 0 rs]
  have "r \<in> set rs" using Cons by simp
  with top have "end' r \<le> ?m" by blast
  have "?m \<in> covered rs"
  proof (cases "\<exists>r \<in> set rs. ?m = end' r")
    case True
    with ends show ?thesis by metis
  next
    case False
    with top have "?m = 0" by blast
    with \<open>end' r \<le> ?m\<close> have "end' r = ?m" by simp
    with ends [OF \<open>r \<in> set rs\<close>] show ?thesis by metis
  qed
  moreover have "x \<le> ?m" if "x \<in> covered rs" for x
  proof -
    from that obtain q where "q \<in> set rs" "x \<le> end' q" by (auto simp: covered_def addrs_def)
    with top show ?thesis by (meson order.trans)
  qed
  ultimately have "Max (covered rs) = ?m" "covered rs \<noteq> {}" by (auto intro!: Max_eqI)
  then show ?thesis by simp
qed simp

section \<open>Properties\<close>


definition sample_allocator :: AddressAllocator where
  "sample_allocator = \<lparr>pools = [\<lparr>start = 0x1000, end' = 0xFFFF\<rparr>], min_align = 0x100, preferred_align = 0x100,
     allocs = [], regions = [\<lparr>start = 0x1000, end' = 0xFFFF\<rparr>]\<rparr>"

definition sample_ops :: "alloc_op list" where
  "sample_ops = [AllocateAt \<lparr>start = 0x2010, end' = 0x20FF\<rparr> (Anon 2) ''etc'',
     AllocateAt \<lparr>start = 0x3000, end' = 0x3FFF\<rparr> (Anon 3) ''caps'', Release (Anon 2)]"

lemma is_power_of_two_256: "is_power_of_two 0x100"
  unfolding is_power_of_two_iff by (rule exI [of _ 8]) simp

lemma sample_allocator_new:
  "new_from_list [\<lparr>start = 0x1000, end' = 0xFFFF\<rparr>] (Some 0x100) None = Ok sample_allocator"
  by (simp add: new_from_list_def sample_allocator_def is_power_of_two_256 is_empty_def Let_def)

definition sample_allocator' :: AddressAllocator where
  "sample_allocator' = sample_allocator\<lparr>allocs := [(Anon 3, \<lparr>start = 0x3000, end' = 0x3FFF\<rparr>, ''caps'')],
     regions := [\<lparr>start = 0x1000, end' = 0x2FFF\<rparr>, \<lparr>start = 0x4000, end' = 0xFFFF\<rparr>]\<rparr>"

lemmas range_evals = is_empty_def contains_range_def non_overlapping_ranges_def AddressRange_empty_def
  range_cmp_def cmp_def then_with_def

lemma sample_run: "alloc_run id sample_ops sample_allocator = Some sample_allocator'"
  by (simp add: sample_ops_def sample_allocator_def sample_allocator'_def allocate_at_def range_evals
      internal_allocate_from_slot_def release_def insert_at_def btree_max_le_def btree_min_gt_def
      checked_add_def checked_sub_def)


text \<open>
  C16. A request for an aligned range is decided exactly. If some free region has room for it, it gets
  the lowest aligned address at which it fits (in reverse, the highest), under its name and with
  exactly its size; otherwise it fails with \<open>OutOfSpace\<close>, a name that is in use, a size of zero and
  a bad alignment fail with their own errors, and a failure changes nothing. It never panics as
  long as size plus alignment stay within 64 bits and the last address is not free.
\<close>

theorem allocate_with_align_fits:
  assumes "allocator_inv a" and "in_bounds size' (max (min_align a) al) a"
  shows "\<exists>res a'. (if reverse then reverse_allocate_with_align size' k t al a else allocate_with_align size' k t al a) =
      Some (res, a') \<and> allocated reverse size' k t (max (min_align a) al) a res a'"
  using internal_allocate_with_align_returns [OF assms, of k t reverse]
    internal_allocate_with_align_spec [OF assms(1), of size' k t al reverse]
  by (cases reverse) (auto simp: reverse_allocate_with_align_def allocate_with_align_def)

lemma sample_allocator_inv: "allocator_inv sample_allocator"
  using new_from_list_inv [OF sample_allocator_new] by (simp add: disjoint_pools_def)

lemma sample_in_bounds: "in_bounds 0x110 0x100 sample_allocator"
  by (simp add: in_bounds_def sample_allocator_def addrs_def word_le_nat_alt unsigned_minus_1_eq_mask mask_eq_exp_minus_1)

theorem allocate_with_align_fits_witness:
  "\<exists>res a'. allocate_with_align 0x110 (Anon 0) ''caps'' 0x80 sample_allocator = Some (res, a') \<and>
     allocated False 0x110 (Anon 0) ''caps'' 0x100 sample_allocator res a'"
  using allocate_with_align_fits [OF sample_allocator_inv, of "0x110" "0x80" False "Anon 0" "''caps''"] sample_in_bounds
  by (simp add: sample_allocator_def)

text \<open>
  \<open>allocate\<close> and \<open>reverse_allocate\<close> use the preferred alignment whenever there is room for it
  and the minimal one only if there is none.
\<close>

theorem allocate_prefers:
  assumes "allocator_inv a" and "in_bounds size' (preferred_align a) a"
  shows "\<exists>res a'. (if reverse then reverse_allocate size' k t a else allocate size' k t a) = Some (res, a') \<and>
    allocated reverse size' k t
      (if \<exists>s. fits_free size' (preferred_align a) a s then preferred_align a else min_align a) a res a'"
  using allocate_preferred_returns [OF assms, of reverse k t] allocate_preferred_spec [OF assms(1), of reverse size' k t]
  unfolding allocate_preferred_def chosen_align_def by blast

theorem allocate_prefers_witness:
  "\<exists>res a'. reverse_allocate 0x110 (Anon 0) ''caps'' sample_allocator = Some (res, a') \<and>
    allocated True 0x110 (Anon 0) ''caps''
      (if \<exists>s. fits_free 0x110 (preferred_align sample_allocator) sample_allocator s
       then preferred_align sample_allocator else min_align sample_allocator) sample_allocator res a'"
  using allocate_prefers [OF sample_allocator_inv, of "0x110" True "Anon 0" "''caps''"] sample_in_bounds
  by (simp add: sample_allocator_def)

text \<open>
  C31. Releasing what was allocated always succeeds, returns the range that was handed out and leaves
  the same addresses free and the same allocations as before.
\<close>

theorem allocate_release:
  assumes "allocator_inv a"
    and "(if reverse then reverse_allocate size' k t a else allocate size' k t a) = Some (Ok s, a1)"
  shows "get k a1 = Some (\<lparr>start = s, end' = s + size' - 1\<rparr>, t) \<and>
    (\<exists>a2. release k a1 = (Ok \<lparr>start = s, end' = s + size' - 1\<rparr>, a2) \<and> allocator_inv a2 \<and>
       covered (regions a2) = covered (regions a) \<and> (\<forall>j. get j a2 = get j a))"
proof -
  let ?r = "\<lparr>start = s, end' = s + size' - 1\<rparr>"
  from allocate_preferred_spec [OF assms(1), of reverse size' k t "Ok s" a1] assms(2)
  have t: "took k ?r t a a1" by (simp add: allocate_preferred_def allocated_def)
  then have k: "map_of (allocs a1) k = Some (?r, t)" "map_of (allocs a) k = None" by (simp_all add: took_def)
  from release_gives [OF took_inv [OF assms(1) t] k(1)] obtain a2 where
    a2: "release k a1 = (Ok ?r, a2)" "gave k ?r a1 a2" by blast
  have "covered (regions a2) = covered (regions a)"
    using t a2(2) by (auto simp: took_def gave_def)
  moreover have "get j a2 = get j a" for j
    using t a2(2) by (simp add: took_def gave_def get_def)
  ultimately show ?thesis
    using a2 k(1) gave_inv [OF took_inv [OF assms(1) t] a2(2)] by (simp add: get_def)
qed

definition tiny_allocator :: AddressAllocator where
  "tiny_allocator = \<lparr>pools = [\<lparr>start = 0, end' = 7\<rparr>], min_align = 1, preferred_align = 1,
     allocs = [], regions = [\<lparr>start = 0, end' = 7\<rparr>]\<rparr>"

lemma is_power_of_two_1: "is_power_of_two 1"
  unfolding is_power_of_two_iff by (rule exI [of _ 0]) simp

lemma tiny_allocator_new: "AddressAllocator_new \<lparr>start = 0, end' = 7\<rparr> (Some 1) None = Ok tiny_allocator"
  by (simp add: AddressAllocator_new_def new_from_list_def tiny_allocator_def is_power_of_two_1 is_empty_def Let_def)

lemma tiny_allocator_inv: "allocator_inv tiny_allocator"
  using new_from_list_inv [OF tiny_allocator_new [unfolded AddressAllocator_new_def]] by (simp add: disjoint_pools_def)

lemma tiny_allocate:
  "allocate 3 (Anon 0) [] tiny_allocator =
     Some (Ok 0, tiny_allocator\<lparr>allocs := [(Anon 0, \<lparr>start = 0, end' = 2\<rparr>, [])], regions := [\<lparr>start = 3, end' = 7\<rparr>]\<rparr>)"
  by (simp add: allocate_def allocate_with_align_def internal_allocate_with_align_def tiny_allocator_def
      is_power_of_two_1 fits_forward_def start_forward_def checked_add_def checked_sub_def
      internal_allocate_from_slot_def range_evals)

theorem allocate_release_witness:
  "get (Anon 0) (tiny_allocator\<lparr>allocs := [(Anon 0, \<lparr>start = 0, end' = 2\<rparr>, [])], regions := [\<lparr>start = 3, end' = 7\<rparr>]\<rparr>) =
     Some (\<lparr>start = 0, end' = 2\<rparr>, [])"
  using allocate_release [OF tiny_allocator_inv, of False 3 "Anon 0" "[]" 0] tiny_allocate by simp

text \<open>
  \<open>release_containing\<close> releases the allocation that contains the address, of which there is at
  most one, and fails if there is none, whatever the order in which the hash map is searched.
\<close>

theorem release_containing_exact:
  assumes "allocator_inv a" and "hash_order order"
  shows "if \<exists>k. v \<in> held a k
    then \<exists>k r a'. v \<in> held a k \<and> held a k = addrs r \<and> release_containing order v a = (Ok r, a') \<and> gave k r a a'
    else release_containing order v a = (Err OutOfSpace, a)"
proof (cases "\<exists>k. v \<in> held a k")
  case True
  then show ?thesis using release_containing_held [OF assms] by metis
next
  case False
  have "find_overlapping order \<lparr>start = v, end' = v\<rparr> a = None"
  proof (rule ccontr)
    assume "\<not> ?thesis"
    then obtain k where "find_overlapping order \<lparr>start = v, end' = v\<rparr> a = Some k" by blast
    from find_overlapping_Some [OF assms(2,1) this] have "v \<in> held a k" by (auto simp: held_def addrs_def)
    with False show False by blast
  qed
  with False show ?thesis by (simp add: release_containing_def)
qed

theorem release_containing_exact_witness:
  "release_containing id 0x2000 sample_allocator = (Err OutOfSpace, sample_allocator)"
  using release_containing_exact [OF sample_allocator_inv hash_order_id, of "0x2000"]
  by (simp add: held_def sample_allocator_def)

text \<open>
  An address computed from a PCI BAR and an offset is inside the BAR together with the whole
  access, without wrapping around: success is exactly that.
\<close>

theorem address_from_pci_offset_in_bar:
  "address_from_pci_offset k offset size' a = Ok x \<longleftrightarrow>
     (\<exists>b d f n r t. k = PciBar b d f n \<and> get k a = Some (r, t) \<and> size' \<noteq> 0 \<and>
        unat x = unat (start r) + unat offset \<and> unat x + unat size' \<le> Suc (unat (end' r)))"
proof -
  have "address_from_pci_offset k offset size' a = Ok x \<longleftrightarrow>
      (\<exists>b d f n r t. k = PciBar b d f n \<and> get k a = Some (r, t) \<and> checked_add (start r) offset = Some x \<and>
        (case from_start_and_size x size' of None \<Rightarrow> False | Some r' \<Rightarrow> contains_range r r'))"
    by (auto simp: address_from_pci_offset_def get_def split: Alloc.splits option.splits if_splits)
  then show ?thesis
    by (auto simp: range_in_bar checked_add_eq word_le_nat_alt)
qed

text \<open>
  The bound on the size is needed: a request larger than the address space minus the alignment
  panics if the first free region does not start at an aligned address, where it could only have
  been refused.
\<close>

theorem allocate_overflow_panics:
  assumes "allocator_inv a" and "regions a = r # rs" and "start r mod (max (min_align a) al) \<noteq> 0"
    and "map_of (allocs a) k = None" and "size' \<noteq> 0" and "is_power_of_two (max (min_align a) al)"
    and "2 ^ 64 < unat size' + unat (max (min_align a) al)"
  shows "allocate_with_align size' k t al a = None \<and> (\<forall>s. \<not> fits_free size' (max (min_align a) al) a s)"
proof
  let ?A = "max (min_align a) al"
  from assms(5) obtain m where m: "checked_sub size' 1 = Some m" "unat size' = Suc (unat m)" by (rule size_pred)
  have "checked_add m ?A = None" using assms(7) m(2) by (simp add: checked_add_None)
  then have "fits_forward size' ?A r = None"
    unfolding fits_forward_def m(1) Let_def using assms(3) by simp
  then show "allocate_with_align size' k t al a = None"
    using assms(4-6) by (simp add: allocate_with_align_def internal_allocate_with_align_alt find_region_def assms(2))
  have pos: "0 < unat (start r)" using assms(3) by (auto simp: unat_gt_0)
  have "\<not> fit size' ?A x s" if x: "x \<in> set (regions a)" for x s
  proof
    assume f: "fit size' ?A x s"
    have "start r \<le> start x"
      using x assms(1,2) by (auto simp: allocator_inv_def is_empty_def)
    then have "0 < unat s" using f pos unfolding fit_def word_le_nat_alt by linarith
    then have "unat ?A \<le> unat s" using f by (auto simp: fit_def dest: dvd_imp_le)
    then show False using f assms(7) unat_lt64 [of "end' x"] unfolding fit_def by linarith
  qed
  then show "\<forall>s. \<not> fits_free size' ?A a s" by (auto simp: fits_free_def)
qed

definition odd_allocator :: AddressAllocator where
  "odd_allocator = \<lparr>pools = [\<lparr>start = 1, end' = 7\<rparr>], min_align = 0x100, preferred_align = 0x100,
     allocs = [], regions = [\<lparr>start = 1, end' = 7\<rparr>]\<rparr>"

lemma odd_allocator_inv: "allocator_inv odd_allocator"
  by (auto simp: allocator_inv_def odd_allocator_def is_power_of_two_256 is_empty_def held_def)

theorem allocate_overflow_panics_witness:
  "allocate_with_align 0xFFFFFFFFFFFFFFFF (Anon 0) [] 1 odd_allocator = None"
  using allocate_overflow_panics [OF odd_allocator_inv, of "\<lparr>start = 1, end' = 7\<rparr>" "[]" 1 "Anon 0" "0xFFFFFFFFFFFFFFFF" "[]"]
  by (simp add: odd_allocator_def is_power_of_two_256 word_less_nat_alt unat_mod word_unat_eq_iff)

text \<open>
  \<open>get_max_addr\<close> is the largest free address, and zero if nothing is free.
\<close>

theorem get_max_addr_free:
  assumes "allocator_inv a"
  shows "get_max_addr a = (if covered (regions a) = {} then 0 else Max (covered (regions a)))"
proof -
  from assms have "separated (regions a)" by (simp add: allocator_inv_def)
  then show ?thesis using fold_max_covered [of "regions a"] by (simp add: get_max_addr_def)
qed

theorem get_max_addr_free_witness: "get_max_addr sample_allocator = Max (covered (regions sample_allocator))"
  using get_max_addr_free [OF sample_allocator_inv] by (simp add: sample_allocator_def addrs_def)

end
