(* ===== verification/SystemAllocator.thy ===== *)
theory SystemAllocator
  imports AddressSpace
begin

text \<open>
  \<open>AddressAllocatorSet\<close> of \<open>libcrosvm/resources/src/address_allocator.rs\<close> and \<open>SystemAllocator\<close> of
  \<open>libcrosvm/resources/src/system_allocator.rs\<close>, which hands out interrupt numbers, general purpose
  events, PCI slots, I/O ports and memory-mapped regions, each from an allocator of its own.

  The size of a page is what the operating system says and a parameter. A field that the code
  reaches through a mutable reference (\<open>io_allocator\<close>, \<open>mmio_allocator\<close>) is the field itself.
\<close>

section \<open>Sets of allocators\<close>

text \<open>
  Each method tries the allocators in order until one succeeds, and else returns the last error.
\<close>

fun try_allocators ::
    "(AddressAllocator \<Rightarrow> ('a alloc_result \<times> AddressAllocator) option) \<Rightarrow> AddressAllocator list \<Rightarrow> 'a alloc_result
       \<Rightarrow> ('a alloc_result \<times> AddressAllocator list) option" where
  "try_allocators f [] last_res = Some (last_res, [])"
| "try_allocators f (allocator # allocators) last_res = do {
     (last_res, allocator) \<leftarrow> f allocator;
     case last_res of
       Inr _ \<Rightarrow> Some (last_res, allocator # allocators)
     | Inl _ \<Rightarrow> do {
         (r, allocators) \<leftarrow> try_allocators f allocators last_res;
         Some (r, allocator # allocators) } }"

definition set_allocate_with_align ::
    "u64 \<Rightarrow> Alloc \<Rightarrow> string \<Rightarrow> u64 \<Rightarrow> AddressAllocator list \<Rightarrow> (u64 alloc_result \<times> AddressAllocator list) option" where
  "set_allocate_with_align size' alloc tag alignment allocators =
     try_allocators (allocate_with_align size' alloc tag alignment) allocators (Err OutOfSpace)"

definition set_allocate ::
    "u64 \<Rightarrow> Alloc \<Rightarrow> string \<Rightarrow> AddressAllocator list \<Rightarrow> (u64 alloc_result \<times> AddressAllocator list) option" where
  "set_allocate size' alloc tag allocators =
     try_allocators (allocate size' alloc tag) allocators (Err OutOfSpace)"

definition set_allocate_at ::
    "(allocs \<Rightarrow> allocs) \<Rightarrow> AddressRange \<Rightarrow> Alloc \<Rightarrow> string \<Rightarrow> AddressAllocator list
       \<Rightarrow> (unit alloc_result \<times> AddressAllocator list) option" where
  "set_allocate_at order rng alloc tag allocators =
     try_allocators (allocate_at order rng alloc tag) allocators (Err OutOfSpace)"

definition set_release ::
    "Alloc \<Rightarrow> AddressAllocator list \<Rightarrow> (AddressRange alloc_result \<times> AddressAllocator list) option" where
  "set_release alloc allocators = try_allocators (Some \<circ> release alloc) allocators (Err OutOfSpace)"

fun set_get :: "Alloc \<Rightarrow> AddressAllocator list \<Rightarrow> (AddressRange \<times> string) option" where
  "set_get alloc [] = None"
| "set_get alloc (allocator # allocators) =
     (case get alloc allocator of None \<Rightarrow> set_get alloc allocators | Some x \<Rightarrow> Some x)"

fun try_pci_offset :: "Alloc \<Rightarrow> u64 \<Rightarrow> u64 \<Rightarrow> AddressAllocator list \<Rightarrow> u64 alloc_result \<Rightarrow> u64 alloc_result" where
  "try_pci_offset alloc offset size' [] last_res = last_res"
| "try_pci_offset alloc offset size' (allocator # allocators) last_res =
     (case address_from_pci_offset alloc offset size' allocator of
        Inr x \<Rightarrow> Ok x
      | Inl e \<Rightarrow> try_pci_offset alloc offset size' allocators (Err e))"

definition set_address_from_pci_offset ::
    "Alloc \<Rightarrow> u64 \<Rightarrow> u64 \<Rightarrow> AddressAllocator list \<Rightarrow> u64 alloc_result" where
  "set_address_from_pci_offset alloc offset size' allocators =
     try_pci_offset alloc offset size' allocators (Err OutOfSpace)"

section \<open>The system allocator\<close>

datatype MmioType = Low | High

record AllocOptions =
  prefetchable :: bool
  max_address :: u64
  alignment :: "u64 option"
  top_down :: bool

definition AllocOptions_new :: AllocOptions where
  "AllocOptions_new = \<lparr>prefetchable = False, max_address = - 1, alignment = None, top_down = False\<rparr>"

definition AllocOptions_prefetchable :: "bool \<Rightarrow> AllocOptions \<Rightarrow> AllocOptions" where
  "AllocOptions_prefetchable b opts = opts\<lparr>prefetchable := b\<rparr>"

definition AllocOptions_max_address :: "u64 \<Rightarrow> AllocOptions \<Rightarrow> AllocOptions" where
  "AllocOptions_max_address x opts = opts\<lparr>max_address := x\<rparr>"

definition AllocOptions_align :: "u64 \<Rightarrow> AllocOptions \<Rightarrow> AllocOptions" where
  "AllocOptions_align al opts = opts\<lparr>alignment := Some al\<rparr>"

definition AllocOptions_top_down :: "bool \<Rightarrow> AllocOptions \<Rightarrow> AllocOptions" where
  "AllocOptions_top_down b opts = opts\<lparr>top_down := b\<rparr>"

record SystemAllocatorConfig =
  io :: "AddressRange option"
  low_mmio :: AddressRange
  high_mmio :: AddressRange
  platform_mmio :: "AddressRange option"
  first_irq :: u32

text \<open>\<open>mmio_address_spaces\<close> is the array indexed by \<open>MmioType::Low\<close> and \<open>MmioType::High\<close>.\<close>

record SystemAllocator =
  io_address_space :: "AddressAllocator option"
  mmio_address_spaces :: "AddressAllocator list"
  mmio_platform_address_spaces :: "AddressAllocator option"
  reserved_region :: "AddressRange option"
  pci_allocator :: "u8 \<rightharpoonup> AddressAllocator"
  irq_allocator :: AddressAllocator
  gpe_allocator :: AddressAllocator
  next_anon_id :: u64

primrec mmio_index :: "MmioType \<Rightarrow> nat" where
  "mmio_index Low = 0"
| "mmio_index High = 1"

text \<open>What is reserved at the start of the high region, and what is left of it.\<close>

definition reserve_high ::
    "AddressRange \<Rightarrow> u64 option \<Rightarrow> (AddressRange \<times> AddressRange option) alloc_result option" where
  "reserve_high high reserve_region_size =
     (case reserve_region_size of
        None \<Rightarrow> Some (Ok (high, None))
      | Some reserved_len \<Rightarrow>
          (case range_len high of
             None \<Rightarrow> Some (Err OutOfBounds)
           | Some high_mmio_len \<Rightarrow>
               if reserved_len > high_mmio_len then Some (Err OutOfSpace)
               else do {
                 e \<leftarrow> checked_add (start high) reserved_len;
                 reserved_end \<leftarrow> checked_sub e 1;
                 high_mmio_start \<leftarrow> checked_add reserved_end 1;
                 Some (Ok (\<lparr>start = high_mmio_start, end' = end' high\<rparr>,
                           Some \<lparr>start = start high, end' = reserved_end\<rparr>)) }))"

definition intersect_mmio_range :: "AddressRange list \<Rightarrow> AddressRange \<Rightarrow> AddressRange list" where
  "intersect_mmio_range mmio_address_ranges src_range =
     (if mmio_address_ranges = [] then [src_range]
      else map (\<lambda>r. intersect r src_range) mmio_address_ranges)"

definition result_bind :: "'a alloc_result \<Rightarrow> ('a \<Rightarrow> 'b alloc_result) \<Rightarrow> 'b alloc_result" where
  "result_bind r f = (case r of Inl e \<Rightarrow> Err e | Inr x \<Rightarrow> f x)"

definition opt_allocator :: "AddressRange option \<Rightarrow> u64 \<Rightarrow> AddressAllocator option alloc_result" where
  "opt_allocator rng min_al =
     (case rng of
        None \<Rightarrow> Ok None
      | Some r \<Rightarrow> result_bind (AddressAllocator_new r (Some min_al) None) (\<lambda>a. Ok (Some a)))"

definition SystemAllocator_new ::
    "u64 \<Rightarrow> SystemAllocatorConfig \<Rightarrow> u64 option \<Rightarrow> AddressRange list \<Rightarrow> SystemAllocator alloc_result option" where
  "SystemAllocator_new page_size config reserve_region_size mmio_address_ranges = do {
     reserved \<leftarrow> reserve_high (high_mmio config) reserve_region_size;
     Some (result_bind reserved (\<lambda>(high, reserved).
       result_bind
         (case io config of
            Some r \<Rightarrow> if end' r > 0xffff then Err (IOPortOutOfRange r) else opt_allocator (Some r) 0x400
          | None \<Rightarrow> Ok None) (\<lambda>io_space.
       result_bind (new_from_list (intersect_mmio_range mmio_address_ranges (low_mmio config)) (Some page_size) None)
         (\<lambda>low_space.
       result_bind (new_from_list (intersect_mmio_range mmio_address_ranges high) (Some page_size) None)
         (\<lambda>high_space.
       result_bind (opt_allocator (platform_mmio config) page_size) (\<lambda>platform_space.
       result_bind (AddressAllocator_new \<lparr>start = ucast (first_irq config), end' = 1023\<rparr> (Some 1) None) (\<lambda>irq_space.
       result_bind (AddressAllocator_new \<lparr>start = 0, end' = 255\<rparr> (Some 1) None) (\<lambda>gpe_space.
       Ok \<lparr>io_address_space = io_space, mmio_address_spaces = [low_space, high_space],
           mmio_platform_address_spaces = platform_space, reserved_region = reserved,
           pci_allocator = Map.empty, irq_allocator = irq_space, gpe_allocator = gpe_space,
           next_anon_id = 0\<rparr>))))))))}"

definition get_anon_alloc :: "SystemAllocator \<Rightarrow> (Alloc \<times> SystemAllocator) option" where
  "get_anon_alloc s = do {
     n \<leftarrow> checked_add (next_anon_id s) 1;
     Some (Anon n, s\<lparr>next_anon_id := n\<rparr>) }"

definition allocate_irq :: "SystemAllocator \<Rightarrow> (u32 option \<times> SystemAllocator) option" where
  "allocate_irq s = do {
     (id', s) \<leftarrow> get_anon_alloc s;
     (r, a) \<leftarrow> allocate 1 id' ''irq-auto'' (irq_allocator s);
     Some (case r of Inr v \<Rightarrow> Some (ucast v) | Inl _ \<Rightarrow> None, s\<lparr>irq_allocator := a\<rparr>) }"

definition release_irq :: "(allocs \<Rightarrow> allocs) \<Rightarrow> u32 \<Rightarrow> SystemAllocator \<Rightarrow> SystemAllocator" where
  "release_irq order irq s =
     s\<lparr>irq_allocator := snd (release_containing order (ucast irq) (irq_allocator s))\<rparr>"

definition reserve_irq :: "(allocs \<Rightarrow> allocs) \<Rightarrow> u32 \<Rightarrow> SystemAllocator \<Rightarrow> (bool \<times> SystemAllocator) option" where
  "reserve_irq order irq s = do {
     (id', s) \<leftarrow> get_anon_alloc s;
     (r, a) \<leftarrow> allocate_at order \<lparr>start = ucast irq, end' = ucast irq\<rparr> id' ''irq-fixed'' (irq_allocator s);
     Some (case r of Inr _ \<Rightarrow> True | Inl _ \<Rightarrow> False, s\<lparr>irq_allocator := a\<rparr>) }"

definition allocate_gpe :: "SystemAllocator \<Rightarrow> (u32 option \<times> SystemAllocator) option" where
  "allocate_gpe s = do {
     (id', s) \<leftarrow> get_anon_alloc s;
     (r, a) \<leftarrow> allocate 1 id' ''gpe-auto'' (gpe_allocator s);
     Some (case r of Inr v \<Rightarrow> Some (ucast v) | Inl _ \<Rightarrow> None, s\<lparr>gpe_allocator := a\<rparr>) }"

text \<open>The allocator of a bus, made when it is first asked for.\<close>

definition get_pci_allocator_mut :: "u8 \<Rightarrow> SystemAllocator \<Rightarrow> (AddressAllocator \<times> SystemAllocator) option" where
  "get_pci_allocator_mut bus s =
     (case pci_allocator s bus of
        Some a \<Rightarrow> Some (a, s)
      | None \<Rightarrow>
          (let base = (if bus = 0 then 8 else 0) in
           case AddressAllocator_new \<lparr>start = base, end' = (32 * 8) - 1\<rparr> (Some 1) (Some 8) of
             Inr v \<Rightarrow> Some (v, s\<lparr>pci_allocator := (pci_allocator s)(bus \<mapsto> v)\<rparr>)
           | Inl _ \<Rightarrow> None))"

definition pci_bus_empty :: "u8 \<Rightarrow> SystemAllocator \<Rightarrow> bool" where
  "pci_bus_empty bus s = (if pci_allocator s bus = None then True else False)"

definition allocate_pci :: "u8 \<Rightarrow> string \<Rightarrow> SystemAllocator \<Rightarrow> (Alloc option \<times> SystemAllocator) option" where
  "allocate_pci bus tag s = do {
     (id', s) \<leftarrow> get_anon_alloc s;
     case get_pci_allocator_mut bus s of
       None \<Rightarrow> Some (None, s)
     | Some (allocator, s) \<Rightarrow> do {
         (r, a) \<leftarrow> allocate 1 id' tag allocator;
         Some (case r of
                 Inr v \<Rightarrow> Some (PciBar bus (ucast (drop_bit 3 v)) (ucast (v AND 7)) 0)
               | Inl _ \<Rightarrow> None,
               s\<lparr>pci_allocator := (pci_allocator s)(bus \<mapsto> a)\<rparr>) } }"

definition pci_df :: "u8 \<Rightarrow> u8 \<Rightarrow> u64" where
  "pci_df dev func = push_bit 3 (ucast dev) OR ucast func"

definition reserve_pci ::
    "(allocs \<Rightarrow> allocs) \<Rightarrow> Alloc \<Rightarrow> string \<Rightarrow> SystemAllocator \<Rightarrow> (bool \<times> SystemAllocator) option" where
  "reserve_pci order alloc tag s = do {
     (id', s) \<leftarrow> get_anon_alloc s;
     case alloc of
       PciBar bus dev func bar \<Rightarrow>
         (case get_pci_allocator_mut bus s of
            None \<Rightarrow> Some (False, s)
          | Some (allocator, s) \<Rightarrow> do {
              (r, a) \<leftarrow> allocate_at order \<lparr>start = pci_df dev func, end' = pci_df dev func\<rparr> id' tag allocator;
              Some (case r of Inr _ \<Rightarrow> True | Inl _ \<Rightarrow> False,
                    s\<lparr>pci_allocator := (pci_allocator s)(bus \<mapsto> a)\<rparr>) })
     | _ \<Rightarrow> Some (False, s) }"

definition release_pci :: "(allocs \<Rightarrow> allocs) \<Rightarrow> u8 \<Rightarrow> u8 \<Rightarrow> u8 \<Rightarrow> SystemAllocator \<Rightarrow> bool \<times> SystemAllocator" where
  "release_pci order bus dev func s =
     (case get_pci_allocator_mut bus s of
        None \<Rightarrow> (False, s)
      | Some (allocator, s) \<Rightarrow>
          (case release_containing order (pci_df dev func) allocator of
             (r, a) \<Rightarrow> (case r of Inr _ \<Rightarrow> True | Inl _ \<Rightarrow> False,
                       s\<lparr>pci_allocator := (pci_allocator s)(bus \<mapsto> a)\<rparr>)))"

definition allocate_mmio_internal ::
    "u64 \<Rightarrow> Alloc \<Rightarrow> string \<Rightarrow> AllocOptions \<Rightarrow> MmioType \<Rightarrow> SystemAllocator
       \<Rightarrow> (u64 alloc_result \<times> SystemAllocator) option" where
  "allocate_mmio_internal size' alloc tag opts mmio_type s = do {
     let allocator = mmio_address_spaces s ! mmio_index mmio_type;
     (r, a) \<leftarrow> (case (alignment opts, top_down opts) of
         (Some align, True) \<Rightarrow> reverse_allocate_with_align size' alloc tag align allocator
       | (Some align, False) \<Rightarrow> allocate_with_align size' alloc tag align allocator
       | (None, True) \<Rightarrow> reverse_allocate size' alloc tag allocator
       | (None, False) \<Rightarrow> allocate size' alloc tag allocator);
     Some (r, s\<lparr>mmio_address_spaces := (mmio_address_spaces s)[mmio_index mmio_type := a]\<rparr>) }"

definition allocate_mmio ::
    "u64 \<Rightarrow> Alloc \<Rightarrow> string \<Rightarrow> AllocOptions \<Rightarrow> SystemAllocator \<Rightarrow> (u64 alloc_result \<times> SystemAllocator) option" where
  "allocate_mmio size' alloc tag opts s =
     (if max_address opts < 0xFFFFFFFF then Some (Err OutOfSpace, s)
      else do {
        let mmio_type = (if max_address opts < - 1 \<or> \<not> prefetchable opts then Low else High);
        (res, s) \<leftarrow> allocate_mmio_internal size' alloc tag opts mmio_type s;
        if mmio_type = High \<and> res = Err OutOfSpace
        then allocate_mmio_internal size' alloc tag opts Low s
        else Some (res, s) })"

definition mmio_pools :: "SystemAllocator \<Rightarrow> AddressRange list" where
  "mmio_pools s = concat (map pools (mmio_address_spaces s))"

fun reserve_mmio_loop ::
    "(allocs \<Rightarrow> allocs) \<Rightarrow> AddressRange \<Rightarrow> AddressRange list \<Rightarrow> SystemAllocator
       \<Rightarrow> (unit alloc_result \<times> SystemAllocator) option" where
  "reserve_mmio_loop order rng [] s = Some (Ok (), s)"
| "reserve_mmio_loop order rng (pool # ps) s =
     (if start pool > end' rng then Some (Ok (), s)
      else
        let overlap = intersect pool rng in
        if \<not> is_empty overlap then do {
          (id', s) \<leftarrow> get_anon_alloc s;
          (r, spaces) \<leftarrow> set_allocate_at order overlap id' ''pci mmio reserve'' (mmio_address_spaces s);
          let s = s\<lparr>mmio_address_spaces := spaces\<rparr>;
          case r of
            Inl e \<Rightarrow> Some (Err e, s)
          | Inr _ \<Rightarrow> reserve_mmio_loop order rng ps s }
        else reserve_mmio_loop order rng ps s)"

definition reserve_mmio ::
    "(allocs \<Rightarrow> allocs) \<Rightarrow> AddressRange \<Rightarrow> SystemAllocator \<Rightarrow> (unit alloc_result \<times> SystemAllocator) option" where
  "reserve_mmio order rng s = reserve_mmio_loop order rng (sort_key start (mmio_pools s)) s"

section \<open>Allocators of single numbers\<close>

text \<open>
  The interrupt, event and PCI allocators are only reached through the methods above and hold only
  anonymous names, numbered up to \<open>next_anon_id\<close>, so that the next name is a fresh one.
\<close>

definition numbers :: "u64 \<Rightarrow> u64 set \<Rightarrow> u64 \<Rightarrow> AddressAllocator \<Rightarrow> bool" where
  "numbers n P pf a \<longleftrightarrow>
     allocator_inv a \<and> covered (pools a) = P \<and> min_align a = 1 \<and> preferred_align a = pf \<and>
     dom (map_of (allocs a)) \<subseteq> Anon ` {..n}"

lemma numbers_mono: "numbers n P pf a \<Longrightarrow> n \<le> n' \<Longrightarrow> numbers n' P pf a"
  unfolding numbers_def by (auto dest!: subsetD)

lemma numbers_took:
  assumes "numbers n P pf a" and "took (Anon m) r t a a'" and "n \<le> m"
  shows "numbers m P pf a'"
proof -
  have "dom (map_of (allocs a')) = insert (Anon m) (dom (map_of (allocs a)))" using assms(2) by (simp add: took_def)
  moreover have "numbers m P pf a" using assms(1,3) by (rule numbers_mono)
  ultimately show ?thesis
    using assms(2) took_inv [of a "Anon m" r t a'] by (simp add: numbers_def took_def)
qed

lemma numbers_gave:
  assumes "numbers n P pf a" and "gave k r a a'"
  shows "numbers n P pf a'"
proof -
  have "dom (map_of (allocs a')) = dom (map_of (allocs a)) - {k}" using assms(2) by (simp add: gave_def)
  with assms gave_inv [of a k r a'] show ?thesis by (auto simp: numbers_def gave_def)
qed

lemma free_subset: "allocator_inv a \<Longrightarrow> free a \<subseteq> covered (pools a)"
  by (auto simp: allocator_inv_def)

lemma numbers_free: "numbers n P pf a \<Longrightarrow> free a \<subseteq> P"
  using free_subset by (auto simp: numbers_def)

lemma numbers_in_bounds:
  assumes "numbers n P pf a" and "P \<subseteq> {0..1023}" and "pf \<le> 8"
  shows "in_bounds 1 (preferred_align a) a"
proof -
  have "- 1 \<notin> P" using assms(2)
    by (auto simp: word_le_nat_alt unsigned_minus_1_eq_mask mask_eq_exp_minus_1)
  moreover have "free a \<subseteq> P" using assms(1) by (rule numbers_free)
  moreover have "unat pf \<le> 8" using assms(3) by (simp add: word_le_nat_alt)
  ultimately show ?thesis using assms(1) by (auto simp: in_bounds_def numbers_def)
qed

lemma fresh_anon:
  assumes "numbers n P pf a" and "checked_add n 1 = Some m"
  shows "map_of (allocs a) (Anon m) = None" and "n \<le> m"
proof -
  from assms(2) have "n < m" by (simp add: checked_add_eq word_less_nat_alt)
  then show "map_of (allocs a) (Anon m) = None" "n \<le> m"
    using assms(1) by (auto simp: numbers_def)
qed

lemma fit_one: "fit 1 al r s \<longleftrightarrow> unat al dvd unat s \<and> s \<in> addrs r"
  by (auto simp: fit_def addrs_def word_le_nat_alt)

lemma fits_free_one: "fits_free 1 al a s \<longleftrightarrow> unat al dvd unat s \<and> s \<in> free a"
  by (auto simp: fits_free_def fit_one covered_def)

text \<open>The lowest number at the preferred alignment and, if there is none, the lowest of all.\<close>

definition first_number :: "u64 \<Rightarrow> u64 set \<Rightarrow> u64 \<Rightarrow> bool" where
  "first_number pf F s \<longleftrightarrow>
     (let G = {x \<in> F. unat pf dvd unat x}; H = (if G = {} then F else G) in s \<in> H \<and> (\<forall>x \<in> H. s \<le> x))"

lemma first_number_alt:
  "first_number pf (free a) s \<longleftrightarrow>
     best False (fits_free 1 (if \<exists>s. fits_free 1 pf a s then pf else 1) a) s"
  by (auto simp: first_number_def best_def fits_free_one Let_def)

lemma allocate_number:
  assumes nums: "numbers n P pf a" and "P \<subseteq> {0..1023}" and "pf \<le> 8" and m: "checked_add n 1 = Some m"
  shows "\<exists>res a'. allocate 1 (Anon m) t a = Some (res, a') \<and> numbers m P pf a' \<and>
    (case res of
       Inl e \<Rightarrow> e = OutOfSpace \<and> free a = {} \<and> a' = a
     | Inr s \<Rightarrow> first_number pf (free a) s \<and> took (Anon m) \<lparr>start = s, end' = s\<rparr> t a a')"
proof -
  from nums have inv: "allocator_inv a" and al: "min_align a = 1" "preferred_align a = pf" by (simp_all add: numbers_def)
  from allocate_preferred_returns [OF inv numbers_in_bounds [OF assms(1-3)], of False "Anon m" t]
  obtain res a' where run: "allocate_preferred False 1 (Anon m) t a = Some (res, a')" by blast
  note spec = allocate_preferred_spec [OF inv run]
  note fresh = fresh_anon [OF nums m]
  show ?thesis
  proof (cases res)
    case (Inl e)
    from inv have "is_power_of_two (chosen_align 1 a)" by (simp add: allocator_inv_def chosen_align_def)
    with spec Inl fresh have e: "a' = a" "e = OutOfSpace" "\<forall>s. \<not> fits_free 1 (chosen_align 1 a) a s"
      by (simp_all add: allocated_def)
    then have "free a = {}" using al by (auto simp: chosen_align_def fits_free_one split: if_splits)
    with e Inl run numbers_mono [OF nums fresh(2)] show ?thesis by (auto simp: allocate_preferred_def)
  next
    case (Inr s)
    with spec have t: "took (Anon m) \<lparr>start = s, end' = s\<rparr> t a a'"
      and best: "best False (fits_free 1 (chosen_align 1 a) a) s" by (simp_all add: allocated_def)
    have "first_number pf (free a) s"
      using best unfolding first_number_alt chosen_align_def al by simp
    with Inr run t numbers_took [OF nums t fresh(2)] show ?thesis by (auto simp: allocate_preferred_def)
  qed
qed

lemma allocate_number_at:
  assumes nums: "numbers n P pf a" and m: "checked_add n 1 = Some m" and ord: "hash_order order"
  shows "\<exists>res a'. allocate_at order \<lparr>start = x, end' = x\<rparr> (Anon m) t a = Some (res, a') \<and> numbers m P pf a' \<and>
    (if x \<in> free a then res = Ok () \<and> took (Anon m) \<lparr>start = x, end' = x\<rparr> t a a' else (\<exists>e. res = Err e) \<and> a' = a)"
proof -
  from nums have inv: "allocator_inv a" by (simp add: numbers_def)
  note fresh = fresh_anon [OF nums m]
  have single: "addrs \<lparr>start = x, end' = x\<rparr> = {x}" by (simp add: addrs_def)
  from allocate_at_spec [OF ord inv] obtain res a' where
    run: "allocate_at order \<lparr>start = x, end' = x\<rparr> (Anon m) t a = Some (res, a')"
    and spec: "allocated_at \<lparr>start = x, end' = x\<rparr> (Anon m) t a res a'" by blast
  show ?thesis
  proof (cases res)
    case (Inl e)
    with spec fresh have "a' = a" "\<forall>slot \<in> set (regions a). \<not> addrs \<lparr>start = x, end' = x\<rparr> \<subseteq> addrs slot"
      by (auto simp: allocated_at_def is_empty_def)
    then have "x \<notin> free a" "a' = a" by (auto simp: single covered_def)
    with Inl run numbers_mono [OF nums fresh(2)] show ?thesis by auto
  next
    case (Inr u)
    with spec have t: "took (Anon m) \<lparr>start = x, end' = x\<rparr> t a a'" by (simp add: allocated_at_def)
    then have "x \<in> free a" by (simp add: took_def single)
    with Inr run t numbers_took [OF nums t fresh(2)] show ?thesis by auto
  qed
qed

lemma release_number:
  assumes nums: "numbers n P pf a" and ord: "hash_order order"
  shows "numbers n P pf (snd (release_containing order x a))"
proof (cases "find_overlapping order \<lparr>start = x, end' = x\<rparr> a")
  case None
  with nums show ?thesis by (simp add: release_containing_def)
next
  case (Some k)
  from nums have inv: "allocator_inv a" by (simp add: numbers_def)
  from find_overlapping_Some [OF ord inv Some] obtain r t where "map_of (allocs a) k = Some (r, t)" by blast
  from release_gives [OF inv this] obtain a' where "release k a = (Ok r, a')" "gave k r a a'" by blast
  with Some numbers_gave [OF nums] show ?thesis by (auto simp: release_containing_def)
qed

lemma ucast_down_up: "v \<le> 1023 \<Longrightarrow> ucast (ucast (v :: u64) :: u32) = v"
  by (simp add: word_unat_eq_iff word_le_nat_alt unsigned_ucast_eq unsigned_take_bit_eq take_bit_nat_eq_self)

section \<open>The invariant of the system\<close>

definition pci_base :: "u8 \<Rightarrow> u64" where
  "pci_base bus = (if bus = 0 then 8 else 0)"

definition system_inv :: "u64 set \<Rightarrow> SystemAllocator \<Rightarrow> bool" where
  "system_inv irqs s \<longleftrightarrow>
     irqs \<subseteq> {0..1023} \<and> numbers (next_anon_id s) irqs 1 (irq_allocator s) \<and>
     numbers (next_anon_id s) {0..255} 1 (gpe_allocator s) \<and>
     (\<forall>bus a. pci_allocator s bus = Some a \<longrightarrow> numbers (next_anon_id s) {pci_base bus..255} 8 a) \<and>
     length (mmio_address_spaces s) = 2 \<and> list_all allocator_inv (mmio_address_spaces s)"

datatype sys_op =
    AllocateIrq | ReleaseIrq u32 | ReserveIrq u32 | AllocateGpe
  | AllocatePci u8 string | ReservePci Alloc string | ReleasePci u8 u8 u8
  | AllocateMmio u64 Alloc string AllocOptions | ReserveMmio AddressRange

fun sys_step :: "(allocs \<Rightarrow> allocs) \<Rightarrow> sys_op \<Rightarrow> SystemAllocator \<Rightarrow> SystemAllocator option" where
  "sys_step order AllocateIrq s = map_option snd (allocate_irq s)"
| "sys_step order (ReleaseIrq irq) s = Some (release_irq order irq s)"
| "sys_step order (ReserveIrq irq) s = map_option snd (reserve_irq order irq s)"
| "sys_step order AllocateGpe s = map_option snd (allocate_gpe s)"
| "sys_step order (AllocatePci bus t) s = map_option snd (allocate_pci bus t s)"
| "sys_step order (ReservePci k t) s = map_option snd (reserve_pci order k t s)"
| "sys_step order (ReleasePci bus dev func) s = Some (snd (release_pci order bus dev func s))"
| "sys_step order (AllocateMmio size' k t opts) s = map_option snd (allocate_mmio size' k t opts s)"
| "sys_step order (ReserveMmio r) s = map_option snd (reserve_mmio order r s)"

fun sys_run :: "(allocs \<Rightarrow> allocs) \<Rightarrow> sys_op list \<Rightarrow> SystemAllocator \<Rightarrow> SystemAllocator option" where
  "sys_run order [] s = Some s"
| "sys_run order (p # ps) s = Option.bind (sys_step order p s) (sys_run order ps)"

text \<open>Counting up the anonymous names keeps the invariant.\<close>

lemma anon_step:
  assumes "system_inv irqs s" and "checked_add (next_anon_id s) 1 = Some m"
  shows "system_inv irqs (s\<lparr>next_anon_id := m\<rparr>)"
proof -
  from assms(2) have "next_anon_id s \<le> m" by (simp add: checked_add_eq word_le_nat_alt)
  then show ?thesis using assms(1) by (auto simp: system_inv_def intro: numbers_mono)
qed

lemma get_anon_allocE:
  assumes "get_anon_alloc s = Some x"
  obtains m where "checked_add (next_anon_id s) 1 = Some m" and "x = (Anon m, s\<lparr>next_anon_id := m\<rparr>)"
  using assms by (auto simp: get_anon_alloc_def bind_eq_Some_conv)

lemma allocate_irq_spec:
  assumes inv: "system_inv irqs s" and m: "checked_add (next_anon_id s) 1 = Some m"
  shows "\<exists>r s'. allocate_irq s = Some (r, s') \<and> system_inv irqs s' \<and>
    (case r of
       None \<Rightarrow> free (irq_allocator s) = {} \<and> irq_allocator s' = irq_allocator s
     | Some irq \<Rightarrow> first_number 1 (free (irq_allocator s)) (ucast irq) \<and>
         free (irq_allocator s') = free (irq_allocator s) - {ucast irq})"
proof -
  from inv have nums: "numbers (next_anon_id s) irqs 1 (irq_allocator s)" "irqs \<subseteq> {0..1023}"
    by (simp_all add: system_inv_def)
  from allocate_number [OF nums _ m, of "''irq-auto''"] obtain res a' where
    run: "allocate 1 (Anon m) ''irq-auto'' (irq_allocator s) = Some (res, a')" "numbers m irqs 1 a'"
    and spec: "case res of
       Inl e \<Rightarrow> e = OutOfSpace \<and> free (irq_allocator s) = {} \<and> a' = irq_allocator s
     | Inr v \<Rightarrow> first_number 1 (free (irq_allocator s)) v \<and>
         took (Anon m) \<lparr>start = v, end' = v\<rparr> ''irq-auto'' (irq_allocator s) a'"
    by (auto simp: word_le_nat_alt)
  have eq: "allocate_irq s = Some (case res of Inr v \<Rightarrow> Some (ucast v) | Inl _ \<Rightarrow> None,
      s\<lparr>next_anon_id := m, irq_allocator := a'\<rparr>)"
    by (simp add: allocate_irq_def get_anon_alloc_def m run(1))
  have inv': "system_inv irqs (s\<lparr>next_anon_id := m, irq_allocator := a'\<rparr>)"
    using anon_step [OF inv m] run(2) by (simp add: system_inv_def)
  show ?thesis
  proof (cases res)
    case (Inl e)
    with eq inv' spec show ?thesis by simp
  next
    case (Inr v)
    with spec have v: "first_number 1 (free (irq_allocator s)) v"
      "free a' = free (irq_allocator s) - {v}" by (simp_all add: took_def addrs_def)
    have "v \<in> free (irq_allocator s)" using v(1) by (auto simp: first_number_def Let_def split: if_splits)
    then have "v \<le> 1023" using numbers_free [OF nums(1)] nums(2) by auto
    then have "ucast (ucast v :: u32) = v" by (rule ucast_down_up)
    with Inr eq inv' v show ?thesis by simp
  qed
qed

lemma new_numbers:
  assumes "AddressAllocator_new r (Some 1) pf = Ok a"
  shows "numbers n (addrs r) (case pf of None \<Rightarrow> 1 | Some x \<Rightarrow> x) a \<and> free a = addrs r \<and> allocs a = []"
proof -
  have new: "new_from_list [r] (Some 1) pf = Ok a" using assms by (simp add: AddressAllocator_new_def)
  from new_from_list_inv [OF this] have "allocator_inv a" "free a = addrs r" "allocs a = []"
    by (simp_all add: disjoint_pools_def)
  moreover from new have "min_align a = 1" "preferred_align a = (case pf of None \<Rightarrow> 1 | Some x \<Rightarrow> x)"
    "covered (pools a) = addrs r"
    using covered_filter [of "[r]"] by (auto simp: new_from_list_def Let_def split: if_splits)
  ultimately show ?thesis by (simp add: numbers_def)
qed

lemma new_numbers_ok:
  assumes "is_power_of_two (case pf of None \<Rightarrow> 1 | Some x \<Rightarrow> x)"
    and "(case pf of None \<Rightarrow> 1 | Some x \<Rightarrow> x) \<noteq> (0 :: u64)"
  shows "\<exists>a. AddressAllocator_new r (Some 1) pf = Ok a"
  using assms by (simp add: AddressAllocator_new_def new_from_list_def Let_def is_power_of_two_1 not_less)

lemma is_power_of_two_8: "is_power_of_two 8"
  unfolding is_power_of_two_iff by (rule exI [of _ 3]) simp

definition bus_allocator :: "u8 \<Rightarrow> (u8 \<rightharpoonup> AddressAllocator) \<Rightarrow> AddressAllocator option" where
  "bus_allocator bus pci =
     (case pci bus of
        Some a \<Rightarrow> Some a
      | None \<Rightarrow>
          (case AddressAllocator_new \<lparr>start = pci_base bus, end' = 255\<rparr> (Some 1) (Some 8) of
             Inr v \<Rightarrow> Some v | Inl _ \<Rightarrow> None))"

lemma get_pci_allocator_alt:
  "get_pci_allocator_mut bus s =
     map_option (\<lambda>a. (a, s\<lparr>pci_allocator := (pci_allocator s)(bus \<mapsto> a)\<rparr>)) (bus_allocator bus (pci_allocator s))"
proof (cases "pci_allocator s bus")
  case None
  then show ?thesis
    by (auto simp: get_pci_allocator_mut_def bus_allocator_def pci_base_def split: sum.split)
next
  case (Some a)
  then have "(pci_allocator s)(bus \<mapsto> a) = pci_allocator s" by auto
  with Some show ?thesis by (simp add: get_pci_allocator_mut_def bus_allocator_def)
qed

lemma bus_allocator_spec:
  assumes "system_inv irqs s"
  shows "\<exists>a. bus_allocator bus (pci_allocator s) = Some a \<and> numbers (next_anon_id s) {pci_base bus..255} 8 a"
proof (cases "pci_allocator s bus")
  case (Some a)
  with assms show ?thesis by (auto simp: bus_allocator_def system_inv_def)
next
  case None
  have "\<exists>a. AddressAllocator_new \<lparr>start = pci_base bus, end' = 255\<rparr> (Some 1) (Some 8) = Ok a"
    by (rule new_numbers_ok) (simp_all add: is_power_of_two_8)
  then obtain a where a: "AddressAllocator_new \<lparr>start = pci_base bus, end' = 255\<rparr> (Some 1) (Some 8) = Ok a" by blast
  from new_numbers [OF a] a None show ?thesis by (simp add: bus_allocator_def addrs_def)
qed

lemma system_inv_pci:
  assumes "system_inv irqs s" and "numbers (next_anon_id s) {pci_base bus..255} 8 a"
  shows "system_inv irqs (s\<lparr>pci_allocator := (pci_allocator s)(bus \<mapsto> a)\<rparr>)"
  using assms by (auto simp: system_inv_def)

lemma pci_base_bounds: "{pci_base bus..255} \<subseteq> {0..1023}"
  by (auto intro: order.trans)

lemma allocate_pci_spec:
  assumes inv: "system_inv irqs s" and m: "checked_add (next_anon_id s) 1 = Some m"
  shows "\<exists>a r s'. bus_allocator bus (pci_allocator s) = Some a \<and>
    allocate_pci bus t s = Some (r, s') \<and> system_inv irqs s' \<and>
    (case r of
       None \<Rightarrow> free a = {}
     | Some k \<Rightarrow> \<exists>v a'. first_number 8 (free a) v \<and> v \<le> 255 \<and> numbers m {pci_base bus..255} 8 a' \<and>
         pci_allocator s' bus = Some a' \<and>
         k = PciBar bus (ucast (drop_bit 3 v)) (ucast (v AND 7)) 0 \<and> took (Anon m) \<lparr>start = v, end' = v\<rparr> t a a')"
proof -
  let ?s = "s\<lparr>next_anon_id := m\<rparr>"
  from bus_allocator_spec [OF inv, of bus] obtain a where
    a: "bus_allocator bus (pci_allocator s) = Some a" "numbers (next_anon_id s) {pci_base bus..255} 8 a" by blast
  from allocate_number [OF a(2) pci_base_bounds _ m, of t] obtain res b where
    run: "allocate 1 (Anon m) t a = Some (res, b)" "numbers m {pci_base bus..255} 8 b"
    and spec: "case res of Inl e \<Rightarrow> e = OutOfSpace \<and> free a = {} \<and> b = a
      | Inr v \<Rightarrow> first_number 8 (free a) v \<and> took (Anon m) \<lparr>start = v, end' = v\<rparr> t a b" by auto
  let ?s' = "?s\<lparr>pci_allocator := (pci_allocator s)(bus \<mapsto> b)\<rparr>"
  have eq: "allocate_pci bus t s = Some (case res of
      Inr v \<Rightarrow> Some (PciBar bus (ucast (drop_bit 3 v)) (ucast (v AND 7)) 0) | Inl _ \<Rightarrow> None, ?s')"
    by (simp add: allocate_pci_def get_anon_alloc_def m get_pci_allocator_alt a(1) run(1))
  have inv': "system_inv irqs ?s'" using system_inv_pci [OF anon_step [OF inv m]] run(2) by simp
  show ?thesis
  proof (cases res)
    case (Inl e)
    with a(1) eq inv' spec show ?thesis by auto
  next
    case (Inr v)
    with spec have v: "first_number 8 (free a) v" "took (Anon m) \<lparr>start = v, end' = v\<rparr> t a b" by simp_all
    have "v \<in> free a" using v(1) by (auto simp: first_number_def Let_def split: if_splits)
    then have "v \<le> 255" using numbers_free [OF a(2)] by auto
    with Inr a(1) eq inv' v run(2) show ?thesis by auto
  qed
qed

section \<open>Every operation keeps the invariant\<close>

lemma alloc_step_inv:
  "hash_order order \<Longrightarrow> allocator_inv a \<Longrightarrow> alloc_step order p a = Some a' \<Longrightarrow> allocator_inv a'"
  using alloc_step_changed pool.changed_keeps by blast

lemma try_allocators_keeps:
  assumes "\<And>a r a'. allocator_inv a \<Longrightarrow> f a = Some (r, a') \<Longrightarrow> allocator_inv a'"
    and "list_all allocator_inv as" and "try_allocators f as r = Some (r', as')"
  shows "list_all allocator_inv as' \<and> length as' = length as"
  using assms(2,3)
proof (induction as arbitrary: r r' as')
  case (Cons a as)
  from Cons.prems(2) obtain q b where b: "f a = Some (q, b)" by (auto simp: bind_eq_Some_conv)
  have inv: "allocator_inv b" using assms(1) [OF _ b] Cons.prems(1) by simp
  show ?case
  proof (cases q)
    case (Inr x)
    with Cons.prems b inv show ?thesis by auto
  next
    case (Inl e)
    with Cons.prems(2) b obtain q' bs where "try_allocators f as (Err e) = Some (q', bs)" "as' = b # bs"
      by (auto simp: bind_eq_Some_conv)
    with Cons.IH [of "Err e" q' bs] Cons.prems(1) inv show ?thesis by simp
  qed
qed simp

lemma set_allocate_at_keeps:
  assumes ord: "hash_order order" and "list_all allocator_inv as" and "set_allocate_at order rng k t as = Some (r, as')"
  shows "list_all allocator_inv as' \<and> length as' = length as"
proof (rule try_allocators_keeps [OF _ assms(2) assms(3) [unfolded set_allocate_at_def]])
  fix a r a' assume "allocator_inv a" "allocate_at order rng k t a = Some (r, a')"
  then show "allocator_inv a'" using alloc_step_inv [OF ord, of a "AllocateAt rng k t" a'] by simp
qed

lemma system_inv_mmio:
  assumes "system_inv irqs s" and "list_all allocator_inv as" and "length as = 2"
  shows "system_inv irqs (s\<lparr>mmio_address_spaces := as\<rparr>)"
  using assms by (simp add: system_inv_def)

lemma allocate_mmio_internal_inv:
  assumes inv: "system_inv irqs s" and run: "allocate_mmio_internal size' k t opts ty s = Some (r, s')"
  shows "system_inv irqs s'"
proof -
  let ?i = "mmio_index ty"
  have i: "?i < length (mmio_address_spaces s)" using inv by (cases ty) (simp_all add: system_inv_def)
  then have a: "allocator_inv (mmio_address_spaces s ! ?i)" using inv by (simp add: system_inv_def list_all_length)
  define p where "p = (case alignment opts of None \<Rightarrow> Allocate (top_down opts) size' k t
    | Some al \<Rightarrow> AllocateWithAlign (top_down opts) size' k t al)"
  from run obtain a' where a': "alloc_step id p (mmio_address_spaces s ! ?i) = Some a'"
    "s' = s\<lparr>mmio_address_spaces := (mmio_address_spaces s)[?i := a']\<rparr>"
    by (cases "alignment opts"; cases "top_down opts")
      (auto simp: allocate_mmio_internal_def p_def Let_def bind_eq_Some_conv)
  from alloc_step_inv [OF hash_order_id a a'(1)] have "list_all allocator_inv ((mmio_address_spaces s)[?i := a'])"
    using inv set_update_subset_insert [of "mmio_address_spaces s" ?i a'] by (auto simp: system_inv_def list_all_iff)
  with inv a'(2) show ?thesis by (simp add: system_inv_def)
qed

lemma allocate_mmio_inv:
  assumes "system_inv irqs s" and "allocate_mmio size' k t opts s = Some (r, s')"
  shows "system_inv irqs s'"
  using assms
  by (auto simp: allocate_mmio_def Let_def bind_eq_Some_conv intro: allocate_mmio_internal_inv split: if_splits)

lemma reserve_mmio_loop_inv:
  assumes ord: "hash_order order"
  shows "system_inv irqs s \<Longrightarrow> reserve_mmio_loop order rng ps s = Some (r, s') \<Longrightarrow> system_inv irqs s'"
proof (induction ps arbitrary: s)
  case (Cons p ps)
  show ?case
  proof (cases "start p > end' rng \<or> is_empty (intersect p rng)")
    case True
    with Cons show ?thesis by (auto split: if_splits)
  next
    case False
    with Cons.prems(2) obtain k s1 q as where s1: "get_anon_alloc s = Some (k, s1)"
      and q: "set_allocate_at order (intersect p rng) k ''pci mmio reserve'' (mmio_address_spaces s1) = Some (q, as)"
      and rest: "(case q of Inl e \<Rightarrow> Some (Err e, s1\<lparr>mmio_address_spaces := as\<rparr>)
        | Inr _ \<Rightarrow> reserve_mmio_loop order rng ps (s1\<lparr>mmio_address_spaces := as\<rparr>)) = Some (r, s')"
      by (auto simp: Let_def bind_eq_Some_conv)
    from s1 have inv1: "system_inv irqs s1" using anon_step [OF Cons.prems(1)] by (auto elim!: get_anon_allocE)
    then have "system_inv irqs (s1\<lparr>mmio_address_spaces := as\<rparr>)"
      using set_allocate_at_keeps [OF ord _ q] by (auto simp: system_inv_def)
    with rest Cons.IH show ?thesis by (auto split: sum.splits)
  qed
qed simp

lemma sys_step_inv:
  assumes ord: "hash_order order" and inv: "system_inv irqs s" and run: "sys_step order p s = Some s'"
  shows "system_inv irqs s'"
proof (cases p)
  case AllocateIrq
  with run obtain r where r: "allocate_irq s = Some (r, s')" by auto
  then obtain m where "checked_add (next_anon_id s) 1 = Some m"
    by (auto simp: allocate_irq_def get_anon_alloc_def bind_eq_Some_conv)
  from allocate_irq_spec [OF inv this] r show ?thesis by auto
next
  case (ReleaseIrq irq)
  with run inv release_number [OF _ ord] show ?thesis by (auto simp: release_irq_def system_inv_def)
next
  case (ReserveIrq irq)
  with run obtain r where r: "reserve_irq order irq s = Some (r, s')" by auto
  then obtain m where m: "checked_add (next_anon_id s) 1 = Some m"
    by (auto simp: reserve_irq_def get_anon_alloc_def bind_eq_Some_conv)
  have "numbers (next_anon_id s) irqs 1 (irq_allocator s)" using inv by (simp add: system_inv_def)
  from allocate_number_at [OF this m ord, of "ucast irq" "''irq-fixed''"] r m anon_step [OF inv m] show ?thesis
    by (auto simp: reserve_irq_def get_anon_alloc_def system_inv_def)
next
  case AllocateGpe
  with run obtain r where r: "allocate_gpe s = Some (r, s')" by auto
  then obtain m where m: "checked_add (next_anon_id s) 1 = Some m"
    by (auto simp: allocate_gpe_def get_anon_alloc_def bind_eq_Some_conv)
  have "numbers (next_anon_id s) {0..255} 1 (gpe_allocator s)" using inv by (simp add: system_inv_def)
  from allocate_number [OF this _ _ m, of "''gpe-auto''"] obtain q a where
    "allocate 1 (Anon m) ''gpe-auto'' (gpe_allocator s) = Some (q, a)" "numbers m {0..255} 1 a"
    by (auto simp: word_le_nat_alt)
  with r m anon_step [OF inv m] show ?thesis
    by (auto simp: allocate_gpe_def get_anon_alloc_def system_inv_def)
next
  case (AllocatePci bus t)
  with run obtain r where r: "allocate_pci bus t s = Some (r, s')" by auto
  then obtain m where "checked_add (next_anon_id s) 1 = Some m"
    by (auto simp: allocate_pci_def get_anon_alloc_def bind_eq_Some_conv)
  from allocate_pci_spec [OF inv this, of bus t] r show ?thesis by auto
next
  case (ReservePci k t)
  with run obtain r where r: "reserve_pci order k t s = Some (r, s')" by auto
  then obtain m where m: "checked_add (next_anon_id s) 1 = Some m"
    by (auto simp: reserve_pci_def get_anon_alloc_def bind_eq_Some_conv)
  note inv' = anon_step [OF inv m]
  show ?thesis
  proof (cases k)
    case (PciBar bus dev func bar)
    from bus_allocator_spec [OF inv, of bus] obtain a where
      a: "bus_allocator bus (pci_allocator s) = Some a" "numbers (next_anon_id s) {pci_base bus..255} 8 a" by blast
    from allocate_number_at [OF a(2) m ord, of "pci_df dev func" t] obtain q b where
      b: "allocate_at order \<lparr>start = pci_df dev func, end' = pci_df dev func\<rparr> (Anon m) t a = Some (q, b)"
      "numbers m {pci_base bus..255} 8 b" by blast
    with r m a(1) PciBar system_inv_pci [OF inv', of bus b] show ?thesis
      by (auto simp: reserve_pci_def get_anon_alloc_def get_pci_allocator_alt)
  qed (use r m inv' in \<open>auto simp: reserve_pci_def get_anon_alloc_def\<close>)
next
  case (ReleasePci bus dev func)
  from bus_allocator_spec [OF inv, of bus] obtain a where
    a: "bus_allocator bus (pci_allocator s) = Some a" "numbers (next_anon_id s) {pci_base bus..255} 8 a" by blast
  from system_inv_pci [OF inv release_number [OF a(2) ord, of "pci_df dev func"]] run a(1) ReleasePci show ?thesis
    by (auto simp: release_pci_def get_pci_allocator_alt split: prod.splits)
next
  case (AllocateMmio size' k t opts)
  with run inv show ?thesis by (auto intro: allocate_mmio_inv)
next
  case (ReserveMmio r)
  with run inv show ?thesis by (auto simp: reserve_mmio_def intro: reserve_mmio_loop_inv [OF ord])
qed

lemma sys_run_inv:
  assumes "hash_order order"
  shows "system_inv irqs s \<Longrightarrow> sys_run order ps s = Some s' \<Longrightarrow> system_inv irqs s'"
proof (induction ps arbitrary: s)
  case (Cons p ps)
  from Cons.prems(2) obtain s1 where "sys_step order p s = Some s1" "sys_run order ps s1 = Some s'"
    by (auto simp: bind_eq_Some_conv)
  with Cons.IH sys_step_inv [OF assms Cons.prems(1)] show ?case by blast
qed simp

section \<open>New systems and PCI slots\<close>

lemma result_bind_Ok: "result_bind r f = Ok y \<longleftrightarrow> (\<exists>x. r = Ok x \<and> f x = Ok y)"
  by (auto simp: result_bind_def split: sum.splits)

lemma intersect_disjoint:
  "disjoint_pools ranges \<Longrightarrow> disjoint_pools (intersect_mmio_range ranges r)"
  unfolding disjoint_pools_def intersect_mmio_range_def
  by (auto simp: sorted_wrt_map addrs_intersect elim!: sorted_wrt_mono_rel [rotated])

lemma SystemAllocator_new_inv:
  assumes "SystemAllocator_new page_size c size' ranges = Some (Ok s)" and "disjoint_pools ranges"
  shows "system_inv {ucast (first_irq c)..1023} s"
proof -
  from assms(1) obtain high low_space high_space irq_space gpe_space where
    low: "new_from_list (intersect_mmio_range ranges (low_mmio c)) (Some page_size) None = Ok low_space"
    and high: "new_from_list (intersect_mmio_range ranges high) (Some page_size) None = Ok high_space"
    and irq: "AddressAllocator_new \<lparr>start = ucast (first_irq c), end' = 1023\<rparr> (Some 1) None = Ok irq_space"
    and gpe: "AddressAllocator_new \<lparr>start = 0, end' = 255\<rparr> (Some 1) None = Ok gpe_space"
    and s: "mmio_address_spaces s = [low_space, high_space]" "irq_allocator s = irq_space"
      "gpe_allocator s = gpe_space" "pci_allocator s = Map.empty"
    by (auto simp: SystemAllocator_new_def bind_eq_Some_conv result_bind_Ok)
  from new_from_list_inv [OF low] new_from_list_inv [OF high] have "allocator_inv low_space" "allocator_inv high_space"
    by (simp_all add: intersect_disjoint assms(2))
  with new_numbers [OF irq] new_numbers [OF gpe] s show ?thesis
    by (auto simp: system_inv_def addrs_def)
qed

lemma pci_df_split:
  assumes "v \<le> (255 :: u64)"
  shows "pci_df (ucast (drop_bit 3 v)) (ucast (v AND 7)) = v"
proof -
  have "take_bit 8 v = v"
    using assms by (simp add: word_unat_eq_iff word_le_nat_alt unsigned_take_bit_eq take_bit_nat_eq_self)
  then have high: "\<not> bit v n" if "8 \<le> n" for n using that by (metis bit_take_bit_iff not_le)
  have seven: "(7 :: u64) = mask 3" by (simp add: mask_eq_exp_minus_1)
  show ?thesis
  proof (rule bit_word_eqI)
    fix n assume n: "n < LENGTH(64)"
    have "\<not> bit v n \<or> n < 8" using high [of n] by linarith
    with n show "bit (pci_df (ucast (drop_bit 3 v)) (ucast (v AND 7))) n = bit v n"
      unfolding pci_df_def seven by (cases "n < 3") (auto simp: bit_simps)
  qed
qed

section \<open>Properties\<close>


definition sample_config :: SystemAllocatorConfig where
  "sample_config = \<lparr>io = None, low_mmio = \<lparr>start = 0x30000000, end' = 0x3000FFFF\<rparr>,
     high_mmio = \<lparr>start = 0x10000000, end' = 0x1FFFFFFF\<rparr>, platform_mmio = None, first_irq = 5\<rparr>"

definition sample_system :: SystemAllocator where
  "sample_system =
     (let space = (\<lambda>r al. \<lparr>pools = [r], min_align = al, preferred_align = al, allocs = [], regions = [r]\<rparr>) in
      \<lparr>io_address_space = None,
       mmio_address_spaces = [space (low_mmio sample_config) 0x100, space (high_mmio sample_config) 0x100],
       mmio_platform_address_spaces = None, reserved_region = None, pci_allocator = Map.empty,
       irq_allocator = space \<lparr>start = 5, end' = 1023\<rparr> 1, gpe_allocator = space \<lparr>start = 0, end' = 255\<rparr> 1,
       next_anon_id = 0\<rparr>)"

lemma sample_system_new: "SystemAllocator_new 0x100 sample_config None [] = Some (Ok sample_system)"
  by (simp add: SystemAllocator_new_def sample_config_def reserve_high_def result_bind_def opt_allocator_def
      intersect_mmio_range_def AddressAllocator_new_def new_from_list_def is_power_of_two_256 is_power_of_two_1
      is_empty_def sample_system_def Let_def)

lemma sample_system_inv: "system_inv {5..1023} sample_system"
  using SystemAllocator_new_inv [OF sample_system_new] by (simp add: disjoint_pools_def sample_config_def)


text \<open>
  \<open>allocate_irq\<close> returns the lowest interrupt number of the configured range that is not in use and
  takes exactly that one, and returns nothing only if all of them are in use.
\<close>

theorem allocate_irq_lowest:
  assumes "system_inv irqs s" and "next_anon_id s \<noteq> - 1"
  shows "\<exists>r s'. allocate_irq s = Some (r, s') \<and> system_inv irqs s' \<and>
    (case r of
       None \<Rightarrow> covered (regions (irq_allocator s)) = {}
     | Some irq \<Rightarrow>
         ucast irq = Min (covered (regions (irq_allocator s))) \<and> ucast irq \<in> irqs \<and>
         covered (regions (irq_allocator s')) = covered (regions (irq_allocator s)) - {ucast irq})"
proof -
  have "checked_add (next_anon_id s) 1 = Some (next_anon_id s + 1)"
    using unat_below_max [OF assms(2)] by (simp add: checked_add_def)
  from allocate_irq_spec [OF assms(1) this] obtain r s' where
    run: "allocate_irq s = Some (r, s')" "system_inv irqs s'"
    and r: "case r of None \<Rightarrow> free (irq_allocator s) = {} \<and> irq_allocator s' = irq_allocator s
      | Some irq \<Rightarrow> first_number 1 (free (irq_allocator s)) (ucast irq) \<and>
          free (irq_allocator s') = free (irq_allocator s) - {ucast irq}" by blast
  have "numbers (next_anon_id s) irqs 1 (irq_allocator s)" using assms(1) by (simp add: system_inv_def)
  then have sub: "free (irq_allocator s) \<subseteq> irqs" by (rule numbers_free)
  show ?thesis
  proof (cases r)
    case None
    with run r show ?thesis by auto
  next
    case (Some irq)
    with r have "ucast irq \<in> free (irq_allocator s)" "\<forall>x \<in> free (irq_allocator s). ucast irq \<le> x"
      by (auto simp: first_number_def Let_def split: if_splits)
    then have "Min (free (irq_allocator s)) = ucast irq" by (intro Min_eqI) auto
    with Some run r sub \<open>ucast irq \<in> free (irq_allocator s)\<close> show ?thesis by auto
  qed
qed

theorem allocate_irq_lowest_witness:
  "\<exists>r s'. allocate_irq sample_system = Some (r, s') \<and> system_inv {5..1023} s'"
  using allocate_irq_lowest [OF sample_system_inv] by (auto simp: sample_system_def Let_def)

text \<open>
  A PCI slot that was allocated is named by bus, device and function such that releasing that bus,
  device and function succeeds and makes exactly that slot available again; a slot that starts a
  device is preferred.
\<close>

theorem pci_allocate_release:
  assumes "hash_order order" and "system_inv irqs s"
    and "allocate_pci bus t s = Some (Some (PciBar bus' dev func bar), s1)"
  shows "\<exists>a s2 a2. bus' = bus \<and> bar = 0 \<and> first_number 8 (covered (regions a)) (pci_df dev func) \<and>
    get_pci_allocator_mut bus s = Some (a, s\<lparr>pci_allocator := (pci_allocator s)(bus \<mapsto> a)\<rparr>) \<and>
    release_pci order bus dev func s1 = (True, s2) \<and> system_inv irqs s2 \<and>
    pci_allocator s2 bus = Some a2 \<and> covered (regions a2) = covered (regions a)"
proof -
  from assms(3) obtain m where m: "checked_add (next_anon_id s) 1 = Some m"
    by (auto simp: allocate_pci_def get_anon_alloc_def bind_eq_Some_conv)
  from allocate_pci_spec [OF assms(2) m, of bus t] assms(3) obtain a v b where
    a: "bus_allocator bus (pci_allocator s) = Some a" and inv1: "system_inv irqs s1"
    and v: "first_number 8 (free a) v" "v \<le> 255" "took (Anon m) \<lparr>start = v, end' = v\<rparr> t a b"
    and b: "numbers m {pci_base bus..255} 8 b" "pci_allocator s1 bus = Some b"
    and k: "PciBar bus' dev func bar = PciBar bus (ucast (drop_bit 3 v)) (ucast (v AND 7)) 0" by auto
  have df: "pci_df dev func = v" using k pci_df_split [OF v(2)] by simp
  have invb: "allocator_inv b" using b(1) by (simp add: numbers_def)
  have held: "held b (Anon m) = {v}" using took_held [OF v(3)] by (simp add: addrs_def)
  from release_containing_held [OF invb assms(1), of v "Anon m"] held obtain r c where
    c: "addrs r = {v}" "release_containing order v b = (Ok r, c)" "gave (Anon m) r b c" by auto
  have "free c = free a" using c(1,3) v(3) by (auto simp: gave_def took_def addrs_def [of "\<lparr>start = v, end' = v\<rparr>"])
  moreover have "release_pci order bus dev func s1 = (True, s1\<lparr>pci_allocator := (pci_allocator s1)(bus \<mapsto> c)\<rparr>)"
    using b(2) c(2) by (simp add: release_pci_def get_pci_allocator_alt bus_allocator_def df)
  moreover from sys_step_inv [OF assms(1) inv1, of "ReleasePci bus dev func"] calculation(2)
  have "system_inv irqs (s1\<lparr>pci_allocator := (pci_allocator s1)(bus \<mapsto> c)\<rparr>)" by simp
  ultimately show ?thesis using a k v(1) df by (auto simp: get_pci_allocator_alt)
qed

lemma sample_allocate_pci:
  "\<exists>s1. allocate_pci 1 [] sample_system = Some (Some (PciBar 1 0 0 0), s1)"
  by (simp add: allocate_pci_def get_anon_alloc_def sample_system_def Let_def checked_add_def
      get_pci_allocator_mut_def AddressAllocator_new_def new_from_list_def is_power_of_two_1 is_power_of_two_8
      allocate_def allocate_with_align_def internal_allocate_with_align_def fits_forward_def start_forward_def
      checked_sub_def internal_allocate_from_slot_def range_evals max_def)

theorem pci_allocate_release_witness:
  "\<exists>s1 s2. allocate_pci 1 [] sample_system = Some (Some (PciBar 1 0 0 0), s1) \<and>
     release_pci id 1 0 0 s1 = (True, s2)"
proof -
  from sample_allocate_pci obtain s1 where s1: "allocate_pci 1 [] sample_system = Some (Some (PciBar 1 0 0 0), s1)"
    by blast
  from pci_allocate_release [OF hash_order_id sample_system_inv this] s1 show ?thesis by blast
qed

end
