(* ===== verification/Derive.thy ===== *)
theory Derive
  imports Frames
begin

text \<open>
  The code that the macros of \<open>third_party/p9_wire_format_derive\<close> generate: the \<open>WireFormat\<close> of a
  struct by \<open>derive(JetStreamWireFormat)\<close> (\<open>lib.rs\<close>), and the message types, frames and the \<open>rpc\<close> and
  \<open>handle\<close> functions that \<open>#[protocol]\<close> makes of a trait (\<open>protocol.rs\<close>).

  The types of the fields are not known to the macros. A field is a value of a type \<open>'v\<close> with the
  codec of its own type, and what the generated code relies on is that codec's contract
  \<open>wire_codec\<close>. The methods of the trait are functions on the state \<open>'s\<close> of the implementation.
\<close>

section \<open>Structs\<close>

record 'v codec =
  byte_size_of :: "'v \<Rightarrow> u32"
  encode_of :: "'v \<Rightarrow> unit writer"
  decode_of :: "'v reader"

definition byte_size_sum :: "'v codec list \<Rightarrow> 'v list \<Rightarrow> u32" where
  "byte_size_sum cs vs = foldl (+) 0 (map2 byte_size_of cs vs)"

fun encode_wire_format :: "'v codec list \<Rightarrow> 'v list \<Rightarrow> unit writer" where
  "encode_wire_format (c # cs) (v # vs) = io_then (encode_of c v) (encode_wire_format cs vs)"
| "encode_wire_format _ _ = io_return ()"

fun decode_wire_format :: "'v codec list \<Rightarrow> 'v list reader" where
  "decode_wire_format [] = io_return []"
| "decode_wire_format (c # cs) =
     io_bind (decode_of c) (\<lambda>v. io_bind (decode_wire_format cs) (\<lambda>vs. io_return (v # vs)))"

section \<open>Messages and frames of a protocol\<close>

definition MESSAGE_ID_START :: u8 where "MESSAGE_ID_START = 101"

text \<open>
  The identifiers of the method with a given index in the trait. \<open>2 * index as u8\<close> is computed by the
  macro; the sums are constants of type \<open>u8\<close> in the generated code, where one that does not fit is
  an error of the compiler: \<open>None\<close>.
\<close>

definition tmsg_id :: "nat \<Rightarrow> u8 option" where
  "tmsg_id index = checked_add MESSAGE_ID_START (2 * of_nat index)"

definition rmsg_id :: "nat \<Rightarrow> u8 option" where
  "rmsg_id index = Option.bind (tmsg_id index) (\<lambda>t. checked_add t 1)"

text \<open>
  The fields of the generated structs: the tag that comes first and the arguments of the method or
  its result.
\<close>

datatype 'v field = Tag u16 | Arg 'v

definition tag_codec :: "'v field codec" where
  "tag_codec =
     \<lparr>byte_size_of = (\<lambda>x. case x of Tag t \<Rightarrow> byte_size_u16 t | Arg _ \<Rightarrow> 0),
      encode_of = (\<lambda>x. case x of Tag t \<Rightarrow> encode_u16 t | Arg _ \<Rightarrow> io_return ()),
      decode_of = io_bind decode_u16 (\<lambda>t. io_return (Tag t))\<rparr>"

definition arg_codec :: "'v codec \<Rightarrow> 'v field codec" where
  "arg_codec c =
     \<lparr>byte_size_of = (\<lambda>x. case x of Tag _ \<Rightarrow> 0 | Arg v \<Rightarrow> byte_size_of c v),
      encode_of = (\<lambda>x. case x of Tag _ \<Rightarrow> io_return () | Arg v \<Rightarrow> encode_of c v),
      decode_of = io_bind (decode_of c) (\<lambda>v. io_return (Arg v))\<rparr>"

record ('v, 's) rpc_method =
  inputs :: "'v codec list"
  ret :: "'v codec"
  method_call :: "'v list \<Rightarrow> 's \<Rightarrow> 'v \<times> 's"

definition request_struct :: "('v, 's) rpc_method \<Rightarrow> 'v field codec list" where
  "request_struct m = tag_codec # map arg_codec (inputs m)"

definition return_struct :: "('v, 's) rpc_method \<Rightarrow> 'v field codec list" where
  "return_struct m = [tag_codec, arg_codec (ret m)]"

text \<open>A frame: the tag and the message, which is the index of its variant and the fields of its struct.\<close>

record 'v frame =
  frame_tag :: u16
  frame_msg :: "nat \<times> 'v field list"

definition frame_byte_size :: "'v field codec list list \<Rightarrow> 'v frame \<Rightarrow> u32" where
  "frame_byte_size structs f =
     (case frame_msg f of (i, vs) \<Rightarrow> of_nat (4 + 1 + 2) + byte_size_sum (structs ! i) vs)"

definition frame_encode :: "u8 list \<Rightarrow> 'v field codec list list \<Rightarrow> 'v frame \<Rightarrow> unit writer" where
  "frame_encode ids structs f =
     (case frame_msg f of (i, vs) \<Rightarrow>
        io_then (encode_u32 (frame_byte_size structs f)) (
        io_then (encode_u8 (ids ! i)) (
        io_then (encode_u16 (frame_tag f)) (
        encode_wire_format (structs ! i) vs))))"

text \<open>\<open>decode_message\<close> takes the first variant that has the type.\<close>

fun decode_message ::
    "nat \<Rightarrow> u8 list \<Rightarrow> 'v field codec list list \<Rightarrow> u8 \<Rightarrow> (nat \<times> 'v field list) reader" where
  "decode_message i (d # ids) (c # structs) mtype =
     (if mtype = d then io_bind (decode_wire_format c) (\<lambda>vs. io_return (i, vs))
      else decode_message (Suc i) ids structs mtype)"
| "decode_message i _ _ mtype = io_fail (Kind InvalidData)"

definition frame_decode :: "u8 list \<Rightarrow> 'v field codec list list \<Rightarrow> 'v frame reader" where
  "frame_decode ids structs =
     io_bind decode_u32 (\<lambda>byte_size.
       if byte_size < 4 then io_fail (Kind InvalidData)
       else io_take (unat (byte_size - 4)) (
         io_bind decode_u8 (\<lambda>mtype.
         io_bind decode_u16 (\<lambda>tag'.
         io_bind (decode_message 0 ids structs mtype) (\<lambda>msg.
         io_return \<lparr>frame_tag = tag', frame_msg = msg\<rparr>)))))"

definition tmsg_ids :: "nat \<Rightarrow> u8 list" where
  "tmsg_ids n = map (\<lambda>i. the (tmsg_id i)) [0..<n]"

definition rmsg_ids :: "nat \<Rightarrow> u8 list" where
  "rmsg_ids n = map (\<lambda>i. the (rmsg_id i)) [0..<n]"

definition encode_tframe :: "('v, 's) rpc_method list \<Rightarrow> 'v frame \<Rightarrow> unit writer" where
  "encode_tframe ms = frame_encode (tmsg_ids (length ms)) (map request_struct ms)"

definition decode_tframe :: "('v, 's) rpc_method list \<Rightarrow> 'v frame reader" where
  "decode_tframe ms = frame_decode (tmsg_ids (length ms)) (map request_struct ms)"

definition encode_rframe :: "('v, 's) rpc_method list \<Rightarrow> 'v frame \<Rightarrow> unit writer" where
  "encode_rframe ms = frame_encode (rmsg_ids (length ms)) (map return_struct ms)"

definition decode_rframe :: "('v, 's) rpc_method list \<Rightarrow> 'v frame reader" where
  "decode_rframe ms = frame_decode (rmsg_ids (length ms)) (map return_struct ms)"

section \<open>Calls\<close>

text \<open>The arguments are the fields after the tag; the struct that is returned carries the tag of the frame.\<close>

fun args_of :: "'v field list \<Rightarrow> 'v list" where
  "args_of [] = []"
| "args_of (Tag _ # fs) = args_of fs"
| "args_of (Arg v # fs) = v # args_of fs"

definition rpc :: "('v, 's) rpc_method list \<Rightarrow> 'v frame \<Rightarrow> 's \<Rightarrow> 'v frame \<times> 's" where
  "rpc ms req s =
     (case frame_msg req of (i, vs) \<Rightarrow>
        case method_call (ms ! i) (args_of vs) s of (v, s') \<Rightarrow>
          (\<lparr>frame_tag = frame_tag req, frame_msg = (i, [Tag (frame_tag req), Arg v])\<rparr>, s'))"

definition protocol_handle ::
    "('v, 's) rpc_method list \<Rightarrow> bytes \<Rightarrow> bytes \<Rightarrow> 's \<Rightarrow> unit io_result \<times> bytes \<times> bytes \<times> 's" where
  "protocol_handle ms reader out s =
     (case decode_tframe ms reader of
        (Inl e, reader') \<Rightarrow> (Err e, reader', out, s)
      | (Inr req, reader') \<Rightarrow>
          (case rpc ms req s of (res, s') \<Rightarrow>
             (case encode_rframe ms res out of (r, out') \<Rightarrow> (r, reader', out', s'))))"

section \<open>The codec of a struct\<close>

abbreviation codec_ok :: "'v codec \<Rightarrow> ('v \<Rightarrow> bool) \<Rightarrow> bool" where
  "codec_ok c good \<equiv> wire_codec (byte_size_of c) (encode_of c) (decode_of c) good"

definition struct_wf :: "('v \<Rightarrow> bool) list \<Rightarrow> 'v list \<Rightarrow> bool" where
  "struct_wf goods vs \<longleftrightarrow> list_all2 (\<lambda>good v. good v) goods vs"

lemma foldl_plus: "foldl (+) (a :: u32) xs = a + sum_list xs"
  by (induction xs arbitrary: a) (simp_all add: add.assoc)

lemma byte_size_sum_simps [simp]:
  "byte_size_sum [] [] = 0" "byte_size_sum (c # cs) (v # vs) = byte_size_of c v + byte_size_sum cs vs"
  by (simp_all add: byte_size_sum_def foldl_plus)

lemma struct_codec:
  assumes "list_all2 codec_ok cs goods" and "struct_wf goods vs"
  shows "encode_wire_format cs vs w = (Ok (), w @ payload (encode_wire_format cs) vs) \<and>
    byte_size_sum cs vs = of_nat (length (payload (encode_wire_format cs) vs)) \<and>
    decode_wire_format cs (payload (encode_wire_format cs) vs @ r) = (Ok vs, r)"
  using assms
proof (induction arbitrary: vs w rule: list_all2_induct)
  case Nil
  then show ?case by (simp add: struct_wf_def payload_def io_simps)
next
  case (Cons c cs good goods)
  from Cons.prems obtain u us where vs: "vs = u # us" "good u" "struct_wf goods us"
    by (auto simp: struct_wf_def list_all2_Cons1)
  note f = wire_codec.encode_appends [OF Cons.hyps(1) vs(2)] wire_codec.byte_size_payload [OF Cons.hyps(1) vs(2)]
    wire_codec.decode_payload [OF Cons.hyps(1) vs(2)]
  note ih = Cons.IH [OF vs(3)]
  have e: "encode_wire_format (c # cs) vs x =
      (Ok (), x @ payload (encode_of c) u @ payload (encode_wire_format cs) us)" for x
    using f(1) [of x] ih [of "x @ payload (encode_of c) u"] by (simp add: vs(1) io_simps)
  then have "payload (encode_wire_format (c # cs)) vs = payload (encode_of c) u @ payload (encode_wire_format cs) us"
    by (simp add: payload_def [of "encode_wire_format (c # cs)"])
  with e f ih show ?case by (simp add: vs(1) io_simps)
qed

lemma wire_codec_struct:
  "list_all2 codec_ok cs goods \<Longrightarrow>
     wire_codec (byte_size_sum cs) (encode_wire_format cs) (decode_wire_format cs) (struct_wf goods)"
  by (unfold_locales) (use struct_codec in blast)+

lemma tag_codec_ok: "codec_ok tag_codec (\<lambda>x. \<exists>t. x = Tag t)"
  by unfold_locales
    (auto simp: tag_codec_def payload_def [of "\<lambda>x. case x of Tag t \<Rightarrow> encode_u16 t | Arg _ \<Rightarrow> io_return ()"]
      payload_def [symmetric, of encode_u16] wire_simps io_simps)

lemma arg_codec_ok:
  assumes "codec_ok c good"
  shows "codec_ok (arg_codec c) (\<lambda>x. \<exists>v. x = Arg v \<and> good v)"
proof -
  note f = wire_codec.encode_appends [OF assms] wire_codec.byte_size_payload [OF assms] wire_codec.decode_payload [OF assms]
  have pay: "payload (case_field (\<lambda>_. io_return ()) (encode_of c)) (Arg v) = payload (encode_of c) v" for v
    by (simp add: payload_def)
  show ?thesis
    by unfold_locales (auto simp: pay f arg_codec_def io_simps)
qed

section \<open>The codec of a frame\<close>

definition structs_ok :: "'v field codec list list \<Rightarrow> ('v field \<Rightarrow> bool) list list \<Rightarrow> bool" where
  "structs_ok structs goods \<longleftrightarrow> list_all2 (list_all2 codec_ok) structs goods"

definition frame_wf :: "'v field codec list list \<Rightarrow> ('v field \<Rightarrow> bool) list list \<Rightarrow> 'v frame \<Rightarrow> bool" where
  "frame_wf structs goods f \<longleftrightarrow>
     (case frame_msg f of (i, vs) \<Rightarrow>
        i < length structs \<and> struct_wf (goods ! i) vs \<and>
        7 + length (payload (encode_wire_format (structs ! i)) vs) < 2 ^ 32)"

lemma decode_message_nth:
  assumes "distinct ids" and "length ids = length structs" and "i < length ids"
  shows "decode_message k ids structs (ids ! i) =
    io_bind (decode_wire_format (structs ! i)) (\<lambda>vs. io_return (k + i, vs))"
  using assms
proof (induction ids arbitrary: structs i k)
  case (Cons d ids)
  from Cons.prems(2) obtain c cs where c: "structs = c # cs" "length ids = length cs" by (cases structs) auto
  show ?case
  proof (cases i)
    case (Suc j)
    with Cons.prems have "ids ! j \<noteq> d" by (auto simp: in_set_conv_nth)
    with Suc c Cons.prems Cons.IH [of cs j "Suc k"] show ?thesis by simp
  qed (simp add: c)
qed simp

lemma frame_codec:
  assumes ids: "distinct ids" "length ids = length structs" and ok: "structs_ok structs goods"
    and f: "frame_wf structs goods f"
  shows "frame_encode ids structs f w = (Ok (), w @ payload (frame_encode ids structs) f) \<and>
    frame_byte_size structs f = of_nat (length (payload (frame_encode ids structs) f)) \<and>
    frame_decode ids structs (payload (frame_encode ids structs) f @ r) = (Ok f, r)"
proof -
  obtain i vs where m: "frame_msg f = (i, vs)" by (cases "frame_msg f")
  let ?body = "payload (encode_wire_format (structs ! i)) vs"
  from f m have i: "i < length structs" "struct_wf (goods ! i) vs" "7 + length ?body < 2 ^ 32"
    by (simp_all add: frame_wf_def)
  from ok i(1) have "list_all2 codec_ok (structs ! i) (goods ! i)" by (simp add: structs_ok_def list_all2_conv_all_nth)
  note c = struct_codec [OF this i(2)]
  have size: "frame_byte_size structs f = of_nat (7 + length ?body)"
    using c by (simp add: frame_byte_size_def m)
  have e: "frame_encode ids structs f x = (Ok (), x @ frame_bytes (ids ! i) (frame_tag f) ?body)" for x
    using c unfolding frame_encode_def size
    by (simp add: m frame_bytes_def wire_simps io_simps payload_u8)
  then have pay: "payload (frame_encode ids structs) f = frame_bytes (ids ! i) (frame_tag f) ?body"
    by (simp add: payload_def [of "frame_encode ids structs"])
  let ?k = "io_bind decode_u8 (\<lambda>mtype. io_bind decode_u16 (\<lambda>tag'.
    io_bind (decode_message 0 ids structs mtype) (\<lambda>msg. io_return \<lparr>frame_tag = tag', frame_msg = msg\<rparr>)))"
  have u8: "decode_u8 ((ids ! i) # q) = (Ok (ids ! i), q)" for q
    using u8.decode_payload [of "ids ! i" q] by (simp add: payload_u8)
  have "decode_message 0 ids structs (ids ! i) ?body = (Ok (i, vs), [])"
    using decode_message_nth [OF ids, of i 0] i(1) ids(2) c [of "[]" "[]"] by (simp add: io_simps)
  then have "?k ((ids ! i) # payload encode_u16 (frame_tag f) @ ?body) = (Ok f, [])"
    by (simp add: u8 wire_simps io_simps m [symmetric])
  then have "io_take (3 + length ?body) ?k (((ids ! i) # payload encode_u16 (frame_tag f) @ ?body) @ r) = (Ok f, [] @ r)"
    by (intro io_take_exact) simp_all
  moreover obtain sz where
    "decode_u32 (frame_bytes (ids ! i) (frame_tag f) ?body @ r) =
       (Ok sz, (ids ! i) # payload encode_u16 (frame_tag f) @ ?body @ r)"
    "\<not> sz < 4" "unat (sz - 4) = 3 + length ?body"
    by (rule frame_header [OF i(3)])
  ultimately have "frame_decode ids structs (frame_bytes (ids ! i) (frame_tag f) ?body @ r) = (Ok f, r)"
    by (simp add: frame_decode_def io_simps)
  with e pay size show ?thesis by (simp add: length_frame_bytes)
qed

section \<open>Identifiers\<close>

lemma tmsg_id_small:
  assumes "i \<le> 77"
  shows "\<exists>d. tmsg_id i = Some d \<and> unat d = 101 + 2 * i"
proof -
  have "unat (2 * of_nat i :: u8) = 2 * i"
    using assms unat_of_nat_small [of "2 * i", where 'a = 8] by simp
  with assms show ?thesis
    by (simp add: tmsg_id_def MESSAGE_ID_START_def checked_add_def unat_word_ariths)
qed

lemma rmsg_id_small:
  assumes "i < 77"
  shows "\<exists>d. rmsg_id i = Some d \<and> unat d = 102 + 2 * i"
proof -
  from assms tmsg_id_small [of i] obtain d where "tmsg_id i = Some d" "unat d = 101 + 2 * i" by auto
  with assms show ?thesis by (simp add: rmsg_id_def checked_add_def unat_word_ariths)
qed

lemma rmsg_id_77: "rmsg_id 77 = None"
proof -
  from tmsg_id_small [of 77] obtain d where "tmsg_id 77 = Some d" "unat d = 255" by auto
  then show ?thesis by (simp add: rmsg_id_def checked_add_def)
qed

lemma distinct_ids:
  assumes "n \<le> 77"
  shows "distinct (tmsg_ids n @ rmsg_ids n)"
proof -
  have "unat (the (tmsg_id i)) = 101 + 2 * i" "unat (the (rmsg_id i)) = 102 + 2 * i" if "i < n" for i
    using tmsg_id_small [of i] rmsg_id_small [of i] that assms by auto
  then have "map unat (tmsg_ids n @ rmsg_ids n) = map (\<lambda>i. 101 + 2 * i) [0..<n] @ map (\<lambda>i. 102 + 2 * i) [0..<n]"
    by (simp add: tmsg_ids_def rmsg_ids_def)
  moreover have "distinct (map (\<lambda>i. 101 + 2 * i) [0..<n] @ map (\<lambda>i. 102 + 2 * i) [0..<n])"
    by (auto simp: distinct_map inj_on_def) presburger
  ultimately show ?thesis by (metis distinct_map)
qed

lemma length_ids [simp]: "length (tmsg_ids n) = n" "length (rmsg_ids n) = n"
  by (simp_all add: tmsg_ids_def rmsg_ids_def)

section \<open>The frames of a protocol\<close>

text \<open>What the codecs of the arguments and of the result of each method accept.\<close>

type_synonym 'v signature = "('v \<Rightarrow> bool) list \<times> ('v \<Rightarrow> bool)"

definition method_ok :: "('v, 's) rpc_method \<Rightarrow> 'v signature \<Rightarrow> bool" where
  "method_ok m sig \<longleftrightarrow> list_all2 codec_ok (inputs m) (fst sig) \<and> codec_ok (ret m) (snd sig)"

definition is_tag :: "'v field \<Rightarrow> bool" where
  "is_tag x \<longleftrightarrow> (\<exists>t. x = Tag t)"

definition is_arg :: "('v \<Rightarrow> bool) \<Rightarrow> 'v field \<Rightarrow> bool" where
  "is_arg good x \<longleftrightarrow> (\<exists>v. x = Arg v \<and> good v)"

definition request_good :: "'v signature \<Rightarrow> ('v field \<Rightarrow> bool) list" where
  "request_good sig = is_tag # map is_arg (fst sig)"

definition return_good :: "'v signature \<Rightarrow> ('v field \<Rightarrow> bool) list" where
  "return_good sig = [is_tag, is_arg (snd sig)]"

lemma structs_ok_request:
  "list_all2 method_ok ms sigs \<Longrightarrow> structs_ok (map request_struct ms) (map request_good sigs)"
  using tag_codec_ok arg_codec_ok
  by (auto simp: structs_ok_def list_all2_map1 list_all2_map2 request_struct_def request_good_def method_ok_def
      is_tag_def [abs_def] is_arg_def [abs_def] elim!: list_all2_mono)

lemma structs_ok_return:
  "list_all2 method_ok ms sigs \<Longrightarrow> structs_ok (map return_struct ms) (map return_good sigs)"
  using tag_codec_ok arg_codec_ok
  by (auto simp: structs_ok_def list_all2_map1 list_all2_map2 return_struct_def return_good_def method_ok_def
      is_tag_def [abs_def] is_arg_def [abs_def] elim!: list_all2_mono)

lemma tframe_codec:
  assumes "length ms \<le> 77" and "list_all2 method_ok ms sigs"
    and "frame_wf (map request_struct ms) (map request_good sigs) f"
  shows "encode_tframe ms f w = (Ok (), w @ payload (encode_tframe ms) f) \<and>
    decode_tframe ms (payload (encode_tframe ms) f @ r) = (Ok f, r)"
  using frame_codec [OF _ _ structs_ok_request [OF assms(2)] assms(3), of "tmsg_ids (length ms)" w r]
    distinct_ids [OF assms(1)]
  by (simp add: encode_tframe_def decode_tframe_def)

lemma rframe_codec:
  assumes "length ms \<le> 77" and "list_all2 method_ok ms sigs"
    and "frame_wf (map return_struct ms) (map return_good sigs) f"
  shows "encode_rframe ms f w = (Ok (), w @ payload (encode_rframe ms) f) \<and>
    decode_rframe ms (payload (encode_rframe ms) f @ r) = (Ok f, r)"
  using frame_codec [OF _ _ structs_ok_return [OF assms(2)] assms(3), of "rmsg_ids (length ms)" w r]
    distinct_ids [OF assms(1)]
  by (simp add: encode_rframe_def decode_rframe_def)

section \<open>Properties\<close>

text \<open>
  C35. Deriving the wire format of a struct is correct for every struct: if the codec of each field is
  lossless, reads exactly what it wrote and knows its size, so does the derived one, whose encoding
  is that of the fields in order.
\<close>

theorem derive_correct:
  assumes "list_all2 codec_ok cs goods" and "struct_wf goods vs"
  shows "encode_wire_format cs vs w = (Ok (), w @ concat (map2 (\<lambda>c. payload (encode_of c)) cs vs)) \<and>
    byte_size_sum cs vs = of_nat (length (concat (map2 (\<lambda>c. payload (encode_of c)) cs vs))) \<and>
    decode_wire_format cs (concat (map2 (\<lambda>c. payload (encode_of c)) cs vs) @ r) = (Ok vs, r)"
proof -
  have "payload (encode_wire_format cs) vs = concat (map2 (\<lambda>c. payload (encode_of c)) cs vs)"
    using assms
  proof (induction arbitrary: vs rule: list_all2_induct)
    case Nil
    then show ?case by (simp add: struct_wf_def payload_def io_simps)
  next
    case (Cons c cs good goods)
    from Cons.prems obtain u us where vs: "vs = u # us" "good u" "struct_wf goods us"
      by (auto simp: struct_wf_def list_all2_Cons1)
    have "encode_wire_format (c # cs) vs [] =
        (Ok (), payload (encode_of c) u @ payload (encode_wire_format cs) us)"
      using wire_codec.encode_appends [OF Cons.hyps(1) vs(2), of "[]"]
        struct_codec [OF Cons.hyps(2) vs(3), of "payload (encode_of c) u"] by (simp add: vs(1) io_simps)
    with Cons.IH [OF vs(3)] show ?case by (simp add: payload_def [of "encode_wire_format (c # cs)"] vs(1))
  qed
  with struct_codec [OF assms, of w r] show ?thesis by simp
qed

definition u32_codec :: "u32 codec" where
  "u32_codec = \<lparr>byte_size_of = byte_size_u32, encode_of = encode_u32, decode_of = decode_u32\<rparr>"

lemma u32_codec_ok: "codec_ok u32_codec (\<lambda>_. True)"
  unfolding u32_codec_def by simp (rule u32.wire_codec_axioms)

theorem derive_correct_witness:
  "decode_wire_format [u32_codec, u32_codec]
     (concat (map2 (\<lambda>c. payload (encode_of c)) [u32_codec, u32_codec] [7, 9]) @ [1]) = (Ok [7, 9], [1])"
  using derive_correct [of "[u32_codec, u32_codec]" "[\<lambda>_. True, \<lambda>_. True]" "[7, 9]"]
  by (simp add: u32_codec_ok struct_wf_def)

text \<open>
  The numbers of the generated messages are sound: they all fit into a byte exactly for traits of
  at most 77 methods, and then no two requests, no two replies and no request and reply share one.
  A larger trait is rejected by the compiler.
\<close>

theorem protocol_ids_distinct:
  "list_all (\<lambda>i. rmsg_id i \<noteq> None) [0..<n] \<longleftrightarrow> n \<le> 77 \<and> distinct (tmsg_ids n @ rmsg_ids n)"
proof
  assume all: "list_all (\<lambda>i. rmsg_id i \<noteq> None) [0..<n]"
  have "n \<le> 77"
  proof (rule ccontr)
    assume "\<not> n \<le> 77"
    with all have "rmsg_id 77 \<noteq> None" by (simp only: list_all_iff set_upt) auto
    then show False by (simp add: rmsg_id_77)
  qed
  then show "n \<le> 77 \<and> distinct (tmsg_ids n @ rmsg_ids n)" using distinct_ids by simp
next
  assume n: "n \<le> 77 \<and> distinct (tmsg_ids n @ rmsg_ids n)"
  have "rmsg_id i \<noteq> None" if "i < n" for i using rmsg_id_small [of i] n that by auto
  then show "list_all (\<lambda>i. rmsg_id i \<noteq> None) [0..<n]" by (auto simp: list_all_iff)
qed


definition echo_method :: "(u32, nat) rpc_method" where
  "echo_method = \<lparr>inputs = [u32_codec], ret = u32_codec, method_call = (\<lambda>vs s. (hd vs, Suc s))\<rparr>"


end
