(* ===== verification/GuestMemory.thy ===== *)
theory GuestMemory
  imports Prelude "HOL-Library.Monad_Syntax"
begin

text \<open>
  Guest memory of \<open>libcrosvm\<close>: \<open>GuestAddress\<close> (\<open>vm_memory/src/guest_address.rs\<close>), the accesses
  to a \<open>MemoryMapping\<close> (\<open>base/src/mmap.rs\<close>, \<open>base/src/sys/linux/mmap.rs\<close>), \<open>MemoryRegion\<close> and
  \<open>GuestMemory\<close> (\<open>vm_memory/src/guest_memory.rs\<close>).

  A mapping is the list of its bytes. An operation that writes returns the memory after it, since
  the code changes the mapping behind a shared reference. \<open>usize\<close> has 64 bits and is the number it
  denotes; \<open>None\<close> is a panic. The mapped regions do not share bytes, as those of
  \<open>new_with_options\<close> do not: each has its own part of the shared memory object.
\<close>

section \<open>Addresses\<close>

type_synonym GuestAddress = u64

definition offset_from :: "GuestAddress \<Rightarrow> GuestAddress \<Rightarrow> u64 option" where
  "offset_from a base = checked_sub a base"

definition unchecked_add :: "GuestAddress \<Rightarrow> u64 \<Rightarrow> GuestAddress" where
  "unchecked_add a off = a + off"

definition GuestAddress_align :: "GuestAddress \<Rightarrow> u64 \<Rightarrow> GuestAddress option" where
  "GuestAddress_align a al =
     (if al \<le> 1 then Some a
      else map_option (\<lambda>x. x AND NOT (al - 1)) (checked_add a (al - 1)))"

section \<open>Errors\<close>

datatype mmap_error =
    AddFdMappingIsUnsupported | InvalidAddress | InvalidAlignment | InvalidArgument
  | MmapInvalidOffset | InvalidRange usize usize usize | NotPageAligned | ReadToMemory io_error
  | RemoveMappingIsUnsupported | StdSyscallFailed io_error | SystemCallFailed i32
  | WriteFromMemory io_error

datatype volatile_error = OutOfBounds usize | VolatileOverflow usize usize

datatype gm_error =
    InvalidGuestAddress GuestAddress | GmInvalidOffset u64 | InvalidSize usize
  | MemoryAccess GuestAddress mmap_error | MemoryAddSealsFailed i32 | MemoryCreationFailed i32
  | MemoryMappingFailed mmap_error | MemoryNotAligned | MemoryRegionOverlap
  | MemoryRegionTooLarge nat | ShortRead usize usize | ShortWrite usize usize
  | SplitOutOfBounds usize | VolatileMemoryAccess volatile_error

section \<open>Mappings\<close>

definition range_end :: "bytes \<Rightarrow> usize \<Rightarrow> usize \<Rightarrow> mmap_error + usize" where
  "range_end m off cnt =
     (case usize_add off cnt of
        None \<Rightarrow> Err InvalidAddress
      | Some mem_end \<Rightarrow> if length m < mem_end then Err InvalidAddress else Ok mem_end)"

definition overwrite :: "bytes \<Rightarrow> usize \<Rightarrow> bytes \<Rightarrow> bytes" where
  "overwrite m off bs = take off m @ bs @ drop (off + length bs) m"

definition write_slice :: "bytes \<Rightarrow> bytes \<Rightarrow> usize \<Rightarrow> mmap_error + usize \<times> bytes" where
  "write_slice m buf off =
     (case usize_sub (length m) off of
        Some size_past_offset \<Rightarrow>
          let bytes_copied = min size_past_offset (length buf)
          in Ok (bytes_copied, overwrite m off (take bytes_copied buf))
      | None \<Rightarrow> Err InvalidAddress)"

text \<open>The bytes read into a buffer of length \<open>n\<close>; their number is the result of the code.\<close>

definition read_slice :: "bytes \<Rightarrow> usize \<Rightarrow> usize \<Rightarrow> mmap_error + bytes" where
  "read_slice m n off =
     (case usize_sub (length m) off of
        Some size_past_offset \<Rightarrow> Ok (take (min size_past_offset n) (drop off m))
      | None \<Rightarrow> Err InvalidAddress)"

text \<open>Objects are their bytes. The volatile variants differ in ordering only.\<close>

definition mapping_write_obj :: "bytes \<Rightarrow> bytes \<Rightarrow> usize \<Rightarrow> mmap_error + bytes" where
  "mapping_write_obj m val off =
     (case range_end m off (length val) of Err e \<Rightarrow> Err e | Ok _ \<Rightarrow> Ok (overwrite m off val))"

definition mapping_read_obj :: "bytes \<Rightarrow> usize \<Rightarrow> usize \<Rightarrow> mmap_error + bytes" where
  "mapping_read_obj m size_of off =
     (case range_end m off size_of of Err e \<Rightarrow> Err e | Ok _ \<Rightarrow> Ok (take size_of (drop off m)))"

text \<open>
  A slice of a mapping is the offset and the number of its bytes. The mapping lies in the address
  space of the process, so the pointer to an offset within it does not overflow.
\<close>

definition mapping_get_slice :: "bytes \<Rightarrow> usize \<Rightarrow> usize \<Rightarrow> volatile_error + usize \<times> usize" where
  "mapping_get_slice m off cnt =
     (case usize_add off cnt of
        None \<Rightarrow> Err (VolatileOverflow off cnt)
      | Some mem_end \<Rightarrow> if length m < mem_end then Err (OutOfBounds mem_end) else Ok (off, cnt))"

section \<open>Regions\<close>

datatype MemoryRegionPurpose = GuestMemoryRegion

record MemoryRegionOptions =
  purpose :: MemoryRegionPurpose
  align :: u64

definition MemoryRegionOptions_new :: MemoryRegionOptions where
  "MemoryRegionOptions_new = \<lparr>purpose = GuestMemoryRegion, align = 0\<rparr>"

record MemoryRegion =
  mapping :: bytes
  guest_base :: GuestAddress
  obj_offset :: u64
  options :: MemoryRegionOptions

abbreviation map_size :: "MemoryRegion \<Rightarrow> usize" where
  "map_size r \<equiv> length (mapping r)"

definition region_start :: "MemoryRegion \<Rightarrow> GuestAddress" where
  "region_start r = guest_base r"

definition region_end :: "MemoryRegion \<Rightarrow> GuestAddress" where
  "region_end r = unchecked_add (guest_base r) (of_nat (map_size r))"

definition region_contains :: "MemoryRegion \<Rightarrow> GuestAddress \<Rightarrow> bool" where
  "region_contains r a \<longleftrightarrow> guest_base r \<le> a \<and> a < region_end r"

section \<open>The memory\<close>

record GuestMemory =
  regions :: "MemoryRegion list"

text \<open>
  Creating the shared memory object and mapping a part of it are system calls, so they are
  parameters: \<open>shm_new size\<close> is the error of \<open>SharedMemory::new\<close> and \<open>finalize_shm\<close> or none, and
  \<open>build size offset align\<close> the mapping of \<open>MemoryMappingBuilder::build\<close>.
\<close>

type_synonym shm_new = "u64 \<Rightarrow> gm_error option"
type_synonym build_mapping = "usize \<Rightarrow> u64 \<Rightarrow> u64 \<Rightarrow> mmap_error + bytes"
type_synonym mem_range = "GuestAddress \<times> u64 \<times> MemoryRegionOptions"

fun aligned_sum :: "u64 \<Rightarrow> mem_range list \<Rightarrow> u64 \<Rightarrow> (gm_error + u64) option" where
  "aligned_sum pg_size [] aligned_size = Some (Ok aligned_size)"
| "aligned_sum pg_size ((_, sz, _) # rs) aligned_size =
     (if sz mod pg_size \<noteq> 0 then Some (Err MemoryNotAligned)
      else do { s \<leftarrow> checked_add aligned_size sz; aligned_sum pg_size rs s })"

definition create_shm :: "u64 \<Rightarrow> shm_new \<Rightarrow> mem_range list \<Rightarrow> (gm_error + unit) option" where
  "create_shm pg_size shm_new ranges = do {
     r \<leftarrow> aligned_sum pg_size ranges 0;
     Some (case r of
             Err e \<Rightarrow> Err e
           | Ok s \<Rightarrow> (case shm_new s of Some e \<Rightarrow> Err e | None \<Rightarrow> Ok ()))
   }"

definition last_overlaps :: "MemoryRegion list \<Rightarrow> GuestAddress \<Rightarrow> bool" where
  "last_overlaps rs a \<longleftrightarrow>
     rs \<noteq> [] \<and>
     (case checked_add (guest_base (last rs)) (of_nat (map_size (last rs))) of
        None \<Rightarrow> True
      | Some e \<Rightarrow> a < e)"

fun map_ranges ::
  "build_mapping \<Rightarrow> mem_range list \<Rightarrow> MemoryRegion list \<Rightarrow> u64 \<Rightarrow> (gm_error + MemoryRegion list) option"
where
  "map_ranges build [] rs off = Some (Ok rs)"
| "map_ranges build ((a, sz, opts) # ranges) rs off =
     (if last_overlaps rs a then Some (Err MemoryRegionOverlap)
      else (case build (unat sz) off (align opts) of
              Err e \<Rightarrow> Some (Err (MemoryMappingFailed e))
            | Ok m \<Rightarrow> do {
                off' \<leftarrow> checked_add off sz;
                map_ranges build ranges
                  (rs @ [\<lparr>mapping = m, guest_base = a, obj_offset = off, options = opts\<rparr>]) off'
              }))"

definition new_with_options ::
  "u64 \<Rightarrow> shm_new \<Rightarrow> build_mapping \<Rightarrow> mem_range list \<Rightarrow> (gm_error + GuestMemory) option"
where
  "new_with_options pg_size shm_new build ranges = do {
     r \<leftarrow> create_shm pg_size shm_new ranges;
     (case r of
        Err e \<Rightarrow> Some (Err e)
      | Ok _ \<Rightarrow> do {
          rs \<leftarrow> map_ranges build ranges [] 0;
          Some (case rs of Err e \<Rightarrow> Err e | Ok rs \<Rightarrow> Ok \<lparr>regions = rs\<rparr>)
        })
   }"

definition GuestMemory_new ::
  "u64 \<Rightarrow> shm_new \<Rightarrow> build_mapping \<Rightarrow> (GuestAddress \<times> u64) list \<Rightarrow> (gm_error + GuestMemory) option"
where
  "GuestMemory_new pg_size shm_new build ranges =
     new_with_options pg_size shm_new build (map (\<lambda>(a, s). (a, s, MemoryRegionOptions_new)) ranges)"

fun check_regions :: "GuestAddress \<Rightarrow> MemoryRegion list \<Rightarrow> gm_error + unit" where
  "check_regions prev_end [] = Ok ()"
| "check_regions prev_end (r # rs) =
     (if guest_base r < prev_end then Err MemoryRegionOverlap
      else (case checked_add (guest_base r) (of_nat (map_size r)) of
              None \<Rightarrow> Err (MemoryRegionTooLarge (unat (guest_base r) + map_size r))
            | Some e \<Rightarrow> check_regions e rs))"

definition from_regions :: "MemoryRegion list \<Rightarrow> gm_error + GuestMemory" where
  "from_regions rs =
     (let rs = sort_key guest_base rs
      in case rs of
           r # r' # rs' \<Rightarrow>
             (case checked_add (guest_base r) (of_nat (map_size r)) of
                None \<Rightarrow> Err MemoryRegionOverlap
              | Some prev_end \<Rightarrow>
                  (case check_regions prev_end (r' # rs') of
                     Err e \<Rightarrow> Err e
                   | Ok _ \<Rightarrow> Ok \<lparr>regions = rs\<rparr>))
         | _ \<Rightarrow> Ok \<lparr>regions = rs\<rparr>)"

text \<open>\<open>Iterator::max_by_key\<close> returns the last of several greatest elements.\<close>

fun max_start :: "MemoryRegion \<Rightarrow> MemoryRegion list \<Rightarrow> MemoryRegion" where
  "max_start r [] = r"
| "max_start r (r' # rs) = (if region_start r \<le> region_start r' then max_start r' rs else max_start r rs)"

definition end_addr :: "GuestMemory \<Rightarrow> GuestAddress" where
  "end_addr mem = (case regions mem of [] \<Rightarrow> 0 | r # rs \<Rightarrow> region_end (max_start r rs))"

definition guest_memory_regions :: "GuestMemory \<Rightarrow> (GuestAddress \<times> usize) list" where
  "guest_memory_regions mem = map (\<lambda>r. (guest_base r, map_size r)) (regions mem)"

fun sum_sizes :: "MemoryRegion list \<Rightarrow> u64 \<Rightarrow> u64 option" where
  "sum_sizes [] s = Some s"
| "sum_sizes (r # rs) s = do { s' \<leftarrow> checked_add s (of_nat (map_size r)); sum_sizes rs s' }"

definition memory_size :: "GuestMemory \<Rightarrow> u64 option" where
  "memory_size mem = sum_sizes (regions mem) 0"

definition address_in_range :: "GuestMemory \<Rightarrow> GuestAddress \<Rightarrow> bool" where
  "address_in_range mem a \<longleftrightarrow> list_ex (\<lambda>r. region_contains r a) (regions mem)"

definition range_overlap :: "GuestMemory \<Rightarrow> GuestAddress \<Rightarrow> GuestAddress \<Rightarrow> bool" where
  "range_overlap mem s e \<longleftrightarrow> list_ex (\<lambda>r. region_start r < e \<and> s < region_end r) (regions mem)"

definition checked_offset :: "GuestMemory \<Rightarrow> GuestAddress \<Rightarrow> u64 \<Rightarrow> GuestAddress option" where
  "checked_offset mem a off =
     (case checked_add a off of
        None \<Rightarrow> None
      | Some a' \<Rightarrow> if address_in_range mem a' then Some a' else None)"

definition is_valid_range :: "GuestMemory \<Rightarrow> GuestAddress \<Rightarrow> u64 \<Rightarrow> bool" where
  "is_valid_range mem s n \<longleftrightarrow>
     n \<noteq> 0 \<and>
     (case checked_add s (n - 1) of
        None \<Rightarrow> False
      | Some e \<Rightarrow> list_ex (\<lambda>r. region_start r \<le> s \<and> e < region_end r) (regions mem))"

section \<open>Accesses\<close>

text \<open>A reference to a region is its position in the list.\<close>

definition region_index :: "GuestMemory \<Rightarrow> GuestAddress \<Rightarrow> nat option" where
  "region_index mem a =
     List.find (\<lambda>i. region_contains (regions mem ! i) a) [0..<length (regions mem)]"

definition find_region :: "GuestMemory \<Rightarrow> GuestAddress \<Rightarrow> gm_error + nat \<times> usize \<times> u64" where
  "find_region mem a =
     (case region_index mem a of
        None \<Rightarrow> Err (InvalidGuestAddress a)
      | Some i \<Rightarrow> let r = regions mem ! i
                 in Ok (i, unat (a - region_start r), obj_offset r))"

definition set_mapping :: "GuestMemory \<Rightarrow> nat \<Rightarrow> bytes \<Rightarrow> GuestMemory" where
  "set_mapping mem i m = mem\<lparr>regions := (regions mem)[i := (regions mem ! i)\<lparr>mapping := m\<rparr>]\<rparr>"

definition write_at_addr :: "GuestMemory \<Rightarrow> bytes \<Rightarrow> GuestAddress \<Rightarrow> gm_error + usize \<times> GuestMemory" where
  "write_at_addr mem buf a =
     (case find_region mem a of
        Err e \<Rightarrow> Err e
      | Ok (i, off, _) \<Rightarrow>
          (case write_slice (mapping (regions mem ! i)) buf off of
             Err e \<Rightarrow> Err (MemoryAccess a e)
           | Ok (n, m) \<Rightarrow> Ok (n, set_mapping mem i m)))"

text \<open>The memory is part of the result also when only a part was written.\<close>

definition write_all_at_addr ::
  "GuestMemory \<Rightarrow> bytes \<Rightarrow> GuestAddress \<Rightarrow> (gm_error + unit) \<times> GuestMemory"
where
  "write_all_at_addr mem buf a =
     (case write_at_addr mem buf a of
        Err e \<Rightarrow> (Err e, mem)
      | Ok (completed, mem') \<Rightarrow>
          (if length buf = completed then Ok () else Err (ShortWrite (length buf) completed), mem'))"

definition read_at_addr :: "GuestMemory \<Rightarrow> usize \<Rightarrow> GuestAddress \<Rightarrow> gm_error + bytes" where
  "read_at_addr mem n a =
     (case find_region mem a of
        Err e \<Rightarrow> Err e
      | Ok (i, off, _) \<Rightarrow>
          (case read_slice (mapping (regions mem ! i)) n off of
             Err e \<Rightarrow> Err (MemoryAccess a e)
           | Ok bs \<Rightarrow> Ok bs))"

definition read_exact_at_addr :: "GuestMemory \<Rightarrow> usize \<Rightarrow> GuestAddress \<Rightarrow> gm_error + bytes" where
  "read_exact_at_addr mem n a =
     (case read_at_addr mem n a of
        Err e \<Rightarrow> Err e
      | Ok bs \<Rightarrow> if n = length bs then Ok bs else Err (ShortRead n (length bs)))"

definition read_obj_from_addr :: "GuestMemory \<Rightarrow> usize \<Rightarrow> GuestAddress \<Rightarrow> gm_error + bytes" where
  "read_obj_from_addr mem size_of a =
     (case find_region mem a of
        Err e \<Rightarrow> Err e
      | Ok (i, off, _) \<Rightarrow>
          (case mapping_read_obj (mapping (regions mem ! i)) size_of off of
             Err e \<Rightarrow> Err (MemoryAccess a e)
           | Ok bs \<Rightarrow> Ok bs))"

definition write_obj_at_addr :: "GuestMemory \<Rightarrow> bytes \<Rightarrow> GuestAddress \<Rightarrow> gm_error + GuestMemory" where
  "write_obj_at_addr mem val a =
     (case find_region mem a of
        Err e \<Rightarrow> Err e
      | Ok (i, off, _) \<Rightarrow>
          (case mapping_write_obj (mapping (regions mem ! i)) val off of
             Err e \<Rightarrow> Err (MemoryAccess a e)
           | Ok m \<Rightarrow> Ok (set_mapping mem i m)))"

text \<open>A slice of guest memory: the region, the offset in its mapping and the number of bytes.\<close>

type_synonym VolatileSlice = "nat \<times> usize \<times> usize"

definition get_slice_at_addr :: "GuestMemory \<Rightarrow> GuestAddress \<Rightarrow> usize \<Rightarrow> gm_error + VolatileSlice" where
  "get_slice_at_addr mem a n =
     (case region_index mem a of
        None \<Rightarrow> Err (InvalidGuestAddress a)
      | Some i \<Rightarrow> let r = regions mem ! i
                 in (case mapping_get_slice (mapping r) (unat (a - region_start r)) n of
                       Err e \<Rightarrow> Err (VolatileMemoryAccess e)
                     | Ok (off, cnt) \<Rightarrow> Ok (i, off, cnt)))"

definition get_host_address_range :: "GuestMemory \<Rightarrow> GuestAddress \<Rightarrow> usize \<Rightarrow> gm_error + nat \<times> usize" where
  "get_host_address_range mem a size' =
     (if size' = 0 then Err (InvalidSize size')
      else case find_region mem a of
             Err e \<Rightarrow> Err e
           | Ok (i, off, _) \<Rightarrow>
               (case usize_sub (map_size (regions mem ! i)) off of
                  None \<Rightarrow> Err (InvalidGuestAddress a)
                | Some v \<Rightarrow> if v < size' then Err (InvalidGuestAddress a) else Ok (i, off)))"

definition offset_from_base :: "GuestMemory \<Rightarrow> GuestAddress \<Rightarrow> (gm_error + u64) option" where
  "offset_from_base mem a =
     (case region_index mem a of
        None \<Rightarrow> Some (Err (InvalidGuestAddress a))
      | Some i \<Rightarrow> let r = regions mem ! i
                 in map_option Inr (checked_add (obj_offset r) (a - region_start r)))"

definition slice_bytes :: "GuestMemory \<Rightarrow> VolatileSlice \<Rightarrow> bytes" where
  "slice_bytes mem = (\<lambda>(i, off, n). take n (drop off (mapping (regions mem ! i))))"

definition write_to_slice :: "GuestMemory \<Rightarrow> VolatileSlice \<Rightarrow> bytes \<Rightarrow> GuestMemory" where
  "write_to_slice mem = (\<lambda>(i, off, n) bs.
     set_mapping mem i (overwrite (mapping (regions mem ! i)) off bs))"

section \<open>Memory as a function of the address\<close>

text \<open>
  The abstract view: a partial function from addresses (numbers) to bytes. \<open>mem_ok\<close> says that the
  regions are in order, do not overlap and end below the last address of the address space;
  \<open>backed\<close> that a run of bytes lies within one region of a layout.
\<close>

definition mem_ok :: "GuestMemory \<Rightarrow> bool" where
  "mem_ok mem \<longleftrightarrow>
     list_all (\<lambda>r. unat (guest_base r) + map_size r < 2 ^ 64) (regions mem) \<and>
     sorted_wrt (\<lambda>r s. unat (guest_base r) + map_size r \<le> unat (guest_base s)) (regions mem)"

definition in_region :: "MemoryRegion \<Rightarrow> nat \<Rightarrow> bool" where
  "in_region r x \<longleftrightarrow> unat (guest_base r) \<le> x \<and> x < unat (guest_base r) + map_size r"

definition byte_at :: "GuestMemory \<Rightarrow> nat \<Rightarrow> u8 option" where
  "byte_at mem x =
     map_option (\<lambda>r. mapping r ! (x - unat (guest_base r))) (List.find (\<lambda>r. in_region r x) (regions mem))"

definition bytes_at :: "GuestMemory \<Rightarrow> nat \<Rightarrow> nat \<Rightarrow> bytes" where
  "bytes_at mem a n = map (\<lambda>i. the (byte_at mem (a + i))) [0..<n]"

definition backed :: "(GuestAddress \<times> usize) list \<Rightarrow> nat \<Rightarrow> nat \<Rightarrow> bool" where
  "backed lay a n \<longleftrightarrow> list_ex (\<lambda>(b, s). unat b \<le> a \<and> a + n \<le> unat b + s) lay"

lemma length_bytes_at [simp]: "length (bytes_at mem a n) = n"
  by (simp add: bytes_at_def)

lemma offset_from_contains:
  "region_contains r a \<Longrightarrow> offset_from a (region_start r) = Some (a - region_start r)"
  by (simp add: offset_from_def checked_sub_def region_contains_def region_start_def)

lemma mem_ok_size: "mem_ok mem \<Longrightarrow> r \<in> set (regions mem) \<Longrightarrow> unat (guest_base r) + map_size r < 2 ^ 64"
  by (auto simp: mem_ok_def list_all_iff)

lemma region_end_unat:
  assumes "unat (guest_base r) + map_size r < 2 ^ 64"
  shows "unat (region_end r) = unat (guest_base r) + map_size r"
  using assms by (simp add: region_end_def unchecked_add_def unat_word_ariths unat_of_nat_small)

lemma region_contains_iff:
  assumes "unat (guest_base r) + map_size r < 2 ^ 64"
  shows "region_contains r a \<longleftrightarrow> in_region r (unat a)"
  using region_end_unat [OF assms]
  by (simp add: region_contains_def in_region_def word_le_nat_alt word_less_nat_alt)

lemma in_region_unique:
  assumes "mem_ok mem" "i < length (regions mem)" "j < length (regions mem)"
    and "in_region (regions mem ! i) x" "in_region (regions mem ! j) x"
  shows "i = j"
proof (rule ccontr)
  assume "i \<noteq> j"
  then consider "i < j" | "j < i" by linarith
  then show False
  proof cases
    case 1
    with assms have "unat (guest_base (regions mem ! i)) + map_size (regions mem ! i)
        \<le> unat (guest_base (regions mem ! j))"
      by (auto simp: mem_ok_def sorted_wrt_iff_nth_less)
    with assms(4,5) show False by (simp add: in_region_def)
  next
    case 2
    with assms have "unat (guest_base (regions mem ! j)) + map_size (regions mem ! j)
        \<le> unat (guest_base (regions mem ! i))"
      by (auto simp: mem_ok_def sorted_wrt_iff_nth_less)
    with assms(4,5) show False by (simp add: in_region_def)
  qed
qed

lemma find_upt_SomeI:
  assumes "i < n" "P i" "\<And>j. j < n \<Longrightarrow> P j \<Longrightarrow> j = i"
  shows "List.find P [0..<n] = Some i"
proof -
  have "\<not> P j" if "j < i" for j
  proof
    assume "P j"
    then have "j = i" using that assms(1) by (intro assms(3)) simp_all
    with that show False by simp
  qed
  then show ?thesis using assms(1,2) by (auto simp: find_Some_iff intro!: exI [of _ i])
qed

lemma region_index_Some:
  assumes "mem_ok mem"
  shows "region_index mem a = Some i \<longleftrightarrow> i < length (regions mem) \<and> in_region (regions mem ! i) (unat a)"
proof
  assume "region_index mem a = Some i"
  then have "i < length (regions mem)" "region_contains (regions mem ! i) a"
    by (auto simp: region_index_def find_Some_iff)
  then show "i < length (regions mem) \<and> in_region (regions mem ! i) (unat a)"
    using region_contains_iff mem_ok_size [OF assms] by (metis nth_mem)
next
  assume i: "i < length (regions mem) \<and> in_region (regions mem ! i) (unat a)"
  have c: "region_contains (regions mem ! j) a \<longleftrightarrow> in_region (regions mem ! j) (unat a)"
    if "j < length (regions mem)" for j
    using that region_contains_iff mem_ok_size [OF assms] by (metis nth_mem)
  show "region_index mem a = Some i"
    unfolding region_index_def
  proof (rule find_upt_SomeI)
    fix j assume "j < length (regions mem)" "region_contains (regions mem ! j) a"
    then show "j = i" using c i in_region_unique [OF assms] by blast
  qed (use i c in auto)
qed

lemma region_index_None:
  assumes "mem_ok mem"
  shows "region_index mem a = None \<longleftrightarrow> (\<forall>i < length (regions mem). \<not> in_region (regions mem ! i) (unat a))"
  using region_index_Some [OF assms, of a] by (metis not_None_eq option.distinct(1))

lemma find_in_region:
  assumes "mem_ok mem" "i < length (regions mem)" "in_region (regions mem ! i) x"
  shows "List.find (\<lambda>r. in_region r x) (regions mem) = Some (regions mem ! i)"
proof -
  have "\<not> in_region (regions mem ! j) x" if "j < i" for j
    using in_region_unique [OF assms(1), of j i x] that assms by auto
  then show ?thesis using assms by (auto simp: find_Some_iff)
qed

lemma byte_at_region:
  assumes "mem_ok mem" "i < length (regions mem)" "in_region (regions mem ! i) x"
  shows "byte_at mem x = Some (mapping (regions mem ! i) ! (x - unat (guest_base (regions mem ! i))))"
  using find_in_region [OF assms] by (simp add: byte_at_def)

lemma byte_at_Some_iff:
  assumes "mem_ok mem"
  shows "byte_at mem x \<noteq> None \<longleftrightarrow> (\<exists>i < length (regions mem). in_region (regions mem ! i) x)"
  by (auto simp: byte_at_def find_None_iff in_set_conv_nth)

lemma backed_iff:
  "backed (guest_memory_regions mem) a n \<longleftrightarrow>
     (\<exists>i < length (regions mem). unat (guest_base (regions mem ! i)) \<le> a \<and>
        a + n \<le> unat (guest_base (regions mem ! i)) + map_size (regions mem ! i))"
  by (auto simp: backed_def guest_memory_regions_def list_ex_iff in_set_conv_nth)
    (metis nth_mem)

lemma bytes_at_region:
  assumes "mem_ok mem" "i < length (regions mem)"
    and "unat (guest_base (regions mem ! i)) \<le> a"
    and "a + n \<le> unat (guest_base (regions mem ! i)) + map_size (regions mem ! i)"
  shows "bytes_at mem a n = take n (drop (a - unat (guest_base (regions mem ! i))) (mapping (regions mem ! i)))"
proof (rule nth_equalityI)
  show "length (bytes_at mem a n)
      = length (take n (drop (a - unat (guest_base (regions mem ! i))) (mapping (regions mem ! i))))"
    using assms(3,4) by simp
  fix k assume "k < length (bytes_at mem a n)"
  then have k: "k < n" by simp
  then have "in_region (regions mem ! i) (a + k)" using assms(3,4) by (simp add: in_region_def)
  then have "byte_at mem (a + k) = Some (mapping (regions mem ! i) ! (a + k - unat (guest_base (regions mem ! i))))"
    by (rule byte_at_region [OF assms(1,2)])
  with k assms(3,4) show "bytes_at mem a n ! k
      = take n (drop (a - unat (guest_base (regions mem ! i))) (mapping (regions mem ! i))) ! k"
    by (simp add: bytes_at_def)
qed

lemma unat_offset:
  assumes "in_region r (unat a)"
  shows "unat (a - region_start r) = unat a - unat (guest_base r)"
  using assms by (simp add: region_start_def in_region_def unat_sub word_le_nat_alt)

section \<open>Reading\<close>

lemma read_obj_backed:
  assumes "mem_ok mem" "0 < n" "backed (guest_memory_regions mem) (unat a) n"
  shows "read_obj_from_addr mem n a = Ok (bytes_at mem (unat a) n)"
proof -
  obtain i where i: "i < length (regions mem)" "unat (guest_base (regions mem ! i)) \<le> unat a"
      "unat a + n \<le> unat (guest_base (regions mem ! i)) + map_size (regions mem ! i)"
    using assms(3) by (auto simp: backed_iff)
  then have "in_region (regions mem ! i) (unat a)" using assms(2) by (simp add: in_region_def)
  moreover from this have "region_index mem a = Some i" using i(1) by (simp add: region_index_Some [OF assms(1)])
  moreover have "unat (guest_base (regions mem ! i)) + map_size (regions mem ! i) < 2 ^ 64"
    using mem_ok_size [OF assms(1)] i(1) by simp
  ultimately show ?thesis
    using i bytes_at_region [OF assms(1) i]
    by (simp add: read_obj_from_addr_def find_region_def unat_offset Let_def mapping_read_obj_def
        range_end_def usize_add_def)
qed

lemma read_obj_not_backed:
  assumes "mem_ok mem" "\<not> backed (guest_memory_regions mem) (unat a) n"
  shows "\<exists>e. read_obj_from_addr mem n a = Err e"
proof (cases "region_index mem a")
  case None
  then show ?thesis by (simp add: read_obj_from_addr_def find_region_def)
next
  case (Some i)
  then have i: "i < length (regions mem)" "in_region (regions mem ! i) (unat a)"
    by (simp_all add: region_index_Some [OF assms(1)])
  then have "\<not> unat a - unat (guest_base (regions mem ! i)) + n \<le> map_size (regions mem ! i)"
    using assms(2) by (auto simp: backed_iff in_region_def)
  then show ?thesis
    using Some i
    by (auto simp: read_obj_from_addr_def find_region_def unat_offset Let_def mapping_read_obj_def
        range_end_def usize_add_def)
qed

lemma read_obj_Ok_iff:
  assumes "mem_ok mem" "0 < n"
  shows "read_obj_from_addr mem n a = Ok bs \<longleftrightarrow>
           backed (guest_memory_regions mem) (unat a) n \<and> bs = bytes_at mem (unat a) n"
  using read_obj_backed [OF assms] read_obj_not_backed [OF assms(1), of a n] by fastforce

lemma get_slice_backed:
  assumes "mem_ok mem" "0 < n"
  shows "get_slice_at_addr mem a n = Ok (i, off, cnt) \<longleftrightarrow>
           i < length (regions mem) \<and> in_region (regions mem ! i) (unat a) \<and> cnt = n \<and>
           off = unat a - unat (guest_base (regions mem ! i)) \<and> off + n \<le> map_size (regions mem ! i)"
proof (cases "region_index mem a")
  case None
  then have "\<forall>i < length (regions mem). \<not> in_region (regions mem ! i) (unat a)"
    by (simp add: region_index_None [OF assms(1)])
  then show ?thesis using None by (auto simp: get_slice_at_addr_def)
next
  case (Some j)
  then have j: "j < length (regions mem)" "in_region (regions mem ! j) (unat a)"
    by (simp_all add: region_index_Some [OF assms(1)])
  have sz: "unat (guest_base (regions mem ! j)) + map_size (regions mem ! j) < 2 ^ 64"
    using mem_ok_size [OF assms(1)] j(1) by simp
  have "i = j" if "i < length (regions mem)" "in_region (regions mem ! i) (unat a)"
    using in_region_unique [OF assms(1) that(1) j(1) that(2) j(2)] .
  then show ?thesis
    using Some j sz
    by (auto simp: get_slice_at_addr_def Let_def unat_offset mapping_get_slice_def usize_add_def
        split: if_splits)
qed

lemma get_slice_Ok_iff:
  assumes "mem_ok mem" "0 < n"
  shows "(\<exists>s. get_slice_at_addr mem a n = Ok s) \<longleftrightarrow> backed (guest_memory_regions mem) (unat a) n"
proof
  assume "\<exists>s. get_slice_at_addr mem a n = Ok s"
  then obtain i off cnt where "get_slice_at_addr mem a n = Ok (i, off, cnt)" by auto
  then show "backed (guest_memory_regions mem) (unat a) n"
    by (auto simp: get_slice_backed [OF assms] backed_iff in_region_def intro!: exI [of _ i])
next
  assume "backed (guest_memory_regions mem) (unat a) n"
  then obtain i where i: "i < length (regions mem)" "unat (guest_base (regions mem ! i)) \<le> unat a"
      "unat a + n \<le> unat (guest_base (regions mem ! i)) + map_size (regions mem ! i)"
    by (auto simp: backed_iff)
  then have "get_slice_at_addr mem a n = Ok (i, unat a - unat (guest_base (regions mem ! i)), n)"
    using assms(2) by (simp add: get_slice_backed [OF assms] in_region_def)
  then show "\<exists>s. get_slice_at_addr mem a n = Ok s" by blast
qed

lemma slice_bytes_at:
  assumes "mem_ok mem" "0 < n" "get_slice_at_addr mem a n = Ok s" "k \<le> n"
  shows "take k (slice_bytes mem s) = bytes_at mem (unat a) k"
proof -
  obtain i off cnt where s: "s = (i, off, cnt)" by (cases s)
  have i: "i < length (regions mem)" "in_region (regions mem ! i) (unat a)" "cnt = n"
      "off = unat a - unat (guest_base (regions mem ! i))" "off + n \<le> map_size (regions mem ! i)"
    using assms(3) by (simp_all add: get_slice_backed [OF assms(1,2)] s)
  then show ?thesis
    using bytes_at_region [OF assms(1) i(1), of "unat a" k] assms(4)
    by (simp add: slice_bytes_def s in_region_def min_def)
qed

lemma is_valid_range_iff:
  assumes "mem_ok mem"
  shows "is_valid_range mem a n \<longleftrightarrow> n \<noteq> 0 \<and> backed (guest_memory_regions mem) (unat a) (unat n)"
proof (cases "n = 0")
  case True
  then show ?thesis by (simp add: is_valid_range_def)
next
  case False
  then have n: "unat (n - 1) = unat n - 1" "0 < unat n" by (simp_all add: unat_minus_one unat_gt_0)
  have ri: "region_start r \<le> a \<and> e < region_end r \<longleftrightarrow>
      unat (guest_base r) \<le> unat a \<and> unat e < unat (guest_base r) + map_size r"
    if "r \<in> set (regions mem)" for r e
    using region_end_unat [OF mem_ok_size [OF assms that]]
    by (simp add: word_le_nat_alt word_less_nat_alt region_start_def)
  show ?thesis
  proof (cases "checked_add a (n - 1)")
    case None
    then have big: "2 ^ 64 \<le> unat a + (unat n - 1)" by (simp add: checked_add_None n)
    have "\<not> unat a + unat n \<le> unat (guest_base r) + map_size r" if "r \<in> set (regions mem)" for r
      using mem_ok_size [OF assms that] big n(2) by linarith
    then show ?thesis using None by (auto simp: is_valid_range_def backed_iff)
  next
    case (Some e)
    then have e: "unat e = unat a + (unat n - 1)" using checked_add_unat n(1) by metis
    have "is_valid_range mem a n \<longleftrightarrow> (\<exists>r \<in> set (regions mem). region_start r \<le> a \<and> e < region_end r)"
      using Some False by (simp add: is_valid_range_def list_ex_iff)
    also have "\<dots> \<longleftrightarrow> (\<exists>r \<in> set (regions mem). unat (guest_base r) \<le> unat a \<and>
        unat a + unat n \<le> unat (guest_base r) + map_size r)"
    proof (rule bex_cong [OF refl])
      fix r assume "r \<in> set (regions mem)"
      from ri [OF this, of e] show "region_start r \<le> a \<and> e < region_end r \<longleftrightarrow>
          unat (guest_base r) \<le> unat a \<and> unat a + unat n \<le> unat (guest_base r) + map_size r"
        unfolding e using n(2) by (simp add: less_eq_Suc_le)
    qed
    also have "\<dots> \<longleftrightarrow> backed (guest_memory_regions mem) (unat a) (unat n)"
      by (simp add: backed_def guest_memory_regions_def list_ex_iff)
    finally show ?thesis using False by simp
  qed
qed

section \<open>Writing\<close>

lemma length_overwrite [simp]: "off + length bs \<le> length m \<Longrightarrow> length (overwrite m off bs) = length m"
  by (simp add: overwrite_def)

lemma nth_overwrite:
  assumes "off + length bs \<le> length m" "k < length m"
  shows "overwrite m off bs ! k = (if off \<le> k \<and> k < off + length bs then bs ! (k - off) else m ! k)"
proof -
  consider "k < off" | "off \<le> k" "k < off + length bs" "k - off < length bs"
    | "off + length bs \<le> k" "\<not> k - off < length bs"
    by linarith
  then show ?thesis using assms by cases (simp_all add: overwrite_def nth_append)
qed

lemma set_mapping_layout [simp]:
  "length m = map_size (regions mem ! i) \<Longrightarrow>
     guest_memory_regions (set_mapping mem i m) = guest_memory_regions mem"
  by (cases "i < length (regions mem)")
    (auto simp: guest_memory_regions_def set_mapping_def nth_list_update intro!: nth_equalityI)

lemma mem_ok_layout: "guest_memory_regions mem = guest_memory_regions mem' \<Longrightarrow> mem_ok mem \<Longrightarrow> mem_ok mem'"
proof -
  have m: "mem_ok mem \<longleftrightarrow> list_all (\<lambda>(b, s). unat b + s < 2 ^ 64) (guest_memory_regions mem) \<and>
      sorted_wrt (\<lambda>(b, s) (b', s'). unat b + s \<le> unat b') (guest_memory_regions mem)" for mem
    by (auto simp: mem_ok_def guest_memory_regions_def list_all_iff sorted_wrt_map)
  show "guest_memory_regions mem = guest_memory_regions mem' \<Longrightarrow> mem_ok mem \<Longrightarrow> mem_ok mem'"
    unfolding m by simp
qed

lemma byte_at_overwrite:
  assumes ok: "mem_ok mem" and i: "i < length (regions mem)"
    and off: "off + length bs \<le> map_size (regions mem ! i)"
  defines "a \<equiv> unat (guest_base (regions mem ! i)) + off"
  shows "byte_at (set_mapping mem i (overwrite (mapping (regions mem ! i)) off bs)) x =
           (if a \<le> x \<and> x < a + length bs then Some (bs ! (x - a)) else byte_at mem x)"
proof -
  let ?mem' = "set_mapping mem i (overwrite (mapping (regions mem ! i)) off bs)"
  have lay: "guest_memory_regions ?mem' = guest_memory_regions mem" using off by simp
  have ok': "mem_ok ?mem'" by (rule mem_ok_layout [OF lay [symmetric] ok])
  have len: "length (regions ?mem') = length (regions mem)" by (simp add: set_mapping_def)
  have same: "in_region (regions ?mem' ! j) x \<longleftrightarrow> in_region (regions mem ! j) x" if "j < length (regions mem)" for j
    using that off i by (cases "j = i") (simp_all add: set_mapping_def in_region_def)
  show ?thesis
  proof (cases "\<exists>j < length (regions mem). in_region (regions mem ! j) x")
    case True
    then obtain j where j: "j < length (regions mem)" "in_region (regions mem ! j) x" by blast
    have b: "byte_at mem x = Some (mapping (regions mem ! j) ! (x - unat (guest_base (regions mem ! j))))"
      by (rule byte_at_region [OF ok j])
    have b': "byte_at ?mem' x = Some (mapping (regions ?mem' ! j) ! (x - unat (guest_base (regions ?mem' ! j))))"
      by (rule byte_at_region [OF ok']) (use j len same in auto)
    show ?thesis
    proof (cases "j = i")
      case True
      then have "x - unat (guest_base (regions mem ! i)) < map_size (regions mem ! i)"
        using j by (auto simp: in_region_def)
      then show ?thesis using True b b' i off j
        by (auto simp: set_mapping_def nth_overwrite a_def in_region_def)
    next
      case False
      then have "\<not> in_region (regions mem ! i) x"
        using in_region_unique [OF ok i j(1) _ j(2)] by blast
      then have "\<not> (a \<le> x \<and> x < a + length bs)" using off by (auto simp: a_def in_region_def)
      then show ?thesis using False b b' by (auto simp: set_mapping_def)
    qed
  next
    case False
    then have "byte_at mem x = None" "byte_at ?mem' x = None"
      using byte_at_Some_iff [OF ok, of x] byte_at_Some_iff [OF ok', of x] len same by auto
    moreover have "\<not> in_region (regions mem ! i) x" using False i by blast
    then have "\<not> (a \<le> x \<and> x < a + length bs)" using off by (auto simp: a_def in_region_def)
    ultimately show ?thesis by auto
  qed
qed

definition writes :: "GuestMemory \<Rightarrow> nat \<Rightarrow> bytes \<Rightarrow> GuestMemory \<Rightarrow> bool" where
  "writes mem a bs mem' \<longleftrightarrow>
     guest_memory_regions mem' = guest_memory_regions mem \<and> mem_ok mem' \<and>
     (\<forall>x. byte_at mem' x = (if a \<le> x \<and> x < a + length bs then Some (bs ! (x - a)) else byte_at mem x))"

lemma writes_overwrite:
  assumes "mem_ok mem" "i < length (regions mem)" "off + length bs \<le> map_size (regions mem ! i)"
  shows "writes mem (unat (guest_base (regions mem ! i)) + off) bs
           (set_mapping mem i (overwrite (mapping (regions mem ! i)) off bs))"
proof -
  let ?mem' = "set_mapping mem i (overwrite (mapping (regions mem ! i)) off bs)"
  have "guest_memory_regions ?mem' = guest_memory_regions mem" using assms(3) by simp
  moreover from this have "mem_ok ?mem'" using mem_ok_layout [of mem ?mem'] assms(1) by simp
  ultimately show ?thesis unfolding writes_def using byte_at_overwrite [OF assms] by simp
qed

lemma write_obj_backed:
  assumes "mem_ok mem" "bs \<noteq> []" "backed (guest_memory_regions mem) (unat a) (length bs)"
  shows "\<exists>mem'. write_obj_at_addr mem bs a = Ok mem' \<and> writes mem (unat a) bs mem'"
proof -
  obtain i where i: "i < length (regions mem)" "unat (guest_base (regions mem ! i)) \<le> unat a"
      "unat a + length bs \<le> unat (guest_base (regions mem ! i)) + map_size (regions mem ! i)"
    using assms(3) by (auto simp: backed_iff)
  have pos: "0 < length bs" using assms(2) by simp
  have inr: "in_region (regions mem ! i) (unat a)" unfolding in_region_def using i pos by linarith
  then have ri: "region_index mem a = Some i" using i(1) by (simp add: region_index_Some [OF assms(1)])
  have sz: "unat (guest_base (regions mem ! i)) + map_size (regions mem ! i) < 2 ^ 64"
    using mem_ok_size [OF assms(1)] i(1) by simp
  let ?off = "unat a - unat (guest_base (regions mem ! i))"
  have "write_obj_at_addr mem bs a = Ok (set_mapping mem i (overwrite (mapping (regions mem ! i)) ?off bs))"
    using i inr ri sz
    by (simp add: write_obj_at_addr_def find_region_def unat_offset Let_def mapping_write_obj_def
        range_end_def usize_add_def)
  moreover have "writes mem (unat a) bs (set_mapping mem i (overwrite (mapping (regions mem ! i)) ?off bs))"
    using writes_overwrite [OF assms(1) i(1), of ?off bs] i(2,3) by simp
  ultimately show ?thesis by blast
qed

lemma write_obj_not_backed:
  assumes "mem_ok mem" "\<not> backed (guest_memory_regions mem) (unat a) (length bs)"
  shows "\<exists>e. write_obj_at_addr mem bs a = Err e"
proof (cases "region_index mem a")
  case None
  then show ?thesis by (simp add: write_obj_at_addr_def find_region_def)
next
  case (Some i)
  then have i: "i < length (regions mem)" "in_region (regions mem ! i) (unat a)"
    by (simp_all add: region_index_Some [OF assms(1)])
  then have "\<not> unat a - unat (guest_base (regions mem ! i)) + length bs \<le> map_size (regions mem ! i)"
    using assms(2) by (auto simp: backed_iff in_region_def)
  then show ?thesis
    using Some i
    by (auto simp: write_obj_at_addr_def find_region_def unat_offset Let_def mapping_write_obj_def
        range_end_def usize_add_def)
qed

lemma writes_layout: "writes mem a bs mem' \<Longrightarrow> guest_memory_regions mem' = guest_memory_regions mem"
  by (simp add: writes_def)

lemma writes_ok: "writes mem a bs mem' \<Longrightarrow> mem_ok mem'"
  by (simp add: writes_def)

lemma bytes_at_cong: "(\<And>i. i < n \<Longrightarrow> byte_at mem (a + i) = byte_at mem' (a + i)) \<Longrightarrow> bytes_at mem a n = bytes_at mem' a n"
  by (simp add: bytes_at_def)

lemma writes_same: "writes mem a bs mem' \<Longrightarrow> bytes_at mem' a (length bs) = bs"
  by (intro nth_equalityI) (simp_all add: writes_def bytes_at_def)

lemma writes_frame:
  assumes "writes mem a bs mem'" "b + n \<le> a \<or> a + length bs \<le> b"
  shows "bytes_at mem' b n = bytes_at mem b n"
  by (rule bytes_at_cong) (use assms in \<open>auto simp: writes_def\<close>)

lemma writes_frame_byte: "writes mem a bs mem' \<Longrightarrow> x < a \<or> a + length bs \<le> x \<Longrightarrow> byte_at mem' x = byte_at mem x"
  by (auto simp: writes_def)

lemma write_all_Ok:
  assumes "mem_ok mem" "buf \<noteq> []" "write_all_at_addr mem buf a = (Ok (), mem')"
  shows "backed (guest_memory_regions mem) (unat a) (length buf) \<and> writes mem (unat a) buf mem'"
proof -
  obtain i where ri: "region_index mem a = Some i"
    using assms(3) by (auto simp: write_all_at_addr_def write_at_addr_def find_region_def split: option.splits)
  then have i: "i < length (regions mem)" and inr: "in_region (regions mem ! i) (unat a)"
    by (simp_all add: region_index_Some [OF assms(1)])
  let ?off = "unat a - unat (guest_base (regions mem ! i))"
  have o: "?off \<le> map_size (regions mem ! i)" "unat (guest_base (regions mem ! i)) \<le> unat a"
    using inr by (auto simp: in_region_def)
  let ?n = "min (map_size (regions mem ! i) - ?off) (length buf)"
  have w: "write_at_addr mem buf a
      = Ok (?n, set_mapping mem i (overwrite (mapping (regions mem ! i)) ?off (take ?n buf)))"
    using ri o(1) by (simp add: write_at_addr_def find_region_def Let_def unat_offset [OF inr]
        write_slice_def usize_sub_def)
  have n: "length buf = ?n"
      and mem': "mem' = set_mapping mem i (overwrite (mapping (regions mem ! i)) ?off (take ?n buf))"
    using assms(3) by (simp_all add: write_all_at_addr_def w split: if_splits)
  have le: "length buf \<le> map_size (regions mem ! i) - ?off" using n by linarith
  have mem': "mem' = set_mapping mem i (overwrite (mapping (regions mem ! i)) ?off buf)"
    using mem' unfolding n [symmetric] by simp
  have "unat (guest_base (regions mem ! i)) + ?off = unat a" using o(2) by simp
  moreover have "writes mem (unat (guest_base (regions mem ! i)) + ?off) buf mem'"
    unfolding mem' by (rule writes_overwrite [OF assms(1) i]) (use o le in simp)
  moreover have "backed (guest_memory_regions mem) (unat a) (length buf)"
    using i o le by (auto simp: backed_iff intro!: exI [of _ i])
  ultimately show ?thesis by presburger
qed

lemma read_exact_backed:
  assumes "mem_ok mem" "0 < n"
  shows "read_exact_at_addr mem n a = Ok bs \<longleftrightarrow>
           backed (guest_memory_regions mem) (unat a) n \<and> bs = bytes_at mem (unat a) n"
proof (cases "region_index mem a")
  case None
  then have "\<forall>i < length (regions mem). \<not> in_region (regions mem ! i) (unat a)"
    by (simp add: region_index_None [OF assms(1)])
  then have "\<not> backed (guest_memory_regions mem) (unat a) n"
    unfolding backed_iff in_region_def using assms(2) by (auto simp: not_less intro: le_less_trans)
  with None show ?thesis by (simp add: read_exact_at_addr_def read_at_addr_def find_region_def)
next
  case (Some i)
  then have i: "i < length (regions mem)" and inr: "in_region (regions mem ! i) (unat a)"
    by (simp_all add: region_index_Some [OF assms(1)])
  let ?off = "unat a - unat (guest_base (regions mem ! i))"
  have o: "?off \<le> map_size (regions mem ! i)" "unat (guest_base (regions mem ! i)) \<le> unat a"
    using inr by (auto simp: in_region_def)
  have b: "backed (guest_memory_regions mem) (unat a) n \<longleftrightarrow> n \<le> map_size (regions mem ! i) - ?off"
  proof
    assume "backed (guest_memory_regions mem) (unat a) n"
    then obtain j where j: "j < length (regions mem)" "unat (guest_base (regions mem ! j)) \<le> unat a"
        "unat a + n \<le> unat (guest_base (regions mem ! j)) + map_size (regions mem ! j)"
      by (auto simp: backed_iff)
    then have "in_region (regions mem ! j) (unat a)" using assms(2) by (simp add: in_region_def)
    then have "j = i" using in_region_unique [OF assms(1) j(1) i _ inr] by blast
    with j show "n \<le> map_size (regions mem ! i) - ?off" by simp
  next
    assume "n \<le> map_size (regions mem ! i) - ?off"
    with i o show "backed (guest_memory_regions mem) (unat a) n"
      by (auto simp: backed_iff intro!: exI [of _ i])
  qed
  have r: "read_at_addr mem n a = Ok (take n (drop ?off (mapping (regions mem ! i))))"
    using Some o(1)
    by (simp add: read_at_addr_def find_region_def Let_def unat_offset [OF inr] read_slice_def usize_sub_def min_def)
  show ?thesis
  proof (cases "n \<le> map_size (regions mem ! i) - ?off")
    case True
    then have "bytes_at mem (unat a) n = take n (drop ?off (mapping (regions mem ! i)))"
      using bytes_at_region [OF assms(1) i o(2)] o by simp
    with True show ?thesis by (auto simp: read_exact_at_addr_def r b)
  next
    case False
    then show ?thesis by (auto simp: read_exact_at_addr_def r b)
  qed
qed

section \<open>Construction\<close>

text \<open>The regions that the loop of \<open>new_with_options\<close> has made so far: all but the last end in range.\<close>

definition regions_so_far :: "MemoryRegion list \<Rightarrow> bool" where
  "regions_so_far rs \<longleftrightarrow>
     (\<forall>r \<in> set (butlast rs). unat (guest_base r) + map_size r < 2 ^ 64) \<and>
     (\<forall>r \<in> set rs. map_size r < 2 ^ 64) \<and>
     sorted_wrt (\<lambda>r s. unat (guest_base r) + map_size r \<le> unat (guest_base s)) rs"

lemma regions_so_far_snoc:
  assumes "regions_so_far rs" "\<not> last_overlaps rs a" "guest_base r = a" "map_size r < 2 ^ 64"
  shows "regions_so_far (rs @ [r])"
proof (cases "rs = []")
  case True
  then show ?thesis using assms(4) by (simp add: regions_so_far_def)
next
  case False
  have sz: "map_size (last rs) < 2 ^ 64" using assms(1) False by (simp add: regions_so_far_def)
  obtain e where e: "checked_add (guest_base (last rs)) (of_nat (map_size (last rs))) = Some e" "e \<le> a"
    using assms(2) False by (auto simp: last_overlaps_def split: option.splits)
  have "unat e = unat (guest_base (last rs)) + map_size (last rs)"
    using checked_add_unat [OF e(1)] sz by (simp add: unat_of_nat_small)
  moreover have "unat e \<le> unat a" "unat a < 2 ^ 64"
    using e(2) unat_lt [of a] by (simp_all add: word_le_nat_alt)
  ultimately have l: "unat (guest_base (last rs)) + map_size (last rs) \<le> unat a"
      "unat (guest_base (last rs)) + map_size (last rs) < 2 ^ 64" by simp_all
  have rs: "rs = butlast rs @ [last rs]" using False by simp
  have s: "sorted_wrt (\<lambda>r s. unat (guest_base r) + map_size r \<le> unat (guest_base s)) (butlast rs @ [last rs])"
    using assms(1) rs by (simp add: regions_so_far_def)
  have "unat (guest_base x) + map_size x \<le> unat a" if "x \<in> set rs" for x
  proof (cases "x \<in> set (butlast rs)")
    case True
    then have "unat (guest_base x) + map_size x \<le> unat (guest_base (last rs))"
      using s by (simp add: sorted_wrt_append)
    then show ?thesis using l by simp
  next
    case False
    then have "x = last rs" using that rs by (metis Un_iff empty_iff insert_iff list.set(1) list.set(2) set_append)
    then show ?thesis using l by simp
  qed
  moreover have "unat (guest_base x) + map_size x < 2 ^ 64" if "x \<in> set rs" for x
    using calculation [OF that] unat_lt [of a] by simp
  ultimately show ?thesis using assms by (auto simp: regions_so_far_def sorted_wrt_append)
qed

lemma map_ranges_regions:
  assumes "\<And>n off al m. build n off al = Ok m \<Longrightarrow> length m = n"
  shows "map_ranges build ranges rs off = Some (Ok rs') \<Longrightarrow> regions_so_far rs \<Longrightarrow>
    regions_so_far rs' \<and>
    map (\<lambda>r. (guest_base r, map_size r)) rs' =
      map (\<lambda>r. (guest_base r, map_size r)) rs @ map (\<lambda>(a, s, _). (a, unat s)) ranges"
proof (induction ranges arbitrary: rs off)
  case (Cons x ranges)
  obtain a sz opts where x: "x = (a, sz, opts)" by (cases x)
  from Cons.prems(1) obtain m off' where no: "\<not> last_overlaps rs a"
    and m: "build (unat sz) off (align opts) = Ok m"
    and r: "map_ranges build ranges (rs @ [\<lparr>mapping = m, guest_base = a, obj_offset = off, options = opts\<rparr>]) off'
      = Some (Ok rs')"
    by (auto simp: x bind_eq_Some_conv split: if_splits sum.splits)
  have len: "length m = unat sz" by (rule assms [OF m])
  have "regions_so_far (rs @ [\<lparr>mapping = m, guest_base = a, obj_offset = off, options = opts\<rparr>])"
    by (rule regions_so_far_snoc [OF Cons.prems(2) no]) (simp_all add: len unat_lt [where 'a = 64, simplified])
  from Cons.IH [OF r this] show ?case by (simp add: x len)
qed simp

definition ends_in_range :: "mem_range list \<Rightarrow> bool" where
  "ends_in_range ranges \<longleftrightarrow> ranges = [] \<or> (case last ranges of (a, s, _) \<Rightarrow> unat a + unat s < 2 ^ 64)"

text \<open>A mapping of zeroes, a shared memory object that is always granted, and a small memory.\<close>

definition zero_mapping :: build_mapping where
  "zero_mapping n off al = Ok (replicate n 0)"

definition granted :: shm_new where
  "granted size' = None"

definition small_memory :: GuestMemory where
  "small_memory = \<lparr>regions =
     [\<lparr>mapping = [0, 0, 0, 0, 0, 0, 0, 0], guest_base = 0x1000, obj_offset = 0, options = MemoryRegionOptions_new\<rparr>,
      \<lparr>mapping = [0, 0, 0, 0], guest_base = 0x2000, obj_offset = 8, options = MemoryRegionOptions_new\<rparr>]\<rparr>"

lemma replicate_8: "replicate 8 x = [x, x, x, x, x, x, x, x]"
  by (simp add: numeral_eq_Suc)

lemma replicate_4: "replicate 4 x = [x, x, x, x]"
  by (simp add: numeral_eq_Suc)

lemma mem_ok_small_memory: "mem_ok small_memory"
  by (simp add: mem_ok_def small_memory_def)

section \<open>Properties\<close>

text \<open>
  \<open>GuestMemory::new_with_options\<close> makes exactly the regions it was asked for, and they are in
  order and do not overlap: it refuses a range that starts below the end of the one before. The
  mapping that the system call returns has the size it was asked for. That the last range ends
  within the address space is a hypothesis, since no comparison covers it.
\<close>

theorem new_with_options_ok:
  assumes "\<And>n off al m. build n off al = Ok m \<Longrightarrow> length m = n"
    and "new_with_options pg_size shm_new build ranges = Some (Ok mem)"
    and "ends_in_range ranges"
  shows "mem_ok mem \<and> guest_memory_regions mem = map (\<lambda>(a, s, _). (a, unat s)) ranges"
proof -
  from assms(2) obtain rs where rs: "map_ranges build ranges [] 0 = Some (Ok rs)" and mem: "mem = \<lparr>regions = rs\<rparr>"
    by (auto simp: new_with_options_def bind_eq_Some_conv case_sum_eq_iff)
  have so: "regions_so_far rs" and lay: "map (\<lambda>r. (guest_base r, map_size r)) rs = map (\<lambda>(a, s, _). (a, unat s)) ranges"
    using map_ranges_regions [OF assms(1) rs] by (auto simp: regions_so_far_def)
  have "unat (guest_base r) + map_size r < 2 ^ 64" if "r \<in> set rs" for r
  proof (cases "r \<in> set (butlast rs)")
    case True
    then show ?thesis using so by (simp add: regions_so_far_def)
  next
    case False
    then have "rs \<noteq> []" "r = last rs" using that by (cases rs rule: rev_cases; auto)+
    moreover from this have "(guest_base r, map_size r) = (\<lambda>(a, s, _). (a, unat s)) (last ranges)" "ranges \<noteq> []"
      using lay by (metis (mono_tags, lifting) last_map map_is_Nil_conv)+
    ultimately show ?thesis using assms(3) by (auto simp: ends_in_range_def split: prod.splits)
  qed
  then show ?thesis using so lay by (auto simp: mem mem_ok_def regions_so_far_def list_all_iff guest_memory_regions_def)
qed

theorem new_with_options_ok_witness:
  "\<exists>mem. new_with_options 4 granted zero_mapping
           [(0x1000, 8, MemoryRegionOptions_new), (0x2000, 4, MemoryRegionOptions_new)] = Some (Ok mem) \<and>
         mem_ok mem \<and> guest_memory_regions mem = [(0x1000, 8), (0x2000, 4)]"
proof -
  let ?ranges = "[(0x1000, 8, MemoryRegionOptions_new), (0x2000, 4, MemoryRegionOptions_new)] :: mem_range list"
  have n: "new_with_options 4 granted zero_mapping ?ranges = Some (Ok small_memory)"
    by (simp add: new_with_options_def create_shm_def checked_add_def granted_def zero_mapping_def last_overlaps_def
        small_memory_def MemoryRegionOptions_new_def replicate_8 replicate_4)
  have "mem_ok small_memory \<and> guest_memory_regions small_memory = map (\<lambda>(a, s, _). (a, unat s)) ?ranges"
    by (rule new_with_options_ok [OF _ n]) (auto simp: zero_mapping_def ends_in_range_def)
  with n show ?thesis by (intro exI [of _ small_memory]) simp
qed

text \<open>
  C26. What \<open>write_all_at_addr\<close> has written, \<open>read_exact_at_addr\<close> reads back, every read of bytes
  that the write did not touch returns what it returned before, and the regions stay the same.
\<close>

theorem guest_write_read:
  assumes "mem_ok mem" "buf \<noteq> []" "write_all_at_addr mem buf a = (Ok (), mem')"
  shows "read_exact_at_addr mem' (length buf) a = Ok buf \<and>
         (\<forall>b n bs. 0 < n \<and> (unat b + n \<le> unat a \<or> unat a + length buf \<le> unat b) \<and>
            read_exact_at_addr mem n b = Ok bs \<longrightarrow> read_exact_at_addr mem' n b = Ok bs) \<and>
         mem_ok mem' \<and> guest_memory_regions mem' = guest_memory_regions mem"
proof -
  have b: "backed (guest_memory_regions mem) (unat a) (length buf)" and w: "writes mem (unat a) buf mem'"
    using write_all_Ok [OF assms] by simp_all
  note ok = writes_ok [OF w] and lay = writes_layout [OF w]
  have "read_exact_at_addr mem' (length buf) a = Ok buf"
    using read_exact_backed [OF ok, of "length buf" a buf] assms(2) b lay writes_same [OF w] by simp
  moreover have "read_exact_at_addr mem' n b = Ok bs"
    if "0 < n" "unat b + n \<le> unat a \<or> unat a + length buf \<le> unat b" "read_exact_at_addr mem n b = Ok bs" for b n bs
    using read_exact_backed [OF ok that(1)] read_exact_backed [OF assms(1) that(1)] that(3) lay
      writes_frame [OF w that(2)] by simp
  ultimately show ?thesis using ok lay by blast
qed

theorem guest_write_read_witness:
  "\<exists>mem'. write_all_at_addr small_memory [1, 2, 3] 0x1004 = (Ok (), mem') \<and>
          read_exact_at_addr mem' 3 0x1004 = Ok [1, 2, 3] \<and> read_exact_at_addr mem' 4 0x1000 = Ok [0, 0, 0, 0]"
proof -
  let ?mem' = "\<lparr>regions =
     [\<lparr>mapping = [0, 0, 0, 0, 1, 2, 3, 0], guest_base = 0x1000, obj_offset = 0, options = MemoryRegionOptions_new\<rparr>,
      \<lparr>mapping = [0, 0, 0, 0], guest_base = 0x2000, obj_offset = 8, options = MemoryRegionOptions_new\<rparr>]\<rparr>"
  note eval = small_memory_def find_region_def region_index_def region_contains_def region_start_def
    region_end_def unchecked_add_def upt_rec Let_def usize_sub_def
  have w: "write_all_at_addr small_memory [1, 2, 3] 0x1004 = (Ok (), ?mem')"
    by (simp add: eval write_all_at_addr_def write_at_addr_def write_slice_def overwrite_def set_mapping_def)
  have r: "read_exact_at_addr small_memory 4 0x1000 = Ok [0, 0, 0, 0]"
    by (simp add: eval read_exact_at_addr_def read_at_addr_def read_slice_def)
  have "read_exact_at_addr ?mem' (length [1, 2, 3 :: u8]) 0x1004 = Ok [1, 2, 3]"
      "read_exact_at_addr ?mem' 4 0x1000 = Ok [0, 0, 0, 0]"
    using guest_write_read [OF mem_ok_small_memory _ w] r by (simp_all del: One_nat_def)
  with w show ?thesis by (auto simp: eval_nat_numeral)
qed

text \<open>
  \<open>is_valid_range\<close> accepts a range exactly when \<open>get_slice_at_addr\<close> can give a slice of it, and
  then every byte of the range is a byte of that slice. So a descriptor that passed this check can
  be read and written in full.
\<close>

theorem is_valid_range_exact:
  assumes "mem_ok mem"
  shows "is_valid_range mem a n \<longleftrightarrow>
           n \<noteq> 0 \<and> (\<exists>s. get_slice_at_addr mem a (unat n) = Ok s \<and>
                       slice_bytes mem s = bytes_at mem (unat a) (unat n) \<and>
                       (\<forall>i < unat n. address_in_range mem (a + of_nat i)))"
proof (cases "n = 0")
  case False
  then have n: "0 < unat n" by (simp add: unat_gt_0)
  show ?thesis
  proof (cases "is_valid_range mem a n")
    case True
    then have b: "backed (guest_memory_regions mem) (unat a) (unat n)" by (simp add: is_valid_range_iff [OF assms])
    then obtain s where s: "get_slice_at_addr mem a (unat n) = Ok s" using get_slice_Ok_iff [OF assms n] by blast
    then have "slice_bytes mem s = bytes_at mem (unat a) (unat n)"
      using slice_bytes_at [OF assms n s order_refl] get_slice_backed [OF assms n]
      by (cases s) (auto simp: slice_bytes_def)
    moreover have "address_in_range mem (a + of_nat i)" if i: "i < unat n" for i
    proof -
      obtain j where j: "j < length (regions mem)" "unat (guest_base (regions mem ! j)) \<le> unat a"
          "unat a + unat n \<le> unat (guest_base (regions mem ! j)) + map_size (regions mem ! j)"
        using b by (auto simp: backed_iff)
      have sz: "unat (guest_base (regions mem ! j)) + map_size (regions mem ! j) < 2 ^ 64"
        using mem_ok_size [OF assms] j(1) by simp
      have "unat (of_nat i :: u64) = i" by (rule unat_of_nat_small) (use i unat_lt [of n] in simp)
      then have "unat (a + of_nat i) = unat a + i"
        using unat_add_lem [of a "of_nat i"] i j(3) sz by simp
      then have "region_contains (regions mem ! j) (a + of_nat i)"
        unfolding region_contains_iff [OF sz] in_region_def using i j by simp
      then show ?thesis using j(1) by (auto simp: address_in_range_def list_ex_iff)
    qed
    ultimately show ?thesis using True False s by auto
  next
    case False
    then show ?thesis using is_valid_range_iff [OF assms, of a n] get_slice_Ok_iff [OF assms n] by auto
  qed
qed (simp add: is_valid_range_def)

theorem is_valid_range_exact_witness:
  "is_valid_range small_memory 0x1004 4 \<and> (\<exists>s. get_slice_at_addr small_memory 0x1004 4 = Ok s) \<and>
   \<not> is_valid_range small_memory 0x1004 5"
proof -
  note eval = is_valid_range_def checked_add_def small_memory_def region_start_def region_end_def unchecked_add_def
  have "is_valid_range small_memory 0x1004 4" "\<not> is_valid_range small_memory 0x1004 5" by (simp_all add: eval)
  then show ?thesis using is_valid_range_exact [OF mem_ok_small_memory, of "0x1004" 4] by auto
qed

text \<open>
  The range of the last region is not compared with the end of the address space. Such a memory is
  made, but none of its addresses is in range, although \<open>region_end\<close> relies on the bounds having
  been checked.
\<close>

theorem last_region_wraps:
  "\<exists>mem. GuestMemory_new 4096 granted zero_mapping [(0xFFFFFFFFFFFFF000, 0x2000)] = Some (Ok mem) \<and>
         guest_memory_regions mem = [(0xFFFFFFFFFFFFF000, 0x2000)] \<and> (\<forall>a. \<not> address_in_range mem a)"
proof -
  let ?mem = "\<lparr>regions = [\<lparr>mapping = replicate 0x2000 0, guest_base = 0xFFFFFFFFFFFFF000, obj_offset = 0,
    options = MemoryRegionOptions_new\<rparr>]\<rparr>"
  have "GuestMemory_new 4096 granted zero_mapping [(0xFFFFFFFFFFFFF000, 0x2000)] = Some (Ok ?mem)"
    by (simp add: GuestMemory_new_def new_with_options_def create_shm_def checked_add_def granted_def
        zero_mapping_def last_overlaps_def MemoryRegionOptions_new_def)
  moreover have "\<not> address_in_range ?mem a" for a
    by (simp add: address_in_range_def region_contains_def region_end_def unchecked_add_def
        word_le_nat_alt word_less_nat_alt)
  ultimately show ?thesis by (intro exI [of _ ?mem]) (simp add: guest_memory_regions_def)
qed

end
