(* ===== verification/ChainRegions.thy ===== *)
theory ChainRegions
  imports GuestMemory
begin

text \<open>
  The buffers of a descriptor chain: \<open>MemRegion\<close> and \<open>MemRegionIter\<close>
  (\<open>cros_async/src/mem.rs\<close>), and \<open>DescriptorChainRegions\<close>, \<open>Reader\<close> and \<open>Writer\<close>
  (\<open>devices/src/virtio/descriptor_utils.rs\<close>). The memory that the code reaches through a shared
  reference is an argument, and a result where it is written. \<open>None\<close> is a panic.
\<close>

section \<open>Iterating over regions\<close>

record MemRegion =
  mr_offset :: u64
  mr_len :: usize

record MemRegionIter =
  it_regions :: "MemRegion list"
  it_skip :: usize
  it_remaining :: usize

definition MemRegionIter_new :: "MemRegion list \<Rightarrow> MemRegionIter" where
  "MemRegionIter_new rs = \<lparr>it_regions = rs, it_skip = 0, it_remaining = 2 ^ 64 - 1\<rparr>"

definition skip_bytes :: "MemRegionIter \<Rightarrow> usize \<Rightarrow> MemRegionIter" where
  "skip_bytes it off =
     \<lparr>it_regions = it_regions it, it_skip = min (it_skip it + off) (2 ^ 64 - 1),
      it_remaining = it_remaining it - off\<rparr>"

definition take_bytes :: "MemRegionIter \<Rightarrow> usize \<Rightarrow> MemRegionIter" where
  "take_bytes it max' =
     \<lparr>it_regions = it_regions it, it_skip = it_skip it, it_remaining = min (it_remaining it) max'\<rparr>"

fun next_region ::
  "MemRegion list \<Rightarrow> usize \<Rightarrow> usize \<Rightarrow> (MemRegion option \<times> MemRegionIter) option"
where
  "next_region [] skip rem =
     Some (None, \<lparr>it_regions = [], it_skip = skip, it_remaining = rem\<rparr>)"
| "next_region (first # remaining') skip rem =
     (if mr_len first \<le> skip then next_region remaining' (skip - mr_len first) rem
      else do {
        off \<leftarrow> checked_add (mr_offset first) (of_nat skip);
        let len = mr_len first - skip;
        Some (if rem \<le> len
              then (Some \<lparr>mr_offset = off, mr_len = rem\<rparr>,
                    \<lparr>it_regions = [], it_skip = 0, it_remaining = 0\<rparr>)
              else (Some \<lparr>mr_offset = off, mr_len = len\<rparr>,
                    \<lparr>it_regions = remaining', it_skip = 0, it_remaining = rem - len\<rparr>))
      })"

definition iter_next :: "MemRegionIter \<Rightarrow> (MemRegion option \<times> MemRegionIter) option" where
  "iter_next it =
     (if it_remaining it = 0 then Some (None, it)
      else next_region (it_regions it) (it_skip it) (it_remaining it))"

lemma next_region_shorter:
  "next_region rs skip rem = Some (Some r, it') \<Longrightarrow> length (it_regions it') < length rs"
  by (induction rs skip rem rule: next_region.induct)
    (auto simp: bind_eq_Some_conv Let_def split: if_splits)

lemma iter_next_shorter:
  "iter_next it = Some (Some r, it') \<Longrightarrow> length (it_regions it') < length (it_regions it)"
  using next_region_shorter by (auto simp: iter_next_def split: if_splits)

text \<open>All that the iterator yields.\<close>

function iter_collect :: "MemRegionIter \<Rightarrow> MemRegion list option" where
  "iter_collect it =
     (case iter_next it of
        None \<Rightarrow> None
      | Some (None, _) \<Rightarrow> Some []
      | Some (Some r, it') \<Rightarrow> map_option ((#) r) (iter_collect it'))"
  by pat_completeness auto
termination
  by (relation "measure (\<lambda>it. length (it_regions it))") (auto dest: iter_next_shorter)

declare iter_collect.simps [simp del]

section \<open>Regions of a chain\<close>

record DescriptorChainRegions =
  dc_regions :: "MemRegion list"
  current_region_index :: usize
  current_region_offset :: usize
  bytes_consumed :: usize

definition DescriptorChainRegions_new :: "MemRegion list \<Rightarrow> DescriptorChainRegions" where
  "DescriptorChainRegions_new rs =
     \<lparr>dc_regions = rs, current_region_index = 0, current_region_offset = 0, bytes_consumed = 0\<rparr>"

definition get_remaining_regions :: "DescriptorChainRegions \<Rightarrow> MemRegionIter option" where
  "get_remaining_regions d =
     (if current_region_index d \<le> length (dc_regions d)
      then Some (skip_bytes (MemRegionIter_new (drop (current_region_index d) (dc_regions d)))
                   (current_region_offset d))
      else None)"

definition get_remaining_regions_with_count ::
  "DescriptorChainRegions \<Rightarrow> usize \<Rightarrow> MemRegionIter option"
where
  "get_remaining_regions_with_count d cnt =
     map_option (\<lambda>it. take_bytes it cnt) (get_remaining_regions d)"

fun sum_lens :: "MemRegion list \<Rightarrow> usize \<Rightarrow> usize option" where
  "sum_lens [] cnt = Some cnt"
| "sum_lens (r # rs) cnt = do { c \<leftarrow> usize_add cnt (mr_len r); sum_lens rs c }"

definition available_bytes :: "DescriptorChainRegions \<Rightarrow> usize option" where
  "available_bytes d = do {
     it \<leftarrow> get_remaining_regions d;
     rs \<leftarrow> iter_collect it;
     sum_lens rs 0
   }"

text \<open>The \<open>filter_map\<close> of \<open>get_remaining\<close> and \<open>get_remaining_with_count\<close>.\<close>

fun region_slices :: "GuestMemory \<Rightarrow> MemRegion list \<Rightarrow> VolatileSlice list" where
  "region_slices mem [] = []"
| "region_slices mem (r # rs) =
     (case get_slice_at_addr mem (mr_offset r) (mr_len r) of
        Err _ \<Rightarrow> region_slices mem rs
      | Ok s \<Rightarrow> s # region_slices mem rs)"

definition get_remaining :: "GuestMemory \<Rightarrow> DescriptorChainRegions \<Rightarrow> VolatileSlice list option" where
  "get_remaining mem d = do {
     it \<leftarrow> get_remaining_regions d;
     rs \<leftarrow> iter_collect it;
     Some (region_slices mem rs)
   }"

definition get_remaining_with_count ::
  "GuestMemory \<Rightarrow> DescriptorChainRegions \<Rightarrow> usize \<Rightarrow> VolatileSlice list option"
where
  "get_remaining_with_count mem d cnt = do {
     it \<leftarrow> get_remaining_regions_with_count d cnt;
     rs \<leftarrow> iter_collect it;
     Some (region_slices mem rs)
   }"

function chain_consume :: "DescriptorChainRegions \<Rightarrow> usize \<Rightarrow> DescriptorChainRegions option" where
  "chain_consume d cnt =
     (if current_region_index d < length (dc_regions d) then do {
        region_remaining \<leftarrow>
          usize_sub (mr_len (dc_regions d ! current_region_index d)) (current_region_offset d);
        if cnt < region_remaining then do {
          off \<leftarrow> usize_add (current_region_offset d) cnt;
          consumed \<leftarrow> usize_add (bytes_consumed d) cnt;
          Some (d\<lparr>current_region_offset := off, bytes_consumed := consumed\<rparr>)
        } else do {
          consumed \<leftarrow> usize_add (bytes_consumed d) region_remaining;
          chain_consume
            (d\<lparr>current_region_index := current_region_index d + 1, current_region_offset := 0,
               bytes_consumed := consumed\<rparr>)
            (cnt - region_remaining)
        }
      } else Some d)"
  by pat_completeness auto
termination
  by (relation "measure (\<lambda>(d, _). length (dc_regions d) - current_region_index d)") auto

declare chain_consume.simps [simp del]

fun split_regions :: "MemRegion list \<Rightarrow> usize \<Rightarrow> usize \<Rightarrow> MemRegion list \<times> usize" where
  "split_regions [] rem end' = ([], end')"
| "split_regions (r # rs) rem end' =
     (if rem \<le> mr_len r then (r\<lparr>mr_len := rem\<rparr> # rs, end')
      else (case split_regions rs (rem - mr_len r) (end' + 1) of (rs', e) \<Rightarrow> (r # rs', e)))"

text \<open>The chain after the call and the chain that it returns.\<close>

definition chain_split_at ::
  "DescriptorChainRegions \<Rightarrow> usize \<Rightarrow> (DescriptorChainRegions \<times> DescriptorChainRegions) option"
where
  "chain_split_at d off = do {
     other \<leftarrow> chain_consume d off;
     let i = current_region_index d;
     let (rs, end') = split_regions (drop i (dc_regions d)) off i;
     if length (dc_regions d) < i then None
     else Some (d\<lparr>dc_regions := take (end' + 1) (take i (dc_regions d) @ rs)\<rparr>, other\<lparr>bytes_consumed := 0\<rparr>)
   }"

section \<open>Reader\<close>

record Reader =
  reader_regions :: DescriptorChainRegions

definition Reader_new_from_regions :: "MemRegion list \<Rightarrow> Reader" where
  "Reader_new_from_regions readable_regions =
     \<lparr>reader_regions = DescriptorChainRegions_new readable_regions\<rparr>"

text \<open>The bytes copied so far are the last argument.\<close>

function copy_regions_to_mut_ptr ::
  "GuestMemory \<Rightarrow> MemRegionIter \<Rightarrow> usize \<Rightarrow> bytes \<Rightarrow> bytes io_result option"
where
  "copy_regions_to_mut_ptr mem src size' dst =
     (case iter_next src of
        None \<Rightarrow> None
      | Some (None, _) \<Rightarrow> Some (Ok dst)
      | Some (Some src_region, src') \<Rightarrow>
          if size' \<le> length dst then Some (Ok dst)
          else let cnt = min (size' - length dst) (mr_len src_region)
               in (case get_slice_at_addr mem (mr_offset src_region) cnt of
                     Err _ \<Rightarrow> Some (Err (Kind InvalidData))
                   | Ok vslice \<Rightarrow> copy_regions_to_mut_ptr mem src' size' (dst @ slice_bytes mem vslice)))"
  by pat_completeness auto
termination
  by (relation "measure (\<lambda>(_, it, _). length (it_regions it))") (auto dest: iter_next_shorter)

declare copy_regions_to_mut_ptr.simps [simp del]

definition peek_obj :: "GuestMemory \<Rightarrow> Reader \<Rightarrow> usize \<Rightarrow> bytes io_result option" where
  "peek_obj mem rd size_of = do {
     it \<leftarrow> get_remaining_regions (reader_regions rd);
     r \<leftarrow> copy_regions_to_mut_ptr mem it size_of [];
     Some (case r of
             Err e \<Rightarrow> Err e
           | Ok bs \<Rightarrow> if length bs \<noteq> size_of then Err (Kind UnexpectedEof) else Ok bs)
   }"

definition Reader_consume :: "Reader \<Rightarrow> usize \<Rightarrow> Reader option" where
  "Reader_consume rd amt =
     map_option (\<lambda>d. rd\<lparr>reader_regions := d\<rparr>) (chain_consume (reader_regions rd) amt)"

definition Reader_read_obj :: "GuestMemory \<Rightarrow> Reader \<Rightarrow> usize \<Rightarrow> (bytes io_result \<times> Reader) option" where
  "Reader_read_obj mem rd size_of = do {
     r \<leftarrow> peek_obj mem rd size_of;
     (case r of
        Err e \<Rightarrow> Some (Err e, rd)
      | Ok bs \<Rightarrow> do { rd' \<leftarrow> Reader_consume rd size_of; Some (Ok bs, rd') })
   }"

text \<open>\<open>io::Read::read\<close> into a buffer of \<open>n\<close> bytes.\<close>

definition Reader_read :: "GuestMemory \<Rightarrow> Reader \<Rightarrow> usize \<Rightarrow> (bytes io_result \<times> Reader) option" where
  "Reader_read mem rd n = do {
     it \<leftarrow> get_remaining_regions (reader_regions rd);
     r \<leftarrow> copy_regions_to_mut_ptr mem it n [];
     (case r of
        Err e \<Rightarrow> Some (Err e, rd)
      | Ok bs \<Rightarrow> do { rd' \<leftarrow> Reader_consume rd (length bs); Some (Ok bs, rd') })
   }"

definition Reader_available_bytes :: "Reader \<Rightarrow> usize option" where
  "Reader_available_bytes rd = available_bytes (reader_regions rd)"

definition bytes_read :: "Reader \<Rightarrow> usize" where
  "bytes_read rd = bytes_consumed (reader_regions rd)"

text \<open>The iterator of \<open>Reader::iter\<close> and the collection of its objects into a \<open>Result\<close> of a vector.\<close>

definition ReaderIterator_next ::
  "GuestMemory \<Rightarrow> Reader \<Rightarrow> usize \<Rightarrow> (bytes io_result option \<times> Reader) option"
where
  "ReaderIterator_next mem rd size_of = do {
     n \<leftarrow> Reader_available_bytes rd;
     if n = 0 then Some (None, rd)
     else do { (r, rd') \<leftarrow> Reader_read_obj mem rd size_of; Some (Some r, rd') }
   }"

partial_function (option) Reader_collect ::
  "GuestMemory \<Rightarrow> Reader \<Rightarrow> usize \<Rightarrow> (bytes list io_result \<times> Reader) option"
where
  "Reader_collect mem rd size_of = do {
     x \<leftarrow> ReaderIterator_next mem rd size_of;
     (case x of
        (None, rd') \<Rightarrow> Some (Ok [], rd')
      | (Some (Err e), rd') \<Rightarrow> Some (Err e, rd')
      | (Some (Ok obj), rd') \<Rightarrow> do {
          (r, rd'') \<leftarrow> Reader_collect mem rd' size_of;
          Some (case r of Err e \<Rightarrow> Err e | Ok objs \<Rightarrow> Ok (obj # objs), rd'')
        })
   }"

definition Reader_split_at :: "Reader \<Rightarrow> usize \<Rightarrow> (Reader \<times> Reader) option" where
  "Reader_split_at rd off = do {
     (d, other) \<leftarrow> chain_split_at (reader_regions rd) off;
     Some (rd\<lparr>reader_regions := d\<rparr>, \<lparr>reader_regions = other\<rparr>)
   }"

section \<open>Writer\<close>

record Writer =
  writer_regions :: DescriptorChainRegions

definition Writer_new_from_regions :: "MemRegion list \<Rightarrow> Writer" where
  "Writer_new_from_regions writable_regions =
     \<lparr>writer_regions = DescriptorChainRegions_new writable_regions\<rparr>"

abbreviation slice_size :: "VolatileSlice \<Rightarrow> usize" where
  "slice_size s \<equiv> snd (snd s)"

fun write_slices :: "GuestMemory \<Rightarrow> VolatileSlice list \<Rightarrow> bytes \<Rightarrow> usize \<Rightarrow> GuestMemory \<times> usize" where
  "write_slices mem [] rem total' = (mem, total')"
| "write_slices mem (b # bs) rem total' =
     (if rem = [] then (mem, total')
      else let cnt = min (length rem) (slice_size b)
           in write_slices (write_to_slice mem b (take cnt rem)) bs (drop cnt rem) (total' + cnt))"

definition consume_bytes :: "Writer \<Rightarrow> usize \<Rightarrow> Writer option" where
  "consume_bytes w amt =
     map_option (\<lambda>d. w\<lparr>writer_regions := d\<rparr>) (chain_consume (writer_regions w) amt)"

definition Writer_write :: "GuestMemory \<Rightarrow> Writer \<Rightarrow> bytes \<Rightarrow> (usize \<times> Writer \<times> GuestMemory) option" where
  "Writer_write mem w buf = do {
     slices \<leftarrow> get_remaining mem (writer_regions w);
     let (mem', total') = write_slices mem slices buf 0;
     w' \<leftarrow> consume_bytes w total';
     Some (total', w', mem')
   }"

text \<open>\<open>io::Write::write_all\<close>; \<open>Writer::write\<close> never returns an error.\<close>

function Writer_write_all ::
  "GuestMemory \<Rightarrow> Writer \<Rightarrow> bytes \<Rightarrow> (unit io_result \<times> Writer \<times> GuestMemory) option"
where
  "Writer_write_all mem w buf =
     (if buf = [] then Some (Ok (), w, mem)
      else (case Writer_write mem w buf of
              None \<Rightarrow> None
            | Some (n, w', mem') \<Rightarrow>
                if n = 0 then Some (Err (Kind WriteZero), w', mem')
                else Writer_write_all mem' w' (drop n buf)))"
  by pat_completeness auto
termination
  by (relation "measure (\<lambda>(_, _, buf). length buf)") auto

declare Writer_write_all.simps [simp del]

definition Writer_write_obj ::
  "GuestMemory \<Rightarrow> Writer \<Rightarrow> bytes \<Rightarrow> (unit io_result \<times> Writer \<times> GuestMemory) option"
where
  "Writer_write_obj mem w val = Writer_write_all mem w val"

fun Writer_write_iter ::
  "GuestMemory \<Rightarrow> Writer \<Rightarrow> bytes list \<Rightarrow> (unit io_result \<times> Writer \<times> GuestMemory) option"
where
  "Writer_write_iter mem w [] = Some (Ok (), w, mem)"
| "Writer_write_iter mem w (v # vs) = do {
     (r, w', mem') \<leftarrow> Writer_write_obj mem w v;
     (case r of Err e \<Rightarrow> Some (Err e, w', mem') | Ok _ \<Rightarrow> Writer_write_iter mem' w' vs)
   }"

definition Writer_available_bytes :: "Writer \<Rightarrow> usize option" where
  "Writer_available_bytes w = available_bytes (writer_regions w)"

definition bytes_written :: "Writer \<Rightarrow> usize" where
  "bytes_written w = bytes_consumed (writer_regions w)"

definition Writer_split_at :: "Writer \<Rightarrow> usize \<Rightarrow> (Writer \<times> Writer) option" where
  "Writer_split_at w off = do {
     (d, other) \<leftarrow> chain_split_at (writer_regions w) off;
     Some (w\<lparr>writer_regions := d\<rparr>, \<lparr>writer_regions = other\<rparr>)
   }"

section \<open>Chains as lists of addresses\<close>

text \<open>
  The abstract view of a list of regions is the list of the addresses of its bytes, and that of a
  chain the list of the addresses that are left.
\<close>

definition region_addrs :: "MemRegion \<Rightarrow> nat list" where
  "region_addrs r = [unat (mr_offset r)..<unat (mr_offset r) + mr_len r]"

definition flat :: "MemRegion list \<Rightarrow> nat list" where
  "flat rs = concat (map region_addrs rs)"

definition fits :: "MemRegion list \<Rightarrow> bool" where
  "fits rs \<longleftrightarrow> list_all (\<lambda>r. unat (mr_offset r) + mr_len r < 2 ^ 64) rs"

definition within :: "MemRegion \<Rightarrow> MemRegion \<Rightarrow> bool" where
  "within r q \<longleftrightarrow> unat (mr_offset q) \<le> unat (mr_offset r) \<and>
     unat (mr_offset r) + mr_len r \<le> unat (mr_offset q) + mr_len q"

definition remaining :: "DescriptorChainRegions \<Rightarrow> nat list" where
  "remaining d = drop (current_region_offset d) (flat (drop (current_region_index d) (dc_regions d)))"

definition chain_ok :: "DescriptorChainRegions \<Rightarrow> bool" where
  "chain_ok d \<longleftrightarrow>
     fits (dc_regions d) \<and> length (flat (dc_regions d)) < 2 ^ 64 \<and>
     current_region_index d \<le> length (dc_regions d) \<and>
     (if current_region_index d < length (dc_regions d)
      then current_region_offset d \<le> mr_len (dc_regions d ! current_region_index d)
      else current_region_offset d = 0) \<and>
     bytes_consumed d + length (remaining d) < 2 ^ 64"

definition mem_list :: "GuestMemory \<Rightarrow> nat list \<Rightarrow> bytes" where
  "mem_list mem xs = map (\<lambda>x. the (byte_at mem x)) xs"

definition backed_regions :: "GuestMemory \<Rightarrow> MemRegion list \<Rightarrow> bool" where
  "backed_regions mem rs \<longleftrightarrow>
     list_all (\<lambda>r. 0 < mr_len r \<longrightarrow> backed (guest_memory_regions mem) (unat (mr_offset r)) (mr_len r)) rs"

lemma flat_simps [simp]: "flat [] = []" "flat (r # rs) = region_addrs r @ flat rs" "flat (rs @ qs) = flat rs @ flat qs"
  by (simp_all add: flat_def)

lemma fits_simps [simp]:
  "fits []" "fits (r # rs) \<longleftrightarrow> unat (mr_offset r) + mr_len r < 2 ^ 64 \<and> fits rs"
  "fits (rs @ qs) \<longleftrightarrow> fits rs \<and> fits qs"
  by (simp_all add: fits_def)

lemma length_region_addrs [simp]: "length (region_addrs r) = mr_len r"
  by (simp add: region_addrs_def)

lemma mem_list_simps [simp]:
  "mem_list mem [] = []" "mem_list mem (xs @ ys) = mem_list mem xs @ mem_list mem ys"
  "length (mem_list mem xs) = length xs"
  by (simp_all add: mem_list_def)

lemma bytes_at_mem_list: "bytes_at mem a n = mem_list mem [a..<a + n]"
proof -
  have "[a..<a + n] = map (\<lambda>i. a + i) [0..<n]" by (simp add: map_add_upt add.commute)
  then show ?thesis by (simp add: bytes_at_def mem_list_def)
qed

lemma backed_subrange: "backed lay a n \<Longrightarrow> a \<le> b \<Longrightarrow> b + k \<le> a + n \<Longrightarrow> backed lay b k"
  unfolding backed_def list_ex_iff by (erule bexE, rule bexI) auto

lemma backed_within: "within r q \<Longrightarrow> backed lay (unat (mr_offset q)) (mr_len q) \<Longrightarrow> backed lay (unat (mr_offset r)) (mr_len r)"
  by (erule backed_subrange) (simp_all add: within_def)

definition yields :: "MemRegion list \<Rightarrow> usize \<Rightarrow> usize \<Rightarrow> MemRegion option \<Rightarrow> MemRegionIter \<Rightarrow> bool" where
  "yields rs skip rem x it' \<longleftrightarrow>
    (case x of
       None \<Rightarrow> drop skip (flat rs) = []
     | Some r \<Rightarrow> 0 < mr_len r \<and> fits (it_regions it') \<and> set (it_regions it') \<subseteq> set rs \<and>
         (\<exists>q \<in> set rs. within r q) \<and>
         region_addrs r @ take (it_remaining it') (drop (it_skip it') (flat (it_regions it'))) =
           take rem (drop skip (flat rs)))"

lemma yields_Cons:
  "mr_len first \<le> skip \<Longrightarrow> yields rest (skip - mr_len first) rem x it' \<Longrightarrow> yields (first # rest) skip rem x it'"
  by (cases x) (auto simp: yields_def)

lemma next_region_flat:
  assumes "fits rs" "0 < rem"
  shows "\<exists>x it'. next_region rs skip rem = Some (x, it') \<and>
    yields rs skip rem x it'"
  using assms
proof (induction rs skip rem rule: next_region.induct)
  case (2 first rest skip rem)
  show ?case
  proof (cases "mr_len first \<le> skip")
    case True
    then obtain x it' where "next_region rest (skip - mr_len first) rem = Some (x, it')"
        "yields rest (skip - mr_len first) rem x it'"
      using 2 by auto
    with True show ?thesis using yields_Cons by simp
  next
    case False
    have fit: "unat (mr_offset first) + mr_len first < 2 ^ 64" using 2(2) by simp
    have u: "unat (of_nat skip :: u64) = skip" by (rule unat_of_nat_small) (use fit False in simp)
    define off where "off = mr_offset first + of_nat skip"
    have ca: "checked_add (mr_offset first) (of_nat skip) = Some off"
      using fit False by (simp add: checked_add_def u off_def)
    have uo: "unat off = unat (mr_offset first) + skip" using checked_add_unat [OF ca] by (simp add: u)
    have d: "drop skip (region_addrs first) = [unat off..<unat off + (mr_len first - skip)]"
      using False by (simp add: region_addrs_def uo)
    show ?thesis
      using False 2(2,3) fit d
      by (auto simp: ca Let_def region_addrs_def within_def uo yields_def)
  qed
qed (simp add: yields_def)

text \<open>What an iterator is still to yield.\<close>

definition it_flat :: "MemRegionIter \<Rightarrow> nat list" where
  "it_flat it = take (it_remaining it) (drop (it_skip it) (flat (it_regions it)))"

lemma iter_next_flat:
  assumes "fits (it_regions it)"
  shows "\<exists>x it'. iter_next it = Some (x, it') \<and>
    (case x of
       None \<Rightarrow> it_flat it = []
     | Some r \<Rightarrow> 0 < mr_len r \<and> fits (it_regions it') \<and> set (it_regions it') \<subseteq> set (it_regions it) \<and>
         (\<exists>q \<in> set (it_regions it). within r q) \<and> it_flat it = region_addrs r @ it_flat it')"
proof (cases "it_remaining it = 0")
  case True
  then show ?thesis by (simp add: iter_next_def it_flat_def)
next
  case False
  then obtain x it' where "next_region (it_regions it) (it_skip it) (it_remaining it) = Some (x, it')"
      "yields (it_regions it) (it_skip it) (it_remaining it) x it'"
    using next_region_flat [OF assms] by blast
  then show ?thesis using False
    by (cases x) (auto simp: iter_next_def it_flat_def yields_def)
qed

lemma iter_nextE:
  assumes "fits (it_regions it)"
  obtains (stop) it' where "iter_next it = Some (None, it')" "it_flat it = []"
  | (yield) r it' where "iter_next it = Some (Some r, it')" "0 < mr_len r" "fits (it_regions it')"
      "set (it_regions it') \<subseteq> set (it_regions it)" "\<exists>q \<in> set (it_regions it). within r q"
      "it_flat it = region_addrs r @ it_flat it'"
proof -
  obtain x it' where x: "iter_next it = Some (x, it')"
    "case x of
       None \<Rightarrow> it_flat it = []
     | Some r \<Rightarrow> 0 < mr_len r \<and> fits (it_regions it') \<and> set (it_regions it') \<subseteq> set (it_regions it) \<and>
         (\<exists>q \<in> set (it_regions it). within r q) \<and> it_flat it = region_addrs r @ it_flat it'"
    using iter_next_flat [OF assms] by blast
  show thesis
  proof (cases x)
    case None
    with x show thesis by (intro stop) simp_all
  next
    case (Some r)
    with x show thesis by (intro yield) simp_all
  qed
qed

lemma iter_collect_flat:
  "fits (it_regions it) \<Longrightarrow> \<exists>rs. iter_collect it = Some rs \<and> flat rs = it_flat it \<and>
     (\<forall>r \<in> set rs. 0 < mr_len r \<and> (\<exists>q \<in> set (it_regions it). within r q))"
proof (induction it rule: iter_collect.induct)
  case (1 it)
  from 1(2) show ?case
  proof (cases rule: iter_nextE)
    case (stop it')
    then show ?thesis by (simp add: iter_collect.simps [of it])
  next
    case (yield r it')
    from 1(1) [OF yield(1) refl refl yield(3)] obtain rs where
      "iter_collect it' = Some rs" "flat rs = it_flat it'"
      "\<forall>r \<in> set rs. 0 < mr_len r \<and> (\<exists>q \<in> set (it_regions it'). within r q)" by blast
    moreover from this yield(4) have "\<forall>r \<in> set rs. 0 < mr_len r \<and> (\<exists>q \<in> set (it_regions it). within r q)" by blast
    ultimately show ?thesis using yield by (simp add: iter_collect.simps [of it])
  qed
qed

lemma within_trans: "within r q \<Longrightarrow> within q p \<Longrightarrow> within r p"
  by (simp add: within_def)

lemma backed_regions_subset: "backed_regions mem rs \<Longrightarrow> set qs \<subseteq> set rs \<Longrightarrow> backed_regions mem qs"
  by (auto simp: backed_regions_def list_all_iff)

lemma backed_regionsD:
  "backed_regions mem rs \<Longrightarrow> \<exists>q \<in> set rs. within r q \<Longrightarrow> 0 < mr_len r \<Longrightarrow>
     backed (guest_memory_regions mem) (unat (mr_offset r)) (mr_len r)"
  by (auto simp: backed_regions_def list_all_iff within_def intro: backed_within [unfolded within_def])

lemma get_slice_bytes:
  assumes "mem_ok mem" "0 < n" "backed (guest_memory_regions mem) (unat a) n"
  shows "\<exists>s. get_slice_at_addr mem a n = Ok s \<and> slice_bytes mem s = mem_list mem [unat a..<unat a + n] \<and> slice_size s = n"
proof -
  obtain s where s: "get_slice_at_addr mem a n = Ok s" using get_slice_Ok_iff [OF assms(1,2)] assms(3) by blast
  moreover have "slice_size s = n" using s by (cases s) (simp add: get_slice_backed [OF assms(1,2)])
  moreover have "slice_bytes mem s = bytes_at mem (unat a) n"
    using slice_bytes_at [OF assms(1,2) s order_refl] \<open>slice_size s = n\<close> by (cases s) (simp add: slice_bytes_def)
  ultimately show ?thesis by (simp add: bytes_at_mem_list)
qed

lemma copy_regions_flat:
  "mem_ok mem \<Longrightarrow> fits (it_regions it) \<Longrightarrow> backed_regions mem (it_regions it) \<Longrightarrow> length dst \<le> size' \<Longrightarrow>
   copy_regions_to_mut_ptr mem it size' dst = Some (Ok (dst @ mem_list mem (take (size' - length dst) (it_flat it))))"
proof (induction mem it size' dst rule: copy_regions_to_mut_ptr.induct)
  case (1 mem it size' dst)
  from 1(3) show ?case
  proof (cases rule: iter_nextE)
    case (stop it')
    then show ?thesis by (simp add: copy_regions_to_mut_ptr.simps [of mem it])
  next
    case (yield r it')
    show ?thesis
    proof (cases "size' \<le> length dst")
      case True
      then show ?thesis using yield 1(5) by (simp add: copy_regions_to_mut_ptr.simps [of mem it])
    next
      case False
      define cnt where "cnt = min (size' - length dst) (mr_len r)"
      have c: "0 < cnt" "cnt \<le> mr_len r" "cnt \<le> size' - length dst" using False yield(2) by (auto simp: cnt_def)
      have "backed (guest_memory_regions mem) (unat (mr_offset r)) (mr_len r)"
        by (rule backed_regionsD [OF 1(4) yield(5,2)])
      then have "backed (guest_memory_regions mem) (unat (mr_offset r)) cnt"
        by (rule backed_subrange) (use c in simp_all)
      then obtain s where s: "get_slice_at_addr mem (mr_offset r) cnt = Ok s"
          "slice_bytes mem s = mem_list mem [unat (mr_offset r)..<unat (mr_offset r) + cnt]"
        using get_slice_bytes [OF 1(2) c(1)] by blast
      have t: "[unat (mr_offset r)..<unat (mr_offset r) + cnt] = take cnt (region_addrs r)"
        using c by (simp add: region_addrs_def take_upt)
      have "copy_regions_to_mut_ptr mem it' size' (dst @ slice_bytes mem s) =
          Some (Ok ((dst @ slice_bytes mem s) @ mem_list mem (take (size' - length (dst @ slice_bytes mem s)) (it_flat it'))))"
        by (rule 1(1) [OF yield(1) refl refl False refl _ 1(2) yield(3) backed_regions_subset [OF 1(4) yield(4)]])
          (use s c in \<open>simp_all add: cnt_def [symmetric] t\<close>)
      moreover have "take (size' - length dst) (it_flat it)
          = take cnt (region_addrs r) @ take (size' - length dst - cnt) (it_flat it')"
        using c by (auto simp: yield(6) cnt_def min_def)
      ultimately show ?thesis
        using False s c by (simp add: copy_regions_to_mut_ptr.simps [of mem it] yield(1) cnt_def [symmetric] Let_def t)
    qed
  qed
qed

section \<open>Operations on chains\<close>

lemma length_flat_drop: "length (flat (drop i rs)) \<le> length (flat rs)"
  by (metis append_take_drop_id flat_simps(3) le_add2 length_append)

lemma fits_drop: "fits rs \<Longrightarrow> fits (drop i rs)"
  by (metis append_take_drop_id fits_simps(3))

lemma fits_take: "fits rs \<Longrightarrow> fits (take i rs)"
  by (metis append_take_drop_id fits_simps(3))

lemma backed_regions_append: "backed_regions mem (rs @ qs) \<longleftrightarrow> backed_regions mem rs \<and> backed_regions mem qs"
  by (simp add: backed_regions_def)

lemma backed_regions_take_drop:
  "backed_regions mem rs \<Longrightarrow> backed_regions mem (take i rs)" "backed_regions mem rs \<Longrightarrow> backed_regions mem (drop i rs)"
  by (metis append_take_drop_id backed_regions_append)+

lemma get_remaining_regions_ok:
  assumes "chain_ok d"
  shows "\<exists>it. get_remaining_regions d = Some it \<and> fits (it_regions it) \<and>
           set (it_regions it) \<subseteq> set (dc_regions d) \<and> it_flat it = remaining d"
proof -
  let ?i = "current_region_index d" and ?o = "current_region_offset d" and ?rs = "dc_regions d"
  have i: "?i \<le> length ?rs" and f: "fits ?rs" "length (flat ?rs) < 2 ^ 64" using assms by (simp_all add: chain_ok_def)
  have o: "?o < 2 ^ 64"
  proof (cases "?i < length ?rs")
    case True
    then have "?o \<le> mr_len (?rs ! ?i)" "unat (mr_offset (?rs ! ?i)) + mr_len (?rs ! ?i) < 2 ^ 64"
      using assms by (simp_all add: chain_ok_def fits_def list_all_length)
    then show ?thesis by simp
  next
    case False
    then show ?thesis using assms by (simp add: chain_ok_def)
  qed
  let ?it = "skip_bytes (MemRegionIter_new (drop ?i ?rs)) ?o"
  have "length (flat (drop ?i ?rs)) < 2 ^ 64" using length_flat_drop [of ?i ?rs] f(2) by simp
  then have "it_flat ?it = remaining d"
    using o by (simp add: it_flat_def skip_bytes_def MemRegionIter_new_def remaining_def)
  then show ?thesis using i fits_drop [OF f(1)] set_drop_subset [of ?i ?rs]
    by (simp add: get_remaining_regions_def skip_bytes_def MemRegionIter_new_def)
qed

lemma sum_lens_flat: "cnt + length (flat rs) < 2 ^ 64 \<Longrightarrow> sum_lens rs cnt = Some (cnt + length (flat rs))"
  by (induction rs arbitrary: cnt) (simp_all add: usize_add_def)

lemma available_bytes_ok:
  assumes "chain_ok d"
  shows "available_bytes d = Some (length (remaining d))"
proof -
  obtain it where it: "get_remaining_regions d = Some it" "fits (it_regions it)" "it_flat it = remaining d"
    using get_remaining_regions_ok [OF assms] by blast
  then obtain rs where "iter_collect it = Some rs" "flat rs = remaining d" using iter_collect_flat by fastforce
  moreover have "length (remaining d) < 2 ^ 64" using assms by (simp add: chain_ok_def)
  ultimately show ?thesis using it(1) sum_lens_flat [of 0 rs] by (simp add: available_bytes_def)
qed

text \<open>\<open>consume\<close> drops bytes from the front and counts them.\<close>

definition consumed :: "DescriptorChainRegions \<Rightarrow> nat \<Rightarrow> DescriptorChainRegions \<Rightarrow> bool" where
  "consumed d n d' \<longleftrightarrow>
     chain_ok d' \<and> remaining d' = drop n (remaining d) \<and> dc_regions d' = dc_regions d \<and>
     bytes_consumed d' = bytes_consumed d + min n (length (remaining d))"

lemma consumed_after:
  assumes "consumed d1 (n - k) d'" "remaining d1 = drop k (remaining d)"
    and "dc_regions d1 = dc_regions d" "bytes_consumed d1 = bytes_consumed d + k"
    and "k \<le> n" "k \<le> length (remaining d)"
  shows "consumed d n d'"
  using assms by (auto simp: consumed_def)

lemma chain_consume_ok: "chain_ok d \<Longrightarrow> \<exists>d'. chain_consume d n = Some d' \<and> consumed d n d'"
proof (induction d n rule: chain_consume.induct)
  case (1 d n)
  let ?i = "current_region_index d" and ?o = "current_region_offset d" and ?rs = "dc_regions d"
  show ?case
  proof (cases "?i < length ?rs")
    case False
    then have "remaining d = []" using 1(2) by (simp add: chain_ok_def remaining_def)
    then show ?thesis using False 1(2) by (simp add: chain_consume.simps [of d] consumed_def)
  next
    case True
    let ?r = "?rs ! ?i"
    have o: "?o \<le> mr_len ?r" using 1(2) True by (simp add: chain_ok_def)
    have dr: "drop ?i ?rs = ?r # drop (Suc ?i) ?rs" using True by (simp add: Cons_nth_drop_Suc)
    have rem: "remaining d = drop ?o (region_addrs ?r) @ flat (drop (Suc ?i) ?rs)"
      using o by (simp add: remaining_def dr)
    have tot: "bytes_consumed d + length (remaining d) < 2 ^ 64" using 1(2) by (simp add: chain_ok_def)
    have fit: "unat (mr_offset ?r) + mr_len ?r < 2 ^ 64"
      using 1(2) True by (simp add: chain_ok_def fits_def list_all_length)
    show ?thesis
    proof (cases "n < mr_len ?r - ?o")
      case n: True
      let ?d' = "d\<lparr>current_region_offset := ?o + n, bytes_consumed := bytes_consumed d + n\<rparr>"
      have r': "remaining ?d' = drop n (remaining d)"
        using n by (simp add: remaining_def dr add.commute)
      have len: "length (remaining d) = mr_len ?r - ?o + length (flat (drop (Suc ?i) ?rs))" by (simp add: rem)
      have b: "?o + n < 2 ^ 64" "bytes_consumed d + n < 2 ^ 64" using n fit tot len by linarith+
      have l': "length (remaining ?d') = length (remaining d) - n" "n \<le> length (remaining d)"
        using n by (simp add: r') (use n len in linarith)
      have "chain_consume d n = Some ?d'"
        using True o n b by (simp add: chain_consume.simps [of d] usize_sub_def usize_add_def)
      moreover have "bytes_consumed d + n + length (remaining ?d') < 2 ^ 64" using l' tot by linarith
      then have "consumed d n ?d'"
        using 1(2) True n o r' l' by (simp add: consumed_def chain_ok_def)
      ultimately show ?thesis by blast
    next
      case n: False
      let ?k = "mr_len ?r - ?o"
      let ?d1 = "d\<lparr>current_region_index := ?i + 1, current_region_offset := 0, bytes_consumed := bytes_consumed d + ?k\<rparr>"
      have r0: "remaining ?d1 = flat (drop (Suc ?i) ?rs)" by (simp add: remaining_def)
      have r1: "remaining ?d1 = drop ?k (remaining d)" unfolding r0 rem by simp
      have len: "length (remaining d) = ?k + length (remaining ?d1)" unfolding r0 rem by simp
      have ok1: "chain_ok ?d1" using 1(2) True tot len by (simp add: chain_ok_def)
      have sub: "usize_sub (mr_len ?r) ?o = Some ?k" using o by (simp add: usize_sub_def)
      have add: "usize_add (bytes_consumed d) ?k = Some (bytes_consumed d + ?k)"
        using tot len by (simp add: usize_add_def)
      obtain d' where d': "chain_consume ?d1 (n - ?k) = Some d'" "consumed ?d1 (n - ?k) d'"
        using 1(1) [OF True sub n add ok1] by blast
      have "chain_consume d n = Some d'"
        by (simp only: chain_consume.simps [of d n] True n sub add d'(1) if_True if_False Option.bind.simps)
      moreover have "consumed d n d'"
        by (rule consumed_after [OF d'(2) r1]) (use n len in simp_all)
      ultimately show ?thesis by blast
    qed
  qed
qed

lemma split_regions_flat:
  "split_regions rs rem e0 = (rs', e) \<Longrightarrow>
     e0 \<le> e \<and> flat (take (e + 1 - e0) rs') = take rem (flat rs) \<and> length rs' = length rs \<and>
     (fits rs \<longrightarrow> fits rs') \<and> (backed_regions mem rs \<longrightarrow> backed_regions mem rs')"
proof (induction rs rem e0 arbitrary: rs' e rule: split_regions.induct)
  case (2 r rs rem e0)
  show ?case
  proof (cases "rem \<le> mr_len r")
    case True
    then have "region_addrs (r\<lparr>mr_len := rem\<rparr>) = take rem (region_addrs r)" by (simp add: region_addrs_def take_upt)
    moreover have "backed (guest_memory_regions mem) (unat (mr_offset r)) (mr_len r) \<Longrightarrow>
        backed (guest_memory_regions mem) (unat (mr_offset r)) rem"
      using True by (auto elim: backed_subrange)
    ultimately show ?thesis using True 2(2) by (auto simp: backed_regions_def)
  next
    case False
    then obtain rs1 where s: "split_regions rs (rem - mr_len r) (e0 + 1) = (rs1, e)" "rs' = r # rs1"
      using 2(2) by (auto split: prod.splits)
    from 2(1) [OF False s(1)] have ih: "e0 + 1 \<le> e" "flat (take (e + 1 - (e0 + 1)) rs1) = take (rem - mr_len r) (flat rs)"
        "length rs1 = length rs" "fits rs \<longrightarrow> fits rs1" "backed_regions mem rs \<longrightarrow> backed_regions mem rs1"
      by blast+
    have "e + 1 - e0 = Suc (e + 1 - (e0 + 1))" using ih(1) by simp
    then show ?thesis using False s(2) ih by (auto simp: backed_regions_def)
  qed
qed (simp add: backed_regions_def)

text \<open>
  The chain after a split holds what is left of the first \<open>n\<close> bytes counted from the start of the
  current region, not from the current position.
\<close>

lemma chain_split_at_ok:
  assumes "chain_ok d"
  shows "\<exists>d1 d2. chain_split_at d n = Some (d1, d2) \<and>
           remaining d1 = drop (current_region_offset d) (take n (flat (drop (current_region_index d) (dc_regions d)))) \<and>
           remaining d2 = drop n (remaining d) \<and> chain_ok d2 \<and> bytes_consumed d2 = 0 \<and>
           dc_regions d2 = dc_regions d \<and> bytes_consumed d1 = bytes_consumed d \<and>
           (current_region_offset d = 0 \<longrightarrow> chain_ok d1) \<and>
           (backed_regions mem (dc_regions d) \<longrightarrow> backed_regions mem (dc_regions d1))"
proof -
  let ?i = "current_region_index d" and ?o = "current_region_offset d" and ?rs = "dc_regions d"
  have i: "?i \<le> length ?rs" and f: "fits ?rs" "length (flat ?rs) < 2 ^ 64" using assms by (simp_all add: chain_ok_def)
  obtain d' where d': "chain_consume d n = Some d'" "consumed d n d'" using chain_consume_ok [OF assms] by blast
  obtain rs e where s: "split_regions (drop ?i ?rs) n ?i = (rs, e)" by (cases "split_regions (drop ?i ?rs) n ?i")
  note sp = split_regions_flat [OF s, of mem]
  let ?regs = "take (e + 1) (take ?i ?rs @ rs)"
  let ?d1 = "d\<lparr>dc_regions := ?regs\<rparr>" and ?d2 = "d'\<lparr>bytes_consumed := 0\<rparr>"
  have eq: "chain_split_at d n = Some (?d1, ?d2)"
    using i by (simp add: chain_split_at_def d'(1) s Let_def)
  have regs: "?regs = take ?i ?rs @ take (e + 1 - ?i) rs" using i sp by simp
  have "drop ?i ?regs = take (e + 1 - ?i) rs" unfolding regs using i by simp
  then have r1: "remaining ?d1 = drop ?o (take n (flat (drop ?i ?rs)))"
    using sp by (simp add: remaining_def)
  have fl: "flat ?regs = flat (take ?i ?rs) @ take n (flat (drop ?i ?rs))" unfolding regs using sp by simp
  have "length (flat ?regs) \<le> length (flat ?rs)"
  proof -
    have "flat ?rs = flat (take ?i ?rs) @ flat (drop ?i ?rs)" by (metis append_take_drop_id flat_simps(3))
    then show ?thesis unfolding fl by simp
  qed
  moreover have "fits ?regs"
    unfolding regs using sp f(1) fits_drop [OF f(1), of ?i] by (simp add: fits_take)
  moreover have "length (remaining ?d1) \<le> length (remaining d)" unfolding r1 by (simp add: remaining_def)
  ultimately have "?o = 0 \<Longrightarrow> chain_ok ?d1"
    using assms f(2) i sp by (simp add: chain_ok_def)
  moreover have r2: "remaining ?d2 = remaining d'" by (simp add: remaining_def)
  then have "chain_ok ?d2" using d'(2) by (auto simp: consumed_def chain_ok_def)
  moreover have "remaining ?d2 = drop n (remaining d)" unfolding r2 using d'(2) by (simp add: consumed_def)
  moreover have "dc_regions ?d2 = ?rs" using d'(2) by (simp add: consumed_def)
  moreover have "backed_regions mem ?rs \<Longrightarrow> backed_regions mem ?regs"
    unfolding regs using sp backed_regions_take_drop by (simp add: backed_regions_append)
  ultimately show ?thesis using eq r1 by (intro exI [of _ ?d1] exI [of _ ?d2]) simp
qed

section \<open>Reading and writing\<close>

lemma Reader_read_ok:
  assumes "mem_ok mem" "chain_ok (reader_regions rd)" "backed_regions mem (dc_regions (reader_regions rd))"
  shows "\<exists>rd'. Reader_read mem rd n = Some (Ok (mem_list mem (take n (remaining (reader_regions rd)))), rd') \<and>
           consumed (reader_regions rd) n (reader_regions rd')"
proof -
  let ?d = "reader_regions rd"
  obtain it where it: "get_remaining_regions ?d = Some it" "fits (it_regions it)"
      "set (it_regions it) \<subseteq> set (dc_regions ?d)" "it_flat it = remaining ?d"
    using get_remaining_regions_ok [OF assms(2)] by blast
  have c: "copy_regions_to_mut_ptr mem it n [] = Some (Ok (mem_list mem (take n (remaining ?d))))"
    using copy_regions_flat [OF assms(1) it(2) backed_regions_subset [OF assms(3) it(3)], of "[]" n] it(4) by simp
  let ?k = "min n (length (remaining ?d))"
  obtain d' where d': "chain_consume ?d (min (length (remaining ?d)) n) = Some d'"
      "consumed ?d (min (length (remaining ?d)) n) d'"
    using chain_consume_ok [OF assms(2)] by blast
  moreover have "consumed ?d n d'" using d'(2) by (auto simp: consumed_def min_def)
  ultimately show ?thesis using it(1) c by (simp add: Reader_read_def Reader_consume_def)
qed

lemma map_upds_upt:
  "(f([a..<a + length bs] [\<mapsto>] bs)) x = (if a \<le> x \<and> x < a + length bs then Some (bs ! (x - a)) else f x)"
proof (induction bs arbitrary: a f)
  case (Cons b bs)
  have "[a..<a + length (b # bs)] = a # [Suc a..<Suc a + length bs]" by (simp add: upt_conv_Cons del: upt_Suc)
  then have "(f([a..<a + length (b # bs)] [\<mapsto>] b # bs)) x = ((f(a \<mapsto> b))([Suc a..<Suc a + length bs] [\<mapsto>] bs)) x"
    by (simp only: map_upds_Cons)
  also have "\<dots> = (if Suc a \<le> x \<and> x < Suc a + length bs then Some (bs ! (x - Suc a)) else (f(a \<mapsto> b)) x)"
    by (rule Cons.IH)
  also have "\<dots> = (if a \<le> x \<and> x < a + length (b # bs) then Some ((b # bs) ! (x - a)) else f x)"
    by (auto simp: nth_Cons')
  finally show ?case .
qed auto

lemma map_upds_split: "length xs = length us \<Longrightarrow> f(xs @ ys [\<mapsto>] us @ vs) = (f(xs [\<mapsto>] us))(ys [\<mapsto>] vs)"
  by (induction xs us arbitrary: f rule: list_induct2) simp_all

lemma map_upds_take: "f(take (length ys) xs [\<mapsto>] ys) = f(xs [\<mapsto>] ys)"
  by (induction xs arbitrary: f ys) (auto simp: take_Cons' neq_Nil_conv split: list.splits)

lemma writes_byte_at: "writes mem a bs mem' \<Longrightarrow> byte_at mem' = (byte_at mem)([a..<a + length bs] [\<mapsto>] bs)"
  by (rule ext) (simp add: writes_def map_upds_upt)

text \<open>\<open>mem'\<close> is \<open>mem\<close> with \<open>buf\<close> written to the addresses \<open>xs\<close>, one after the other.\<close>

definition stored :: "GuestMemory \<Rightarrow> nat list \<Rightarrow> bytes \<Rightarrow> GuestMemory \<Rightarrow> bool" where
  "stored mem xs buf mem' \<longleftrightarrow>
     mem_ok mem' \<and> guest_memory_regions mem' = guest_memory_regions mem \<and> byte_at mem' = (byte_at mem)(xs [\<mapsto>] buf)"

lemma write_to_slice_stored:
  assumes "mem_ok mem0" "0 < n" "get_slice_at_addr mem0 a n = Ok s"
    and "mem_ok mem" "guest_memory_regions mem = guest_memory_regions mem0" "length bs \<le> n"
  shows "writes mem (unat a) bs (write_to_slice mem s bs)"
proof -
  obtain i off cnt where s: "s = (i, off, cnt)" by (cases s)
  have i: "i < length (regions mem0)" "in_region (regions mem0 ! i) (unat a)"
      "off = unat a - unat (guest_base (regions mem0 ! i))" "off + n \<le> map_size (regions mem0 ! i)"
    using assms(3) by (simp_all add: get_slice_backed [OF assms(1,2)] s)
  have len: "length (regions mem) = length (regions mem0)"
    using assms(5) by (metis guest_memory_regions_def length_map)
  have "guest_memory_regions mem ! i = guest_memory_regions mem0 ! i" using assms(5) by simp
  then have eq: "guest_base (regions mem ! i) = guest_base (regions mem0 ! i)" "map_size (regions mem ! i) = map_size (regions mem0 ! i)"
    using i(1) len by (simp_all add: guest_memory_regions_def)
  have "writes mem (unat (guest_base (regions mem ! i)) + off) bs (set_mapping mem i (overwrite (mapping (regions mem ! i)) off bs))"
    by (rule writes_overwrite [OF assms(4)]) (use i eq len assms(6) in simp_all)
  moreover have "unat (guest_base (regions mem ! i)) + off = unat a" using i eq by (simp add: in_region_def)
  ultimately show ?thesis by (simp add: write_to_slice_def s)
qed

lemma write_slices_stored:
  assumes "mem_ok mem0"
  shows "mem_ok mem \<Longrightarrow> guest_memory_regions mem = guest_memory_regions mem0 \<Longrightarrow>
    \<forall>r \<in> set rs. 0 < mr_len r \<and> backed (guest_memory_regions mem0) (unat (mr_offset r)) (mr_len r) \<Longrightarrow>
    \<exists>mem'. write_slices mem (region_slices mem0 rs) buf total' = (mem', total' + min (length buf) (length (flat rs))) \<and>
           stored mem (flat rs) buf mem'"
proof (induction rs arbitrary: mem buf total')
  case Nil
  then show ?case by (simp add: stored_def)
next
  case (Cons r rs)
  then obtain s where s: "get_slice_at_addr mem0 (mr_offset r) (mr_len r) = Ok s" "slice_size s = mr_len r"
    using get_slice_bytes [OF assms, of "mr_len r" "mr_offset r"] by auto
  show ?case
  proof (cases "buf = []")
    case True
    then show ?thesis using s Cons.prems by (simp add: stored_def)
  next
    case False
    let ?cnt = "min (length buf) (mr_len r)"
    let ?mem1 = "write_to_slice mem s (take ?cnt buf)"
    have w: "writes mem (unat (mr_offset r)) (take ?cnt buf) ?mem1"
      by (rule write_to_slice_stored [OF assms _ s(1) Cons.prems(1,2)]) (use Cons.prems(3) in auto)
    obtain mem' where mem': "write_slices ?mem1 (region_slices mem0 rs) (drop ?cnt buf) (total' + ?cnt) =
        (mem', total' + ?cnt + min (length (drop ?cnt buf)) (length (flat rs)))"
        "stored ?mem1 (flat rs) (drop ?cnt buf) mem'"
      using Cons.IH [of ?mem1 "drop ?cnt buf" "total' + ?cnt"] writes_ok [OF w] writes_layout [OF w] Cons.prems by auto
    have "(byte_at mem)(flat (r # rs) [\<mapsto>] buf) = (byte_at ?mem1)(flat rs [\<mapsto>] drop ?cnt buf)"
    proof (cases "length buf \<le> mr_len r")
      case True
      then have "(byte_at mem)(region_addrs r @ flat rs [\<mapsto>] buf) = (byte_at mem)(take (length buf) (region_addrs r) [\<mapsto>] buf)"
        by (subst map_upds_take [symmetric]) simp
      then show ?thesis using writes_byte_at [OF w] True by (simp add: region_addrs_def take_upt)
    next
      case False
      then have "(byte_at mem)(region_addrs r @ flat rs [\<mapsto>] take (mr_len r) buf @ drop (mr_len r) buf)
          = ((byte_at mem)(region_addrs r [\<mapsto>] take (mr_len r) buf))(flat rs [\<mapsto>] drop (mr_len r) buf)"
        by (intro map_upds_split) simp
      then show ?thesis using writes_byte_at [OF w] False by (simp add: region_addrs_def)
    qed
    moreover have "?cnt + min (length (drop ?cnt buf)) (length (flat rs)) = min (length buf) (length (flat (r # rs)))"
      by simp
    ultimately show ?thesis
      using False s mem' writes_layout [OF w] by (auto simp: stored_def Let_def add.assoc)
  qed
qed

lemma Writer_write_ok:
  assumes "mem_ok mem" "chain_ok (writer_regions w)" "backed_regions mem (dc_regions (writer_regions w))"
  shows "\<exists>w' mem'. Writer_write mem w buf = Some (min (length buf) (length (remaining (writer_regions w))), w', mem') \<and>
           stored mem (remaining (writer_regions w)) buf mem' \<and>
           consumed (writer_regions w) (length buf) (writer_regions w')"
proof -
  let ?d = "writer_regions w"
  obtain it where it: "get_remaining_regions ?d = Some it" "fits (it_regions it)"
      "set (it_regions it) \<subseteq> set (dc_regions ?d)" "it_flat it = remaining ?d"
    using get_remaining_regions_ok [OF assms(2)] by blast
  obtain rs where rs: "iter_collect it = Some rs" "flat rs = remaining ?d"
      "\<forall>r \<in> set rs. 0 < mr_len r \<and> (\<exists>q \<in> set (it_regions it). within r q)"
    using iter_collect_flat [OF it(2)] it(4) by auto
  have "\<forall>r \<in> set rs. 0 < mr_len r \<and> backed (guest_memory_regions mem) (unat (mr_offset r)) (mr_len r)"
    using rs(3) backed_regionsD [OF backed_regions_subset [OF assms(3) it(3)]] by blast
  from write_slices_stored [OF assms(1) assms(1) refl this, of buf 0] obtain mem' where
    mem': "write_slices mem (region_slices mem rs) buf 0 = (mem', min (length buf) (length (remaining ?d)))"
      "stored mem (remaining ?d) buf mem'"
    using rs(2) by auto
  obtain d' where d': "chain_consume ?d (min (length buf) (length (remaining ?d))) = Some d'"
      "consumed ?d (min (length buf) (length (remaining ?d))) d'"
    using chain_consume_ok [OF assms(2)] by blast
  moreover have "consumed ?d (length buf) d'" using d'(2) by (auto simp: consumed_def min_def)
  ultimately show ?thesis
    using it(1) rs(1) mem' by (simp add: Writer_write_def get_remaining_def consume_bytes_def)
qed

lemma backed_regions_layout:
  "guest_memory_regions mem = guest_memory_regions mem' \<Longrightarrow> backed_regions mem rs \<longleftrightarrow> backed_regions mem' rs"
  by (simp add: backed_regions_def)

lemma Writer_write_all_ok:
  assumes "mem_ok mem" "chain_ok (writer_regions w)" "backed_regions mem (dc_regions (writer_regions w))"
  shows "\<exists>w' mem'. Writer_write_all mem w buf =
             Some (if length buf \<le> length (remaining (writer_regions w)) then Ok () else Err (Kind WriteZero), w', mem') \<and>
           stored mem (remaining (writer_regions w)) buf mem' \<and>
           consumed (writer_regions w) (length buf) (writer_regions w')"
proof (cases "buf = []")
  case True
  then show ?thesis using assms by (simp add: Writer_write_all.simps [of mem w] stored_def consumed_def)
next
  case False
  let ?R = "remaining (writer_regions w)"
  obtain w' mem' where w': "Writer_write mem w buf = Some (min (length buf) (length ?R), w', mem')"
      "stored mem ?R buf mem'" "consumed (writer_regions w) (length buf) (writer_regions w')"
    using Writer_write_ok [OF assms] by blast
  have ok': "mem_ok mem'" "chain_ok (writer_regions w')" "backed_regions mem' (dc_regions (writer_regions w'))"
    using w'(2,3) assms(3) backed_regions_layout [of mem' mem] by (simp_all add: stored_def consumed_def)
  show ?thesis
  proof (cases "length buf \<le> length ?R")
    case True
    then show ?thesis using w' False
      by (simp add: Writer_write_all.simps [of mem w] Writer_write_all.simps [of mem' w' "[]"])
  next
    case big: False
    then have R': "remaining (writer_regions w') = []" using w'(3) by (simp add: consumed_def)
    show ?thesis
    proof (cases "?R = []")
      case True
      then show ?thesis using w' False big by (auto simp: Writer_write_all.simps [of mem w])
    next
      case R: False
      let ?buf = "drop (length ?R) buf"
      obtain w2 mem2 where w2: "Writer_write mem' w' ?buf = Some (0, w2, mem2)"
          "stored mem' [] ?buf mem2" "consumed (writer_regions w') (length ?buf) (writer_regions w2)"
        using Writer_write_ok [OF ok', of ?buf] R' by auto
      have "stored mem ?R buf mem2" using w'(2) w2(2) by (simp add: stored_def)
      moreover have "consumed (writer_regions w) (length buf) (writer_regions w2)"
        using w'(3) w2(3) R' by (simp add: consumed_def)
      moreover have "min (length buf) (length ?R) = length ?R" using big by simp
      ultimately show ?thesis using w' w2(1) False R big
        by (simp add: Writer_write_all.simps [of mem w] Writer_write_all.simps [of mem' w'])
    qed
  qed
qed

lemma map_upds_distinct:
  "distinct xs \<Longrightarrow> length ys \<le> length xs \<Longrightarrow> i < length ys \<Longrightarrow> (f(xs [\<mapsto>] ys)) (xs ! i) = Some (ys ! i)"
proof (induction xs arbitrary: f ys i)
  case (Cons x xs)
  then show ?case by (cases ys; cases i) auto
qed simp

lemma stored_mem_list:
  assumes "stored mem xs buf mem'" "distinct xs" "length buf \<le> length xs"
  shows "mem_list mem' (take (length buf) xs) = buf"
proof (rule nth_equalityI)
  fix i assume "i < length (mem_list mem' (take (length buf) xs))"
  then show "mem_list mem' (take (length buf) xs) ! i = buf ! i"
    using assms map_upds_distinct [OF assms(2,3)] by (simp add: mem_list_def stored_def)
qed (use assms(3) in simp)

lemma Reader_read_obj_ok:
  assumes "mem_ok mem" "chain_ok (reader_regions rd)" "backed_regions mem (dc_regions (reader_regions rd))"
  shows "if k \<le> length (remaining (reader_regions rd))
         then \<exists>rd'. Reader_read_obj mem rd k = Some (Ok (mem_list mem (take k (remaining (reader_regions rd)))), rd') \<and>
                    consumed (reader_regions rd) k (reader_regions rd')
         else Reader_read_obj mem rd k = Some (Err (Kind UnexpectedEof), rd)"
proof -
  let ?d = "reader_regions rd"
  obtain it where it: "get_remaining_regions ?d = Some it" "fits (it_regions it)"
      "set (it_regions it) \<subseteq> set (dc_regions ?d)" "it_flat it = remaining ?d"
    using get_remaining_regions_ok [OF assms(2)] by blast
  have c: "copy_regions_to_mut_ptr mem it k [] = Some (Ok (mem_list mem (take k (remaining ?d))))"
    using copy_regions_flat [OF assms(1) it(2) backed_regions_subset [OF assms(3) it(3)], of "[]" k] it(4) by simp
  obtain d' where d': "chain_consume ?d k = Some d'" "consumed ?d k d'" using chain_consume_ok [OF assms(2)] by blast
  show ?thesis using it(1) c d' by (auto simp: Reader_read_obj_def peek_obj_def Reader_consume_def)
qed

lemma Reader_collect_ok:
  assumes "mem_ok mem" "0 < k"
  shows "chain_ok (reader_regions rd) \<Longrightarrow> backed_regions mem (dc_regions (reader_regions rd)) \<Longrightarrow>
    \<exists>r rd'. Reader_collect mem rd k = Some (r, rd') \<and>
      (if k dvd length (remaining (reader_regions rd))
       then \<exists>objs. r = Ok objs \<and> concat objs = mem_list mem (remaining (reader_regions rd)) \<and> (\<forall>b \<in> set objs. length b = k)
       else r = Err (Kind UnexpectedEof)) \<and>
      length (remaining (reader_regions rd')) = length (remaining (reader_regions rd)) mod k"
proof (induction "length (remaining (reader_regions rd))" arbitrary: rd rule: less_induct)
  case less
  let ?R = "remaining (reader_regions rd)"
  have av: "Reader_available_bytes rd = Some (length ?R)"
    using available_bytes_ok [OF less(2)] by (simp add: Reader_available_bytes_def)
  consider (nothing) "?R = []" | (short) "?R \<noteq> []" "length ?R < k" | (more) "?R \<noteq> []" "k \<le> length ?R" by force
  then show ?case
  proof cases
    case nothing
    then show ?thesis using av by (simp add: Reader_collect.simps [of mem rd] ReaderIterator_next_def)
  next
    case short
    then have "Reader_read_obj mem rd k = Some (Err (Kind UnexpectedEof), rd)"
      using Reader_read_obj_ok [OF assms(1) less(2,3), of k] by simp
    moreover have "\<not> k dvd length ?R" using short by (auto dest: dvd_imp_le)
    ultimately show ?thesis using av short by (simp add: Reader_collect.simps [of mem rd] ReaderIterator_next_def)
  next
    case more
    then obtain rd1 where rd1: "Reader_read_obj mem rd k = Some (Ok (mem_list mem (take k ?R)), rd1)"
        "consumed (reader_regions rd) k (reader_regions rd1)"
      using Reader_read_obj_ok [OF assms(1) less(2,3), of k] by auto
    let ?R1 = "remaining (reader_regions rd1)"
    have R1: "?R1 = drop k ?R" "chain_ok (reader_regions rd1)" "backed_regions mem (dc_regions (reader_regions rd1))"
      using rd1(2) less(3) by (simp_all add: consumed_def)
    have lt: "length ?R1 < length ?R" using R1(1) assms(2) more by simp
    obtain r rd' where r: "Reader_collect mem rd1 k = Some (r, rd')"
      "if k dvd length ?R1 then \<exists>objs. r = Ok objs \<and> concat objs = mem_list mem ?R1 \<and> (\<forall>b \<in> set objs. length b = k)
       else r = Err (Kind UnexpectedEof)"
      "length (remaining (reader_regions rd')) = length ?R1 mod k"
      using less(1) [OF lt R1(2,3)] by blast
    have md: "length ?R1 mod k = length ?R mod k" using R1(1) more by (simp add: le_mod_geq)
    then have dvd: "k dvd length ?R1 \<longleftrightarrow> k dvd length ?R" by (simp add: dvd_eq_mod_eq_0)
    show ?thesis
    proof (cases "k dvd length ?R")
      case True
      then obtain objs where "r = Ok objs" "concat objs = mem_list mem ?R1" "\<forall>b \<in> set objs. length b = k"
        using r(2) dvd by auto
      moreover have "mem_list mem (take k ?R) @ mem_list mem ?R1 = mem_list mem ?R"
        unfolding R1(1) by (simp flip: mem_list_simps(2))
      ultimately show ?thesis using True av more rd1(1) r(1,3) md
        by (simp add: Reader_collect.simps [of mem rd] ReaderIterator_next_def)
    next
      case False
      then show ?thesis using r dvd md av more rd1(1)
        by (simp add: Reader_collect.simps [of mem rd] ReaderIterator_next_def)
    qed
  qed
qed

lemma chain_ok_new:
  assumes "fits rs" "length (flat rs) < 2 ^ 64"
  shows "chain_ok (DescriptorChainRegions_new rs)" "remaining (DescriptorChainRegions_new rs) = flat rs"
  using assms by (simp_all add: chain_ok_def remaining_def DescriptorChainRegions_new_def)

text \<open>Two buffers in the two regions of the small memory.\<close>

definition two_buffers :: "MemRegion list" where
  "two_buffers = [\<lparr>mr_offset = 0x1002, mr_len = 4\<rparr>, \<lparr>mr_offset = 0x2000, mr_len = 4\<rparr>]"

lemma two_buffers_ok:
  "fits two_buffers" "flat two_buffers = [0x1002, 0x1003, 0x1004, 0x1005, 0x2000, 0x2001, 0x2002, 0x2003]"
  "backed_regions small_memory two_buffers"
  by (simp_all add: two_buffers_def region_addrs_def upt_rec [of _ "4102"] upt_rec [of _ "8196"]
      backed_regions_def backed_def small_memory_def guest_memory_regions_def)

lemma two_buffers_chain:
  "chain_ok (DescriptorChainRegions_new two_buffers)"
  "remaining (DescriptorChainRegions_new two_buffers) = flat two_buffers"
  using chain_ok_new [OF two_buffers_ok(1)] by (simp_all add: two_buffers_ok(2))

section \<open>Properties\<close>

text \<open>
  C28. Collecting the objects of a reader ends and returns the bytes of the readable buffers that are
  left, in order and cut into objects, whenever their number is a multiple of the size of an object;
  otherwise it fails with \<open>UnexpectedEof\<close> and leaves the odd bytes unread.
\<close>

theorem reader_collects:
  assumes "mem_ok mem" "chain_ok (reader_regions rd)" "backed_regions mem (dc_regions (reader_regions rd))" "0 < k"
  shows "\<exists>r rd'. Reader_collect mem rd k = Some (r, rd') \<and>
      (if k dvd length (remaining (reader_regions rd))
       then \<exists>objs. r = Ok objs \<and> concat objs = mem_list mem (remaining (reader_regions rd)) \<and> (\<forall>b \<in> set objs. length b = k)
       else r = Err (Kind UnexpectedEof)) \<and>
      length (remaining (reader_regions rd')) = length (remaining (reader_regions rd)) mod k"
  by (rule Reader_collect_ok [OF assms(1,4,2,3)])

theorem reader_collects_witness:
  "\<exists>objs rd'. Reader_collect small_memory (Reader_new_from_regions two_buffers) 2 = Some (Ok objs, rd') \<and>
     concat objs = mem_list small_memory (flat two_buffers) \<and> (\<forall>b \<in> set objs. length b = 2)"
proof -
  let ?rd = "Reader_new_from_regions two_buffers"
  have "backed_regions small_memory (dc_regions (reader_regions ?rd))"
    using two_buffers_ok(3) by (simp add: Reader_new_from_regions_def DescriptorChainRegions_new_def)
  then show ?thesis
    using reader_collects [OF mem_ok_small_memory, of ?rd 2] two_buffers_chain
    by (auto simp: Reader_new_from_regions_def two_buffers_ok(2))
qed

text \<open>
  C27. \<open>write_all\<close> on a writer always ends. It succeeds exactly when the buffer fits into the writable
  buffers that are left and otherwise fills them and fails with \<open>WriteZero\<close>. It changes no byte of
  guest memory outside these buffers, and unless they overlap, a reader of the same buffers reads
  back what was written.
\<close>

theorem writer_roundtrip:
  assumes "mem_ok mem" "chain_ok (writer_regions w)" "backed_regions mem (dc_regions (writer_regions w))"
  shows "\<exists>w' mem'. Writer_write_all mem w buf =
             Some (if length buf \<le> length (remaining (writer_regions w)) then Ok () else Err (Kind WriteZero), w', mem') \<and>
           bytes_written w' = bytes_written w + min (length buf) (length (remaining (writer_regions w))) \<and>
           (\<forall>x. x \<notin> set (take (length buf) (remaining (writer_regions w))) \<longrightarrow> byte_at mem' x = byte_at mem x) \<and>
           (distinct (remaining (writer_regions w)) \<and> length buf \<le> length (remaining (writer_regions w)) \<longrightarrow>
              (\<exists>rd'. Reader_read mem' \<lparr>reader_regions = writer_regions w\<rparr> (length buf) = Some (Ok buf, rd')))"
proof -
  let ?R = "remaining (writer_regions w)"
  obtain w' mem' where w: "Writer_write_all mem w buf =
        Some (if length buf \<le> length ?R then Ok () else Err (Kind WriteZero), w', mem')"
      "stored mem ?R buf mem'" "consumed (writer_regions w) (length buf) (writer_regions w')"
    using Writer_write_all_ok [OF assms] by blast
  have "byte_at mem' = (byte_at mem)(take (length buf) ?R [\<mapsto>] buf)"
    using w(2) by (simp add: stored_def map_upds_take)
  then have frame: "\<forall>x. x \<notin> set (take (length buf) ?R) \<longrightarrow> byte_at mem' x = byte_at mem x" by simp
  have "mem_ok mem'" "backed_regions mem' (dc_regions (writer_regions w))"
    using w(2) assms(3) backed_regions_layout [of mem' mem] by (simp_all add: stored_def)
  then have "\<exists>rd'. Reader_read mem' \<lparr>reader_regions = writer_regions w\<rparr> (length buf) = Some (Ok buf, rd')"
    if "distinct ?R" "length buf \<le> length ?R"
    using Reader_read_ok [of mem' "\<lparr>reader_regions = writer_regions w\<rparr>" "length buf"] assms(2)
      stored_mem_list [OF w(2) that] by auto
  with w frame show ?thesis by (auto simp: bytes_written_def consumed_def)
qed

theorem writer_roundtrip_witness:
  "\<exists>w' mem'. Writer_write_all small_memory (Writer_new_from_regions two_buffers) [1, 2, 3, 4, 5] = Some (Ok (), w', mem') \<and>
     bytes_written w' = 5 \<and>
     (\<exists>rd'. Reader_read mem' (Reader_new_from_regions two_buffers) 5 = Some (Ok [1, 2, 3, 4, 5], rd'))"
proof -
  let ?w = "Writer_new_from_regions two_buffers"
  have ok: "chain_ok (writer_regions ?w)" "remaining (writer_regions ?w) = flat two_buffers"
      "backed_regions small_memory (dc_regions (writer_regions ?w))" "bytes_written ?w = 0"
      "\<lparr>reader_regions = writer_regions ?w\<rparr> = Reader_new_from_regions two_buffers"
    using two_buffers_chain two_buffers_ok(3)
    by (simp_all add: Writer_new_from_regions_def Reader_new_from_regions_def bytes_written_def
        DescriptorChainRegions_new_def)
  have five: "length [1, 2, 3, 4, 5 :: u8] = 5" by simp
  show ?thesis
    using writer_roundtrip [OF mem_ok_small_memory ok(1,3), of "[1, 2, 3, 4, 5]"]
    unfolding ok five by (auto simp: two_buffers_ok(2))
qed

text \<open>
  Splitting a chain at a byte position, when no part of its current region has been consumed,
  leaves exactly the first bytes in the chain and gives the others to the chain that is returned;
  both can be used further, and counting starts anew in the second.
\<close>

theorem split_at_fresh:
  assumes "chain_ok d" "current_region_offset d = 0"
  shows "\<exists>d1 d2. chain_split_at d n = Some (d1, d2) \<and> chain_ok d1 \<and> chain_ok d2 \<and>
           remaining d1 = take n (remaining d) \<and> remaining d2 = drop n (remaining d) \<and>
           available_bytes d1 = Some (min n (length (remaining d))) \<and>
           available_bytes d2 = Some (length (remaining d) - n) \<and> bytes_consumed d2 = 0"
proof -
  from chain_split_at_ok [OF assms(1), where n = n and mem = small_memory] assms(2) obtain d1 d2 where d: "chain_split_at d n = Some (d1, d2)"
      "chain_ok d1" "chain_ok d2" "remaining d1 = take n (flat (drop (current_region_index d) (dc_regions d)))"
      "remaining d2 = drop n (remaining d)" "bytes_consumed d2 = 0"
    by auto
  moreover have "remaining d = flat (drop (current_region_index d) (dc_regions d))" using assms(2) by (simp add: remaining_def)
  ultimately show ?thesis using available_bytes_ok [OF d(2)] available_bytes_ok [OF d(3)] by (simp add: min.commute)
qed

theorem split_at_fresh_witness:
  "\<exists>d1 d2. chain_split_at (DescriptorChainRegions_new two_buffers) 5 = Some (d1, d2) \<and>
     remaining d1 = [0x1002, 0x1003, 0x1004, 0x1005, 0x2000] \<and> remaining d2 = [0x2001, 0x2002, 0x2003]"
proof -
  have "current_region_offset (DescriptorChainRegions_new two_buffers) = 0" by (simp add: DescriptorChainRegions_new_def)
  from split_at_fresh [OF two_buffers_chain(1) this, of 5] show ?thesis
    unfolding two_buffers_chain(2) two_buffers_ok(2) by auto
qed

text \<open>
  After a part of the current region was consumed, the split counts from the start of the region: the
  chain keeps fewer bytes than it should, and the next read of it panics, because the offset in the
  region lies behind the new end of the region.
\<close>

theorem split_at_partial_panics:
  "\<exists>rd rd1 rd2. Reader_read small_memory (Reader_new_from_regions two_buffers) 3 = Some (Ok [0, 0, 0], rd) \<and>
     Reader_available_bytes rd = Some 5 \<and> Reader_split_at rd 2 = Some (rd1, rd2) \<and>
     Reader_available_bytes rd1 = Some 0 \<and> Reader_available_bytes rd2 = Some 3 \<and> Reader_read small_memory rd1 1 = None"
proof -
  note eval = two_buffers_def get_remaining_regions_def skip_bytes_def MemRegionIter_new_def iter_next_def
    checked_add_def usize_sub_def usize_add_def Let_def chain_consume.simps Reader_consume_def
  let ?rd = "\<lparr>reader_regions = \<lparr>dc_regions = two_buffers, current_region_index = 0, current_region_offset = 3, bytes_consumed = 3\<rparr>\<rparr>"
  let ?rd1 = "\<lparr>reader_regions = \<lparr>dc_regions = [\<lparr>mr_offset = 0x1002, mr_len = 2\<rparr>], current_region_index = 0,
    current_region_offset = 3, bytes_consumed = 3\<rparr>\<rparr>"
  let ?rd2 = "\<lparr>reader_regions = \<lparr>dc_regions = two_buffers, current_region_index = 1, current_region_offset = 1, bytes_consumed = 0\<rparr>\<rparr>"
  have "Reader_read small_memory (Reader_new_from_regions two_buffers) 3 = Some (Ok [0, 0, 0], ?rd)"
    by (simp add: eval Reader_read_def copy_regions_to_mut_ptr.simps Reader_new_from_regions_def DescriptorChainRegions_new_def
        get_slice_at_addr_def region_index_def small_memory_def region_contains_def region_start_def region_end_def
        unchecked_add_def upt_rec mapping_get_slice_def slice_bytes_def)
  moreover have "Reader_available_bytes ?rd = Some 5" "Reader_available_bytes ?rd1 = Some 0" "Reader_available_bytes ?rd2 = Some 3"
    by (simp_all add: eval Reader_available_bytes_def available_bytes_def iter_collect.simps)
  moreover have "Reader_split_at ?rd 2 = Some (?rd1, ?rd2)"
    by (simp add: eval Reader_split_at_def chain_split_at_def)
  moreover have "Reader_read small_memory ?rd1 1 = None"
    by (simp add: eval Reader_read_def copy_regions_to_mut_ptr.simps)
  ultimately show ?thesis by blast
qed

end
