(* ===== verification/DescriptorChain.thy ===== *)
theory DescriptorChain
  imports ChainRegions
begin

text \<open>
  Descriptor chains of virtqueues: \<open>devices/src/virtio/descriptor_chain.rs\<close> and the iterators of
  \<open>queue/split_descriptor_chain.rs\<close> and \<open>queue/packed_descriptor_chain.rs\<close>.

  The driver in the guest may write to memory at any time, also while the device reads a chain. So
  the code that walks a chain gets a function \<open>view\<close> with the contents of memory at its first, second
  and every later read, and the theorems hold for every such function.
\<close>

unbundle bit_operations_syntax

section \<open>Descriptors\<close>

definition VIRTQ_DESC_F_NEXT :: u16 where "VIRTQ_DESC_F_NEXT = 0x1"
definition VIRTQ_DESC_F_WRITE :: u16 where "VIRTQ_DESC_F_WRITE = 0x2"
definition VIRTQ_DESC_F_AVAIL :: u16 where "VIRTQ_DESC_F_AVAIL = 0x80"
definition VIRTQ_DESC_F_USED :: u16 where "VIRTQ_DESC_F_USED = 0x8000"

lemmas desc_flag_defs = VIRTQ_DESC_F_NEXT_def VIRTQ_DESC_F_WRITE_def VIRTQ_DESC_F_AVAIL_def VIRTQ_DESC_F_USED_def

datatype DescriptorAccess = DeviceRead | DeviceWrite

record Descriptor =
  address :: u64
  dlen :: u32
  access :: DescriptorAccess

text \<open>The errors of \<open>bail!\<close> and \<open>context\<close>, with the values in their messages.\<close>

datatype chain_error =
    IndexOutOfBounds u16 u16 | ChainLoop | AddressOverflow | ReadDesc GuestAddress gm_error
  | ZeroLengthDescriptor | UnexpectedFlags u16 u16 | ReadableAfterWritable
  | RegionOutOfBounds u64 usize | ChainLengthOverflow | ZeroLengthChain

text \<open>What \<open>DescriptorChainIter::next\<close> returns, with the iterator after it; \<open>None\<close> is a panic.\<close>

type_synonym 'it chain_next = "((chain_error + Descriptor option) \<times> 'it) option"

section \<open>Split virtqueues\<close>

record Desc =
  desc_addr :: u64
  desc_len :: u32
  desc_flags :: u16
  desc_next :: u16

definition Desc_from_bytes :: "bytes \<Rightarrow> Desc" where
  "Desc_from_bytes bs =
     \<lparr>desc_addr = from_le (take 8 bs), desc_len = from_le (take 4 (drop 8 bs)),
      desc_flags = from_le (take 2 (drop 12 bs)), desc_next = from_le (take 2 (drop 14 bs))\<rparr>"

record SplitDescriptorChain =
  sc_index :: "u16 option"
  sc_count :: u16
  sc_queue_size :: u16
  sc_desc_table :: GuestAddress

definition SplitDescriptorChain_new :: "GuestAddress \<Rightarrow> u16 \<Rightarrow> u16 \<Rightarrow> SplitDescriptorChain" where
  "SplitDescriptorChain_new desc_table queue_size index =
     \<lparr>sc_index = Some index, sc_count = 0, sc_queue_size = queue_size, sc_desc_table = desc_table\<rparr>"

definition desc_access :: "u16 \<Rightarrow> DescriptorAccess" where
  "desc_access flags = (if flags AND VIRTQ_DESC_F_WRITE \<noteq> 0 then DeviceWrite else DeviceRead)"

definition split_next :: "GuestMemory \<Rightarrow> SplitDescriptorChain \<Rightarrow> SplitDescriptorChain chain_next" where
  "split_next mem c =
     (case sc_index c of
        None \<Rightarrow> Some (Ok None, c)
      | Some index \<Rightarrow>
          if sc_queue_size c \<le> index then Some (Err (IndexOutOfBounds index (sc_queue_size c)), c)
          else if sc_queue_size c \<le> sc_count c then Some (Err ChainLoop, c)
          else do {
            cnt \<leftarrow> checked_add (sc_count c) 1;
            let c = c\<lparr>sc_count := cnt\<rparr>;
            (case checked_add (sc_desc_table c) (ucast index * 16) of
               None \<Rightarrow> Some (Err AddressOverflow, c)
             | Some a \<Rightarrow>
                 (case read_obj_from_addr mem 16 a of
                    Err e \<Rightarrow> Some (Err (ReadDesc a e), c)
                  | Ok bs \<Rightarrow>
                      let desc = Desc_from_bytes bs;
                          flags = desc_flags desc;
                          unexpected_flags = flags AND NOT (VIRTQ_DESC_F_WRITE OR VIRTQ_DESC_F_NEXT)
                      in if unexpected_flags \<noteq> 0 then Some (Err (UnexpectedFlags index unexpected_flags), c)
                         else Some (Ok (Some \<lparr>address = desc_addr desc, dlen = desc_len desc,
                                              access = desc_access flags\<rparr>),
                                    c\<lparr>sc_index := if flags AND VIRTQ_DESC_F_NEXT \<noteq> 0
                                                  then Some (desc_next desc) else None\<rparr>)))
          })"

section \<open>Packed virtqueues\<close>

record PackedDesc =
  pd_addr :: u64
  pd_len :: u32
  pd_id :: u16
  pd_flags :: u16

definition PackedDesc_from_bytes :: "bytes \<Rightarrow> PackedDesc" where
  "PackedDesc_from_bytes bs =
     \<lparr>pd_addr = from_le (take 8 bs), pd_len = from_le (take 4 (drop 8 bs)),
      pd_id = from_le (take 2 (drop 12 bs)), pd_flags = from_le (take 2 (drop 14 bs))\<rparr>"

definition has_next :: "PackedDesc \<Rightarrow> bool" where
  "has_next d \<longleftrightarrow> pd_flags d AND VIRTQ_DESC_F_NEXT \<noteq> 0"

definition is_available :: "PackedDesc \<Rightarrow> u16 \<Rightarrow> bool" where
  "is_available d wrap_value =
     (let avail = (pd_flags d AND VIRTQ_DESC_F_AVAIL \<noteq> 0);
          used = (pd_flags d AND VIRTQ_DESC_F_USED \<noteq> 0);
          wrap = (wrap_value \<noteq> 0)
      in avail \<noteq> used \<and> avail = wrap)"

record PackedDescriptorChain =
  pc_avail_wrap_counter :: bool
  pc_index :: "u16 option"
  pc_count :: u16
  pc_id :: "u16 option"
  pc_queue_size :: u16
  pc_desc_table :: GuestAddress

definition PackedDescriptorChain_new ::
  "GuestAddress \<Rightarrow> u16 \<Rightarrow> bool \<Rightarrow> u16 \<Rightarrow> PackedDescriptorChain"
where
  "PackedDescriptorChain_new desc_table queue_size avail_wrap_counter index =
     \<lparr>pc_avail_wrap_counter = avail_wrap_counter, pc_index = Some index, pc_count = 0, pc_id = None,
      pc_queue_size = queue_size, pc_desc_table = desc_table\<rparr>"

definition packed_next :: "GuestMemory \<Rightarrow> PackedDescriptorChain \<Rightarrow> PackedDescriptorChain chain_next" where
  "packed_next mem c =
     (case pc_index c of
        None \<Rightarrow> Some (Ok None, c)
      | Some index \<Rightarrow>
          if pc_queue_size c \<le> index then Some (Err (IndexOutOfBounds index (pc_queue_size c)), c)
          else if pc_queue_size c \<le> pc_count c then Some (Err ChainLoop, c)
          else (case checked_add (pc_desc_table c) (ucast index * 16) of
                  None \<Rightarrow> Some (Err AddressOverflow, c)
                | Some a \<Rightarrow>
                    (case read_obj_from_addr mem 16 a of
                       Err e \<Rightarrow> Some (Err (ReadDesc a e), c)
                     | Ok bs \<Rightarrow>
                         let desc = PackedDesc_from_bytes bs;
                             flags = pd_flags desc;
                             unexpected_flags = flags AND NOT (VIRTQ_DESC_F_WRITE OR VIRTQ_DESC_F_NEXT
                               OR VIRTQ_DESC_F_AVAIL OR VIRTQ_DESC_F_USED)
                         in if \<not> is_available desc (of_bool (pc_avail_wrap_counter c)) then Some (Ok None, c)
                            else if pd_len desc = 0 then Some (Err ZeroLengthDescriptor, c)
                            else if unexpected_flags \<noteq> 0 then Some (Err (UnexpectedFlags index unexpected_flags), c)
                            else do {
                              c \<leftarrow> (if has_next desc then do {
                                       i \<leftarrow> checked_add index 1;
                                       Some (if i < pc_queue_size c then c\<lparr>pc_index := Some i\<rparr>
                                             else c\<lparr>pc_index := Some 0,
                                                    pc_avail_wrap_counter := \<not> pc_avail_wrap_counter c\<rparr>)
                                     } else Some (c\<lparr>pc_id := Some (pd_id desc), pc_index := None\<rparr>));
                              cnt \<leftarrow> checked_add (pc_count c) 1;
                              Some (Ok (Some \<lparr>address = pd_addr desc, dlen = pd_len desc,
                                              access = desc_access flags\<rparr>),
                                    c\<lparr>pc_count := cnt\<rparr>)
                            })))"

section \<open>Reading a chain\<close>

record DescriptorChain =
  chain_index :: u16
  reader :: Reader
  writer :: Writer
  chain_id :: "u16 option"
  chain_count :: u16

text \<open>The loop of \<open>DescriptorChain::new\<close>, over any iterator; \<open>k\<close> counts its turns.\<close>

partial_function (option) collect_descriptors ::
  "(GuestMemory \<Rightarrow> 'it \<Rightarrow> 'it chain_next) \<Rightarrow> (nat \<Rightarrow> GuestMemory) \<Rightarrow> nat \<Rightarrow> 'it \<Rightarrow> bool \<Rightarrow>
   MemRegion list \<Rightarrow> MemRegion list \<Rightarrow> (chain_error + 'it \<times> MemRegion list \<times> MemRegion list) option"
where
  "collect_descriptors nxt view k it writable rd wr = do {
     (r, it') \<leftarrow> nxt (view k) it;
     (case r of
        Err e \<Rightarrow> Some (Err e)
      | Ok None \<Rightarrow> Some (Ok (it', rd, wr))
      | Ok (Some desc) \<Rightarrow>
          if dlen desc = 0 then collect_descriptors nxt view (Suc k) it' writable rd wr
          else let region = \<lparr>mr_offset = address desc, mr_len = unat (dlen desc)\<rparr>
               in (case access desc of
                     DeviceRead \<Rightarrow>
                       if writable then Some (Err ReadableAfterWritable)
                       else collect_descriptors nxt view (Suc k) it' writable (rd @ [region]) wr
                   | DeviceWrite \<Rightarrow> collect_descriptors nxt view (Suc k) it' True rd (wr @ [region])))
   }"

fun validate_loop :: "GuestMemory \<Rightarrow> MemRegion list \<Rightarrow> u32 \<Rightarrow> chain_error + u32" where
  "validate_loop mem [] total_len = Ok total_len"
| "validate_loop mem (r # rs) total_len =
     (let len = of_nat (mr_len r) :: u32
      in if \<not> is_valid_range mem (mr_offset r) (ucast len) then Err (RegionOutOfBounds (mr_offset r) (mr_len r))
         else (case checked_add total_len len of
                 None \<Rightarrow> Err ChainLengthOverflow
               | Some total_len \<Rightarrow> validate_loop mem rs total_len))"

definition validate_mem_regions :: "GuestMemory \<Rightarrow> MemRegion list \<Rightarrow> MemRegion list \<Rightarrow> chain_error + unit" where
  "validate_mem_regions mem readable_regions writable_regions =
     (case validate_loop mem (readable_regions @ writable_regions) 0 of
        Err e \<Rightarrow> Err e
      | Ok total_len \<Rightarrow> if total_len = 0 then Err ZeroLengthChain else Ok ())"

definition DescriptorChain_new ::
  "(GuestMemory \<Rightarrow> 'it \<Rightarrow> 'it chain_next) \<Rightarrow> ('it \<Rightarrow> u16) \<Rightarrow> ('it \<Rightarrow> u16 option) \<Rightarrow>
   (nat \<Rightarrow> GuestMemory) \<Rightarrow> 'it \<Rightarrow> GuestMemory \<Rightarrow> u16 \<Rightarrow> (chain_error + DescriptorChain) option"
where
  "DescriptorChain_new nxt cnt idf view it mem index = do {
     r \<leftarrow> collect_descriptors nxt view 0 it False [] [];
     Some (case r of
             Err e \<Rightarrow> Err e
           | Ok (it', readable_regions, writable_regions) \<Rightarrow>
               (case validate_mem_regions mem readable_regions writable_regions of
                  Err e \<Rightarrow> Err e
                | Ok _ \<Rightarrow> Ok \<lparr>chain_index = index, reader = Reader_new_from_regions readable_regions,
                              writer = Writer_new_from_regions writable_regions, chain_id = idf it',
                              chain_count = cnt it'\<rparr>))
   }"

text \<open>The two instances that the queues use. A split chain has no identifier.\<close>

definition no_id :: "SplitDescriptorChain \<Rightarrow> u16 option" where
  "no_id c = None"

definition split_chain ::
  "(nat \<Rightarrow> GuestMemory) \<Rightarrow> GuestMemory \<Rightarrow> GuestAddress \<Rightarrow> u16 \<Rightarrow> u16 \<Rightarrow> (chain_error + DescriptorChain) option"
where
  "split_chain view mem desc_table queue_size index =
     DescriptorChain_new split_next sc_count no_id view (SplitDescriptorChain_new desc_table queue_size index) mem index"

definition packed_chain ::
  "(nat \<Rightarrow> GuestMemory) \<Rightarrow> GuestMemory \<Rightarrow> GuestAddress \<Rightarrow> u16 \<Rightarrow> bool \<Rightarrow> u16 \<Rightarrow> (chain_error + DescriptorChain) option"
where
  "packed_chain view mem desc_table queue_size avail_wrap_counter index =
     DescriptorChain_new packed_next pc_count pc_id view
       (PackedDescriptorChain_new desc_table queue_size avail_wrap_counter index) mem index"

section \<open>What an iterator must do for the loop to end\<close>

text \<open>
  The contract of \<open>DescriptorChainIter\<close>: \<open>next\<close> does not panic, and every descriptor it returns is
  counted, up to a bound that does not change.
\<close>

locale descriptor_iter =
  fixes nxt :: "GuestMemory \<Rightarrow> 'it \<Rightarrow> 'it chain_next" and cnt :: "'it \<Rightarrow> u16" and lim :: "'it \<Rightarrow> nat"
  assumes returns: "unat (cnt it) \<le> lim it \<Longrightarrow> \<exists>r it'. nxt mem it = Some (r, it')"
    and counts: "nxt mem it = Some (Ok (Some d), it') \<Longrightarrow> unat (cnt it) \<le> lim it \<Longrightarrow>
      unat (cnt it') = unat (cnt it) + 1 \<and> unat (cnt it') \<le> lim it \<and> lim it' = lim it"
    and stops: "nxt mem it = Some (Ok None, it') \<Longrightarrow> cnt it' = cnt it"
begin

text \<open>
  The result of the loop when it starts with the regions \<open>rd\<close> and \<open>wr\<close>: the regions it adds are not
  empty, their lengths fit into 32 bits, and each was counted.
\<close>

definition gathers :: "'it \<Rightarrow> MemRegion list \<Rightarrow> MemRegion list \<Rightarrow> chain_error + 'it \<times> MemRegion list \<times> MemRegion list \<Rightarrow> bool" where
  "gathers it rd wr r \<longleftrightarrow>
     (\<forall>it' rd' wr'. r = Ok (it', rd', wr') \<longrightarrow> unat (cnt it') \<le> lim it \<and>
       (\<exists>rd1 wr1. rd' = rd @ rd1 \<and> wr' = wr @ wr1 \<and>
          (\<forall>x \<in> set (rd1 @ wr1). 0 < mr_len x \<and> mr_len x < 2 ^ 32) \<and>
          unat (cnt it) + length (rd1 @ wr1) \<le> unat (cnt it')))"

lemma gathers_step:
  assumes "unat (cnt it') = unat (cnt it) + 1" "lim it' = lim it" "gathers it' (rd @ rd0) (wr @ wr0) r"
    and "length (rd0 @ wr0) \<le> 1" "\<forall>x \<in> set (rd0 @ wr0). 0 < mr_len x \<and> mr_len x < 2 ^ 32"
  shows "gathers it rd wr r"
  unfolding gathers_def
proof (intro allI impI)
  fix it'' rd' wr' assume "r = Ok (it'', rd', wr')"
  with assms(3) obtain rd1 wr1 where "unat (cnt it'') \<le> lim it'" "rd' = (rd @ rd0) @ rd1" "wr' = (wr @ wr0) @ wr1"
      "\<forall>x \<in> set (rd1 @ wr1). 0 < mr_len x \<and> mr_len x < 2 ^ 32" "unat (cnt it') + length (rd1 @ wr1) \<le> unat (cnt it'')"
    by (auto simp: gathers_def)
  then show "unat (cnt it'') \<le> lim it \<and> (\<exists>rd1 wr1. rd' = rd @ rd1 \<and> wr' = wr @ wr1 \<and>
      (\<forall>x \<in> set (rd1 @ wr1). 0 < mr_len x \<and> mr_len x < 2 ^ 32) \<and> unat (cnt it) + length (rd1 @ wr1) \<le> unat (cnt it''))"
    using assms(1,2,4,5) by (intro conjI exI [of _ "rd0 @ rd1"] exI [of _ "wr0 @ wr1"]) auto
qed

lemma collect_returns:
  "unat (cnt it) \<le> lim it \<Longrightarrow>
   \<exists>r. collect_descriptors nxt view k it w rd wr = Some r \<and> gathers it rd wr r"
proof (induction "lim it - unat (cnt it)" arbitrary: it k w rd wr rule: less_induct)
  case less
  obtain r it' where n: "nxt (view k) it = Some (r, it')" using returns [OF less(2)] by blast
  note step = collect_descriptors.simps [of nxt view k it w rd wr]
  consider (err) e where "r = Err e" | (stop) "r = Ok None" | (desc) d where "r = Ok (Some d)"
    by (metis not_None_eq sum.exhaust)
  then show ?case
  proof cases
    case err
    then show ?thesis by (simp add: step n gathers_def)
  next
    case stop
    then have "cnt it' = cnt it" using n stops by blast
    with stop show ?thesis using less(2) by (simp add: step n gathers_def)
  next
    case (desc d)
    then have c: "unat (cnt it') = unat (cnt it) + 1" "unat (cnt it') \<le> lim it" "lim it' = lim it"
      using counts n less(2) by blast+
    have "lim it' - unat (cnt it') < lim it - unat (cnt it)" "unat (cnt it') \<le> lim it'" using c by linarith+
    note ih = less(1) [OF this, of "Suc k"]
    define x where "x = \<lparr>mr_offset = address d, mr_len = unat (dlen d)\<rparr>"
    have x: "dlen d \<noteq> 0 \<Longrightarrow> 0 < mr_len x" "mr_len x < 2 ^ 32"
      using unat_lt [of "dlen d"] by (simp_all add: unat_gt_0 x_def)
    note g = gathers_step [OF c(1,3)]
    have s: "collect_descriptors nxt view k it w rd wr =
        (if dlen d = 0 then collect_descriptors nxt view (Suc k) it' w rd wr
         else case access d of
             DeviceRead \<Rightarrow> if w then Some (Err ReadableAfterWritable)
               else collect_descriptors nxt view (Suc k) it' w (rd @ [x]) wr
           | DeviceWrite \<Rightarrow> collect_descriptors nxt view (Suc k) it' True rd (wr @ [x]))"
      by (cases "access d") (simp_all add: step n desc Let_def x_def)
    consider "dlen d = 0" | "dlen d \<noteq> 0" "access d = DeviceRead" w | "dlen d \<noteq> 0" "access d = DeviceRead" "\<not> w"
      | "dlen d \<noteq> 0" "access d = DeviceWrite" by (cases "access d") auto
    then show ?thesis
    proof cases
      case 1
      then show ?thesis unfolding s using ih [of w rd wr] g [of rd "[]" wr "[]"] by auto
    next
      case 2
      then show ?thesis unfolding s by (simp add: gathers_def)
    next
      case 3
      then show ?thesis unfolding s using ih [of w "rd @ [x]" wr] g [of rd "[x]" wr "[]"] x by auto
    next
      case 4
      then show ?thesis unfolding s using ih [of True rd "wr @ [x]"] g [of rd "[]" wr "[x]"] x by auto
    qed
  qed
qed

end

section \<open>Chains that passed the checks\<close>

text \<open>The guarantees of \<open>DescriptorChain::new\<close> for the device.\<close>

definition chain_bytes :: "DescriptorChain \<Rightarrow> nat" where
  "chain_bytes c = length (remaining (reader_regions (reader c))) + length (remaining (writer_regions (writer c)))"

definition chain_valid :: "GuestMemory \<Rightarrow> DescriptorChain \<Rightarrow> bool" where
  "chain_valid mem c \<longleftrightarrow>
     chain_ok (reader_regions (reader c)) \<and> backed_regions mem (dc_regions (reader_regions (reader c))) \<and>
     chain_ok (writer_regions (writer c)) \<and> backed_regions mem (dc_regions (writer_regions (writer c))) \<and>
     0 < chain_bytes c \<and> chain_bytes c < 2 ^ 32"

lemma backed_fits:
  assumes "mem_ok mem" "backed (guest_memory_regions mem) a n"
  shows "a + n < 2 ^ 64"
proof -
  obtain i where "i < length (regions mem)"
      "a + n \<le> unat (guest_base (regions mem ! i)) + map_size (regions mem ! i)"
    using assms(2) by (auto simp: backed_iff)
  moreover from this have "unat (guest_base (regions mem ! i)) + map_size (regions mem ! i) < 2 ^ 64"
    using mem_ok_size [OF assms(1)] by simp
  ultimately show ?thesis by linarith
qed

lemma unat_ucast_le:
  assumes "LENGTH('a) \<le> LENGTH('b)"
  shows "unat (ucast (x :: 'a::len word) :: 'b::len word) = unat x"
proof -
  have "unat x < 2 ^ LENGTH('b)"
    by (rule less_le_trans [OF unat_lt power_increasing [OF assms]]) simp
  then show ?thesis by (simp add: unsigned_ucast_eq take_bit_nat_eq_self)
qed

lemma validate_loop_ok:
  assumes "mem_ok mem"
  shows "validate_loop mem rs t = Ok t' \<Longrightarrow> \<forall>r \<in> set rs. mr_len r < 2 ^ 32 \<Longrightarrow>
    unat t' = unat t + length (flat rs) \<and> backed_regions mem rs \<and> fits rs"
proof (induction rs arbitrary: t)
  case (Cons r rs)
  let ?len = "of_nat (mr_len r) :: u32"
  have len: "unat ?len = mr_len r" by (rule unat_of_nat_small) (use Cons.prems(2) in simp)
  then have len': "unat (ucast ?len :: u64) = mr_len r" by (simp add: unat_ucast_le)
  obtain t1 where v: "is_valid_range mem (mr_offset r) (ucast ?len)" and t1: "checked_add t ?len = Some t1"
    and rest: "validate_loop mem rs t1 = Ok t'"
    using Cons.prems(1) by (auto simp: Let_def split: if_splits option.splits)
  have b: "backed (guest_memory_regions mem) (unat (mr_offset r)) (mr_len r)"
    using v len' by (simp add: is_valid_range_iff [OF assms])
  have "unat t' = unat t1 + length (flat rs)" "backed_regions mem rs" "fits rs"
    using Cons.IH [OF rest] Cons.prems(2) by simp_all
  moreover have "unat t1 = unat t + mr_len r" using checked_add_unat [OF t1] len by simp
  ultimately show ?case using b backed_fits [OF assms b] by (simp add: backed_regions_def)
qed (simp add: backed_regions_def)

lemma validate_mem_regions_ok:
  assumes "mem_ok mem" "validate_mem_regions mem rd wr = Ok ()" "\<forall>r \<in> set (rd @ wr). mr_len r < 2 ^ 32"
  shows "backed_regions mem (rd @ wr) \<and> fits (rd @ wr) \<and> 0 < length (flat (rd @ wr)) \<and> length (flat (rd @ wr)) < 2 ^ 32"
proof -
  obtain t where t: "validate_loop mem (rd @ wr) 0 = Ok t" "t \<noteq> 0"
    using assms(2) by (auto simp: validate_mem_regions_def case_sum_eq_iff split: if_splits)
  from validate_loop_ok [OF assms(1) t(1) assms(3)] show ?thesis
    using t(2) unat_lt [of t] by (simp add: unat_gt_0 [symmetric])
qed

context descriptor_iter
begin

lemma DescriptorChain_new_ok:
  assumes "mem_ok mem" "unat (cnt it) \<le> lim it"
  shows "\<exists>r. DescriptorChain_new nxt cnt idf view it mem index = Some r \<and>
           (\<forall>c. r = Ok c \<longrightarrow> chain_valid mem c \<and> chain_index c = index \<and> unat (chain_count c) \<le> lim it \<and>
              length (dc_regions (reader_regions (reader c))) + length (dc_regions (writer_regions (writer c)))
                \<le> unat (chain_count c))"
proof -
  obtain r where r: "collect_descriptors nxt view 0 it False [] [] = Some r" "gathers it [] [] r"
    using collect_returns [OF assms(2)] by blast
  show ?thesis
  proof (cases r)
    case (Inl e)
    then show ?thesis using r(1) by (simp add: DescriptorChain_new_def)
  next
    case (Inr x)
    obtain it' rd wr where x: "x = (it', rd, wr)" by (cases x)
    have g: "unat (cnt it') \<le> lim it" "\<forall>x \<in> set (rd @ wr). 0 < mr_len x \<and> mr_len x < 2 ^ 32"
        "unat (cnt it) + length (rd @ wr) \<le> unat (cnt it')"
      using r(2) by (auto simp: gathers_def Inr x)
    show ?thesis
    proof (cases "validate_mem_regions mem rd wr")
      case (Inl e)
      then show ?thesis using r(1) by (simp add: DescriptorChain_new_def Inr x)
    next
      case v: (Inr u)
      then have ok: "backed_regions mem (rd @ wr)" "fits (rd @ wr)" "0 < length (flat (rd @ wr))" "length (flat (rd @ wr)) < 2 ^ 32"
        using validate_mem_regions_ok [OF assms(1), of rd wr] g(2) by auto
      have "length (flat rd) < 2 ^ 64" "length (flat wr) < 2 ^ 64" using ok(4) by simp_all
      then show ?thesis using r(1) v ok g chain_ok_new [of rd] chain_ok_new [of wr]
        by (simp add: DescriptorChain_new_def Inr x chain_valid_def chain_bytes_def Reader_new_from_regions_def
            Writer_new_from_regions_def backed_regions_append DescriptorChainRegions_new_def)
    qed
  qed
qed

end

section \<open>The two iterators\<close>

definition split_lim :: "SplitDescriptorChain \<Rightarrow> nat" where
  "split_lim c = unat (sc_queue_size c)"

definition packed_lim :: "PackedDescriptorChain \<Rightarrow> nat" where
  "packed_lim c = unat (pc_queue_size c)"

lemma checked_add_1:
  assumes "(x :: 'a::len word) < y"
  shows "checked_add x 1 = Some (x + 1)" "unat (x + 1) = unat x + 1" "x + 1 \<le> y"
proof -
  have "unat x < unat y" using assms by (simp add: word_less_nat_alt)
  then have "unat x + 1 < 2 ^ LENGTH('a)" using unat_lt [of y] by linarith
  then show c: "checked_add x 1 = Some (x + 1)" by (simp add: checked_add_def)
  show "unat (x + 1) = unat x + 1" using checked_add_unat [OF c] by simp
  then show "x + 1 \<le> y" using assms by (simp add: word_less_nat_alt word_le_nat_alt)
qed

lemma split_next_cases:
  assumes "split_next mem c = Some (r, c')"
  shows "(\<exists>d. r = Ok (Some d)) \<longrightarrow> sc_count c < sc_queue_size c \<and> sc_count c' = sc_count c + 1 \<and> sc_queue_size c' = sc_queue_size c"
    and "r = Ok None \<longrightarrow> c' = c"
  using assms
  by (auto simp: split_next_def bind_eq_Some_conv checked_add_Some Let_def case_sum_eq_iff not_le
      split: option.splits if_splits)

interpretation split_iter: descriptor_iter split_next sc_count split_lim
proof
  fix it :: SplitDescriptorChain and mem
  show "\<exists>r it'. split_next mem it = Some (r, it')"
    by (cases "sc_index it"; cases "sc_count it < sc_queue_size it")
      (auto simp: split_next_def checked_add_1 Let_def not_le split: option.splits sum.splits)
next
  fix it it' :: SplitDescriptorChain and mem d
  assume "split_next mem it = Some (Ok (Some d), it')"
  from split_next_cases(1) [OF this] have "sc_count it < sc_queue_size it" "sc_count it' = sc_count it + 1"
      "sc_queue_size it' = sc_queue_size it" by simp_all
  then show "unat (sc_count it') = unat (sc_count it) + 1 \<and> unat (sc_count it') \<le> split_lim it \<and> split_lim it' = split_lim it"
    using checked_add_1(2,3) [of "sc_count it" "sc_queue_size it"] by (simp add: split_lim_def word_le_nat_alt)
next
  fix it it' :: SplitDescriptorChain and mem
  assume "split_next mem it = Some (Ok None, it')"
  from split_next_cases(2) [OF this] show "sc_count it' = sc_count it" by simp
qed

lemma packed_next_cases:
  assumes "packed_next mem c = Some (r, c')"
  shows "(\<exists>d. r = Ok (Some d)) \<longrightarrow> pc_count c < pc_queue_size c \<and> pc_count c' = pc_count c + 1 \<and> pc_queue_size c' = pc_queue_size c"
    and "r = Ok None \<longrightarrow> c' = c"
  using assms
  by (auto simp: packed_next_def bind_eq_Some_conv checked_add_Some Let_def case_sum_eq_iff not_le
      split: option.splits if_splits)

lemma packed_next_returns: "\<exists>r c'. packed_next mem c = Some (r, c')"
proof (cases "\<exists>index. pc_index c = Some index \<and> index < pc_queue_size c \<and> pc_count c < pc_queue_size c")
  case True
  then obtain index where i: "pc_index c = Some index" "index < pc_queue_size c" "pc_count c < pc_queue_size c" by blast
  then show ?thesis
    by (simp add: packed_next_def checked_add_1 [OF i(2)] checked_add_1 [OF i(3)] Let_def not_le
        split: option.split sum.split)
next
  case False
  then show ?thesis by (auto simp: packed_next_def not_le split: option.splits)
qed

interpretation packed_iter: descriptor_iter packed_next pc_count packed_lim
proof
  fix it :: PackedDescriptorChain and mem
  show "\<exists>r it'. packed_next mem it = Some (r, it')" by (rule packed_next_returns)
next
  fix it it' :: PackedDescriptorChain and mem d
  assume "packed_next mem it = Some (Ok (Some d), it')"
  from packed_next_cases(1) [OF this] have "pc_count it < pc_queue_size it" "pc_count it' = pc_count it + 1"
      "pc_queue_size it' = pc_queue_size it" by simp_all
  then show "unat (pc_count it') = unat (pc_count it) + 1 \<and> unat (pc_count it') \<le> packed_lim it \<and> packed_lim it' = packed_lim it"
    using checked_add_1(2,3) [of "pc_count it" "pc_queue_size it"] by (simp add: packed_lim_def word_le_nat_alt)
next
  fix it it' :: PackedDescriptorChain and mem
  assume "packed_next mem it = Some (Ok None, it')"
  from packed_next_cases(2) [OF this] show "pc_count it' = pc_count it" by simp
qed

section \<open>Chains that a driver built\<close>

text \<open>
  \<open>linked\<close> is the shape of a chain in memory: the descriptors \<open>ds\<close>, the first at the given index, each
  with the flag \<open>NEXT\<close> pointing to the one after it.
\<close>

definition desc_at :: "GuestMemory \<Rightarrow> GuestAddress \<Rightarrow> u16 \<Rightarrow> Desc option" where
  "desc_at mem desc_table index =
     (case checked_add desc_table (ucast index * 16) of
        None \<Rightarrow> None
      | Some a \<Rightarrow> (case read_obj_from_addr mem 16 a of Err _ \<Rightarrow> None | Ok bs \<Rightarrow> Some (Desc_from_bytes bs)))"

fun linked :: "GuestMemory \<Rightarrow> GuestAddress \<Rightarrow> u16 \<Rightarrow> u16 option \<Rightarrow> Desc list \<Rightarrow> bool" where
  "linked mem desc_table queue_size None [] = True"
| "linked mem desc_table queue_size (Some index) (d # ds) \<longleftrightarrow>
     index < queue_size \<and> desc_at mem desc_table index = Some d \<and>
     desc_flags d AND NOT (VIRTQ_DESC_F_WRITE OR VIRTQ_DESC_F_NEXT) = 0 \<and>
     linked mem desc_table queue_size
       (if desc_flags d AND VIRTQ_DESC_F_NEXT \<noteq> 0 then Some (desc_next d) else None) ds"
| "linked mem desc_table queue_size _ _ = False"

definition buffers :: "DescriptorAccess \<Rightarrow> Desc list \<Rightarrow> MemRegion list" where
  "buffers acc ds =
     map (\<lambda>d. \<lparr>mr_offset = desc_addr d, mr_len = unat (desc_len d)\<rparr>)
       (filter (\<lambda>d. desc_len d \<noteq> 0 \<and> desc_access (desc_flags d) = acc) ds)"

text \<open>Readable buffers come before writable ones; \<open>w\<close> says that a writable one was seen.\<close>

fun readable_first :: "bool \<Rightarrow> Desc list \<Rightarrow> bool" where
  "readable_first w [] = True"
| "readable_first w (d # ds) =
     (if desc_len d = 0 then readable_first w ds
      else if desc_access (desc_flags d) = DeviceWrite then readable_first True ds
      else \<not> w \<and> readable_first w ds)"

lemma buffers_simps [simp]:
  "buffers acc [] = []"
  "buffers acc (d # ds) =
     (if desc_len d \<noteq> 0 \<and> desc_access (desc_flags d) = acc
      then [\<lparr>mr_offset = desc_addr d, mr_len = unat (desc_len d)\<rparr>] else []) @ buffers acc ds"
  by (simp_all add: buffers_def)

lemma split_next_linked:
  assumes "sc_index c = Some index" "index < sc_queue_size c" "sc_count c < sc_queue_size c"
    and "desc_at mem (sc_desc_table c) index = Some d"
    and "desc_flags d AND NOT (VIRTQ_DESC_F_WRITE OR VIRTQ_DESC_F_NEXT) = 0"
  shows "split_next mem c =
    Some (Ok (Some \<lparr>address = desc_addr d, dlen = desc_len d, access = desc_access (desc_flags d)\<rparr>),
      c\<lparr>sc_count := sc_count c + 1,
        sc_index := if desc_flags d AND VIRTQ_DESC_F_NEXT \<noteq> 0 then Some (desc_next d) else None\<rparr>)"
proof -
  obtain a bs where "checked_add (sc_desc_table c) (ucast index * 16) = Some a"
      "read_obj_from_addr mem 16 a = Ok bs" "d = Desc_from_bytes bs"
    using assms(4) by (auto simp: desc_at_def case_sum_eq_iff split: option.split_asm)
  then show ?thesis
    using assms checked_add_1(1) [OF assms(3)] by (simp add: split_next_def Let_def not_le)
qed

lemma collect_linked:
  "linked mem (sc_desc_table c) (sc_queue_size c) (sc_index c) ds \<Longrightarrow>
   unat (sc_count c) + length ds \<le> unat (sc_queue_size c) \<Longrightarrow> readable_first w ds \<Longrightarrow>
   \<exists>c'. collect_descriptors split_next (\<lambda>_. mem) k c w rd wr =
          Some (Ok (c', rd @ buffers DeviceRead ds, wr @ buffers DeviceWrite ds)) \<and>
        unat (sc_count c') = unat (sc_count c) + length ds"
proof (induction ds arbitrary: c k w rd wr)
  case Nil
  then have "sc_index c = None" by (cases "sc_index c") simp_all
  then have "split_next mem c = Some (Ok None, c)" by (simp add: split_next_def)
  then show ?case by (simp add: collect_descriptors.simps [of split_next _ k c])
next
  case (Cons d ds)
  then obtain index where i: "sc_index c = Some index" by (cases "sc_index c") simp_all
  let ?next = "if desc_flags d AND VIRTQ_DESC_F_NEXT \<noteq> 0 then Some (desc_next d) else None"
  let ?c = "c\<lparr>sc_count := sc_count c + 1, sc_index := ?next\<rparr>"
  have lt: "sc_count c < sc_queue_size c" using Cons.prems(2) by (simp add: word_less_nat_alt)
  have n: "split_next mem c =
      Some (Ok (Some \<lparr>address = desc_addr d, dlen = desc_len d, access = desc_access (desc_flags d)\<rparr>), ?c)"
    by (rule split_next_linked [OF i _ lt]) (use Cons.prems(1) i in simp_all)
  have cnt: "unat (sc_count ?c) = unat (sc_count c) + 1" using checked_add_1(2) [OF lt] by simp
  have links: "linked mem (sc_desc_table ?c) (sc_queue_size ?c) (sc_index ?c) ds" using Cons.prems(1) i by simp
  have le: "unat (sc_count ?c) + length ds \<le> unat (sc_queue_size ?c)" using Cons.prems(2) cnt by simp
  note ih = Cons.IH [OF links le] and step = collect_descriptors.simps [of split_next _ k c]
  let ?x = "\<lparr>mr_offset = desc_addr d, mr_len = unat (desc_len d)\<rparr>"
  consider "desc_len d = 0" | "desc_len d \<noteq> 0" "desc_access (desc_flags d) = DeviceRead"
    | "desc_len d \<noteq> 0" "desc_access (desc_flags d) = DeviceWrite" by (cases "desc_access (desc_flags d)") auto
  then show ?case
  proof cases
    case 1
    then show ?thesis using ih [of w "Suc k" rd wr] Cons.prems(3) cnt by (auto simp: step n)
  next
    case 2
    then show ?thesis using ih [of w "Suc k" "rd @ [?x]" wr] Cons.prems(3) cnt by (auto simp: step n Let_def)
  next
    case 3
    then show ?thesis using ih [of True "Suc k" rd "wr @ [?x]"] Cons.prems(3) cnt by (auto simp: step n Let_def)
  qed
qed

lemma validate_loop_complete:
  assumes "mem_ok mem"
  shows "\<forall>r \<in> set rs. 0 < mr_len r \<and> mr_len r < 2 ^ 32 \<Longrightarrow> backed_regions mem rs \<Longrightarrow>
    unat t + length (flat rs) < 2 ^ 32 \<Longrightarrow> \<exists>t'. validate_loop mem rs t = Ok t' \<and> unat t' = unat t + length (flat rs)"
proof (induction rs arbitrary: t)
  case (Cons r rs)
  let ?len = "of_nat (mr_len r) :: u32"
  have len: "unat ?len = mr_len r" by (rule unat_of_nat_small) (use Cons.prems(1) in simp)
  then have len': "unat (ucast ?len :: u64) = mr_len r" by (simp add: unat_ucast_le)
  then have "ucast ?len \<noteq> (0 :: u64)" using Cons.prems(1) by auto
  then have v: "is_valid_range mem (mr_offset r) (ucast ?len)"
    using Cons.prems(1,2) len' by (simp add: is_valid_range_iff [OF assms] backed_regions_def)
  have c: "checked_add t ?len = Some (t + ?len)" using Cons.prems(3) len by (simp add: checked_add_def)
  then have "unat (t + ?len) = unat t + mr_len r" using checked_add_unat [OF c] len by simp
  then show ?case using Cons.IH [of "t + ?len"] Cons.prems v c by (simp add: backed_regions_def Let_def add.assoc)
qed simp

lemma validate_mem_regions_complete:
  assumes "mem_ok mem" "\<forall>r \<in> set (rd @ wr). 0 < mr_len r \<and> mr_len r < 2 ^ 32" "backed_regions mem (rd @ wr)"
    and "0 < length (flat (rd @ wr))" "length (flat (rd @ wr)) < 2 ^ 32"
  shows "validate_mem_regions mem rd wr = Ok ()"
proof -
  obtain t where t: "validate_loop mem (rd @ wr) 0 = Ok t" "unat t = length (flat (rd @ wr))"
    using validate_loop_complete [OF assms(1-3), of 0] assms(5) by auto
  then have "t \<noteq> 0" using assms(4) by auto
  with t(1) show ?thesis by (simp add: validate_mem_regions_def)
qed

definition well_built :: "GuestMemory \<Rightarrow> GuestAddress \<Rightarrow> u16 \<Rightarrow> u16 \<Rightarrow> Desc list \<Rightarrow> bool" where
  "well_built mem desc_table queue_size index ds \<longleftrightarrow>
     linked mem desc_table queue_size (Some index) ds \<and> length ds \<le> unat queue_size \<and> readable_first False ds \<and>
     backed_regions mem (buffers DeviceRead ds @ buffers DeviceWrite ds) \<and>
     0 < length (flat (buffers DeviceRead ds @ buffers DeviceWrite ds)) \<and>
     length (flat (buffers DeviceRead ds @ buffers DeviceWrite ds)) < 2 ^ 32"

definition built_chain :: "u16 \<Rightarrow> Desc list \<Rightarrow> DescriptorChain" where
  "built_chain index ds =
     \<lparr>chain_index = index, reader = Reader_new_from_regions (buffers DeviceRead ds),
      writer = Writer_new_from_regions (buffers DeviceWrite ds), chain_id = None, chain_count = of_nat (length ds)\<rparr>"

lemma split_chain_well_built:
  assumes "mem_ok mem" "well_built mem desc_table queue_size index ds"
  shows "split_chain (\<lambda>_. mem) mem desc_table queue_size index = Some (Ok (built_chain index ds))"
proof -
  let ?c = "SplitDescriptorChain_new desc_table queue_size index"
  have len: "\<forall>r \<in> set (buffers DeviceRead ds @ buffers DeviceWrite ds). 0 < mr_len r \<and> mr_len r < 2 ^ 32"
    using unat_lt [where 'a = 32] by (auto simp: buffers_def unat_gt_0)
  have "validate_mem_regions mem (buffers DeviceRead ds) (buffers DeviceWrite ds) = Ok ()"
    by (rule validate_mem_regions_complete [OF assms(1) len]) (use assms(2) in \<open>simp_all add: well_built_def\<close>)
  moreover obtain c' where "collect_descriptors split_next (\<lambda>_. mem) 0 ?c False [] [] =
      Some (Ok (c', buffers DeviceRead ds, buffers DeviceWrite ds))" "unat (sc_count c') = length ds"
    using collect_linked [of mem ?c ds False 0 "[]" "[]"] assms(2)
    by (auto simp: SplitDescriptorChain_new_def well_built_def)
  moreover have "of_nat (unat (sc_count c')) = sc_count c'" by simp
  ultimately show ?thesis by (simp add: split_chain_def DescriptorChain_new_def no_id_def built_chain_def)
qed

text \<open>A table of three descriptors, the second of length 0, and 16 bytes for their buffers.\<close>

definition chain_memory :: GuestMemory where
  "chain_memory = \<lparr>regions =
     [\<lparr>mapping = [0x30, 0x10, 0, 0, 0, 0, 0, 0,  4, 0, 0, 0,  1, 0,  1, 0,
                  0x34, 0x10, 0, 0, 0, 0, 0, 0,  0, 0, 0, 0,  1, 0,  2, 0,
                  0x38, 0x10, 0, 0, 0, 0, 0, 0,  8, 0, 0, 0,  2, 0,  0, 0,
                  1, 2, 3, 4, 0, 0, 0, 0, 0, 0, 0, 0, 0, 0, 0, 0],
       guest_base = 0x1000, obj_offset = 0, options = MemoryRegionOptions_new\<rparr>]\<rparr>"

text \<open>Two packed descriptors: the first is available and has the flag \<open>NEXT\<close>, the second is not available.\<close>

definition open_chain_memory :: GuestMemory where
  "open_chain_memory = \<lparr>regions =
     [\<lparr>mapping = [0x20, 0x10, 0, 0, 0, 0, 0, 0,  4, 0, 0, 0,  7, 0,  0x81, 0,
                  0, 0, 0, 0, 0, 0, 0, 0,  0, 0, 0, 0,  0, 0,  0, 0,
                  1, 2, 3, 4],
       guest_base = 0x1000, obj_offset = 0, options = MemoryRegionOptions_new\<rparr>]\<rparr>"

lemma mem_ok_chain_memory: "mem_ok chain_memory" "mem_ok open_chain_memory"
  by (simp_all add: mem_ok_def chain_memory_def open_chain_memory_def)

lemmas read_eval = find_region_def region_index_def region_contains_def region_start_def region_end_def
  unchecked_add_def upt_rec Let_def usize_sub_def read_obj_from_addr_def mapping_read_obj_def read_slice_def
  range_end_def usize_add_def checked_add_def

lemma chain_memory_descs:
  "desc_at chain_memory 0x1000 0 = Some \<lparr>desc_addr = 0x1030, desc_len = 4, desc_flags = 1, desc_next = 1\<rparr>"
  "desc_at chain_memory 0x1000 1 = Some \<lparr>desc_addr = 0x1034, desc_len = 0, desc_flags = 1, desc_next = 2\<rparr>"
  "desc_at chain_memory 0x1000 2 = Some \<lparr>desc_addr = 0x1038, desc_len = 8, desc_flags = 2, desc_next = 0\<rparr>"
  by (simp_all add: desc_at_def chain_memory_def read_eval Desc_from_bytes_def)

lemma linked_chain_memory:
  "linked chain_memory 0x1000 4 (Some 0)
     [\<lparr>desc_addr = 0x1030, desc_len = 4, desc_flags = 1, desc_next = 1\<rparr>,
      \<lparr>desc_addr = 0x1034, desc_len = 0, desc_flags = 1, desc_next = 2\<rparr>,
      \<lparr>desc_addr = 0x1038, desc_len = 8, desc_flags = 2, desc_next = 0\<rparr>]"
  by (simp add: chain_memory_descs desc_flag_defs)

section \<open>Properties\<close>

text \<open>
  C8. Whatever the driver has written to memory, and whatever it writes while the device walks the
  chain, reading a chain of a split or of a packed queue ends without a panic. The chain it returns
  has at most as many descriptors as the queue, at least one byte and fewer than $2^{32}$, and every
  buffer lies within one region of guest memory.
\<close>

theorem chain_safe:
  assumes "mem_ok mem"
  shows "(\<exists>r. split_chain view mem desc_table queue_size index = Some r \<and>
            (\<forall>c. r = Ok c \<longrightarrow> chain_valid mem c \<and> unat (chain_count c) \<le> unat queue_size \<and>
               length (dc_regions (reader_regions (reader c))) + length (dc_regions (writer_regions (writer c)))
                 \<le> unat (chain_count c))) \<and>
         (\<exists>r. packed_chain view mem desc_table queue_size avail_wrap_counter index = Some r \<and>
            (\<forall>c. r = Ok c \<longrightarrow> chain_valid mem c \<and> unat (chain_count c) \<le> unat queue_size \<and>
               length (dc_regions (reader_regions (reader c))) + length (dc_regions (writer_regions (writer c)))
                 \<le> unat (chain_count c)))"
  using split_iter.DescriptorChain_new_ok [OF assms, of "SplitDescriptorChain_new desc_table queue_size index" no_id view index]
    packed_iter.DescriptorChain_new_ok
      [OF assms, of "PackedDescriptorChain_new desc_table queue_size avail_wrap_counter index" pc_id view index]
  unfolding split_chain_def packed_chain_def
  by (auto simp: split_lim_def packed_lim_def SplitDescriptorChain_new_def PackedDescriptorChain_new_def)

theorem chain_safe_witness:
  "mem_ok chain_memory \<and>
   (\<exists>r. split_chain (\<lambda>k. if k < 2 then chain_memory else open_chain_memory) chain_memory 0x1000 4 0 = Some r)"
  using chain_safe [OF mem_ok_chain_memory(1), of "\<lambda>k. if k < 2 then chain_memory else open_chain_memory" "0x1000" 4 0]
    mem_ok_chain_memory by blast



text \<open>
  A packed chain may end on a descriptor that is not available. It is then accepted with the buffers
  seen so far, and it has no identifier.
\<close>

theorem packed_chain_without_id:
  "packed_chain (\<lambda>_. open_chain_memory) open_chain_memory 0x1000 2 True 0 =
     Some (Ok \<lparr>chain_index = 0, reader = Reader_new_from_regions [\<lparr>mr_offset = 0x1020, mr_len = 4\<rparr>],
               writer = Writer_new_from_regions [], chain_id = None, chain_count = 1\<rparr>)"
proof -
  let ?m = open_chain_memory and ?c = "PackedDescriptorChain_new 0x1000 2 True 0"
  let ?c1 = "?c\<lparr>pc_index := Some 1, pc_count := 1\<rparr>"
  have "read_obj_from_addr ?m 16 0x1000 = Ok [0x20, 0x10, 0, 0, 0, 0, 0, 0, 4, 0, 0, 0, 7, 0, 0x81, 0]"
      "read_obj_from_addr ?m 16 0x1010 = Ok [0, 0, 0, 0, 0, 0, 0, 0, 0, 0, 0, 0, 0, 0, 0, 0]"
    by (simp_all add: open_chain_memory_def read_eval)
  moreover have "\<not> 2 \<le> (1 :: u16)" by (simp add: word_le_nat_alt)
  ultimately have n: "packed_next ?m ?c = Some (Ok (Some \<lparr>address = 0x1020, dlen = 4, access = DeviceRead\<rparr>), ?c1)"
      "packed_next ?m ?c1 = Some (Ok None, ?c1)"
    by (simp_all add: packed_next_def PackedDescriptorChain_new_def checked_add_def PackedDesc_from_bytes_def Let_def
        is_available_def desc_flag_defs has_next_def desc_access_def)
  have "collect_descriptors packed_next (\<lambda>_. ?m) 0 ?c False [] [] = Some (Ok (?c1, [\<lparr>mr_offset = 0x1020, mr_len = 4\<rparr>], []))"
    by (simp add: collect_descriptors.simps [of _ _ 0] collect_descriptors.simps [of _ _ "Suc 0"] n Let_def)
  moreover have "validate_mem_regions ?m [\<lparr>mr_offset = 0x1020, mr_len = 4\<rparr>] [] = Ok ()"
    by (simp add: validate_mem_regions_def is_valid_range_def open_chain_memory_def read_eval)
  ultimately show ?thesis
    by (simp add: packed_chain_def DescriptorChain_new_def PackedDescriptorChain_new_def)
qed

end
