(* ===== verification/QueueConfig.thy ===== *)
theory QueueConfig
  imports GuestMemory
begin

text \<open>
  The parameters of a virtqueue, \<open>QueueConfig\<close> of \<open>devices/src/virtio/queue.rs\<close>: what the driver writes
  through the transport's registers before the queue is activated. Values of \<open>serde_json\<close> are a type
  variable, and its two conversions are arguments.
\<close>

unbundle bit_operations_syntax

definition VIRTIO_MSI_NO_VECTOR :: u16 where "VIRTIO_MSI_NO_VECTOR = 0xffff"
definition MAX_SIZE :: u16 where "MAX_SIZE = 32768"
definition VIRTIO_F_RING_PACKED :: nat where "VIRTIO_F_RING_PACKED = 34"
definition VIRTIO_RING_F_EVENT_IDX :: nat where "VIRTIO_RING_F_EVENT_IDX = 29"

datatype queue_error =
    NotReady | AlreadyActivated | NotPowerOfTwo u16 | RingOutOfBounds string GuestAddress usize
  | JsonError string | NotImplemented

record QueueConfig =
  qc_activated :: bool
  qc_max_size :: u16
  qc_size :: u16
  qc_ready :: bool
  qc_vector :: u16
  qc_features :: u64
  qc_acked_features :: u64
  qc_desc_table :: GuestAddress
  qc_avail_ring :: GuestAddress
  qc_used_ring :: GuestAddress
  qc_next_avail :: u16
  qc_next_used :: u16

record QueueConfigSnapshot =
  qs_activated :: bool
  qs_max_size :: u16
  qs_size :: u16
  qs_ready :: bool
  qs_vector :: u16
  qs_features :: u64
  qs_acked_features :: u64
  qs_desc_table :: GuestAddress
  qs_avail_ring :: GuestAddress
  qs_used_ring :: GuestAddress
  qs_next_avail :: u16
  qs_next_used :: u16

text \<open>\<open>None\<close> is a failed assertion.\<close>

definition QueueConfig_new :: "u16 \<Rightarrow> u64 \<Rightarrow> QueueConfig option" where
  "QueueConfig_new max_size features =
     (if \<not> 0 < max_size then None
      else if \<not> max_size \<le> MAX_SIZE then None
      else Some \<lparr>qc_activated = False, qc_max_size = max_size, qc_size = max_size, qc_ready = False,
                 qc_vector = VIRTIO_MSI_NO_VECTOR, qc_features = features, qc_acked_features = 0,
                 qc_desc_table = 0, qc_avail_ring = 0, qc_used_ring = 0, qc_next_avail = 0, qc_next_used = 0\<rparr>)"

definition set_size :: "u16 \<Rightarrow> QueueConfig \<Rightarrow> QueueConfig" where
  "set_size val c =
     (if qc_ready c then c
      else if qc_max_size c < val then c
      else c\<lparr>qc_size := val\<rparr>)"

definition set_vector :: "u16 \<Rightarrow> QueueConfig \<Rightarrow> QueueConfig" where
  "set_vector val c = (if qc_ready c then c else c\<lparr>qc_vector := val\<rparr>)"

definition set_desc_table :: "GuestAddress \<Rightarrow> QueueConfig \<Rightarrow> QueueConfig" where
  "set_desc_table val c = (if qc_ready c then c else c\<lparr>qc_desc_table := val\<rparr>)"

definition set_avail_ring :: "GuestAddress \<Rightarrow> QueueConfig \<Rightarrow> QueueConfig" where
  "set_avail_ring val c = (if qc_ready c then c else c\<lparr>qc_avail_ring := val\<rparr>)"

definition set_used_ring :: "GuestAddress \<Rightarrow> QueueConfig \<Rightarrow> QueueConfig" where
  "set_used_ring val c = (if qc_ready c then c else c\<lparr>qc_used_ring := val\<rparr>)"

definition set_next_avail :: "u16 \<Rightarrow> QueueConfig \<Rightarrow> QueueConfig" where
  "set_next_avail val c = (if qc_ready c then c else c\<lparr>qc_next_avail := val\<rparr>)"

definition set_next_used :: "u16 \<Rightarrow> QueueConfig \<Rightarrow> QueueConfig" where
  "set_next_used val c = (if qc_ready c then c else c\<lparr>qc_next_used := val\<rparr>)"

definition ack_features :: "u64 \<Rightarrow> QueueConfig \<Rightarrow> QueueConfig" where
  "ack_features features c = c\<lparr>qc_acked_features := qc_acked_features c OR (features AND qc_features c)\<rparr>"

definition set_ready :: "bool \<Rightarrow> QueueConfig \<Rightarrow> QueueConfig" where
  "set_ready enable c = c\<lparr>qc_ready := enable\<rparr>"

definition QueueConfig_reset :: "QueueConfig \<Rightarrow> QueueConfig" where
  "QueueConfig_reset c =
     c\<lparr>qc_activated := False, qc_ready := False, qc_size := qc_max_size c, qc_vector := VIRTIO_MSI_NO_VECTOR,
       qc_desc_table := 0, qc_avail_ring := 0, qc_used_ring := 0, qc_next_avail := 0, qc_next_used := 0,
       qc_acked_features := 0\<rparr>"

definition QueueConfig_snapshot :: "(QueueConfigSnapshot \<Rightarrow> string + 'json) \<Rightarrow> QueueConfig \<Rightarrow> queue_error + 'json" where
  "QueueConfig_snapshot to_value c =
     (case to_value \<lparr>qs_activated = qc_activated c, qs_max_size = qc_max_size c, qs_size = qc_size c,
        qs_ready = qc_ready c, qs_vector = qc_vector c, qs_features = qc_features c,
        qs_acked_features = qc_acked_features c, qs_desc_table = qc_desc_table c,
        qs_avail_ring = qc_avail_ring c, qs_used_ring = qc_used_ring c, qs_next_avail = qc_next_avail c,
        qs_next_used = qc_next_used c\<rparr>
      of Err e \<Rightarrow> Err (JsonError e) | Ok v \<Rightarrow> Ok v)"

definition QueueConfig_restore ::
  "('json \<Rightarrow> string + QueueConfigSnapshot) \<Rightarrow> 'json \<Rightarrow> QueueConfig \<Rightarrow> queue_error + QueueConfig"
where
  "QueueConfig_restore from_value data c =
     (case from_value data of
        Err e \<Rightarrow> Err (JsonError e)
      | Ok snap \<Rightarrow> Ok (c\<lparr>qc_activated := qs_activated snap, qc_max_size := qs_max_size snap,
          qc_size := qs_size snap, qc_ready := qs_ready snap, qc_vector := qs_vector snap,
          qc_features := qs_features snap, qc_acked_features := qs_acked_features snap,
          qc_desc_table := qs_desc_table snap, qc_avail_ring := qs_avail_ring snap,
          qc_used_ring := qs_used_ring snap, qc_next_avail := qs_next_avail snap,
          qc_next_used := qs_next_used snap\<rparr>))"

section \<open>What the driver can do to a configuration\<close>

text \<open>A write of the driver through the transport, or a reset of the device.\<close>

datatype config_op =
    SetSize u16 | SetVector u16 | SetDescTable GuestAddress | SetAvailRing GuestAddress
  | SetUsedRing GuestAddress | SetNextAvail u16 | SetNextUsed u16 | AckFeatures u64 | SetReady bool | Reset

fun config_step :: "QueueConfig \<Rightarrow> config_op \<Rightarrow> QueueConfig" where
  "config_step c (SetSize v) = set_size v c"
| "config_step c (SetVector v) = set_vector v c"
| "config_step c (SetDescTable a) = set_desc_table a c"
| "config_step c (SetAvailRing a) = set_avail_ring a c"
| "config_step c (SetUsedRing a) = set_used_ring a c"
| "config_step c (SetNextAvail v) = set_next_avail v c"
| "config_step c (SetNextUsed v) = set_next_used v c"
| "config_step c (AckFeatures f) = ack_features f c"
| "config_step c (SetReady b) = set_ready b c"
| "config_step c Reset = QueueConfig_reset c"

abbreviation config_run :: "QueueConfig \<Rightarrow> config_op list \<Rightarrow> QueueConfig" where
  "config_run \<equiv> foldl config_step"

definition config_ok :: "QueueConfig \<Rightarrow> bool" where
  "config_ok c \<longleftrightarrow> 0 < qc_max_size c \<and> qc_max_size c \<le> MAX_SIZE \<and> qc_size c \<le> qc_max_size c \<and>
     qc_acked_features c AND NOT (qc_features c) = 0"

text \<open>The parameters that the running queue copies.\<close>

definition parameters :: "QueueConfig \<Rightarrow> u16 \<times> u16 \<times> GuestAddress \<times> GuestAddress \<times> GuestAddress \<times> u16 \<times> u16" where
  "parameters c = (qc_size c, qc_vector c, qc_desc_table c, qc_avail_ring c, qc_used_ring c,
     qc_next_avail c, qc_next_used c)"

fun unlocks :: "config_op \<Rightarrow> bool" where
  "unlocks (SetReady b) \<longleftrightarrow> \<not> b"
| "unlocks Reset \<longleftrightarrow> True"
| "unlocks _ \<longleftrightarrow> False"

lemmas config_defs = set_size_def set_vector_def set_desc_table_def set_avail_ring_def set_used_ring_def
  set_next_avail_def set_next_used_def ack_features_def set_ready_def QueueConfig_reset_def

lemma config_step_max_size [simp]: "qc_max_size (config_step c op) = qc_max_size c"
  by (cases op) (simp_all add: config_defs)

lemma config_step_features [simp]: "qc_features (config_step c op) = qc_features c"
  by (cases op) (simp_all add: config_defs)

lemma config_step_size: "qc_size c \<le> qc_max_size c \<Longrightarrow> qc_size (config_step c op) \<le> qc_max_size c"
  by (cases op) (simp_all add: config_defs not_less)

lemma config_step_acked:
  assumes "qc_acked_features c AND NOT (qc_features c) = 0"
  shows "qc_acked_features (config_step c op) AND NOT (qc_features c) = 0"
proof (cases op)
  case (AckFeatures f)
  have "(qc_acked_features c OR (f AND qc_features c)) AND NOT (qc_features c) = 0"
    using assms by (simp add: bit_eq_iff bit_simps) blast
  with AckFeatures show ?thesis by (simp add: ack_features_def)
qed (use assms in \<open>simp_all add: config_defs\<close>)

lemma config_step_ok: "config_ok c \<Longrightarrow> config_ok (config_step c op)"
  using config_step_size [of c op] config_step_acked [of c op] by (simp add: config_ok_def)

lemma config_run_ok: "config_ok c \<Longrightarrow> config_ok (config_run c ops) \<and> qc_max_size (config_run c ops) = qc_max_size c"
  by (induction ops arbitrary: c) (simp_all add: config_step_ok)

lemma config_step_locked:
  assumes "qc_ready c" "\<not> unlocks op"
  shows "qc_ready (config_step c op) \<and> parameters (config_step c op) = parameters c"
  using assms by (cases op) (simp_all add: config_defs parameters_def)

lemma QueueConfig_new_ok: "QueueConfig_new n f = Some c \<Longrightarrow> config_ok c \<and> qc_max_size c = n"
  by (auto simp: QueueConfig_new_def config_ok_def split: if_splits)

section \<open>Properties\<close>

text \<open>
  C29. Whatever the driver writes, in whatever order, and however often the device is reset, the size
  of a queue stays within the maximum the device offered, which is positive and at most 32768, and no
  feature is acknowledged that the device did not offer. While the queue is ready, its size, its
  vector, the addresses of its rings and its start indices do not change.
\<close>

theorem config_well_formed:
  assumes "QueueConfig_new max_size features = Some c"
  shows "config_ok (config_run c ops) \<and> qc_max_size (config_run c ops) = max_size \<and>
         (qc_ready (config_run c ops) \<and> \<not> list_ex unlocks ops' \<longrightarrow>
            parameters (config_run (config_run c ops) ops') = parameters (config_run c ops))"
proof -
  have "qc_ready d \<Longrightarrow> \<not> list_ex unlocks ops' \<Longrightarrow> parameters (config_run d ops') = parameters d" for d
    by (induction ops' arbitrary: d) (simp_all add: config_step_locked)
  then show ?thesis using config_run_ok [of c ops] QueueConfig_new_ok [OF assms] by simp
qed

theorem config_well_formed_witness:
  "\<exists>c. QueueConfig_new 256 0 = Some c \<and>
       qc_size (config_run (config_run c [SetSize 512, SetSize 4, SetReady True]) [SetSize 8, SetVector 1]) = 4 \<and>
       parameters (config_run (config_run c [SetSize 512, SetSize 4, SetReady True]) [SetSize 8, SetVector 1]) =
         parameters (config_run c [SetSize 512, SetSize 4, SetReady True])"
proof -
  obtain c where c: "QueueConfig_new 256 0 = Some c" "qc_max_size c = 256" "\<not> qc_ready c"
    by (simp add: QueueConfig_new_def MAX_SIZE_def)
  moreover from this have "qc_ready (config_run c [SetSize 512, SetSize 4, SetReady True])"
    by (simp add: config_defs)
  ultimately show ?thesis
    using config_well_formed [OF c(1), of "[SetSize 512, SetSize 4, SetReady True]" "[SetSize 8, SetVector 1]"]
    by (intro exI [of _ c]) (simp add: config_defs)
qed

text \<open>
  A configuration that was saved is restored as it was, when \<open>serde_json\<close> reads back what it wrote.
\<close>

theorem config_restore_snapshot:
  assumes "\<And>s v. to_value s = Ok v \<Longrightarrow> from_value v = Ok s" "QueueConfig_snapshot to_value c = Ok v"
  shows "QueueConfig_restore from_value v c' = Ok c"
proof -
  from assms(2) obtain s where "to_value s = Ok v" and s: "qs_activated s = qc_activated c" "qs_max_size s = qc_max_size c"
      "qs_size s = qc_size c" "qs_ready s = qc_ready c" "qs_vector s = qc_vector c" "qs_features s = qc_features c"
      "qs_acked_features s = qc_acked_features c" "qs_desc_table s = qc_desc_table c"
      "qs_avail_ring s = qc_avail_ring c" "qs_used_ring s = qc_used_ring c" "qs_next_avail s = qc_next_avail c"
      "qs_next_used s = qc_next_used c"
    by (auto simp: QueueConfig_snapshot_def case_sum_eq_iff)
  from assms(1) [OF this(1)] show ?thesis
    by (cases c; cases c') (use s in \<open>simp add: QueueConfig_restore_def\<close>)
qed

end
