(* ===== verification/SplitQueue.thy ===== *)
theory SplitQueue
  imports DescriptorChain QueueConfig
begin

text \<open>
  The split virtqueue of \<open>devices/src/virtio/queue/split_queue.rs\<close>. Guest memory is shared with the
  driver, so it is not part of the queue: every operation gets it, and returns it when it writes.
  \<open>None\<close> is a panic. The memory fences order the accesses as they are written here.
\<close>

unbundle bit_operations_syntax

definition VIRTQ_AVAIL_F_NO_INTERRUPT :: u16 where "VIRTQ_AVAIL_F_NO_INTERRUPT = 0x1"

text \<open>An event is a file descriptor that the queue only stores.\<close>

type_synonym Event = nat

record SplitQueue =
  sq_event :: Event
  sq_size :: u16
  sq_vector :: u16
  sq_desc_table :: GuestAddress
  sq_avail_ring :: GuestAddress
  sq_used_ring :: GuestAddress
  sq_next_avail :: u16
  sq_next_used :: u16
  sq_features :: u64
  sq_last_used :: u16

record SplitQueueSnapshot =
  ss_size :: u16
  ss_vector :: u16
  ss_desc_table :: GuestAddress
  ss_avail_ring :: GuestAddress
  ss_used_ring :: GuestAddress
  ss_next_avail :: u16
  ss_next_used :: u16
  ss_features :: u64
  ss_last_used :: u16

text \<open>\<open>u16::u16_is_power_of_two\<close> counts the bits that are set.\<close>

definition u16_is_power_of_two :: "u16 \<Rightarrow> bool" where
  "u16_is_power_of_two x \<longleftrightarrow> length (filter (bit x) [0..<16]) = 1"

definition ring_sizes ::
  "u16 \<Rightarrow> GuestAddress \<Rightarrow> GuestAddress \<Rightarrow> GuestAddress \<Rightarrow> (GuestAddress \<times> usize) list"
where
  "ring_sizes queue_size desc_table avail_ring used_ring =
     [(desc_table, 16 * unat queue_size), (avail_ring, 6 + 2 * unat queue_size), (used_ring, 6 + 8 * unat queue_size)]"

fun check_rings :: "((GuestAddress \<times> usize) \<times> string) list \<Rightarrow> queue_error + unit" where
  "check_rings [] = Ok ()"
| "check_rings (((a, n), name) # rings) =
     (case checked_add a (of_nat n) of
        None \<Rightarrow> Err (RingOutOfBounds name a n)
      | Some _ \<Rightarrow> check_rings rings)"

definition SplitQueue_new :: "QueueConfig \<Rightarrow> Event \<Rightarrow> queue_error + SplitQueue" where
  "SplitQueue_new config event =
     (if \<not> u16_is_power_of_two (qc_size config) then Err (NotPowerOfTwo (qc_size config))
      else (case check_rings (zip (ring_sizes (qc_size config) (qc_desc_table config) (qc_avail_ring config) (qc_used_ring config))
                    [''descriptor table'', ''available ring'', ''used ring'']) of
              Err e \<Rightarrow> Err e
            | Ok _ \<Rightarrow> Ok \<lparr>sq_event = event, sq_size = qc_size config, sq_vector = qc_vector config,
                          sq_desc_table = qc_desc_table config, sq_avail_ring = qc_avail_ring config,
                          sq_used_ring = qc_used_ring config, sq_next_avail = qc_next_avail config,
                          sq_next_used = qc_next_used config, sq_features = qc_acked_features config,
                          sq_last_used = qc_next_used config\<rparr>))"

definition wrap_queue_index :: "SplitQueue \<Rightarrow> u16 \<Rightarrow> u16" where
  "wrap_queue_index q i = i AND (sq_size q - 1)"

text \<open>\<open>unwrap\<close> of the two kinds of access: an object of two bytes that is read, bytes that are written.\<close>

definition read_u16 :: "GuestMemory \<Rightarrow> GuestAddress \<Rightarrow> u16 option" where
  "read_u16 mem a = (case read_obj_from_addr mem 2 a of Err _ \<Rightarrow> None | Ok bs \<Rightarrow> Some (from_le bs))"

definition write_bytes :: "GuestMemory \<Rightarrow> bytes \<Rightarrow> GuestAddress \<Rightarrow> GuestMemory option" where
  "write_bytes mem bs a = (case write_obj_at_addr mem bs a of Err _ \<Rightarrow> None | Ok mem' \<Rightarrow> Some mem')"

definition get_avail_index :: "GuestMemory \<Rightarrow> SplitQueue \<Rightarrow> u16 option" where
  "get_avail_index mem q = read_u16 mem (unchecked_add (sq_avail_ring q) 2)"

definition split_set_avail_event :: "GuestMemory \<Rightarrow> SplitQueue \<Rightarrow> u16 \<Rightarrow> GuestMemory option" where
  "split_set_avail_event mem q avail_index =
     write_bytes mem (to_le 2 avail_index) (unchecked_add (sq_used_ring q) (4 + 8 * ucast (sq_size q)))"

definition get_avail_flag :: "GuestMemory \<Rightarrow> SplitQueue \<Rightarrow> u16 \<Rightarrow> bool option" where
  "get_avail_flag mem q flag = do {
     avail_flags \<leftarrow> read_u16 mem (sq_avail_ring q);
     Some (avail_flags AND flag = flag)
   }"

definition get_used_event :: "GuestMemory \<Rightarrow> SplitQueue \<Rightarrow> u16 option" where
  "get_used_event mem q = read_u16 mem (unchecked_add (sq_avail_ring q) (4 + 2 * ucast (sq_size q)))"

definition set_used_index :: "GuestMemory \<Rightarrow> SplitQueue \<Rightarrow> u16 \<Rightarrow> GuestMemory option" where
  "set_used_index mem q used_index = write_bytes mem (to_le 2 used_index) (unchecked_add (sq_used_ring q) 2)"

text \<open>
  The reads of \<open>peek\<close> in their order: the index of the ring, the entry, then the descriptors. The last
  argument of memory is the one whose regions \<open>DescriptorChain::new\<close> checks.
\<close>

definition split_peek :: "(nat \<Rightarrow> GuestMemory) \<Rightarrow> GuestMemory \<Rightarrow> SplitQueue \<Rightarrow> DescriptorChain option option" where
  "split_peek view mem q = do {
     avail_index \<leftarrow> get_avail_index (view 0) q;
     (if sq_next_avail q = avail_index then Some None
      else (case checked_add (sq_avail_ring q) (4 + ucast (wrap_queue_index q (sq_next_avail q)) * 2) of
              None \<Rightarrow> Some None
            | Some desc_idx_addr \<Rightarrow> do {
                descriptor_index \<leftarrow> read_u16 (view 1) desc_idx_addr;
                r \<leftarrow> split_chain (\<lambda>k. view (k + 2)) mem (sq_desc_table q) (sq_size q) descriptor_index;
                Some (case r of Err _ \<Rightarrow> None | Ok c \<Rightarrow> Some c)
              }))
   }"

definition event_idx :: "u64 \<Rightarrow> bool" where
  "event_idx features \<longleftrightarrow> features AND push_bit VIRTIO_RING_F_EVENT_IDX 1 \<noteq> 0"

definition split_pop_peeked :: "GuestMemory \<Rightarrow> SplitQueue \<Rightarrow> (SplitQueue \<times> GuestMemory) option" where
  "split_pop_peeked mem q =
     (let q = q\<lparr>sq_next_avail := sq_next_avail q + 1\<rparr>
      in if event_idx (sq_features q) then do {
           mem \<leftarrow> split_set_avail_event mem q (sq_next_avail q);
           Some (q, mem)
         } else Some (q, mem))"

text \<open>\<open>Queue::pop\<close> on a split queue: \<open>peek\<close>, then \<open>PeekedDescriptorChain::pop\<close>.\<close>

definition split_pop ::
  "(nat \<Rightarrow> GuestMemory) \<Rightarrow> GuestMemory \<Rightarrow> SplitQueue \<Rightarrow> (DescriptorChain option \<times> SplitQueue \<times> GuestMemory) option"
where
  "split_pop view mem q = do {
     r \<leftarrow> split_peek view mem q;
     (case r of
        None \<Rightarrow> Some (None, q, mem)
      | Some desc_chain \<Rightarrow> do {
          (q, mem) \<leftarrow> split_pop_peeked mem q;
          Some (Some desc_chain, q, mem)
        })
   }"

definition virtq_used_elem :: "u32 \<Rightarrow> u32 \<Rightarrow> bytes" where
  "virtq_used_elem ident len = to_le 4 ident @ to_le 4 len"

definition split_add_used :: "GuestMemory \<Rightarrow> SplitQueue \<Rightarrow> DescriptorChain \<Rightarrow> u32 \<Rightarrow> (SplitQueue \<times> GuestMemory) option" where
  "split_add_used mem q desc_chain len = do {
     let next_used = unat (wrap_queue_index q (sq_next_used q));
     let used_elem = unchecked_add (sq_used_ring q) (of_nat (4 + next_used * 8));
     mem \<leftarrow> write_bytes mem (virtq_used_elem (ucast (chain_index desc_chain)) len) used_elem;
     let q = q\<lparr>sq_next_used := sq_next_used q + 1\<rparr>;
     mem \<leftarrow> set_used_index mem q (sq_next_used q);
     Some (q, mem)
   }"

definition split_wants_interrupt :: "GuestMemory \<Rightarrow> SplitQueue \<Rightarrow> bool option" where
  "split_wants_interrupt mem q =
     (if event_idx (sq_features q) then do {
        used_event \<leftarrow> get_used_event mem q;
        Some (sq_next_used q - used_event - 1 < sq_next_used q - sq_last_used q)
      } else do {
        no_interrupt \<leftarrow> get_avail_flag mem q VIRTQ_AVAIL_F_NO_INTERRUPT;
        Some (\<not> no_interrupt)
      })"

text \<open>The result has the vectors that were signalled.\<close>

definition split_trigger_interrupt :: "GuestMemory \<Rightarrow> SplitQueue \<Rightarrow> (bool \<times> SplitQueue \<times> u16 list) option" where
  "split_trigger_interrupt mem q = do {
     wanted \<leftarrow> split_wants_interrupt mem q;
     Some (if wanted then (True, q\<lparr>sq_last_used := sq_next_used q\<rparr>, [sq_vector q]) else (False, q, []))
   }"

definition split_snapshot :: "(SplitQueueSnapshot \<Rightarrow> string + 'json) \<Rightarrow> SplitQueue \<Rightarrow> queue_error + 'json" where
  "split_snapshot to_value q =
     (case to_value \<lparr>ss_size = sq_size q, ss_vector = sq_vector q, ss_desc_table = sq_desc_table q,
        ss_avail_ring = sq_avail_ring q, ss_used_ring = sq_used_ring q, ss_next_avail = sq_next_avail q,
        ss_next_used = sq_next_used q, ss_features = sq_features q, ss_last_used = sq_last_used q\<rparr>
      of Err e \<Rightarrow> Err (JsonError e) | Ok v \<Rightarrow> Ok v)"

definition split_restore :: "('json \<Rightarrow> string + SplitQueueSnapshot) \<Rightarrow> 'json \<Rightarrow> Event \<Rightarrow> queue_error + SplitQueue" where
  "split_restore from_value queue_value event =
     (case from_value queue_value of
        Err e \<Rightarrow> Err (JsonError e)
      | Ok s \<Rightarrow> Ok \<lparr>sq_event = event, sq_size = ss_size s, sq_vector = ss_vector s,
          sq_desc_table = ss_desc_table s, sq_avail_ring = ss_avail_ring s, sq_used_ring = ss_used_ring s,
          sq_next_avail = ss_next_avail s, sq_next_used = ss_next_used s, sq_features = ss_features s,
          sq_last_used = ss_last_used s\<rparr>)"

section \<open>Indices\<close>

lemma u16_is_power_of_two_iff: "u16_is_power_of_two x \<longleftrightarrow> (\<exists>n < 16. x = 2 ^ n)"
proof
  assume "u16_is_power_of_two x"
  then obtain n where n: "filter (bit x) [0..<16] = [n]"
    by (auto simp: u16_is_power_of_two_def length_Suc_conv)
  then have "set (filter (bit x) [0..<16]) = {n}" by simp
  then have b: "{i. i < 16 \<and> bit x i} = {n}" by auto
  then have n16: "n < 16" and xn: "bit x n" by auto
  have "x = 2 ^ n"
  proof (rule bit_word_eqI)
    fix i assume "i < LENGTH(16)"
    then have i: "i < 16" by simp
    have "bit x i \<longleftrightarrow> i = n" using b i by auto
    then show "bit x i \<longleftrightarrow> bit ((2 :: u16) ^ n) i" using i by (simp add: bit_exp_iff)
  qed
  with n16 show "\<exists>n < 16. x = 2 ^ n" by blast
next
  assume "\<exists>n < 16. x = 2 ^ n"
  then obtain n where n: "n < 16" "x = 2 ^ n" by blast
  have "bit x i \<longleftrightarrow> i = n" if "i < 16" for i using n that by (simp add: bit_exp_iff)
  then have "filter (bit x) [0..<16] = filter (\<lambda>i. i = n) [0..<16]" by (intro filter_cong) simp_all
  also have "length \<dots> = card {i. i < 16 \<and> i = n}" using n(1)
    by (simp add: length_filter_conv_card) (metis (mono_tags, lifting) nth_upt add_0 diff_zero length_upt)
  also have "{i. i < 16 \<and> i = n} = {n}" using n(1) by auto
  finally show "u16_is_power_of_two x" by (simp add: u16_is_power_of_two_def)
qed

lemma power_of_two_unat:
  assumes "u16_is_power_of_two x"
  shows "\<exists>n < 16. x = 2 ^ n \<and> unat x = 2 ^ n"
proof -
  obtain n where n: "n < 16" "x = 2 ^ n" using assms by (auto simp: u16_is_power_of_two_iff)
  have "unat (of_nat (2 ^ n) :: u16) = 2 ^ n"
    by (rule unat_of_nat_small) (use n(1) power_strict_increasing [of n 16 "2 :: nat"] in simp)
  then show ?thesis using n by auto
qed

lemma wrap_queue_index_mod:
  assumes "u16_is_power_of_two (sq_size q)"
  shows "unat (wrap_queue_index q i) = unat i mod unat (sq_size q)"
proof -
  obtain n where n: "n < 16" "sq_size q = 2 ^ n" "unat (sq_size q) = 2 ^ n" using power_of_two_unat [OF assms] by blast
  then have "wrap_queue_index q i = take_bit n i"
    by (simp add: wrap_queue_index_def take_bit_eq_mask mask_eq_exp_minus_1)
  then show ?thesis using n by (simp add: take_bit_eq_mod unat_mod)
qed

lemma ring_distance:
  fixes d b :: "'a::len word"
  shows "b - d - 1 < b \<longleftrightarrow> d < b"
proof (cases "d < b")
  case True
  then have "d + 1 \<le> b" "unat (d + 1) = unat d + 1" by (rule checked_add_1)+
  then have "unat (b - (d + 1)) = unat b - (unat d + 1)" by (simp add: unat_sub)
  then show ?thesis using True by (simp add: word_less_nat_alt diff_diff_eq)
next
  case False
  let ?N = "2 ^ LENGTH('a) :: int"
  have le: "uint b \<le> uint d" using False by (simp add: word_less_def)
  have "uint (b - d - 1) = (uint b - uint d - 1) mod ?N" by (simp add: uint_word_ariths mod_simps)
  also have "\<dots> = (uint b - uint d - 1 + ?N) mod ?N" by simp
  also have "\<dots> = uint b - uint d - 1 + ?N"
    by (rule mod_pos_pos_trivial) (use le uint_lt2p [of d] uint_ge_0 [of b] in linarith)+
  finally have "uint b \<le> uint (b - d - 1)" using uint_lt2p [of d] by linarith
  then show ?thesis using False by (simp add: word_less_def not_less)
qed

section \<open>Queues whose rings lie in guest memory\<close>

text \<open>What \<open>SplitQueue::new\<close> establishes.\<close>

definition split_ok :: "SplitQueue \<Rightarrow> bool" where
  "split_ok q \<longleftrightarrow> u16_is_power_of_two (sq_size q) \<and>
     unat (sq_desc_table q) + 16 * unat (sq_size q) < 2 ^ 64 \<and>
     unat (sq_avail_ring q) + 6 + 2 * unat (sq_size q) < 2 ^ 64 \<and>
     unat (sq_used_ring q) + 6 + 8 * unat (sq_size q) < 2 ^ 64"

text \<open>What it does not check.\<close>

definition rings_backed :: "GuestMemory \<Rightarrow> SplitQueue \<Rightarrow> bool" where
  "rings_backed mem q \<longleftrightarrow>
     backed (guest_memory_regions mem) (unat (sq_avail_ring q)) (6 + 2 * unat (sq_size q)) \<and>
     backed (guest_memory_regions mem) (unat (sq_used_ring q)) (6 + 8 * unat (sq_size q))"

lemma backed_sub:
  assumes "backed layout a n" "a \<le> b" "b + m \<le> a + n"
  shows "backed layout b m"
proof -
  obtain x s where "(x, s) \<in> set layout" "unat x \<le> a" "a + n \<le> unat x + s"
    using assms(1) by (auto simp: backed_def list_ex_iff)
  then show ?thesis using assms(2,3) unfolding backed_def list_ex_iff by (intro bexI [of _ "(x, s)"]) simp_all
qed

lemma power_of_two_pos: "u16_is_power_of_two x \<Longrightarrow> 0 < unat x"
  by (auto simp: u16_is_power_of_two_iff unat_gt_0)

lemma power_of_two_dvd: "u16_is_power_of_two x \<Longrightarrow> unat x dvd 2 ^ 16"
  using power_of_two_unat [of x] le_imp_power_dvd [of _ 16 "2 :: nat"] by fastforce

lemma SplitQueue_new_ok:
  assumes "SplitQueue_new config ev = Ok q"
  shows "split_ok q \<and> sq_size q = qc_size config"
proof -
  have s: "unat (qc_size config) < 2 ^ 16" using unat_lt [of "qc_size config"] by simp
  have "unat (of_nat (16 * unat (qc_size config)) :: u64) = 16 * unat (qc_size config)"
      "unat (of_nat (6 + 2 * unat (qc_size config)) :: u64) = 6 + 2 * unat (qc_size config)"
      "unat (of_nat (6 + 8 * unat (qc_size config)) :: u64) = 6 + 8 * unat (qc_size config)"
    by (rule unat_of_nat_small, use s in simp)+
  then show ?thesis
    using assms
    by (auto simp: SplitQueue_new_def ring_sizes_def split_ok_def case_sum_eq_iff checked_add_def
        simp del: of_nat_add of_nat_mult split: if_splits option.splits)
qed

definition u16_at :: "GuestMemory \<Rightarrow> nat \<Rightarrow> u16" where
  "u16_at mem a = from_le (bytes_at mem a 2)"

lemma read_u16_backed:
  assumes "mem_ok mem" "backed (guest_memory_regions mem) (unat a) 2"
  shows "read_u16 mem a = Some (u16_at mem (unat a))"
  using read_obj_backed [OF assms(1) _ assms(2)] by (simp add: read_u16_def u16_at_def)

lemma read_u16_not_backed:
  assumes "mem_ok mem" "\<not> backed (guest_memory_regions mem) (unat a) 2"
  shows "read_u16 mem a = None"
  using read_obj_not_backed [OF assms] by (auto simp: read_u16_def)

lemma write_bytes_backed:
  assumes "mem_ok mem" "bs \<noteq> []" "backed (guest_memory_regions mem) (unat a) (length bs)"
  shows "\<exists>mem'. write_bytes mem bs a = Some mem' \<and> writes mem (unat a) bs mem'"
  using write_obj_backed [OF assms] by (auto simp: write_bytes_def)

lemma unat_unchecked_add: "unat a + unat n < 2 ^ 64 \<Longrightarrow> unat (unchecked_add a n) = unat a + unat n"
  using unat_add_lem [of a n] by (simp add: unchecked_add_def)

text \<open>The fields of the two rings.\<close>

definition avail_entry :: "SplitQueue \<Rightarrow> nat \<Rightarrow> nat" where
  "avail_entry q p = unat (sq_avail_ring q) + 4 + 2 * (p mod unat (sq_size q))"

definition used_entry :: "SplitQueue \<Rightarrow> nat \<Rightarrow> nat" where
  "used_entry q p = unat (sq_used_ring q) + 4 + 8 * (p mod unat (sq_size q))"

lemma unat_size_u64 [simp]:
  "unat (4 + 2 * ucast (s :: u16) :: u64) = 4 + 2 * unat s" "unat (4 + 8 * ucast (s :: u16) :: u64) = 4 + 8 * unat s"
  "unat (4 + ucast (s :: u16) * 2 :: u64) = 4 + 2 * unat s"
proof -
  have s: "unat s < 2 ^ 16" using unat_lt [of s] by simp
  have "(4 + 2 * ucast s :: u64) = of_nat (4 + 2 * unat s)" "(4 + 8 * ucast s :: u64) = of_nat (4 + 8 * unat s)"
      "(4 + ucast s * 2 :: u64) = of_nat (4 + 2 * unat s)" by simp_all
  moreover have "unat (of_nat (4 + 2 * unat s) :: u64) = 4 + 2 * unat s" "unat (of_nat (4 + 8 * unat s) :: u64) = 4 + 8 * unat s"
    by (rule unat_of_nat_small, use s in simp)+
  ultimately show "unat (4 + 2 * ucast s :: u64) = 4 + 2 * unat s" "unat (4 + 8 * ucast s :: u64) = 4 + 8 * unat s"
    "unat (4 + ucast s * 2 :: u64) = 4 + 2 * unat s" by (simp_all only:)
qed

lemma entry_in_ring: "0 < n \<Longrightarrow> k * (p mod n) + k \<le> k * (n :: nat)"
  by (metis Suc_leI add.commute mod_less_divisor mult_Suc_right mult_le_mono2)

lemma wrap_position:
  assumes "u16_is_power_of_two (sq_size q)"
  shows "unat (wrap_queue_index q (of_nat p)) = p mod unat (sq_size q)"
proof -
  have "unat (of_nat p :: u16) = p mod 2 ^ 16" by (simp add: unat_of_nat)
  then show ?thesis
    using wrap_queue_index_mod [OF assms, of "of_nat p"] mod_mod_cancel [OF power_of_two_dvd [OF assms]] by simp
qed

lemma ring_reads:
  assumes "split_ok q" "rings_backed mem q" "mem_ok mem"
  shows "get_avail_index mem q = Some (u16_at mem (unat (sq_avail_ring q) + 2))"
    and "get_used_event mem q = Some (u16_at mem (unat (sq_avail_ring q) + 4 + 2 * unat (sq_size q)))"
    and "read_u16 mem (sq_avail_ring q) = Some (u16_at mem (unat (sq_avail_ring q)))"
proof -
  note b = backed_sub [OF conjunct1 [OF assms(2) [unfolded rings_backed_def]]]
  have a: "unat (unchecked_add (sq_avail_ring q) 2) = unat (sq_avail_ring q) + 2"
      "unat (unchecked_add (sq_avail_ring q) (4 + 2 * ucast (sq_size q))) = unat (sq_avail_ring q) + (4 + 2 * unat (sq_size q))"
    using assms(1) unat_unchecked_add [of "sq_avail_ring q" 2]
      unat_unchecked_add [of "sq_avail_ring q" "4 + 2 * ucast (sq_size q)"] by (simp_all add: split_ok_def)
  show "get_avail_index mem q = Some (u16_at mem (unat (sq_avail_ring q) + 2))"
    using read_u16_backed [OF assms(3), of "unchecked_add (sq_avail_ring q) 2"] a b by (simp add: get_avail_index_def)
  show "get_used_event mem q = Some (u16_at mem (unat (sq_avail_ring q) + 4 + 2 * unat (sq_size q)))"
    using read_u16_backed [OF assms(3), of "unchecked_add (sq_avail_ring q) (4 + 2 * ucast (sq_size q))"] a b
    by (simp add: get_used_event_def add.assoc)
  show "read_u16 mem (sq_avail_ring q) = Some (u16_at mem (unat (sq_avail_ring q)))"
    using read_u16_backed [OF assms(3)] b by simp
qed

lemma ring_write:
  assumes "split_ok q" "rings_backed mem q" "mem_ok mem" "bs \<noteq> []" "unat n + length bs \<le> 6 + 8 * unat (sq_size q)"
  shows "\<exists>mem'. write_bytes mem bs (unchecked_add (sq_used_ring q) n) = Some mem' \<and>
           writes mem (unat (sq_used_ring q) + unat n) bs mem'"
proof -
  have "unat (unchecked_add (sq_used_ring q) n) = unat (sq_used_ring q) + unat n"
    by (rule unat_unchecked_add) (use assms(1,5) in \<open>simp add: split_ok_def\<close>)
  moreover have "backed (guest_memory_regions mem) (unat (sq_used_ring q) + unat n) (length bs)"
    by (rule backed_sub [OF conjunct2 [OF assms(2) [unfolded rings_backed_def]]]) (use assms(5) in simp_all)
  ultimately show ?thesis using write_bytes_backed [OF assms(3,4), of "unchecked_add (sq_used_ring q) n"] by simp
qed

lemma rings_backed_layout:
  "guest_memory_regions mem' = guest_memory_regions mem \<Longrightarrow> rings_backed mem' q = rings_backed mem q"
  by (simp add: rings_backed_def)

lemma split_add_used_writes:
  assumes "split_ok q" "rings_backed mem q" "mem_ok mem" "sq_next_used q = of_nat p"
  shows "\<exists>mem1 mem'. split_add_used mem q c len = Some (q\<lparr>sq_next_used := of_nat (Suc p)\<rparr>, mem') \<and>
           writes mem (used_entry q p) (virtq_used_elem (ucast (chain_index c)) len) mem1 \<and>
           writes mem1 (unat (sq_used_ring q) + 2) (to_le 2 (of_nat (Suc p) :: u16)) mem'"
proof -
  let ?q = "q\<lparr>sq_next_used := of_nat (Suc p)\<rparr>" and ?n = "4 + p mod unat (sq_size q) * 8"
  let ?e = "virtq_used_elem (ucast (chain_index c)) len"
  have pow: "u16_is_power_of_two (sq_size q)" using assms(1) by (simp add: split_ok_def)
  have in_ring: "?n + 8 \<le> 4 + 8 * unat (sq_size q)"
    using entry_in_ring [OF power_of_two_pos [OF pow], of 8 p] by (simp add: mult.commute)
  have "?n < 2 ^ 64" using in_ring unat_lt [of "sq_size q"] by simp
  then have n: "unat (of_nat ?n :: u64) = ?n" by (intro unat_of_nat_small) simp
  have e: "length ?e = 8" "?e \<noteq> []" by (auto simp: virtq_used_elem_def to_le_def)
  have "unat (of_nat ?n :: u64) + length ?e \<le> 6 + 8 * unat (sq_size q)" unfolding n e(1) using in_ring by linarith
  from ring_write [OF assms(1-3) e(2) this] obtain mem1
    where m1: "write_bytes mem ?e (unchecked_add (sq_used_ring q) (of_nat ?n)) = Some mem1"
      "writes mem (unat (sq_used_ring q) + ?n) ?e mem1"
    unfolding n by (elim exE conjE)
  have "rings_backed mem1 q" "mem_ok mem1"
    using assms(2) rings_backed_layout [OF writes_layout [OF m1(2)], of q] writes_ok [OF m1(2)] by simp_all
  moreover have "to_le 2 (of_nat (Suc p) :: u16) \<noteq> []" "length (to_le 2 (of_nat (Suc p) :: u16)) = 2" by (auto simp: to_le_def)
  ultimately obtain mem' where m2: "write_bytes mem1 (to_le 2 (of_nat (Suc p) :: u16)) (unchecked_add (sq_used_ring q) 2) = Some mem'"
      "writes mem1 (unat (sq_used_ring q) + 2) (to_le 2 (of_nat (Suc p) :: u16)) mem'"
    using ring_write [OF assms(1), of mem1 "to_le 2 (of_nat (Suc p) :: u16)" 2] by auto
  have "split_add_used mem q c len = Some (?q, mem')"
    using m1(1) m2(1) unfolding split_add_used_def Let_def assms(4) wrap_position [OF pow]
    by (simp add: set_used_index_def add.commute [of 1] del: of_nat_add of_nat_mult)
  moreover have "unat (sq_used_ring q) + ?n = used_entry q p" by (simp add: used_entry_def)
  ultimately show ?thesis using m1(2) m2(2) by auto
qed

lemma chain_result:
  assumes "mem_ok mem"
  shows "\<exists>r. (do { r \<leftarrow> split_chain view mem tab n i; Some (case r of Err _ \<Rightarrow> None | Ok c \<Rightarrow> Some c) }) = Some r \<and>
    (\<forall>c. r = Some c \<longrightarrow> chain_valid mem c \<and> unat (chain_count c) \<le> unat n \<and> chain_index c = i)"
proof -
  obtain x where "split_chain view mem tab n i = Some x"
      "\<forall>c. x = Ok c \<longrightarrow> chain_valid mem c \<and> unat (chain_count c) \<le> unat n \<and> chain_index c = i"
    using split_iter.DescriptorChain_new_ok [OF assms, of "SplitDescriptorChain_new tab n i" no_id view i]
    by (auto simp: split_chain_def split_lim_def SplitDescriptorChain_new_def)
  then show ?thesis by (cases x) auto
qed

lemma split_peek_reads:
  assumes "split_ok q" "\<And>k. mem_ok (view k) \<and> rings_backed (view k) q" "sq_next_avail q = of_nat p"
  shows "split_peek view mem q =
    (if of_nat p = u16_at (view 0) (unat (sq_avail_ring q) + 2) then Some None
     else do { r \<leftarrow> split_chain (\<lambda>k. view (k + 2)) mem (sq_desc_table q) (sq_size q) (u16_at (view 1) (avail_entry q p));
               Some (case r of Err _ \<Rightarrow> None | Ok c \<Rightarrow> Some c) })"
proof -
  let ?n = "4 + ucast (wrap_queue_index q (of_nat p)) * 2 :: u64"
  have pow: "u16_is_power_of_two (sq_size q)" using assms(1) by (simp add: split_ok_def)
  have n: "unat ?n = 4 + 2 * (p mod unat (sq_size q))" by (simp add: wrap_position [OF pow])
  have in_ring: "4 + 2 * (p mod unat (sq_size q)) + 2 \<le> 4 + 2 * unat (sq_size q)"
    using entry_in_ring [OF power_of_two_pos [OF pow], of 2 p] by simp
  then have s: "unat (sq_avail_ring q) + unat ?n < 2 ^ 64" using assms(1) n by (simp add: split_ok_def)
  then have c: "checked_add (sq_avail_ring q) ?n = Some (sq_avail_ring q + ?n)" by (simp add: checked_add_def)
  have a: "unat (sq_avail_ring q + ?n) = avail_entry q p"
    using checked_add_unat [OF c] n by (simp add: avail_entry_def)
  have "rings_backed (view 1) q" using assms(2) by blast
  then have "backed (guest_memory_regions (view 1)) (unat (sq_avail_ring q)) (6 + 2 * unat (sq_size q))"
    unfolding rings_backed_def by blast
  then have "backed (guest_memory_regions (view 1)) (avail_entry q p) 2"
    by (rule backed_sub) (use in_ring in \<open>simp_all add: avail_entry_def\<close>)
  then have "read_u16 (view 1) (sq_avail_ring q + ?n) = Some (u16_at (view 1) (avail_entry q p))"
    using read_u16_backed [of "view 1" "sq_avail_ring q + ?n"] assms(2) [of 1] a by simp
  then show ?thesis
    using ring_reads(1) [OF assms(1), of "view 0"] assms(2) [of 0] c by (simp add: split_peek_def assms(3))
qed

lemma split_pop_peeked_writes:
  assumes "split_ok q" "rings_backed mem q" "mem_ok mem" "sq_next_avail q = of_nat p"
  shows "\<exists>mem'. split_pop_peeked mem q = Some (q\<lparr>sq_next_avail := of_nat (Suc p)\<rparr>, mem') \<and>
    (if event_idx (sq_features q)
     then writes mem (unat (sq_used_ring q) + (4 + 8 * unat (sq_size q))) (to_le 2 (of_nat (Suc p) :: u16)) mem'
     else mem' = mem)"
proof (cases "event_idx (sq_features q)")
  case True
  have "to_le 2 (of_nat (Suc p) :: u16) \<noteq> []" "length (to_le 2 (of_nat (Suc p) :: u16)) = 2" by (auto simp: to_le_def)
  then obtain mem' where "write_bytes mem (to_le 2 (of_nat (Suc p) :: u16)) (unchecked_add (sq_used_ring q) (4 + 8 * ucast (sq_size q))) = Some mem'"
      "writes mem (unat (sq_used_ring q) + (4 + 8 * unat (sq_size q))) (to_le 2 (of_nat (Suc p) :: u16)) mem'"
    using ring_write [OF assms(1-3), of "to_le 2 (of_nat (Suc p) :: u16)" "4 + 8 * ucast (sq_size q)"] by auto
  then show ?thesis using True
    by (simp add: split_pop_peeked_def Let_def split_set_avail_event_def assms(4) add.commute)
next
  case False
  then show ?thesis by (simp add: split_pop_peeked_def Let_def assms(4) add.commute)
qed

end
