(* ===== verification/SplitRings.thy ===== *)
theory SplitRings
  imports SplitQueue
begin

text \<open>
  What a split virtqueue promises to the driver and to the device: no operation panics, whatever the
  driver writes; chains are popped in the order in which they were made available; the used ring
  shows what was put into it; an interrupt is sent exactly when the driver asked for it.
\<close>

section \<open>Driver and device on one queue\<close>

text \<open>
  The device works on the queue while the driver writes to memory: a step is a call of the device,
  whose reads may each see other contents, or any change of memory by the driver. The regions of
  guest memory stay the same.
\<close>

definition same_layout :: "GuestMemory \<Rightarrow> GuestMemory \<Rightarrow> bool" where
  "same_layout mem mem' \<longleftrightarrow> guest_memory_regions mem' = guest_memory_regions mem"

inductive split_step :: "GuestMemory \<times> SplitQueue \<Rightarrow> GuestMemory \<times> SplitQueue \<Rightarrow> bool" where
  driver: "same_layout mem mem' \<Longrightarrow> split_step (mem, q) (mem', q)"
| pop: "(\<And>k. same_layout mem (view k)) \<Longrightarrow> split_pop view mem q = Some (r, q', mem') \<Longrightarrow> split_step (mem, q) (mem', q')"
| add_used: "split_add_used mem q c len = Some (q', mem') \<Longrightarrow> split_step (mem, q) (mem', q')"
| trigger: "split_trigger_interrupt mem q = Some (b, q', vs) \<Longrightarrow> split_step (mem, q) (mem, q')"

definition split_inv :: "GuestMemory \<times> SplitQueue \<Rightarrow> bool" where
  "split_inv s \<longleftrightarrow> (case s of (mem, q) \<Rightarrow> split_ok q \<and> mem_ok mem \<and> rings_backed mem q)"

lemma same_layout_refl [simp]: "same_layout mem mem"
  by (simp add: same_layout_def)

lemma writes_same_layout: "writes mem a bs mem' \<Longrightarrow> same_layout mem mem'"
  by (simp add: same_layout_def writes_layout)

lemma same_layout_chain [trans]: "same_layout a b \<Longrightarrow> same_layout b c \<Longrightarrow> same_layout a c"
  by (simp add: same_layout_def)

lemma split_inv_layout:
  assumes "split_inv (mem, q)" "same_layout mem mem'"
  shows "split_inv (mem', q)" "mem_ok mem'" "rings_backed mem' q"
  using assms mem_ok_layout [of mem mem'] rings_backed_layout [of mem' mem q] by (simp_all add: split_inv_def same_layout_def)

lemma ring_ops_keep [simp]:
  "split_ok (q\<lparr>sq_next_avail := i\<rparr>) = split_ok q" "split_ok (q\<lparr>sq_next_used := i\<rparr>) = split_ok q"
  "split_ok (q\<lparr>sq_last_used := i\<rparr>) = split_ok q"
  "rings_backed mem (q\<lparr>sq_next_avail := i\<rparr>) = rings_backed mem q"
  "rings_backed mem (q\<lparr>sq_next_used := i\<rparr>) = rings_backed mem q"
  "rings_backed mem (q\<lparr>sq_last_used := i\<rparr>) = rings_backed mem q"
  by (simp_all add: split_ok_def rings_backed_def)

lemma split_inv_writes: "split_inv (mem, q) \<Longrightarrow> writes mem a bs mem' \<Longrightarrow> split_inv (mem', q)"
  using rings_backed_layout [OF writes_layout] writes_ok by (fastforce simp: split_inv_def)

lemma of_nat_unat_u16: "(x :: u16) = of_nat (unat x)"
  by simp

lemma split_peek_returns:
  assumes "split_inv (mem, q)" "\<And>k. same_layout mem (view k)"
  shows "\<exists>r. split_peek view mem q = Some r \<and>
    (\<forall>c. r = Some c \<longrightarrow> chain_valid mem c \<and> unat (chain_count c) \<le> unat (sq_size q))"
proof -
  have "mem_ok (view k) \<and> rings_backed (view k) q" for k using split_inv_layout [OF assms(1) assms(2)] by blast
  note peek = split_peek_reads [where mem = mem, OF _ this of_nat_unat_u16]
  obtain r where "(do { r \<leftarrow> split_chain (\<lambda>k. view (k + 2)) mem (sq_desc_table q) (sq_size q)
          (u16_at (view 1) (avail_entry q (unat (sq_next_avail q))));
        Some (case r of Err _ \<Rightarrow> None | Ok c \<Rightarrow> Some c) }) = Some r"
      "\<forall>c. r = Some c \<longrightarrow> chain_valid mem c \<and> unat (chain_count c) \<le> unat (sq_size q)"
    using chain_result [of mem] assms(1) by (fastforce simp: split_inv_def)
  then show ?thesis using peek assms(1) by (auto simp: split_inv_def)
qed

lemma split_pop_peeked_returns:
  assumes "split_inv (mem, q)"
  shows "\<exists>q' mem'. split_pop_peeked mem q = Some (q', mem') \<and> split_inv (mem', q') \<and> same_layout mem mem'"
proof -
  let ?q = "q\<lparr>sq_next_avail := of_nat (Suc (unat (sq_next_avail q)))\<rparr>"
  obtain mem' where m: "split_pop_peeked mem q = Some (?q, mem')"
      "if event_idx (sq_features q)
       then writes mem (unat (sq_used_ring q) + (4 + 8 * unat (sq_size q))) (to_le 2 (of_nat (Suc (unat (sq_next_avail q))) :: u16)) mem'
       else mem' = mem"
    using split_pop_peeked_writes [of q mem "unat (sq_next_avail q)"] assms by (auto simp: split_inv_def)
  have "split_inv (mem', q)" "same_layout mem mem'"
    using m(2) assms split_inv_writes writes_same_layout by (auto split: if_splits)
  then show ?thesis using m(1) by (auto simp: split_inv_def)
qed

lemma split_pop_returns:
  assumes "split_inv (mem, q)" "\<And>k. same_layout mem (view k)"
  shows "\<exists>r q' mem'. split_pop view mem q = Some (r, q', mem') \<and> split_inv (mem', q') \<and> same_layout mem mem' \<and>
    (\<forall>c. r = Some c \<longrightarrow> chain_valid mem c \<and> unat (chain_count c) \<le> unat (sq_size q))"
proof -
  obtain r where r: "split_peek view mem q = Some r"
      "\<forall>c. r = Some c \<longrightarrow> chain_valid mem c \<and> unat (chain_count c) \<le> unat (sq_size q)"
    using split_peek_returns [of mem q view, OF assms] by blast
  obtain q' mem' where p: "split_pop_peeked mem q = Some (q', mem')" "split_inv (mem', q')" "same_layout mem mem'"
    using split_pop_peeked_returns [OF assms(1)] by blast
  show ?thesis
  proof (cases r)
    case None
    then show ?thesis using r assms(1) by (simp add: split_pop_def)
  next
    case (Some c)
    then show ?thesis using r p by (simp add: split_pop_def)
  qed
qed

lemma split_add_used_returns:
  assumes "split_inv (mem, q)"
  shows "\<exists>q' mem'. split_add_used mem q c len = Some (q', mem') \<and> split_inv (mem', q') \<and> same_layout mem mem'"
proof -
  obtain mem1 mem' where "split_add_used mem q c len = Some (q\<lparr>sq_next_used := of_nat (Suc (unat (sq_next_used q)))\<rparr>, mem')"
      and w: "writes mem (used_entry q (unat (sq_next_used q))) (virtq_used_elem (ucast (chain_index c)) len) mem1"
        "writes mem1 (unat (sq_used_ring q) + 2) (to_le 2 (of_nat (Suc (unat (sq_next_used q))) :: u16)) mem'"
    using split_add_used_writes [of q mem "unat (sq_next_used q)" c len] assms by (auto simp: split_inv_def)
  moreover have "split_inv (mem', q)" by (rule split_inv_writes [OF split_inv_writes [OF assms w(1)] w(2)])
  moreover have "same_layout mem mem'" using w [THEN writes_same_layout] by (rule same_layout_chain)
  ultimately show ?thesis by (simp add: split_inv_def)
qed

lemma split_trigger_returns:
  assumes "split_inv (mem, q)"
  shows "\<exists>b q' vs. split_trigger_interrupt mem q = Some (b, q', vs) \<and> split_inv (mem, q')"
proof -
  have "\<exists>wanted. split_wants_interrupt mem q = Some wanted"
    using assms ring_reads(2,3) [of q mem]
    by (cases "event_idx (sq_features q)") (simp_all add: split_inv_def split_wants_interrupt_def get_avail_flag_def)
  then obtain wanted where "split_wants_interrupt mem q = Some wanted" by blast
  then show ?thesis using assms by (cases wanted) (auto simp: split_trigger_interrupt_def split_inv_def)
qed

lemma split_step_inv: "split_step s s' \<Longrightarrow> split_inv s \<Longrightarrow> split_inv s'"
proof (induction rule: split_step.induct)
  case (pop mem view q r q' mem')
  then show ?case using split_pop_returns [of mem q view] by fastforce
next
  case (add_used mem q c len q' mem')
  then show ?case using split_add_used_returns [of mem q c len] by auto
next
  case (trigger mem q b q' vs)
  then show ?case using split_trigger_returns [of mem q] by auto
qed (rule split_inv_layout)

lemma split_reachable_inv: "split_step\<^sup>*\<^sup>* s s' \<Longrightarrow> split_inv s \<Longrightarrow> split_inv s'"
  by (induction rule: rtranclp_induct) (auto intro: split_step_inv)

section \<open>The used ring\<close>

text \<open>The element of the used ring at a position that counts on from the start of the queue.\<close>

definition used_elem_at :: "GuestMemory \<Rightarrow> SplitQueue \<Rightarrow> nat \<Rightarrow> u32 \<times> u32" where
  "used_elem_at mem q p =
     (from_le (bytes_at mem (used_entry q p) 4), from_le (bytes_at mem (used_entry q p + 4) 4))"

text \<open>Several calls of \<open>add_used\<close>, one after the other.\<close>

fun split_add_all :: "GuestMemory \<Rightarrow> SplitQueue \<Rightarrow> (DescriptorChain \<times> u32) list \<Rightarrow> (SplitQueue \<times> GuestMemory) option" where
  "split_add_all mem q [] = Some (q, mem)"
| "split_add_all mem q ((c, len) # xs) = do {
     (q, mem) \<leftarrow> split_add_used mem q c len;
     split_add_all mem q xs
   }"

lemma bytes_at_append: "bytes_at mem a (m + n) = bytes_at mem a m @ bytes_at mem (a + m) n"
  by (intro nth_equalityI) (auto simp: bytes_at_def nth_append)

lemma used_elem_at_write:
  assumes "writes mem (used_entry q p) (virtq_used_elem i len) mem'"
  shows "used_elem_at mem' q p = (i, len)"
proof -
  have "bytes_at mem' (used_entry q p) (4 + 4) = virtq_used_elem i len"
    using writes_same [OF assms] by (simp add: virtq_used_elem_def)
  then have "bytes_at mem' (used_entry q p) 4 = to_le 4 i" "bytes_at mem' (used_entry q p + 4) 4 = to_le 4 len"
    unfolding bytes_at_append virtq_used_elem_def by simp_all
  then show ?thesis by (simp add: used_elem_at_def from_le_to_le)
qed

lemma used_elem_at_frame:
  assumes "writes mem a bs mem'" "used_entry q p + 8 \<le> a \<or> a + length bs \<le> used_entry q p"
  shows "used_elem_at mem' q p = used_elem_at mem q p"
  using assms(2) writes_frame [OF assms(1), of "used_entry q p" 4] writes_frame [OF assms(1), of "used_entry q p + 4" 4]
  by (auto simp: used_elem_at_def)

lemma used_entry_disjoint:
  assumes "p mod unat (sq_size q) \<noteq> p' mod unat (sq_size q)"
  shows "used_entry q p + 8 \<le> used_entry q p' \<or> used_entry q p' + 8 \<le> used_entry q p"
  using assms by (auto simp: used_entry_def)

text \<open>The bytes of the used ring that \<open>add_used\<close> may write: its index and its elements.\<close>

definition in_used :: "SplitQueue \<Rightarrow> nat \<Rightarrow> bool" where
  "in_used q x \<longleftrightarrow> unat (sq_used_ring q) + 2 \<le> x \<and> x < unat (sq_used_ring q) + 4 + 8 * unat (sq_size q)"

lemma split_add_used_effect:
  assumes "split_inv (mem, q)" "sq_next_used q = of_nat p"
  shows "\<exists>mem'. split_add_used mem q c len = Some (q\<lparr>sq_next_used := of_nat (Suc p)\<rparr>, mem') \<and> split_inv (mem', q) \<and>
    used_elem_at mem' q p = (ucast (chain_index c), len) \<and>
    (\<forall>p'. p' mod unat (sq_size q) \<noteq> p mod unat (sq_size q) \<longrightarrow> used_elem_at mem' q p' = used_elem_at mem q p') \<and>
    u16_at mem' (unat (sq_used_ring q) + 2) = of_nat (Suc p) \<and> (\<forall>x. \<not> in_used q x \<longrightarrow> byte_at mem' x = byte_at mem x)"
proof -
  let ?e = "virtq_used_elem (ucast (chain_index c)) len" and ?i = "to_le 2 (of_nat (Suc p) :: u16)"
  obtain mem1 mem' where eq: "split_add_used mem q c len = Some (q\<lparr>sq_next_used := of_nat (Suc p)\<rparr>, mem')"
      and w: "writes mem (used_entry q p) ?e mem1" "writes mem1 (unat (sq_used_ring q) + 2) ?i mem'"
    using split_add_used_writes [of q mem p c len] assms by (auto simp: split_inv_def)
  have e: "length ?e = 8" by (simp add: virtq_used_elem_def)
  have pos: "0 < unat (sq_size q)" using assms(1) power_of_two_pos by (auto simp: split_inv_def split_ok_def)
  have lo: "unat (sq_used_ring q) + 4 \<le> used_entry q p'" for p' by (simp add: used_entry_def)
  have hi: "used_entry q p + 8 \<le> unat (sq_used_ring q) + 4 + 8 * unat (sq_size q)"
    using entry_in_ring [OF pos, of 8 p] by (simp add: used_entry_def)
  have "used_elem_at mem' q p' = used_elem_at mem1 q p'" for p'
    by (rule used_elem_at_frame [OF w(2)]) (use lo [of p'] in simp)
  moreover have "used_elem_at mem1 q p = (ucast (chain_index c), len)" by (rule used_elem_at_write [OF w(1)])
  moreover have "used_elem_at mem1 q p' = used_elem_at mem q p'" if "p' mod unat (sq_size q) \<noteq> p mod unat (sq_size q)" for p'
    using used_elem_at_frame [OF w(1)] used_entry_disjoint [OF that] e by auto
  moreover have "u16_at mem' (unat (sq_used_ring q) + 2) = of_nat (Suc p)"
    using writes_same [OF w(2)] by (simp add: u16_at_def from_le_to_le)
  moreover have "byte_at mem' x = byte_at mem x" if "\<not> in_used q x" for x
    using writes_frame_byte [OF w(2), of x] writes_frame_byte [OF w(1), of x] that lo [of p] hi e
    by (auto simp: in_used_def)
  moreover have "split_inv (mem', q)" by (rule split_inv_writes [OF split_inv_writes [OF assms(1) w(1)] w(2)])
  ultimately show ?thesis using eq by auto
qed

lemma used_ring_next [simp]:
  "used_elem_at m (q\<lparr>sq_next_used := i\<rparr>) = used_elem_at m q" "in_used (q\<lparr>sq_next_used := i\<rparr>) = in_used q"
  "split_inv (m, q\<lparr>sq_next_used := i\<rparr>) = split_inv (m, q)"
  "sq_size (q\<lparr>sq_next_used := i\<rparr>) = sq_size q" "sq_used_ring (q\<lparr>sq_next_used := i\<rparr>) = sq_used_ring q"
  by (simp_all add: fun_eq_iff used_elem_at_def used_entry_def in_used_def split_inv_def)

lemma position_distinct: "0 < j \<Longrightarrow> j < n \<Longrightarrow> (p + j) mod n \<noteq> p mod (n :: nat)"
proof
  assume j: "0 < j" "j < n" "(p + j) mod n = p mod n"
  then have "n dvd p + j - p" using mod_eq_dvd_iff_nat [of p "p + j" n] by simp
  with j show False by (auto dest: dvd_imp_le)
qed

lemma split_add_all_effect:
  assumes "split_inv (mem, q)" "sq_next_used q = of_nat p" "length xs \<le> unat (sq_size q)"
  shows "\<exists>mem'. split_add_all mem q xs = Some (q\<lparr>sq_next_used := of_nat (p + length xs)\<rparr>, mem') \<and> split_inv (mem', q) \<and>
    map (used_elem_at mem' q) [p..<p + length xs] = map (\<lambda>(c, len). (ucast (chain_index c), len)) xs \<and>
    (\<forall>p'. (\<forall>j < length xs. p' mod unat (sq_size q) \<noteq> (p + j) mod unat (sq_size q)) \<longrightarrow>
       used_elem_at mem' q p' = used_elem_at mem q p') \<and>
    (xs \<noteq> [] \<longrightarrow> u16_at mem' (unat (sq_used_ring q) + 2) = of_nat (p + length xs)) \<and>
    (\<forall>x. \<not> in_used q x \<longrightarrow> byte_at mem' x = byte_at mem x)"
  using assms
proof (induction xs arbitrary: mem q p)
  case Nil
  then show ?case by (cases q) simp
next
  case (Cons x xs)
  obtain c len where x: "x = (c, len)" by (cases x)
  let ?n = "unat (sq_size q)" and ?q = "q\<lparr>sq_next_used := of_nat (Suc p)\<rparr>"
  obtain mem1 where m1: "split_add_used mem q c len = Some (?q, mem1)" "split_inv (mem1, q)"
      "used_elem_at mem1 q p = (ucast (chain_index c), len)"
      "\<And>p'. p' mod ?n \<noteq> p mod ?n \<Longrightarrow> used_elem_at mem1 q p' = used_elem_at mem q p'"
      "u16_at mem1 (unat (sq_used_ring q) + 2) = of_nat (Suc p)" "\<And>x. \<not> in_used q x \<Longrightarrow> byte_at mem1 x = byte_at mem x"
    using split_add_used_effect [OF Cons.prems(1,2), of c len] by blast
  have q: "split_inv (mem1, ?q)" "sq_next_used ?q = of_nat (Suc p)" "length xs \<le> unat (sq_size ?q)"
    using m1(2) Cons.prems(3) by simp_all
  obtain mem' where m2:
      "split_add_all mem1 ?q xs = Some (?q\<lparr>sq_next_used := of_nat (Suc p + length xs)\<rparr>, mem')" "split_inv (mem', q)"
      "map (used_elem_at mem' q) [Suc p..<Suc p + length xs] = map (\<lambda>(c, len). (ucast (chain_index c), len)) xs"
      "\<And>p'. (\<forall>j < length xs. p' mod ?n \<noteq> (Suc p + j) mod ?n) \<Longrightarrow> used_elem_at mem' q p' = used_elem_at mem1 q p'"
      "xs \<noteq> [] \<Longrightarrow> u16_at mem' (unat (sq_used_ring q) + 2) = of_nat (Suc p + length xs)"
      "\<And>x. \<not> in_used q x \<Longrightarrow> byte_at mem' x = byte_at mem1 x"
    using Cons.IH [OF q] unfolding used_ring_next by blast
  have "used_elem_at mem' q p = used_elem_at mem1 q p"
  proof (rule m2(4), intro allI impI)
    fix j assume "j < length xs"
    then show "p mod ?n \<noteq> (Suc p + j) mod ?n" using position_distinct [of "Suc j" ?n p] Cons.prems(3) by simp
  qed
  then have "map (used_elem_at mem' q) [p..<p + length (x # xs)] = map (\<lambda>(c, len). (ucast (chain_index c), len)) (x # xs)"
    using m2(3) m1(3) by (simp add: x upt_conv_Cons del: upt_Suc)
  moreover have "used_elem_at mem' q p' = used_elem_at mem q p'"
    if "\<forall>j < length (x # xs). p' mod ?n \<noteq> (p + j) mod ?n" for p'
  proof -
    have "used_elem_at mem' q p' = used_elem_at mem1 q p'" by (rule m2(4)) (use that in auto)
    also have "\<dots> = used_elem_at mem q p'" by (rule m1(4)) (use that in auto)
    finally show ?thesis .
  qed
  moreover have "u16_at mem' (unat (sq_used_ring q) + 2) = of_nat (p + length (x # xs))"
    using m2(1,5) m1(5) by (cases xs) simp_all
  moreover have "\<And>x. \<not> in_used q x \<Longrightarrow> byte_at mem' x = byte_at mem x" using m1(6) m2(6) by simp
  moreover have "split_add_all mem q (x # xs) = Some (q\<lparr>sq_next_used := of_nat (p + length (x # xs))\<rparr>, mem')"
    using m1(1) m2(1) by (simp add: x)
  ultimately show ?case using m2(2) by blast
qed

section \<open>The available ring\<close>

text \<open>\<open>while let Some(chain) = queue.pop()\<close>, the loop of the devices, on memory that the driver leaves alone.\<close>

partial_function (option) split_drain ::
  "GuestMemory \<Rightarrow> SplitQueue \<Rightarrow> (DescriptorChain list \<times> SplitQueue \<times> GuestMemory) option"
where
  "split_drain mem q = do {
     (r, q, mem) \<leftarrow> split_pop (\<lambda>_. mem) mem q;
     (case r of
        None \<Rightarrow> Some ([], q, mem)
      | Some c \<Rightarrow> do {
          (cs, q, mem) \<leftarrow> split_drain mem q;
          Some (c # cs, q, mem)
        })
   }"

text \<open>The address of the field in the used ring that the device writes when it pops a chain.\<close>

definition avail_event :: "SplitQueue \<Rightarrow> nat" where
  "avail_event q = unat (sq_used_ring q) + (4 + 8 * unat (sq_size q))"

definition event_apart :: "SplitQueue \<Rightarrow> bool" where
  "event_apart q \<longleftrightarrow>
     (avail_event q + 2 \<le> unat (sq_avail_ring q) \<or> unat (sq_avail_ring q) + 6 + 2 * unat (sq_size q) \<le> avail_event q) \<and>
     (avail_event q + 2 \<le> unat (sq_desc_table q) \<or> unat (sq_desc_table q) + 16 * unat (sq_size q) \<le> avail_event q)"

text \<open>What a driver made available from position \<open>p\<close> on: the heads of chains and their descriptors.\<close>

definition offers :: "GuestMemory \<Rightarrow> SplitQueue \<Rightarrow> nat \<Rightarrow> (u16 \<times> Desc list) list \<Rightarrow> bool" where
  "offers mem q p cs \<longleftrightarrow>
     u16_at mem (unat (sq_avail_ring q) + 2) = of_nat (p + length cs) \<and>
     list_all (\<lambda>i. u16_at mem (avail_entry q (p + i)) = fst (cs ! i) \<and>
       well_built mem (sq_desc_table q) (sq_size q) (fst (cs ! i)) (snd (cs ! i))) [0..<length cs]"

lemma offers_iff:
  "offers mem q p cs \<longleftrightarrow>
     u16_at mem (unat (sq_avail_ring q) + 2) = of_nat (p + length cs) \<and>
     (\<forall>i < length cs. u16_at mem (avail_entry q (p + i)) = fst (cs ! i) \<and>
        well_built mem (sq_desc_table q) (sq_size q) (fst (cs ! i)) (snd (cs ! i)))"
  by (auto simp: offers_def list_all_iff)

lemma desc_at_frame:
  assumes "mem_ok mem" "mem_ok mem'" "guest_memory_regions mem' = guest_memory_regions mem" "index < n"
    and "unat tab + 16 * unat n < 2 ^ 64"
    and "\<And>x. unat tab \<le> x \<Longrightarrow> x < unat tab + 16 * unat n \<Longrightarrow> byte_at mem' x = byte_at mem x"
  shows "desc_at mem' tab index = desc_at mem tab index"
proof -
  have i: "16 * unat index + 16 \<le> 16 * unat n" using assms(4) by (simp add: word_less_nat_alt)
  have "(ucast index * 16 :: u64) = of_nat (16 * unat index)" by simp
  also have "unat (of_nat (16 * unat index) :: u64) = 16 * unat index"
    by (rule unat_of_nat_small) (use unat_lt [of index] in simp)
  finally have u: "unat (ucast index * 16 :: u64) = 16 * unat index" .
  then have c: "checked_add tab (ucast index * 16) = Some (tab + ucast index * 16)"
    using assms(5) i by (simp add: checked_add_def)
  let ?a = "tab + ucast index * 16"
  have a: "unat ?a = unat tab + 16 * unat index" using checked_add_unat [OF c] u by simp
  have b: "bytes_at mem' (unat ?a) 16 = bytes_at mem (unat ?a) 16"
    by (rule bytes_at_cong) (use assms(6) i a in simp)
  show ?thesis
  proof (cases "backed (guest_memory_regions mem) (unat ?a) 16")
    case True
    then show ?thesis
      using read_obj_backed [OF assms(1) _ True] read_obj_backed [of mem' 16 ?a] assms(2,3) b by (simp add: desc_at_def c)
  next
    case False
    then show ?thesis
      using read_obj_not_backed [OF assms(1) False] read_obj_not_backed [of mem' ?a 16] assms(2,3)
      by (auto simp: desc_at_def c)
  qed
qed

lemma linked_frame:
  assumes "\<And>index. index < n \<Longrightarrow> desc_at mem' tab index = desc_at mem tab index"
  shows "linked mem' tab n i ds = linked mem tab n i ds"
proof (induction ds arbitrary: i)
  case Nil
  then show ?case by (cases i) simp_all
next
  case (Cons d ds)
  then show ?case using assms by (cases i) auto
qed

lemma well_built_frame:
  assumes "guest_memory_regions mem' = guest_memory_regions mem"
    and "\<And>index. index < n \<Longrightarrow> desc_at mem' tab index = desc_at mem tab index"
  shows "well_built mem' tab n i ds = well_built mem tab n i ds"
  using linked_frame [OF assms(2)] by (simp add: well_built_def backed_regions_def assms(1))

lemma split_pop_effect:
  assumes "split_inv (mem, q)" "sq_next_avail q = of_nat p" "event_apart q" "offers mem q p (c # cs)"
    and "length (c # cs) \<le> unat (sq_size q)"
  shows "\<exists>mem'. split_pop (\<lambda>_. mem) mem q =
      Some (Some (built_chain (fst c) (snd c)), q\<lparr>sq_next_avail := of_nat (Suc p)\<rparr>, mem') \<and>
    split_inv (mem', q) \<and> offers mem' q (Suc p) cs \<and>
    (\<forall>x. x < avail_event q \<or> avail_event q + 2 \<le> x \<longrightarrow> byte_at mem' x = byte_at mem x)"
proof -
  have inv: "split_ok q" "mem_ok mem" "rings_backed mem q" using assms(1) by (simp_all add: split_inv_def)
  have idx: "u16_at mem (unat (sq_avail_ring q) + 2) = of_nat (p + length (c # cs))"
    and entry: "\<And>i. i < length (c # cs) \<Longrightarrow> u16_at mem (avail_entry q (p + i)) = fst ((c # cs) ! i) \<and>
       well_built mem (sq_desc_table q) (sq_size q) (fst ((c # cs) ! i)) (snd ((c # cs) ! i))"
    using assms(4) unfolding offers_iff by blast+
  have "length (c # cs) < 2 ^ 16" using assms(5) unat_lt [of "sq_size q"] by simp
  then have "unat (of_nat (length (c # cs)) :: u16) = length (c # cs)" by (intro unat_of_nat_small) simp
  then have "(of_nat (length (c # cs)) :: u16) \<noteq> 0" by auto
  then have ne: "(of_nat p :: u16) \<noteq> of_nat (p + length (c # cs))" by simp
  have peek: "split_peek (\<lambda>_. mem) mem q = Some (Some (built_chain (fst c) (snd c)))"
    using split_peek_reads [of q "\<lambda>_. mem" p mem] inv assms(2) ne idx entry [of 0]
      split_chain_well_built [OF inv(2), of "sq_desc_table q" "sq_size q" "fst c" "snd c"] by simp
  obtain mem' where m: "split_pop_peeked mem q = Some (q\<lparr>sq_next_avail := of_nat (Suc p)\<rparr>, mem')"
      "if event_idx (sq_features q) then writes mem (avail_event q) (to_le 2 (of_nat (Suc p) :: u16)) mem' else mem' = mem"
    using split_pop_peeked_writes [of q mem p] inv assms(2) unfolding avail_event_def by blast
  have frame: "byte_at mem' x = byte_at mem x" if "x < avail_event q \<or> avail_event q + 2 \<le> x" for x
    using m(2) that writes_frame_byte [of mem "avail_event q" _ mem' x] by (auto split: if_splits)
  have inv': "split_inv (mem', q)" using m(2) assms(1) split_inv_writes by (auto split: if_splits)
  have layout: "guest_memory_regions mem' = guest_memory_regions mem"
    using m(2) writes_layout by (auto split: if_splits)
  have "desc_at mem' (sq_desc_table q) i = desc_at mem (sq_desc_table q) i" if "i < sq_size q" for i
    by (rule desc_at_frame [OF inv(2) _ layout that])
      (use inv' inv(1) assms(3) frame in \<open>auto simp: split_inv_def split_ok_def event_apart_def\<close>)
  note built = well_built_frame [OF layout this]
  have field: "u16_at mem' a = u16_at mem a"
    if "unat (sq_avail_ring q) \<le> a" "a + 2 \<le> unat (sq_avail_ring q) + 6 + 2 * unat (sq_size q)" for a
    unfolding u16_at_def by (rule arg_cong [OF bytes_at_cong], rule frame) (use that assms(3) in \<open>auto simp: event_apart_def\<close>)
  have "avail_entry q p' + 2 \<le> unat (sq_avail_ring q) + 6 + 2 * unat (sq_size q)" for p'
    using entry_in_ring [OF power_of_two_pos, of "sq_size q" 2 p'] inv(1) by (simp add: avail_entry_def split_ok_def)
  then have slot: "u16_at mem' (avail_entry q p') = u16_at mem (avail_entry q p')" for p'
    by (intro field) (simp_all add: avail_entry_def)
  have "offers mem' q (Suc p) cs"
    unfolding offers_iff
  proof (intro conjI allI impI)
    show "u16_at mem' (unat (sq_avail_ring q) + 2) = of_nat (Suc p + length cs)"
      using idx field [of "unat (sq_avail_ring q) + 2"] by simp
    fix i assume "i < length cs"
    then show "u16_at mem' (avail_entry q (Suc p + i)) = fst (cs ! i)"
        "well_built mem' (sq_desc_table q) (sq_size q) (fst (cs ! i)) (snd (cs ! i))"
      using entry [of "Suc i"] slot [of "Suc p + i"] built by simp_all
  qed
  then show ?thesis using peek m(1) inv' frame by (auto simp: split_pop_def)
qed

lemma split_drain_all:
  assumes "split_inv (mem, q)" "sq_next_avail q = of_nat p" "event_apart q" "offers mem q p cs"
    and "length cs \<le> unat (sq_size q)"
  shows "\<exists>mem'. split_drain mem q =
      Some (map (\<lambda>(h, ds). built_chain h ds) cs, q\<lparr>sq_next_avail := of_nat (p + length cs)\<rparr>, mem') \<and>
    (\<forall>x. x < avail_event q \<or> avail_event q + 2 \<le> x \<longrightarrow> byte_at mem' x = byte_at mem x)"
  using assms
proof (induction cs arbitrary: mem q p)
  case Nil
  have "split_peek (\<lambda>_. mem) mem q = Some None"
    using split_peek_reads [of q "\<lambda>_. mem" p mem] Nil.prems(1,2,4) by (simp add: split_inv_def offers_def)
  then have "split_pop (\<lambda>_. mem) mem q = Some (None, q, mem)" by (simp add: split_pop_def)
  then show ?case using Nil.prems(2) by (cases q) (simp add: split_drain.simps [of mem])
next
  case (Cons c cs)
  let ?q = "q\<lparr>sq_next_avail := of_nat (Suc p)\<rparr>"
  obtain mem1 where m1: "split_pop (\<lambda>_. mem) mem q = Some (Some (built_chain (fst c) (snd c)), ?q, mem1)"
      "split_inv (mem1, q)" "offers mem1 q (Suc p) cs"
      "\<And>x. x < avail_event q \<or> avail_event q + 2 \<le> x \<Longrightarrow> byte_at mem1 x = byte_at mem x"
    using split_pop_effect [OF Cons.prems] by blast
  have same: "avail_event ?q = avail_event q" "event_apart ?q = event_apart q" "split_inv (mem1, ?q)" "offers mem1 ?q (Suc p) cs"
    using m1(2,3) by (simp_all add: avail_event_def event_apart_def split_inv_def offers_def avail_entry_def)
  obtain mem' where m2: "split_drain mem1 ?q =
        Some (map (\<lambda>(h, ds). built_chain h ds) cs, ?q\<lparr>sq_next_avail := of_nat (Suc p + length cs)\<rparr>, mem')"
      "\<And>x. x < avail_event q \<or> avail_event q + 2 \<le> x \<Longrightarrow> byte_at mem' x = byte_at mem1 x"
    using Cons.IH [OF same(3) _ _ same(4)] same(1,2) Cons.prems(3,5) by auto
  have "split_drain mem q =
      Some (map (\<lambda>(h, ds). built_chain h ds) (c # cs), q\<lparr>sq_next_avail := of_nat (p + length (c # cs))\<rparr>, mem')"
    using m1(1) m2(1) by (cases c) (simp add: split_drain.simps [of mem q])
  then show ?case using m1(4) m2(2) by auto
qed

section \<open>An example\<close>

text \<open>
  A queue of two entries at address \<open>0x1000\<close>: descriptors, the available ring with the chains 1 and 0,
  the used ring and 16 bytes of buffers.
\<close>

definition queue_memory :: GuestMemory where
  "queue_memory = \<lparr>regions =
     [\<lparr>mapping = [0x50, 0x10, 0, 0, 0, 0, 0, 0,  4, 0, 0, 0,  0, 0,  0, 0,
                  0x54, 0x10, 0, 0, 0, 0, 0, 0,  8, 0, 0, 0,  2, 0,  0, 0,
                  0, 0,  2, 0,  1, 0,  0, 0,  0, 0,  0, 0, 0, 0, 0, 0,
                  0, 0,  0, 0,  0, 0, 0, 0, 0, 0, 0, 0,  0, 0, 0, 0,
                  0, 0, 0, 0,  0, 0,  0, 0, 0, 0, 0, 0, 0, 0, 0, 0,
                  1, 2, 3, 4, 0, 0, 0, 0, 0, 0, 0, 0, 0, 0, 0, 0],
       guest_base = 0x1000, obj_offset = 0, options = MemoryRegionOptions_new\<rparr>]\<rparr>"

definition sample_config :: QueueConfig where
  "sample_config =
     \<lparr>qc_activated = False, qc_max_size = 256, qc_size = 2, qc_ready = True, qc_vector = 3, qc_features = 0x20000000,
      qc_acked_features = 0x20000000, qc_desc_table = 0x1000, qc_avail_ring = 0x1020, qc_used_ring = 0x1030,
      qc_next_avail = 0, qc_next_used = 0\<rparr>"

definition sample_queue :: SplitQueue where
  "sample_queue =
     \<lparr>sq_event = 7, sq_size = 2, sq_vector = 3, sq_desc_table = 0x1000, sq_avail_ring = 0x1020, sq_used_ring = 0x1030,
      sq_next_avail = 0, sq_next_used = 0, sq_features = 0x20000000, sq_last_used = 0\<rparr>"

definition sample_chains :: "(u16 \<times> Desc list) list" where
  "sample_chains =
     [(1, [\<lparr>desc_addr = 0x1054, desc_len = 8, desc_flags = 2, desc_next = 0\<rparr>]),
      (0, [\<lparr>desc_addr = 0x1050, desc_len = 4, desc_flags = 0, desc_next = 0\<rparr>])]"

lemma power_of_two_2: "u16_is_power_of_two 2"
  by (auto simp: u16_is_power_of_two_iff intro: exI [of _ 1])

lemma sample_new: "SplitQueue_new sample_config 7 = Ok sample_queue"
  by (simp add: SplitQueue_new_def sample_config_def sample_queue_def power_of_two_2 ring_sizes_def checked_add_def)

lemma sample_memory: "mem_ok queue_memory" "rings_backed queue_memory sample_queue"
  by (simp_all add: mem_ok_def rings_backed_def backed_iff queue_memory_def sample_queue_def)

lemma sample_apart: "event_apart sample_queue"
  by (simp add: event_apart_def avail_event_def sample_queue_def)

lemma queue_memory_bytes:
  assumes "0x1000 \<le> a" "a + n \<le> 0x1060"
  shows "bytes_at queue_memory a n = take n (drop (a - 0x1000) (mapping (regions queue_memory ! 0)))"
  using bytes_at_region [OF sample_memory(1), of 0 a n] assms by (simp add: queue_memory_def)

lemma sample_descs:
  "desc_at queue_memory 0x1000 0 = Some \<lparr>desc_addr = 0x1050, desc_len = 4, desc_flags = 0, desc_next = 0\<rparr>"
  "desc_at queue_memory 0x1000 1 = Some \<lparr>desc_addr = 0x1054, desc_len = 8, desc_flags = 2, desc_next = 0\<rparr>"
  by (simp_all add: desc_at_def queue_memory_def read_eval Desc_from_bytes_def)

lemma sample_u16:
  "u16_at queue_memory 0x1022 = 2" "u16_at queue_memory 0x1024 = 1" "u16_at queue_memory 0x1026 = 0"
  "u16_at queue_memory 0x1028 = 0"
  by (simp_all add: u16_at_def queue_memory_bytes) (simp_all add: queue_memory_def)

lemma sample_built:
  "well_built queue_memory 0x1000 2 1 [\<lparr>desc_addr = 0x1054, desc_len = 8, desc_flags = 2, desc_next = 0\<rparr>]"
  "well_built queue_memory 0x1000 2 0 [\<lparr>desc_addr = 0x1050, desc_len = 4, desc_flags = 0, desc_next = 0\<rparr>]"
  by (simp_all add: well_built_def sample_descs desc_flag_defs desc_access_def backed_regions_def backed_iff
      queue_memory_def [THEN arg_cong [where f = regions]] flat_def word_less_nat_alt)

lemma sample_offers: "offers queue_memory sample_queue 0 sample_chains"
  unfolding offers_iff
  by (auto simp: sample_chains_def sample_queue_def avail_entry_def sample_u16 sample_built less_Suc_eq)

section \<open>Properties\<close>

text \<open>
  A split queue whose rings lie in guest memory never panics, whatever the driver wrote, writes
  between the calls of the device, or writes between two reads of one call. Every chain it
  pops has its buffers in guest memory and at most as many descriptors as the queue.
\<close>

theorem split_queue_never_panics:
  assumes "SplitQueue_new config ev = Ok q0" "mem_ok mem0" "rings_backed mem0 q0"
    and "split_step\<^sup>*\<^sup>* (mem0, q0) (mem, q)" "\<And>k. same_layout mem (view k)"
  shows "(\<exists>r q' mem'. split_pop view mem q = Some (r, q', mem') \<and>
            (\<forall>c. r = Some c \<longrightarrow> chain_valid mem c \<and> unat (chain_count c) \<le> unat (sq_size q))) \<and>
         (\<exists>q' mem'. split_add_used mem q c len = Some (q', mem')) \<and>
         (\<exists>b q' vs. split_trigger_interrupt mem q = Some (b, q', vs))"
proof -
  have "split_inv (mem0, q0)" using SplitQueue_new_ok [OF assms(1)] assms(2,3) by (simp add: split_inv_def)
  then have inv: "split_inv (mem, q)" by (rule split_reachable_inv [OF assms(4)])
  then show ?thesis
    using split_pop_returns [of mem q view, OF inv assms(5)] split_add_used_returns [OF inv] split_trigger_returns [OF inv]
    by blast
qed

theorem split_queue_never_panics_witness:
  "\<exists>r q' mem'. split_pop (\<lambda>_. queue_memory) queue_memory sample_queue = Some (r, q', mem')"
  using split_queue_never_panics [OF sample_new sample_memory rtranclp.rtrancl_refl, of "\<lambda>_. queue_memory"]
  by (simp add: same_layout_def) blast

text \<open>
  C9. Chains are popped in the order in which the driver made them available, each as it was built,
  and then the queue is empty. Popping changes no byte of memory but the two of the field
  \<open>avail_event\<close>, which must lie apart from the descriptors and the available ring.
\<close>

theorem split_pops_in_order:
  assumes "SplitQueue_new config ev = Ok q" "mem_ok mem" "rings_backed mem q" "event_apart q"
    and "offers mem q (unat (qc_next_avail config)) cs" "length cs \<le> unat (qc_size config)"
  shows "\<exists>q' mem'. split_drain mem q = Some (map (\<lambda>(h, ds). built_chain h ds) cs, q', mem') \<and>
    sq_next_avail q' = qc_next_avail config + of_nat (length cs) \<and>
    (\<forall>x. x < avail_event q \<or> avail_event q + 2 \<le> x \<longrightarrow> byte_at mem' x = byte_at mem x)"
proof -
  have q: "split_inv (mem, q)" "sq_size q = qc_size config" "sq_next_avail q = of_nat (unat (qc_next_avail config))"
    using SplitQueue_new_ok [OF assms(1)] assms(1-3)
    by (auto simp: split_inv_def SplitQueue_new_def case_sum_eq_iff split: if_splits)
  then show ?thesis using split_drain_all [OF q(1,3) assms(4,5)] assms(6) by auto
qed

theorem split_pops_in_order_witness:
  "\<exists>q' mem'. split_drain queue_memory sample_queue =
     Some ([built_chain 1 [\<lparr>desc_addr = 0x1054, desc_len = 8, desc_flags = 2, desc_next = 0\<rparr>],
            built_chain 0 [\<lparr>desc_addr = 0x1050, desc_len = 4, desc_flags = 0, desc_next = 0\<rparr>]], q', mem') \<and>
     sq_next_avail q' = 2"
  using split_pops_in_order [OF sample_new sample_memory sample_apart, of sample_chains] sample_offers
  by (auto simp: sample_config_def sample_chains_def)

text \<open>
  C10. The used ring is a queue of what the device put into it: after up to as many calls of \<open>add_used\<close>
  as the queue has entries, the driver finds the chains and lengths in the order of the calls, and
  the index of the ring is the number of elements ever added, modulo $2^{16}$. No other byte of
  memory changes.
\<close>

theorem split_used_ring:
  assumes "SplitQueue_new config ev = Ok q" "mem_ok mem" "rings_backed mem q"
    and "xs \<noteq> []" "length xs \<le> unat (qc_size config)"
  shows "\<exists>q' mem'. split_add_all mem q xs = Some (q', mem') \<and>
    map (used_elem_at mem' q) [unat (qc_next_used config)..<unat (qc_next_used config) + length xs] =
      map (\<lambda>(c, len). (ucast (chain_index c), len)) xs \<and>
    u16_at mem' (unat (qc_used_ring config) + 2) = qc_next_used config + of_nat (length xs) \<and>
    (\<forall>x. \<not> in_used q x \<longrightarrow> byte_at mem' x = byte_at mem x)"
proof -
  have q: "split_inv (mem, q)" "sq_size q = qc_size config" "sq_next_used q = of_nat (unat (qc_next_used config))"
      "sq_used_ring q = qc_used_ring config"
    using SplitQueue_new_ok [OF assms(1)] assms(1-3)
    by (auto simp: split_inv_def SplitQueue_new_def case_sum_eq_iff split: if_splits)
  then show ?thesis using split_add_all_effect [OF q(1,3), of xs] assms(4,5) by auto
qed

theorem split_used_ring_witness:
  "\<exists>q' mem'. split_add_all queue_memory sample_queue [(built_chain 1 [], 8), (built_chain 0 [], 0)] = Some (q', mem') \<and>
     map (used_elem_at mem' sample_queue) [0, 1] = [(1, 8), (0, 0)] \<and> u16_at mem' 0x1032 = 2"
proof -
  let ?xs = "[(built_chain 1 [], 8), (built_chain 0 [], 0)] :: (DescriptorChain \<times> u32) list"
  have two: "[0..<0 + length ?xs] = [0, 1]" by (simp add: upt_rec)
  have c: "unat (qc_next_used sample_config) = 0" "unat (qc_used_ring sample_config) + 2 = 0x1032"
      "qc_next_used sample_config + of_nat (length ?xs) = 2"
    by (simp_all add: sample_config_def)
  obtain q' mem' where "split_add_all queue_memory sample_queue ?xs = Some (q', mem')"
      "map (used_elem_at mem' sample_queue) [0, 1] = map (\<lambda>(c, len). (ucast (chain_index c), len)) ?xs"
      "u16_at mem' 0x1032 = 2"
    using split_used_ring [OF sample_new sample_memory, of ?xs] unfolding c two by (auto simp: sample_config_def)
  then show ?thesis by (intro exI [of _ q'] exI [of _ mem']) (simp add: built_chain_def)
qed

text \<open>
  C12. With \<open>VIRTIO_RING_F_EVENT_IDX\<close> the driver is interrupted exactly when the element it asked for,
  \<open>used_event\<close>, is one of those added since the last interrupt, with all indices modulo $2^{16}$. An
  interrupt signals the vector of the queue once, and no second one follows before another element
  is added, whatever the driver writes.
\<close>

theorem split_interrupts:
  assumes "split_ok q" "rings_backed mem q" "mem_ok mem" "event_idx (sq_features q)"
    and "rings_backed mem2 q" "mem_ok mem2"
  shows "\<exists>wanted q' vs. split_trigger_interrupt mem q = Some (wanted, q', vs) \<and>
    (wanted \<longleftrightarrow> (\<exists>i < unat (sq_next_used q - sq_last_used q).
       u16_at mem (unat (sq_avail_ring q) + 4 + 2 * unat (sq_size q)) = sq_last_used q + of_nat i)) \<and>
    vs = (if wanted then [sq_vector q] else []) \<and>
    (wanted \<longrightarrow> split_trigger_interrupt mem2 q' = Some (False, q', []))"
proof -
  let ?ev = "u16_at mem (unat (sq_avail_ring q) + 4 + 2 * unat (sq_size q))"
  let ?d = "?ev - sq_last_used q" and ?b = "sq_next_used q - sq_last_used q"
  have "sq_next_used q - ?ev - 1 = ?b - ?d - 1" by simp
  then have w: "split_wants_interrupt mem q = Some (?d < ?b)"
    using ring_reads(2) [OF assms(1-3)] ring_distance [of ?b ?d] assms(4) by (simp add: split_wants_interrupt_def)
  have "?d < ?b \<longleftrightarrow> (\<exists>i < unat ?b. ?ev = sq_last_used q + of_nat i)"
  proof
    assume "?d < ?b"
    then show "\<exists>i < unat ?b. ?ev = sq_last_used q + of_nat i"
      by (intro exI [of _ "unat ?d"]) (simp add: word_less_nat_alt)
  next
    assume "\<exists>i < unat ?b. ?ev = sq_last_used q + of_nat i"
    then obtain i where i: "i < unat ?b" "?d = of_nat i" by auto
    then have "i < 2 ^ 16" using unat_lt [of ?b] by simp
    then have "unat (of_nat i :: u16) = i" by (intro unat_of_nat_small) simp
    with i show "?d < ?b" by (simp add: word_less_nat_alt)
  qed
  moreover have "split_trigger_interrupt mem2 (q\<lparr>sq_last_used := sq_next_used q\<rparr>) =
      Some (False, q\<lparr>sq_last_used := sq_next_used q\<rparr>, [])"
    using ring_reads(2) [of "q\<lparr>sq_last_used := sq_next_used q\<rparr>" mem2] assms
    by (simp add: split_trigger_interrupt_def split_wants_interrupt_def)
  ultimately show ?thesis using w by (auto simp: split_trigger_interrupt_def)
qed

theorem split_interrupts_witness:
  "\<exists>q'. split_trigger_interrupt queue_memory (sample_queue\<lparr>sq_next_used := 1\<rparr>) = Some (True, q', [3]) \<and>
     split_trigger_interrupt queue_memory q' = Some (False, q', [])"
proof -
  let ?q = "sample_queue\<lparr>sq_next_used := 1\<rparr>"
  have ok: "split_ok ?q" "rings_backed queue_memory ?q"
    using SplitQueue_new_ok [OF sample_new] sample_memory by simp_all
  have "event_idx (sq_features ?q)" by (simp add: event_idx_def VIRTIO_RING_F_EVENT_IDX_def sample_queue_def)
  from split_interrupts [OF ok sample_memory(1) this ok(2) sample_memory(1)] show ?thesis
    by (auto simp: sample_queue_def sample_u16)
qed

text \<open>
  \<open>SplitQueue::new\<close> does not check that the rings lie in guest memory. If the index of the available
  ring does not, the first \<open>peek\<close> panics.
\<close>

theorem split_peek_outside_panics:
  assumes "SplitQueue_new config ev = Ok q" "mem_ok (view 0)"
    and "\<not> backed (guest_memory_regions (view 0)) (unat (qc_avail_ring config) + 2) 2"
  shows "split_peek view mem q = None"
proof -
  have q: "split_ok q" "sq_avail_ring q = qc_avail_ring config"
    using SplitQueue_new_ok [OF assms(1)] assms(1) by (auto simp: SplitQueue_new_def case_sum_eq_iff split: if_splits)
  then have "unat (unchecked_add (sq_avail_ring q) 2) = unat (sq_avail_ring q) + 2"
    using unat_unchecked_add [of "sq_avail_ring q" 2] by (simp add: split_ok_def)
  then show ?thesis
    using read_u16_not_backed [OF assms(2), of "unchecked_add (sq_avail_ring q) 2"] assms(3) q(2)
    by (simp add: split_peek_def get_avail_index_def)
qed

theorem split_peek_outside_panics_witness:
  "\<exists>q. SplitQueue_new (sample_config\<lparr>qc_avail_ring := 0x2000\<rparr>) 7 = Ok q \<and>
       split_peek (\<lambda>_. queue_memory) queue_memory q = None"
proof -
  have new: "SplitQueue_new (sample_config\<lparr>qc_avail_ring := 0x2000\<rparr>) 7 = Ok (sample_queue\<lparr>sq_avail_ring := 0x2000\<rparr>)"
    by (simp add: SplitQueue_new_def sample_config_def sample_queue_def power_of_two_2 ring_sizes_def checked_add_def)
  have "split_peek (\<lambda>_. queue_memory) queue_memory (sample_queue\<lparr>sq_avail_ring := 0x2000\<rparr>) = None"
    by (rule split_peek_outside_panics [OF new])
      (use sample_memory(1) in \<open>simp_all add: backed_iff queue_memory_def sample_config_def\<close>)
  with new show ?thesis by blast
qed

text \<open>
  The sizes that \<open>set_size\<close> accepts are not only powers of two; a split queue of another size is refused
  when it is activated.
\<close>

theorem set_size_any:
  "\<exists>c. QueueConfig_new 256 0 = Some c \<and> qc_size (set_size 3 c) = 3 \<and>
       SplitQueue_new (set_size 3 c) ev = Err (NotPowerOfTwo 3)"
proof -
  have "\<not> u16_is_power_of_two 3" by (simp add: u16_is_power_of_two_def upt_rec numeral_eq_Suc)
  then show ?thesis by (simp add: QueueConfig_new_def MAX_SIZE_def set_size_def SplitQueue_new_def)
qed

end
