(* ===== verification/PackedQueue.thy ===== *)
theory PackedQueue
  imports SplitRings
begin

text \<open>
  The packed virtqueue of \<open>devices/src/virtio/queue/packed_queue.rs\<close>, with the events of
  \<open>queue/packed_descriptor_chain.rs\<close>. As for the split queue, guest memory is an argument and \<open>None\<close> is
  a panic.
\<close>

unbundle bit_operations_syntax

section \<open>Positions\<close>

definition RING_EVENT_FLAGS_ENABLE :: u16 where "RING_EVENT_FLAGS_ENABLE = 0x0"
definition RING_EVENT_FLAGS_DISABLE :: u16 where "RING_EVENT_FLAGS_DISABLE = 0x1"
definition RING_EVENT_FLAGS_DESC :: u16 where "RING_EVENT_FLAGS_DESC = 0x2"

record PackedDescEvent =
  ev_desc :: u16
  ev_flag :: u16

datatype PackedNotificationType = Enable | Disable | DescEvent u16

definition notification_type :: "PackedDescEvent \<Rightarrow> PackedNotificationType" where
  "notification_type ev =
     (if ev_flag ev = RING_EVENT_FLAGS_DISABLE then Disable
      else if ev_flag ev = RING_EVENT_FLAGS_DESC then DescEvent (ev_desc ev)
      else if ev_flag ev = RING_EVENT_FLAGS_ENABLE then Enable
      else Enable)"

record PackedQueueIndex =
  wrap_counter :: bool
  ring_index :: u16

definition PackedQueueIndex_new :: "bool \<Rightarrow> u16 \<Rightarrow> PackedQueueIndex" where
  "PackedQueueIndex_new w i = \<lparr>wrap_counter = w, ring_index = i\<rparr>"

definition new_from_desc :: "u16 \<Rightarrow> PackedQueueIndex" where
  "new_from_desc desc =
     (let w = (drop_bit 15 desc = 1);
          i = desc AND 0x7fff
      in PackedQueueIndex_new w i)"

definition to_desc :: "PackedQueueIndex \<Rightarrow> PackedDescEvent" where
  "to_desc i =
     (let desc = ring_index i;
          desc = (if wrap_counter i then desc OR push_bit 15 1 else desc)
      in \<lparr>ev_desc = desc, ev_flag = RING_EVENT_FLAGS_DESC\<rparr>)"

text \<open>The arithmetic is not wrapping here, so it is checked.\<close>

definition add_index :: "PackedQueueIndex \<Rightarrow> u16 \<Rightarrow> u16 \<Rightarrow> PackedQueueIndex option" where
  "add_index i index_value size' = do {
     new_index \<leftarrow> checked_add (ring_index i) index_value;
     if new_index < size' then Some (i\<lparr>ring_index := new_index\<rparr>)
     else do {
       new_index \<leftarrow> checked_sub new_index size';
       Some (i\<lparr>ring_index := new_index, wrap_counter := \<not> wrap_counter i\<rparr>)
     }
   }"

definition PackedQueueIndex_default :: PackedQueueIndex where
  "PackedQueueIndex_default = PackedQueueIndex_new True 0"

section \<open>The queue\<close>

record PackedQueue =
  pq_event :: Event
  pq_size :: u16
  pq_vector :: u16
  pq_avail_index :: PackedQueueIndex
  pq_use_index :: PackedQueueIndex
  pq_signalled_used_index :: PackedQueueIndex
  pq_features :: u64
  pq_desc_table :: GuestAddress
  pq_device_event_suppression :: GuestAddress
  pq_driver_event_suppression :: GuestAddress

definition area_sizes ::
  "u16 \<Rightarrow> GuestAddress \<Rightarrow> GuestAddress \<Rightarrow> GuestAddress \<Rightarrow> (GuestAddress \<times> usize) list"
where
  "area_sizes queue_size desc_table driver_area device_area =
     [(desc_table, 16 * unat queue_size), (driver_area, 4), (device_area, 4)]"

definition PackedQueue_new :: "QueueConfig \<Rightarrow> Event \<Rightarrow> queue_error + PackedQueue" where
  "PackedQueue_new config event =
     (case check_rings (zip (area_sizes (qc_size config) (qc_desc_table config) (qc_avail_ring config) (qc_used_ring config))
             [''descriptor table'', ''driver_event_suppression'', ''device_event_suppression'']) of
        Err e \<Rightarrow> Err e
      | Ok _ \<Rightarrow> Ok \<lparr>pq_event = event, pq_size = qc_size config, pq_vector = qc_vector config,
                    pq_avail_index = PackedQueueIndex_default, pq_use_index = PackedQueueIndex_default,
                    pq_signalled_used_index = PackedQueueIndex_default, pq_features = qc_acked_features config,
                    pq_desc_table = qc_desc_table config, pq_device_event_suppression = qc_used_ring config,
                    pq_driver_event_suppression = qc_avail_ring config\<rparr>)"

definition packed_set_avail_event :: "GuestMemory \<Rightarrow> PackedQueue \<Rightarrow> PackedDescEvent \<Rightarrow> GuestMemory option" where
  "packed_set_avail_event mem q ev =
     write_bytes mem (to_le 2 (ev_desc ev) @ to_le 2 (ev_flag ev)) (pq_device_event_suppression q)"

definition get_driver_event :: "GuestMemory \<Rightarrow> PackedQueue \<Rightarrow> PackedDescEvent option" where
  "get_driver_event mem q =
     (case read_obj_from_addr mem 4 (pq_driver_event_suppression q) of
        Err _ \<Rightarrow> None
      | Ok bs \<Rightarrow> Some \<lparr>ev_desc = from_le (take 2 bs), ev_flag = from_le (take 2 (drop 2 bs))\<rparr>)"

definition packed_peek :: "(nat \<Rightarrow> GuestMemory) \<Rightarrow> GuestMemory \<Rightarrow> PackedQueue \<Rightarrow> DescriptorChain option option" where
  "packed_peek view mem q = do {
     desc_addr \<leftarrow> checked_add (pq_desc_table q) (ucast (ring_index (pq_avail_index q)) * 16);
     (case read_obj_from_addr (view 0) 16 desc_addr of
        Err _ \<Rightarrow> Some None
      | Ok bs \<Rightarrow>
          if \<not> is_available (PackedDesc_from_bytes bs) (of_bool (wrap_counter (pq_avail_index q))) then Some None
          else do {
            r \<leftarrow> packed_chain (\<lambda>k. view (k + 1)) mem (pq_desc_table q) (pq_size q)
                  (wrap_counter (pq_avail_index q)) (ring_index (pq_avail_index q));
            Some (case r of Ok descriptor_chain \<Rightarrow> Some descriptor_chain | Err _ \<Rightarrow> None)
          })
   }"

definition packed_pop_peeked ::
  "GuestMemory \<Rightarrow> PackedQueue \<Rightarrow> DescriptorChain \<Rightarrow> (PackedQueue \<times> GuestMemory) option"
where
  "packed_pop_peeked mem q descriptor_chain = do {
     i \<leftarrow> add_index (pq_avail_index q) (chain_count descriptor_chain) (pq_size q);
     let q = q\<lparr>pq_avail_index := i\<rparr>;
     if event_idx (pq_features q) then do {
       mem \<leftarrow> packed_set_avail_event mem q (to_desc (pq_avail_index q));
       Some (q, mem)
     } else Some (q, mem)
   }"

text \<open>\<open>Queue::pop\<close> on a packed queue.\<close>

definition packed_pop ::
  "(nat \<Rightarrow> GuestMemory) \<Rightarrow> GuestMemory \<Rightarrow> PackedQueue \<Rightarrow> (DescriptorChain option \<times> PackedQueue \<times> GuestMemory) option"
where
  "packed_pop view mem q = do {
     r \<leftarrow> packed_peek view mem q;
     (case r of
        None \<Rightarrow> Some (None, q, mem)
      | Some desc_chain \<Rightarrow> do {
          (q, mem) \<leftarrow> packed_pop_peeked mem q desc_chain;
          Some (Some desc_chain, q, mem)
        })
   }"

definition packed_add_used ::
  "GuestMemory \<Rightarrow> PackedQueue \<Rightarrow> DescriptorChain \<Rightarrow> u32 \<Rightarrow> (PackedQueue \<times> GuestMemory) option"
where
  "packed_add_used mem q desc_chain len =
     (if pq_size q \<le> chain_index desc_chain then Some (q, mem)
      else do {
        ident \<leftarrow> chain_id desc_chain;
        desc_addr \<leftarrow> checked_add (pq_desc_table q) (ucast (ring_index (pq_use_index q)) * 16);
        len_addr \<leftarrow> checked_add desc_addr 8;
        mem \<leftarrow> write_bytes mem (to_le 4 len) len_addr;
        id_addr \<leftarrow> checked_add desc_addr 12;
        mem \<leftarrow> write_bytes mem (to_le 2 ident) id_addr;
        let flags = (if wrap_counter (pq_use_index q) then 0 OR VIRTQ_DESC_F_USED OR VIRTQ_DESC_F_AVAIL else 0);
        let flags = (if 0 < len then flags OR VIRTQ_DESC_F_WRITE else flags);
        mem \<leftarrow> write_bytes mem (to_le 2 flags) (unchecked_add desc_addr 14);
        i \<leftarrow> add_index (pq_use_index q) (chain_count desc_chain) (pq_size q);
        Some (q\<lparr>pq_use_index := i\<rparr>, mem)
      })"

text \<open>The value of the \<open>match\<close> is computed and dropped; only its side effect and its \<open>return\<close> remain.\<close>

definition packed_wants_interrupt :: "GuestMemory \<Rightarrow> PackedQueue \<Rightarrow> (bool \<times> PackedQueue) option" where
  "packed_wants_interrupt mem q = do {
     driver_event \<leftarrow> get_driver_event mem q;
     (case notification_type driver_event of
        Enable \<Rightarrow> let _ = True in Some (True, q)
      | Disable \<Rightarrow> let _ = False in Some (True, q)
      | DescEvent desc \<Rightarrow>
          if \<not> event_idx (pq_features q) then Some (True, q)
          else let old = pq_signalled_used_index q;
                   q = q\<lparr>pq_signalled_used_index := pq_use_index q\<rparr>;
                   event_index = new_from_desc desc;
                   _ = (ring_index (pq_use_index q) - ring_index event_index - 1
                          < ring_index (pq_use_index q) - ring_index old)
               in Some (True, q))
   }"

definition packed_trigger_interrupt :: "GuestMemory \<Rightarrow> PackedQueue \<Rightarrow> (bool \<times> PackedQueue \<times> u16 list) option" where
  "packed_trigger_interrupt mem q = do {
     (wanted, q) \<leftarrow> packed_wants_interrupt mem q;
     Some (if wanted then (True, q, [pq_vector q]) else (False, q, []))
   }"

definition packed_ack_features :: "u64 \<Rightarrow> PackedQueue \<Rightarrow> PackedQueue" where
  "packed_ack_features features q = q\<lparr>pq_features := pq_features q OR features\<rparr>"

definition packed_snapshot :: "PackedQueue \<Rightarrow> queue_error + 'json" where
  "packed_snapshot q = Err NotImplemented"

definition packed_restore :: "'json \<Rightarrow> Event \<Rightarrow> queue_error + PackedQueue" where
  "packed_restore queue_value event = Err NotImplemented"

section \<open>Positions as a count of descriptors\<close>

text \<open>The position after \<open>n\<close> descriptors: the wrap counter is flipped at the end of every round.\<close>

definition position :: "u16 \<Rightarrow> nat \<Rightarrow> PackedQueueIndex" where
  "position size' n = \<lparr>wrap_counter = even (n div unat size'), ring_index = of_nat (n mod unat size')\<rparr>"

definition index_ok :: "u16 \<Rightarrow> PackedQueueIndex \<Rightarrow> bool" where
  "index_ok size' i \<longleftrightarrow> ring_index i < size' \<or> (size' = 0 \<and> ring_index i = 0)"

lemma unat_position: "0 < unat s \<Longrightarrow> unat (ring_index (position s n)) = n mod unat s"
proof -
  assume s: "0 < unat s"
  have "n mod unat s < unat s" using s by simp
  then have "n mod unat s < 2 ^ 16" using unat_lt [of s] by simp
  then show ?thesis by (simp add: position_def unat_of_nat_small)
qed

lemma div_mod_add:
  assumes "0 < (s :: nat)"
  shows "(n + k) div s = n div s + (n mod s + k) div s" "(n + k) mod s = (n mod s + k) mod s"
proof -
  have "n + k = n div s * s + (n mod s + k)" by simp
  then show "(n + k) div s = n div s + (n mod s + k) div s" using assms by (metis div_mult_self3 less_not_refl)
  show "(n + k) mod s = (n mod s + k) mod s" by (simp add: mod_add_left_eq)
qed

lemma one_round: "s \<le> c \<Longrightarrow> c < 2 * s \<Longrightarrow> c div s = 1 \<and> c mod s = c - (s :: nat)"
  by (simp add: le_mod_geq div_nat_eqI)

lemma add_index_position:
  assumes "0 < unat s" "unat s \<le> 32768" "unat k \<le> unat s"
  shows "add_index (position s n) k s = Some (position s (n + unat k))"
proof -
  let ?s = "unat s"
  define i where "i = ring_index (position s n)"
  have p: "position s n = \<lparr>wrap_counter = even (n div ?s), ring_index = i\<rparr>" by (simp add: i_def position_def)
  have i: "unat i = n mod ?s" unfolding i_def by (rule unat_position [OF assms(1)])
  have lt: "n mod ?s < ?s" using assms(1) by simp
  then have "unat i + unat k < 2 ^ 16" using i assms(2,3) by simp
  then have c: "checked_add i k = Some (i + k)" by (simp add: checked_add_def)
  have u: "unat (i + k) = n mod ?s + unat k" using checked_add_unat [OF c] i by simp
  note n = div_mod_add [OF assms(1), of n "unat k"]
  show ?thesis
  proof (cases "n mod ?s + unat k < ?s")
    case True
    then have "i + k < s" using u by (simp add: word_less_nat_alt)
    moreover have "of_nat (n mod ?s + unat k) = i + k" unfolding u [symmetric] by simp
    ultimately show ?thesis using True n by (simp add: add_index_def p c) (simp add: position_def)
  next
    case False
    then have r: "(n mod ?s + unat k) div ?s = 1" "(n mod ?s + unat k) mod ?s = n mod ?s + unat k - ?s"
      using one_round [of ?s "n mod ?s + unat k"] lt assms(3) by simp_all
    have le: "s \<le> i + k" "\<not> i + k < s" using False u by (simp_all add: word_le_nat_alt word_less_nat_alt)
    then have s: "checked_sub (i + k) s = Some (i + k - s)" by (simp add: checked_sub_def word_le_nat_alt)
    have "unat (i + k - s) = n mod ?s + unat k - ?s" using le(1) u by (simp add: unat_sub)
    then have "of_nat (n mod ?s + unat k - ?s) = i + k - s" by (metis of_nat_unat ucast_id)
    then have "position s (n + unat k) = \<lparr>wrap_counter = odd (n div ?s), ring_index = i + k - s\<rparr>"
      using n r by (simp add: position_def)
    then show ?thesis using le(2) s by (simp add: add_index_def p c)
  qed
qed

lemma index_ok_position: "0 < unat s \<Longrightarrow> index_ok s (position s n)"
  using unat_position [of s n] by (simp add: index_ok_def word_less_nat_alt)

lemma position_of_index:
  assumes "index_ok s i" "0 < unat s"
  shows "\<exists>n. i = position s n"
proof -
  have lt: "unat (ring_index i) < unat s" using assms by (auto simp: index_ok_def word_less_nat_alt)
  let ?n = "unat (ring_index i) + (if wrap_counter i then 0 else unat s)"
  have "?n mod unat s = unat (ring_index i)" "even (?n div unat s) = wrap_counter i"
    using lt by (simp_all add: div_add1_eq)
  then have "position s ?n = i" by (cases i) (simp add: position_def)
  then show ?thesis by metis
qed

lemma add_index_ok:
  assumes "index_ok s i" "unat s \<le> 32768" "unat k \<le> unat s"
  shows "\<exists>i'. add_index i k s = Some i' \<and> index_ok s i'"
proof (cases "unat s = 0")
  case True
  then have "s = 0" "k = 0" using assms(3) by (simp_all add: unat_eq_zero)
  then show ?thesis using assms(1) by (simp add: add_index_def index_ok_def checked_add_def checked_sub_def)
next
  case False
  then obtain n where "i = position s n" using position_of_index assms(1) by blast
  then show ?thesis using add_index_position [of s k n] index_ok_position [of s "n + unat k"] assms(2,3) False by auto
qed

lemma from_to_desc:
  assumes "ring_index i < 0x8000"
  shows "new_from_desc (ev_desc (to_desc i)) = i"
proof -
  have "unat (ring_index i) < 2 ^ 15" using assms by (simp add: word_less_nat_alt)
  then have "unat (take_bit 15 (ring_index i)) = unat (ring_index i)"
    by (simp add: unsigned_take_bit_eq take_bit_nat_eq_self)
  then have "take_bit 15 (ring_index i) = ring_index i" by (rule unsigned_word_eqI)
  then have b: "bit (ring_index i) n \<Longrightarrow> n < 15" for n
    using bit_take_bit_iff [of 15 "ring_index i" n] by simp
  have h: "bit (32768 :: u16) n \<longleftrightarrow> n = 15" for n
    using bit_exp_iff [of 15 n, where 'a = "16 word"] by auto
  have h': "bit (32768 :: int) n \<longleftrightarrow> n = 15" for n
    using bit_exp_iff [of 15 n, where 'a = int] by auto
  have m: "(0x7fff :: u16) = mask 15" by (simp add: mask_eq_exp_minus_1)
  show ?thesis
  proof (cases "wrap_counter i")
    case True
    have "drop_bit 15 (ring_index i OR push_bit 15 1) = 1"
      by (rule bit_word_eqI) (auto simp: bit_simps h dest: b)
    moreover have "(ring_index i OR push_bit 15 1) AND 0x7fff = ring_index i"
      unfolding m by (rule bit_word_eqI) (auto simp: bit_simps h h' dest: b)
    ultimately show ?thesis using True by (cases i) (simp add: new_from_desc_def to_desc_def PackedQueueIndex_new_def Let_def)
  next
    case False
    have "drop_bit 15 (ring_index i) = 0"
      by (rule bit_word_eqI) (auto simp: bit_simps h dest: b)
    moreover have "ring_index i AND 0x7fff = ring_index i"
      unfolding m by (rule bit_word_eqI) (auto simp: bit_simps h dest: b)
    ultimately show ?thesis using False by (cases i) (simp add: new_from_desc_def to_desc_def PackedQueueIndex_new_def Let_def)
  qed
qed

section \<open>Queues whose areas lie in guest memory\<close>

definition packed_inv :: "GuestMemory \<times> PackedQueue \<Rightarrow> bool" where
  "packed_inv s \<longleftrightarrow> (case s of (mem, q) \<Rightarrow>
     mem_ok mem \<and> unat (pq_size q) \<le> 32768 \<and>
     index_ok (pq_size q) (pq_avail_index q) \<and> index_ok (pq_size q) (pq_use_index q) \<and>
     unat (pq_desc_table q) + 16 * unat (pq_size q) < 2 ^ 64 \<and>
     (0 < unat (pq_size q) \<longrightarrow>
        backed (guest_memory_regions mem) (unat (pq_desc_table q)) (16 * unat (pq_size q))) \<and>
     backed (guest_memory_regions mem) (unat (pq_driver_event_suppression q)) 4 \<and>
     backed (guest_memory_regions mem) (unat (pq_device_event_suppression q)) 4)"

lemma unat_times_16: "unat (ucast (i :: u16) * 16 :: u64) = 16 * unat i"
proof -
  have "(ucast i * 16 :: u64) = of_nat (16 * unat i)" by simp
  also have "unat \<dots> = 16 * unat i" by (rule unat_of_nat_small) (use unat_lt [of i] in simp)
  finally show ?thesis .
qed

lemma desc_addr:
  assumes "packed_inv (mem, q)" "index_ok (pq_size q) i"
  shows "\<exists>a. checked_add (pq_desc_table q) (ucast (ring_index i) * 16) = Some a \<and>
    unat a = unat (pq_desc_table q) + 16 * unat (ring_index i)"
proof -
  have "unat (ring_index i) \<le> unat (pq_size q)" using assms(2) by (auto simp: index_ok_def word_less_nat_alt)
  then have "unat (pq_desc_table q) + 16 * unat (ring_index i) < 2 ^ 64" using assms(1) by (simp add: packed_inv_def)
  then have c: "checked_add (pq_desc_table q) (ucast (ring_index i) * 16) = Some (pq_desc_table q + ucast (ring_index i) * 16)"
    by (simp add: checked_add_def unat_times_16)
  then show ?thesis using checked_add_unat [OF c] by (simp add: unat_times_16)
qed

lemma packed_inv_layout:
  assumes "packed_inv (mem, q)" "same_layout mem mem'"
  shows "packed_inv (mem', q)"
  using assms mem_ok_layout [of mem mem'] by (simp add: packed_inv_def same_layout_def)

lemma packed_inv_writes: "packed_inv (mem, q) \<Longrightarrow> writes mem a bs mem' \<Longrightarrow> packed_inv (mem', q)"
  using packed_inv_layout [of mem q mem'] writes_layout [of mem a bs mem'] by (simp add: same_layout_def)

lemma PackedQueue_new_inv:
  assumes "PackedQueue_new config ev = Ok q" "config_ok config" "mem_ok mem"
    and "backed (guest_memory_regions mem) (unat (qc_avail_ring config)) 4"
    and "backed (guest_memory_regions mem) (unat (qc_used_ring config)) 4"
    and "0 < unat (qc_size config) \<longrightarrow>
           backed (guest_memory_regions mem) (unat (qc_desc_table config)) (16 * unat (qc_size config))"
  shows "packed_inv (mem, q)"
proof -
  have "qc_size config \<le> MAX_SIZE" using assms(2) by (auto simp: config_ok_def intro: order_trans)
  then have "unat (qc_size config) \<le> 32768" by (simp add: MAX_SIZE_def word_le_nat_alt)
  moreover have "unat (of_nat (16 * unat (qc_size config)) :: u64) = 16 * unat (qc_size config)"
    by (rule unat_of_nat_small) (use unat_lt [of "qc_size config"] in simp)
  moreover have "index_ok (qc_size config) PackedQueueIndex_default"
    by (auto simp: index_ok_def PackedQueueIndex_default_def PackedQueueIndex_new_def word_neq_0_conv)
  ultimately show ?thesis
    using assms
    by (auto simp: packed_inv_def PackedQueue_new_def area_sizes_def case_sum_eq_iff checked_add_def
        simp del: of_nat_mult split: if_splits option.splits)
qed

lemma packed_peek_returns:
  assumes "packed_inv (mem, q)"
  shows "\<exists>r. packed_peek view mem q = Some r \<and>
    (\<forall>c. r = Some c \<longrightarrow> chain_valid mem c \<and> unat (chain_count c) \<le> unat (pq_size q) \<and>
       chain_index c = ring_index (pq_avail_index q))"
proof -
  obtain a where a: "checked_add (pq_desc_table q) (ucast (ring_index (pq_avail_index q)) * 16) = Some a"
    using desc_addr [OF assms, of "pq_avail_index q"] assms by (auto simp: packed_inv_def)
  let ?it = "PackedDescriptorChain_new (pq_desc_table q) (pq_size q) (wrap_counter (pq_avail_index q)) (ring_index (pq_avail_index q))"
  obtain x where "packed_chain (\<lambda>k. view (k + 1)) mem (pq_desc_table q) (pq_size q) (wrap_counter (pq_avail_index q))
        (ring_index (pq_avail_index q)) = Some x"
      "\<And>c. x = Ok c \<Longrightarrow> chain_valid mem c \<and> unat (chain_count c) \<le> unat (pq_size q) \<and>
        chain_index c = ring_index (pq_avail_index q)"
    using packed_iter.DescriptorChain_new_ok [of mem ?it pc_id "\<lambda>k. view (k + 1)" "ring_index (pq_avail_index q)"] assms
    by (auto simp: packed_chain_def packed_lim_def PackedDescriptorChain_new_def packed_inv_def)
  then show ?thesis
    by (cases "read_obj_from_addr (view 0) 16 a"; cases x) (simp_all add: packed_peek_def a)
qed

lemma packed_pop_peeked_returns:
  assumes "packed_inv (mem, q)" "unat (chain_count c) \<le> unat (pq_size q)"
  shows "\<exists>q' mem'. packed_pop_peeked mem q c = Some (q', mem') \<and> packed_inv (mem', q') \<and> pq_size q' = pq_size q \<and>
    same_layout mem mem'"
proof -
  obtain i where i: "add_index (pq_avail_index q) (chain_count c) (pq_size q) = Some i" "index_ok (pq_size q) i"
    using add_index_ok [of "pq_size q" "pq_avail_index q" "chain_count c"] assms by (auto simp: packed_inv_def)
  let ?q = "q\<lparr>pq_avail_index := i\<rparr>" and ?bs = "to_le 2 (ev_desc (to_desc i)) @ to_le 2 (ev_flag (to_desc i))"
  have inv: "packed_inv (mem, ?q)" using assms(1) i(2) by (simp add: packed_inv_def)
  have "length ?bs = 4" "?bs \<noteq> []" by (auto simp: to_le_def)
  then obtain mem' where w: "write_bytes mem ?bs (pq_device_event_suppression q) = Some mem'"
      "writes mem (unat (pq_device_event_suppression q)) ?bs mem'"
    using write_bytes_backed [of mem ?bs "pq_device_event_suppression q"] assms(1) by (auto simp: packed_inv_def)
  show ?thesis
    using i(1) w(1) inv packed_inv_writes [OF inv w(2)] writes_same_layout [OF w(2)]
    by (cases "event_idx (pq_features q)") (simp_all add: packed_pop_peeked_def packed_set_avail_event_def Let_def)
qed

lemma packed_pop_returns:
  assumes "packed_inv (mem, q)"
  shows "\<exists>r q' mem'. packed_pop view mem q = Some (r, q', mem') \<and> packed_inv (mem', q') \<and> pq_size q' = pq_size q \<and>
    same_layout mem mem' \<and> (\<forall>c. r = Some c \<longrightarrow> chain_valid mem c \<and> unat (chain_count c) \<le> unat (pq_size q))"
proof -
  obtain r where r: "packed_peek view mem q = Some r"
      "\<And>c. r = Some c \<Longrightarrow> chain_valid mem c \<and> unat (chain_count c) \<le> unat (pq_size q)"
    using packed_peek_returns [OF assms] by blast
  show ?thesis
  proof (cases r)
    case None
    then show ?thesis using r assms by (simp add: packed_pop_def)
  next
    case (Some c)
    then show ?thesis using r packed_pop_peeked_returns [OF assms, of c] by (auto simp: packed_pop_def)
  qed
qed

text \<open>The descriptor that the driver finds where \<open>add_used\<close> wrote, with the address it had before.\<close>

definition used_flags :: "bool \<Rightarrow> u32 \<Rightarrow> u16" where
  "used_flags w len =
     (if w then VIRTQ_DESC_F_USED OR VIRTQ_DESC_F_AVAIL else 0) OR (if 0 < len then VIRTQ_DESC_F_WRITE else 0)"

definition used_desc :: "u64 \<Rightarrow> bool \<Rightarrow> u16 \<Rightarrow> u32 \<Rightarrow> PackedDesc" where
  "used_desc a w ident len = \<lparr>pd_addr = a, pd_len = len, pd_id = ident, pd_flags = used_flags w len\<rparr>"

lemma used_not_available: "\<not> is_available (used_desc a w ident len) w'"
  by (simp add: is_available_def used_desc_def used_flags_def desc_flag_defs)

lemma write_in_desc:
  assumes "packed_inv (mem, q)" "index_ok (pq_size q) i" "0 < unat (pq_size q)" "bs \<noteq> []" "k + length bs \<le> 16"
    and "unat a = unat (pq_desc_table q) + 16 * unat (ring_index i) + k"
  shows "\<exists>mem'. write_bytes mem bs a = Some mem' \<and> writes mem (unat a) bs mem'"
proof (rule write_bytes_backed)
  have "unat (ring_index i) < unat (pq_size q)" using assms(2,3) by (auto simp: index_ok_def word_less_nat_alt)
  then have "16 * unat (ring_index i) + 16 \<le> 16 * unat (pq_size q)" by linarith
  moreover have "backed (guest_memory_regions mem) (unat (pq_desc_table q)) (16 * unat (pq_size q))"
    using assms(1,3) by (simp add: packed_inv_def)
  ultimately show "backed (guest_memory_regions mem) (unat a) (length bs)"
    using assms(5,6) by (elim backed_sub) simp_all
qed (use assms in \<open>simp_all add: packed_inv_def\<close>)

lemma used_desc_bytes:
  assumes "writes mem (a + 8) (to_le 4 len) m1" "writes m1 (a + 12) (to_le 2 ident) m2"
    and "writes m2 (a + 14) (to_le 2 (used_flags w len)) m3"
  shows "PackedDesc_from_bytes (bytes_at m3 a 16) = used_desc (from_le (bytes_at mem a 8)) w ident len"
proof -
  have "bytes_at m3 a 8 = bytes_at mem a 8"
    using writes_frame [OF assms(1), of a 8] writes_frame [OF assms(2), of a 8] writes_frame [OF assms(3), of a 8] by simp
  moreover have "bytes_at m3 (a + 8) 4 = to_le 4 len"
    using writes_same [OF assms(1)] writes_frame [OF assms(2), of "a + 8" 4] writes_frame [OF assms(3), of "a + 8" 4] by simp
  moreover have "bytes_at m3 (a + 12) 2 = to_le 2 ident"
    using writes_same [OF assms(2)] writes_frame [OF assms(3), of "a + 12" 2] by simp
  moreover have "bytes_at m3 (a + 14) 2 = to_le 2 (used_flags w len)" using writes_same [OF assms(3)] by simp
  moreover have "bytes_at m3 a 16 = bytes_at m3 a 8 @ bytes_at m3 (a + 8) 4 @ bytes_at m3 (a + 12) 2 @ bytes_at m3 (a + 14) 2"
    using bytes_at_append [of m3 a 8 8] bytes_at_append [of m3 "a + 8" 4 4] bytes_at_append [of m3 "a + 12" 2 2]
    by (simp add: add.commute [of a])
  ultimately show ?thesis by (simp add: PackedDesc_from_bytes_def used_desc_def from_le_to_le)
qed

lemma packed_add_used_effect:
  assumes "packed_inv (mem, q)" "chain_index c < pq_size q" "chain_id c = Some ident"
    and "unat (chain_count c) \<le> unat (pq_size q)"
  defines "a \<equiv> unat (pq_desc_table q) + 16 * unat (ring_index (pq_use_index q))"
  shows "\<exists>i mem'. packed_add_used mem q c len = Some (q\<lparr>pq_use_index := i\<rparr>, mem') \<and>
    add_index (pq_use_index q) (chain_count c) (pq_size q) = Some i \<and>
    packed_inv (mem', q\<lparr>pq_use_index := i\<rparr>) \<and> same_layout mem mem' \<and>
    PackedDesc_from_bytes (bytes_at mem' a 16) =
      used_desc (from_le (bytes_at mem a 8)) (wrap_counter (pq_use_index q)) ident len \<and>
    (\<forall>x. x < a + 8 \<or> a + 16 \<le> x \<longrightarrow> byte_at mem' x = byte_at mem x)"
proof -
  let ?f = "used_flags (wrap_counter (pq_use_index q)) len"
  have ok: "index_ok (pq_size q) (pq_use_index q)" using assms(1) by (simp add: packed_inv_def)
  have pos: "0 < unat (pq_size q)" using assms(2) by (simp add: word_less_nat_alt)
  obtain b where b: "checked_add (pq_desc_table q) (ucast (ring_index (pq_use_index q)) * 16) = Some b" "unat b = a"
    using desc_addr [OF assms(1) ok] unfolding a_def by blast
  have "unat (ring_index (pq_use_index q)) < unat (pq_size q)" using ok pos by (auto simp: index_ok_def word_less_nat_alt)
  then have hi: "a + 16 < 2 ^ 64" using assms(1) unfolding a_def by (simp add: packed_inv_def)
  have c8: "checked_add b 8 = Some (b + 8)" and c12: "checked_add b 12 = Some (b + 12)"
    using hi b(2) by (simp_all add: checked_add_def)
  have u8: "unat (b + 8) = a + 8" and u12: "unat (b + 12) = a + 12"
    using checked_add_unat [OF c8] checked_add_unat [OF c12] b(2) by simp_all
  have u14: "unat (unchecked_add b 14) = a + 14" using unat_unchecked_add [of b 14] hi b(2) by simp
  note wr = write_in_desc [OF _ ok pos, folded a_def]
  obtain m1 where m1: "write_bytes mem (to_le 4 len) (b + 8) = Some m1" "writes mem (a + 8) (to_le 4 len) m1"
    using wr [OF assms(1), of "to_le 4 len" 8 "b + 8"] u8 by (auto simp: to_le_def)
  have i1: "packed_inv (m1, q)" by (rule packed_inv_writes [OF assms(1) m1(2)])
  obtain m2 where m2: "write_bytes m1 (to_le 2 ident) (b + 12) = Some m2" "writes m1 (a + 12) (to_le 2 ident) m2"
    using wr [OF i1, of "to_le 2 ident" 12 "b + 12"] u12 by (auto simp: to_le_def)
  have i2: "packed_inv (m2, q)" by (rule packed_inv_writes [OF i1 m2(2)])
  obtain m3 where m3: "write_bytes m2 (to_le 2 ?f) (unchecked_add b 14) = Some m3" "writes m2 (a + 14) (to_le 2 ?f) m3"
    using wr [OF i2, of "to_le 2 ?f" 14 "unchecked_add b 14"] u14 by (auto simp: to_le_def)
  obtain i where i: "add_index (pq_use_index q) (chain_count c) (pq_size q) = Some i" "index_ok (pq_size q) i"
    using add_index_ok [OF ok _ assms(4)] assms(1) by (auto simp: packed_inv_def)
  have "packed_inv (m3, q\<lparr>pq_use_index := i\<rparr>)"
    using packed_inv_writes [OF i2 m3(2)] i(2) by (simp add: packed_inv_def)
  moreover have "packed_add_used mem q c len = Some (q\<lparr>pq_use_index := i\<rparr>, m3)"
    using assms(2,3) b(1) c8 c12 m1(1) m2(1) m3(1) i(1)
    by (cases "wrap_counter (pq_use_index q)"; cases "0 < len")
      (simp_all add: packed_add_used_def used_flags_def Let_def not_le)
  moreover have "byte_at m3 x = byte_at mem x" if "x < a + 8 \<or> a + 16 \<le> x" for x
    using that writes_frame_byte [OF m1(2), of x] writes_frame_byte [OF m2(2), of x] writes_frame_byte [OF m3(2), of x] by auto
  moreover have "same_layout mem m3"
    by (rule same_layout_chain [OF same_layout_chain [OF m1(2) [THEN writes_same_layout] m2(2) [THEN writes_same_layout]]
          m3(2) [THEN writes_same_layout]])
  moreover note used_desc_bytes [OF m1(2) m2(2) m3(2)]
  ultimately show ?thesis using i(1) by blast
qed

lemma packed_trigger_always:
  assumes "packed_inv (mem, q)"
  shows "\<exists>q'. packed_trigger_interrupt mem q = Some (True, q', [pq_vector q]) \<and> packed_inv (mem, q') \<and>
    pq_size q' = pq_size q"
proof -
  obtain ev where "get_driver_event mem q = Some ev"
    using read_obj_backed [of mem 4 "pq_driver_event_suppression q"] assms
    by (simp add: get_driver_event_def packed_inv_def)
  then show ?thesis
    using assms
    by (cases "notification_type ev")
      (simp_all add: packed_trigger_interrupt_def packed_wants_interrupt_def packed_inv_def Let_def)
qed

section \<open>An example\<close>

text \<open>
  A packed queue of two entries at \<open>0x1000\<close> with one available chain, the event areas at \<open>0x1020\<close> and
  \<open>0x1024\<close>, and four bytes of buffer.
\<close>

definition packed_memory :: GuestMemory where
  "packed_memory = \<lparr>regions =
     [\<lparr>mapping = [0x28, 0x10, 0, 0, 0, 0, 0, 0,  4, 0, 0, 0,  7, 0,  0x80, 0,
                  0, 0, 0, 0, 0, 0, 0, 0,  0, 0, 0, 0,  0, 0,  0, 0,
                  0, 0, 1, 0,  0, 0, 0, 0,  1, 2, 3, 4],
       guest_base = 0x1000, obj_offset = 0, options = MemoryRegionOptions_new\<rparr>]\<rparr>"

definition packed_config :: QueueConfig where
  "packed_config =
     \<lparr>qc_activated = False, qc_max_size = 256, qc_size = 2, qc_ready = True, qc_vector = 3, qc_features = 0x400000000,
      qc_acked_features = 0x400000000, qc_desc_table = 0x1000, qc_avail_ring = 0x1020, qc_used_ring = 0x1024,
      qc_next_avail = 0, qc_next_used = 0\<rparr>"

definition packed_queue :: PackedQueue where
  "packed_queue =
     \<lparr>pq_event = 7, pq_size = 2, pq_vector = 3, pq_avail_index = position 2 0, pq_use_index = position 2 0,
      pq_signalled_used_index = position 2 0, pq_features = 0x400000000, pq_desc_table = 0x1000,
      pq_device_event_suppression = 0x1024, pq_driver_event_suppression = 0x1020\<rparr>"

lemma packed_sample_new: "PackedQueue_new packed_config 7 = Ok packed_queue"
  by (simp add: PackedQueue_new_def packed_config_def packed_queue_def area_sizes_def checked_add_def position_def
      PackedQueueIndex_default_def PackedQueueIndex_new_def)

lemma packed_sample_inv: "packed_inv (packed_memory, packed_queue)"
  by (rule PackedQueue_new_inv [OF packed_sample_new])
    (auto simp: packed_config_def config_ok_def MAX_SIZE_def mem_ok_def packed_memory_def backed_iff word_le_nat_alt)

section \<open>Properties\<close>

text \<open>
  C20. A position in a packed queue of at most 32768 entries is the number of descriptors passed so far:
  its index is that number modulo the size, and its wrap counter tells odd rounds from even ones.
  Advancing it by any chain of the queue adds to that number and never overflows 16 bits, and the
  event that the device publishes for the driver encodes the position exactly.
\<close>

theorem packed_position:
  assumes "0 < unat size'" "unat size' \<le> 32768" "unat k \<le> unat size'"
  shows "add_index (position size' n) k size' = Some (position size' (n + unat k)) \<and>
         new_from_desc (ev_desc (to_desc (position size' n))) = position size' n"
proof -
  have "unat (ring_index (position size' n)) < unat size'" using unat_position [OF assms(1), of n] assms(1) by simp
  then have "ring_index (position size' n) < 0x8000" using assms(2) by (simp add: word_less_nat_alt)
  then show ?thesis using add_index_position [OF assms] from_to_desc by blast
qed

theorem packed_position_witness:
  "add_index (position 0x8000 0x7fff) 0x8000 0x8000 = Some (position 0x8000 0xffff)"
  using packed_position [of "0x8000" "0x8000" "0x7fff"] by simp

text \<open>
  C21. \<open>PackedQueue::add_used\<close> publishes a chain: the descriptor at the device's position holds its
  identifier and length, keeps its address, and is marked as used in the device's round, so that it
  is not taken for available in any round. The position moves on by the length of the chain, and
  no byte outside the second half of that descriptor changes.
\<close>

theorem packed_add_used_publishes:
  assumes "packed_inv (mem, q)" "chain_index c < pq_size q" "chain_id c = Some ident"
    and "unat (chain_count c) \<le> unat (pq_size q)" "pq_use_index q = position (pq_size q) n"
  shows "\<exists>mem'. packed_add_used mem q c len =
             Some (q\<lparr>pq_use_index := position (pq_size q) (n + unat (chain_count c))\<rparr>, mem') \<and>
    (let a = unat (pq_desc_table q) + 16 * (n mod unat (pq_size q));
         d = PackedDesc_from_bytes (bytes_at mem' a 16)
     in pd_addr d = from_le (bytes_at mem a 8) \<and> pd_len d = len \<and> pd_id d = ident \<and>
        (pd_flags d AND VIRTQ_DESC_F_USED \<noteq> 0) = even (n div unat (pq_size q)) \<and>
        (\<forall>w. \<not> is_available d w) \<and> (\<forall>x. x < a + 8 \<or> a + 16 \<le> x \<longrightarrow> byte_at mem' x = byte_at mem x))"
proof -
  have s: "0 < unat (pq_size q)" "unat (pq_size q) \<le> 32768" using assms(1,2) by (auto simp: packed_inv_def word_less_nat_alt)
  have i: "add_index (pq_use_index q) (chain_count c) (pq_size q) = Some (position (pq_size q) (n + unat (chain_count c)))"
    unfolding assms(5) by (rule add_index_position [OF s assms(4)])
  have r: "unat (ring_index (pq_use_index q)) = n mod unat (pq_size q)" "wrap_counter (pq_use_index q) = even (n div unat (pq_size q))"
    unfolding assms(5) using unat_position [OF s(1)] by (simp_all add: position_def)
  have flags: "(used_flags w len AND VIRTQ_DESC_F_USED \<noteq> 0) = w" for w by (simp add: used_flags_def desc_flag_defs)
  show ?thesis
    using packed_add_used_effect [OF assms(1-4), of len] i flags
    unfolding r by (auto simp: used_not_available Let_def) (auto simp: used_desc_def)
qed

theorem packed_add_used_publishes_witness:
  "\<exists>mem'. packed_add_used packed_memory packed_queue ((built_chain 0 [])\<lparr>chain_id := Some 7, chain_count := 1\<rparr>) 0 =
             Some (packed_queue\<lparr>pq_use_index := position 2 1\<rparr>, mem') \<and>
     pd_id (PackedDesc_from_bytes (bytes_at mem' 0x1000 16)) = 7 \<and>
     \<not> is_available (PackedDesc_from_bytes (bytes_at mem' 0x1000 16)) 1"
proof -
  let ?c = "(built_chain 0 [])\<lparr>chain_id := Some 7, chain_count := 1\<rparr>"
  have q: "unat (pq_desc_table packed_queue) + 16 * (0 mod unat (2 :: u16)) = 0x1000"
      "0 + unat (chain_count ?c) = 1" "pq_size packed_queue = 2" by (simp_all add: packed_queue_def)
  have "chain_index ?c < pq_size packed_queue" "chain_id ?c = Some 7"
      "unat (chain_count ?c) \<le> unat (pq_size packed_queue)" "pq_use_index packed_queue = position (pq_size packed_queue) 0"
    by (simp_all add: packed_queue_def built_chain_def)
  from packed_add_used_publishes [OF packed_sample_inv this, of 0] show ?thesis unfolding Let_def q by blast
qed

text \<open>
  The decision whether to interrupt is computed and then dropped: the driver is interrupted even when
  it has disabled interrupts.
\<close>

theorem packed_interrupts_disabled:
  "\<exists>ev. get_driver_event packed_memory packed_queue = Some ev \<and> notification_type ev = Disable \<and>
        packed_trigger_interrupt packed_memory packed_queue = Some (True, packed_queue, [3])"
proof -
  have "read_obj_from_addr packed_memory 4 0x1020 = Ok [0, 0, 1, 0]" by (simp add: packed_memory_def read_eval)
  then have "get_driver_event packed_memory packed_queue = Some \<lparr>ev_desc = 0, ev_flag = 1\<rparr>"
    by (simp add: get_driver_event_def packed_queue_def)
  then show ?thesis
    by (simp add: notification_type_def RING_EVENT_FLAGS_DISABLE_def packed_trigger_interrupt_def packed_wants_interrupt_def)
      (simp add: packed_queue_def)
qed

text \<open>
  A chain that ends on a descriptor that is not available has no identifier. The queue hands it to
  the device, and \<open>add_used\<close> panics on it, so that a driver can make the device panic.
\<close>

theorem packed_add_used_panics:
  "\<exists>c. packed_peek (\<lambda>_. open_chain_memory) open_chain_memory packed_queue = Some (Some c) \<and>
       packed_add_used open_chain_memory packed_queue c len = None"
proof -
  have p: "wrap_counter (position 2 0)" "ring_index (position 2 0) = 0" by (simp_all add: position_def)
  have "read_obj_from_addr open_chain_memory 16 0x1000 = Ok [0x20, 0x10, 0, 0, 0, 0, 0, 0, 4, 0, 0, 0, 7, 0, 0x81, 0]"
    by (simp add: open_chain_memory_def read_eval)
  then show ?thesis
    using packed_chain_without_id
    by (simp add: packed_peek_def packed_queue_def p checked_add_def PackedDesc_from_bytes_def is_available_def
        desc_flag_defs packed_add_used_def)
qed

end
