(* ===== verification/VirtQueue.thy ===== *)
theory VirtQueue
  imports PackedQueue
begin

text \<open>
  The interface of virtqueues, \<open>Queue\<close> and \<open>QueueConfig::activate\<close> of \<open>devices/src/virtio/queue.rs\<close>: one type
  for split and packed queues. The locale \<open>virtqueue\<close> is what a device may rely on; both kinds of queue
  and the type that joins them are instances of it.
\<close>

unbundle bit_operations_syntax

datatype Queue = SplitVirtQueue SplitQueue | is_PackedVirtQueue: PackedVirtQueue PackedQueue

text \<open>The queue, or the error, and the configuration after the call.\<close>

definition activate :: "QueueConfig \<Rightarrow> Event \<Rightarrow> (queue_error + Queue) \<times> QueueConfig" where
  "activate c event =
     (if \<not> qc_ready c then (Err NotReady, c)
      else if qc_activated c then (Err AlreadyActivated, c)
      else (case (if drop_bit VIRTIO_F_RING_PACKED (qc_acked_features c) AND 1 \<noteq> 0
                  then (case PackedQueue_new c event of Err e \<Rightarrow> Err e | Ok pq \<Rightarrow> Ok (PackedVirtQueue pq))
                  else (case SplitQueue_new c event of Err e \<Rightarrow> Err e | Ok sq \<Rightarrow> Ok (SplitVirtQueue sq))) of
              Err e \<Rightarrow> (Err e, c)
            | Ok queue \<Rightarrow> (Ok queue, c\<lparr>qc_activated := True\<rparr>)))"

fun Queue_peek :: "(nat \<Rightarrow> GuestMemory) \<Rightarrow> GuestMemory \<Rightarrow> Queue \<Rightarrow> DescriptorChain option option" where
  "Queue_peek view mem (SplitVirtQueue q) = split_peek view mem q"
| "Queue_peek view mem (PackedVirtQueue q) = packed_peek view mem q"

fun PeekedDescriptorChain_pop :: "GuestMemory \<Rightarrow> Queue \<Rightarrow> DescriptorChain \<Rightarrow> (Queue \<times> GuestMemory) option" where
  "PeekedDescriptorChain_pop mem (SplitVirtQueue q) desc_chain = do {
     (q, mem) \<leftarrow> split_pop_peeked mem q;
     Some (SplitVirtQueue q, mem)
   }"
| "PeekedDescriptorChain_pop mem (PackedVirtQueue q) desc_chain = do {
     (q, mem) \<leftarrow> packed_pop_peeked mem q desc_chain;
     Some (PackedVirtQueue q, mem)
   }"

definition Queue_pop ::
  "(nat \<Rightarrow> GuestMemory) \<Rightarrow> GuestMemory \<Rightarrow> Queue \<Rightarrow> (DescriptorChain option \<times> Queue \<times> GuestMemory) option"
where
  "Queue_pop view mem q = do {
     r \<leftarrow> Queue_peek view mem q;
     (case r of
        None \<Rightarrow> Some (None, q, mem)
      | Some desc_chain \<Rightarrow> do {
          (q, mem) \<leftarrow> PeekedDescriptorChain_pop mem q desc_chain;
          Some (Some desc_chain, q, mem)
        })
   }"

fun Queue_add_used :: "GuestMemory \<Rightarrow> Queue \<Rightarrow> DescriptorChain \<Rightarrow> u32 \<Rightarrow> (Queue \<times> GuestMemory) option" where
  "Queue_add_used mem (SplitVirtQueue q) c len = do {
     (q, mem) \<leftarrow> split_add_used mem q c len;
     Some (SplitVirtQueue q, mem)
   }"
| "Queue_add_used mem (PackedVirtQueue q) c len = do {
     (q, mem) \<leftarrow> packed_add_used mem q c len;
     Some (PackedVirtQueue q, mem)
   }"

fun Queue_trigger_interrupt :: "GuestMemory \<Rightarrow> Queue \<Rightarrow> (bool \<times> Queue \<times> u16 list) option" where
  "Queue_trigger_interrupt mem (SplitVirtQueue q) = do {
     (b, q, vs) \<leftarrow> split_trigger_interrupt mem q;
     Some (b, SplitVirtQueue q, vs)
   }"
| "Queue_trigger_interrupt mem (PackedVirtQueue q) = do {
     (b, q, vs) \<leftarrow> packed_trigger_interrupt mem q;
     Some (b, PackedVirtQueue q, vs)
   }"

fun Queue_snapshot :: "(SplitQueueSnapshot \<Rightarrow> string + 'json) \<Rightarrow> Queue \<Rightarrow> queue_error + 'json" where
  "Queue_snapshot to_value (SplitVirtQueue q) = split_snapshot to_value q"
| "Queue_snapshot to_value (PackedVirtQueue q) = packed_snapshot q"

definition Queue_restore ::
  "('json \<Rightarrow> string + SplitQueueSnapshot) \<Rightarrow> QueueConfig \<Rightarrow> 'json \<Rightarrow> Event \<Rightarrow> queue_error + Queue"
where
  "Queue_restore from_value queue_config queue_value event =
     (if qc_acked_features queue_config AND push_bit VIRTIO_F_RING_PACKED 1 \<noteq> 0
      then (case packed_restore queue_value event of Err e \<Rightarrow> Err e | Ok q \<Rightarrow> Ok (PackedVirtQueue q))
      else (case split_restore from_value queue_value event of Err e \<Rightarrow> Err e | Ok q \<Rightarrow> Ok (SplitVirtQueue q)))"

section \<open>What a device relies on\<close>

text \<open>
  The contract of a queue: no call panics, its invariant is kept, the regions of memory stay, and
  the driver may write whatever it likes. \<open>accepts\<close> says which chains may be given back to a queue.
\<close>

locale virtqueue =
  fixes inv :: "GuestMemory \<times> 'q \<Rightarrow> bool" and accepts :: "'q \<Rightarrow> DescriptorChain \<Rightarrow> bool"
    and pop :: "(nat \<Rightarrow> GuestMemory) \<Rightarrow> GuestMemory \<Rightarrow> 'q \<Rightarrow> (DescriptorChain option \<times> 'q \<times> GuestMemory) option"
    and add_used :: "GuestMemory \<Rightarrow> 'q \<Rightarrow> DescriptorChain \<Rightarrow> u32 \<Rightarrow> ('q \<times> GuestMemory) option"
    and trigger :: "GuestMemory \<Rightarrow> 'q \<Rightarrow> (bool \<times> 'q \<times> u16 list) option"
  assumes driver: "inv (mem, q) \<Longrightarrow> same_layout mem mem' \<Longrightarrow> inv (mem', q)"
    and pop: "inv (mem, q) \<Longrightarrow> (\<And>k. same_layout mem (view k)) \<Longrightarrow>
      \<exists>r q' mem'. pop view mem q = Some (r, q', mem') \<and> inv (mem', q') \<and> same_layout mem mem' \<and>
        (\<forall>c. accepts q c \<longrightarrow> accepts q' c) \<and> (\<forall>c. r = Some c \<longrightarrow> chain_valid mem c)"
    and add_used: "inv (mem, q) \<Longrightarrow> accepts q c \<Longrightarrow>
      \<exists>q' mem'. add_used mem q c len = Some (q', mem') \<and> inv (mem', q') \<and> same_layout mem mem' \<and>
        (\<forall>c. accepts q c \<longrightarrow> accepts q' c)"
    and trigger: "inv (mem, q) \<Longrightarrow>
      \<exists>b q' vs. trigger mem q = Some (b, q', vs) \<and> inv (mem, q') \<and> (\<forall>c. accepts q c \<longrightarrow> accepts q' c)"

text \<open>A run: the calls of the device, with what its reads see, and the writes of the driver between them.\<close>

datatype device_op = Pop "nat \<Rightarrow> GuestMemory" | AddUsed DescriptorChain u32 | Trigger | DriverWrites GuestMemory

fun device_run ::
  "((nat \<Rightarrow> GuestMemory) \<Rightarrow> GuestMemory \<Rightarrow> 'q \<Rightarrow> (DescriptorChain option \<times> 'q \<times> GuestMemory) option) \<Rightarrow>
   (GuestMemory \<Rightarrow> 'q \<Rightarrow> DescriptorChain \<Rightarrow> u32 \<Rightarrow> ('q \<times> GuestMemory) option) \<Rightarrow>
   (GuestMemory \<Rightarrow> 'q \<Rightarrow> (bool \<times> 'q \<times> u16 list) option) \<Rightarrow>
   device_op list \<Rightarrow> GuestMemory \<Rightarrow> 'q \<Rightarrow> (DescriptorChain list \<times> 'q \<times> GuestMemory) option"
where
  "device_run pop add trig [] mem q = Some ([], q, mem)"
| "device_run pop add trig (Pop view # ops) mem q = do {
     (r, q, mem) \<leftarrow> pop view mem q;
     (cs, q, mem) \<leftarrow> device_run pop add trig ops mem q;
     Some (case r of None \<Rightarrow> cs | Some c \<Rightarrow> c # cs, q, mem)
   }"
| "device_run pop add trig (AddUsed c len # ops) mem q = do {
     (q, mem) \<leftarrow> add mem q c len;
     device_run pop add trig ops mem q
   }"
| "device_run pop add trig (Trigger # ops) mem q = do {
     (b, q, vs) \<leftarrow> trig mem q;
     device_run pop add trig ops mem q
   }"
| "device_run pop add trig (DriverWrites mem' # ops) mem q = device_run pop add trig ops mem' q"

text \<open>Runs in which memory keeps its regions and only accepted chains are given back.\<close>

fun op_allowed :: "GuestMemory \<Rightarrow> (DescriptorChain \<Rightarrow> bool) \<Rightarrow> device_op \<Rightarrow> bool" where
  "op_allowed mem ok (Pop view) \<longleftrightarrow> (\<forall>k. same_layout mem (view k))"
| "op_allowed mem ok (AddUsed c len) \<longleftrightarrow> ok c"
| "op_allowed mem ok Trigger \<longleftrightarrow> True"
| "op_allowed mem ok (DriverWrites mem') \<longleftrightarrow> same_layout mem mem'"

lemma same_layout_trans: "same_layout a b \<Longrightarrow> same_layout a c \<Longrightarrow> same_layout b c"
  by (simp add: same_layout_def)

lemma op_allowed_mono:
  "op_allowed mem ok op \<Longrightarrow> same_layout mem mem' \<Longrightarrow> (\<forall>c. ok c \<longrightarrow> ok' c) \<Longrightarrow> op_allowed mem' ok' op"
  by (cases op) (auto intro: same_layout_trans)

lemma chain_valid_layout: "same_layout mem mem' \<Longrightarrow> chain_valid mem' c = chain_valid mem c"
  by (simp add: chain_valid_def backed_regions_def same_layout_def)

context virtqueue
begin

lemma run_returns:
  "inv (mem, q) \<Longrightarrow> \<forall>op \<in> set ops. op_allowed mem (accepts q) op \<Longrightarrow>
   \<exists>cs q' mem'. device_run pop add_used trigger ops mem q = Some (cs, q', mem') \<and> inv (mem', q') \<and>
     same_layout mem mem' \<and> (\<forall>c \<in> set cs. chain_valid mem c)"
proof (induction ops arbitrary: mem q)
  case Nil
  then show ?case by (simp add: same_layout_def)
next
  case (Cons op ops)
  have rest: "\<forall>op \<in> set ops. op_allowed mem' (accepts q') op"
    if "same_layout mem mem'" "\<forall>c. accepts q c \<longrightarrow> accepts q' c" for mem' q'
    using Cons.prems(2) op_allowed_mono that by auto
  show ?case
  proof (cases op)
    case (Pop view)
    then obtain r q1 mem1 where 1: "pop view mem q = Some (r, q1, mem1)" "inv (mem1, q1)" "same_layout mem mem1"
        "\<forall>c. accepts q c \<longrightarrow> accepts q1 c" "\<forall>c. r = Some c \<longrightarrow> chain_valid mem c"
      using pop [OF Cons.prems(1), of view] Cons.prems(2) by auto
    from Cons.IH [OF 1(2) rest [OF 1(3,4)]] show ?thesis
      using 1 chain_valid_layout [OF 1(3)]
      by (auto simp: Pop same_layout_def split: option.splits)
  next
    case (AddUsed c len)
    then obtain q1 mem1 where 1: "add_used mem q c len = Some (q1, mem1)" "inv (mem1, q1)" "same_layout mem mem1"
        "\<forall>c. accepts q c \<longrightarrow> accepts q1 c"
      using add_used [OF Cons.prems(1), of c len] Cons.prems(2) by auto
    from Cons.IH [OF 1(2) rest [OF 1(3,4)]] show ?thesis
      using 1 chain_valid_layout [OF 1(3)] by (auto simp: AddUsed same_layout_def)
  next
    case Trigger
    obtain b q1 vs where 1: "trigger mem q = Some (b, q1, vs)" "inv (mem, q1)" "\<forall>c. accepts q c \<longrightarrow> accepts q1 c"
      using trigger [OF Cons.prems(1)] by blast
    from Cons.IH [OF 1(2) rest [OF _ 1(3)]] show ?thesis using 1 by (auto simp: Trigger same_layout_def)
  next
    case (DriverWrites mem1)
    then have 1: "same_layout mem mem1" using Cons.prems(2) by simp
    from Cons.IH [OF driver [OF Cons.prems(1) 1] rest [OF 1]] show ?thesis
      using 1 chain_valid_layout [OF 1] by (auto simp: DriverWrites same_layout_def)
  qed
qed

end

section \<open>Split queues, packed queues and their union\<close>

text \<open>A split queue takes every chain back, a packed one those that have an identifier and fit into it.\<close>

definition split_accepts :: "SplitQueue \<Rightarrow> DescriptorChain \<Rightarrow> bool" where
  "split_accepts q c \<longleftrightarrow> True"

definition packed_accepts :: "PackedQueue \<Rightarrow> DescriptorChain \<Rightarrow> bool" where
  "packed_accepts q c \<longleftrightarrow> chain_id c \<noteq> None \<and> unat (chain_count c) \<le> unat (pq_size q)"

interpretation split_vq: virtqueue split_inv split_accepts split_pop split_add_used split_trigger_interrupt
proof
  fix mem mem' q assume "split_inv (mem, q)" "same_layout mem mem'"
  then show "split_inv (mem', q)" by (rule split_inv_layout)
next
  fix mem q and view :: "nat \<Rightarrow> GuestMemory" assume "split_inv (mem, q)" "\<And>k. same_layout mem (view k)"
  from split_pop_returns [of mem q view, OF this]
  show "\<exists>r q' mem'. split_pop view mem q = Some (r, q', mem') \<and> split_inv (mem', q') \<and> same_layout mem mem' \<and>
      (\<forall>c. split_accepts q c \<longrightarrow> split_accepts q' c) \<and> (\<forall>c. r = Some c \<longrightarrow> chain_valid mem c)"
    by (auto simp: split_accepts_def)
next
  fix mem q c len assume "split_inv (mem, q)"
  from split_add_used_returns [OF this]
  show "\<exists>q' mem'. split_add_used mem q c len = Some (q', mem') \<and> split_inv (mem', q') \<and> same_layout mem mem' \<and>
      (\<forall>c. split_accepts q c \<longrightarrow> split_accepts q' c)" by (simp add: split_accepts_def)
next
  fix mem q assume "split_inv (mem, q)"
  from split_trigger_returns [OF this]
  show "\<exists>b q' vs. split_trigger_interrupt mem q = Some (b, q', vs) \<and> split_inv (mem, q') \<and>
      (\<forall>c. split_accepts q c \<longrightarrow> split_accepts q' c)" by (simp add: split_accepts_def)
qed

interpretation packed_vq: virtqueue packed_inv packed_accepts packed_pop packed_add_used packed_trigger_interrupt
proof
  fix mem mem' q assume "packed_inv (mem, q)" "same_layout mem mem'"
  then show "packed_inv (mem', q)" by (rule packed_inv_layout)
next
  fix mem q and view :: "nat \<Rightarrow> GuestMemory" assume "packed_inv (mem, q)"
  from packed_pop_returns [OF this]
  show "\<exists>r q' mem'. packed_pop view mem q = Some (r, q', mem') \<and> packed_inv (mem', q') \<and> same_layout mem mem' \<and>
      (\<forall>c. packed_accepts q c \<longrightarrow> packed_accepts q' c) \<and> (\<forall>c. r = Some c \<longrightarrow> chain_valid mem c)"
    by (fastforce simp: packed_accepts_def)
next
  fix mem q c len assume inv: "packed_inv (mem, q)" and "packed_accepts q c"
  then obtain ident where c: "chain_id c = Some ident" "unat (chain_count c) \<le> unat (pq_size q)"
    by (auto simp: packed_accepts_def)
  show "\<exists>q' mem'. packed_add_used mem q c len = Some (q', mem') \<and> packed_inv (mem', q') \<and> same_layout mem mem' \<and>
      (\<forall>c. packed_accepts q c \<longrightarrow> packed_accepts q' c)"
  proof (cases "chain_index c < pq_size q")
    case True
    from packed_add_used_effect [OF inv this c, of len] show ?thesis by (auto simp: packed_accepts_def)
  next
    case False
    then have "packed_add_used mem q c len = Some (q, mem)" by (simp add: packed_add_used_def not_less)
    then show ?thesis using inv by simp
  qed
next
  fix mem q assume "packed_inv (mem, q)"
  from packed_trigger_always [OF this]
  show "\<exists>b q' vs. packed_trigger_interrupt mem q = Some (b, q', vs) \<and> packed_inv (mem, q') \<and>
      (\<forall>c. packed_accepts q c \<longrightarrow> packed_accepts q' c)" by (auto simp: packed_accepts_def)
qed

fun Queue_inv :: "GuestMemory \<times> Queue \<Rightarrow> bool" where
  "Queue_inv (mem, SplitVirtQueue q) = split_inv (mem, q)"
| "Queue_inv (mem, PackedVirtQueue q) = packed_inv (mem, q)"

fun Queue_accepts :: "Queue \<Rightarrow> DescriptorChain \<Rightarrow> bool" where
  "Queue_accepts (SplitVirtQueue q) c = split_accepts q c"
| "Queue_accepts (PackedVirtQueue q) c = packed_accepts q c"

lemma Queue_pop_split:
  "Queue_pop view mem (SplitVirtQueue q) = map_option (\<lambda>(r, q, mem). (r, SplitVirtQueue q, mem)) (split_pop view mem q)"
  by (cases "split_peek view mem q"; cases "the (split_peek view mem q)"; cases "split_pop_peeked mem q")
    (auto simp: Queue_pop_def split_pop_def)

lemma Queue_pop_packed:
  "Queue_pop view mem (PackedVirtQueue q) = map_option (\<lambda>(r, q, mem). (r, PackedVirtQueue q, mem)) (packed_pop view mem q)"
  by (cases "packed_peek view mem q"; cases "the (packed_peek view mem q)";
      cases "packed_pop_peeked mem q (the (the (packed_peek view mem q)))")
    (auto simp: Queue_pop_def packed_pop_def)

interpretation queue_vq: virtqueue Queue_inv Queue_accepts Queue_pop Queue_add_used Queue_trigger_interrupt
proof
  fix mem mem' q assume "Queue_inv (mem, q)" "same_layout mem mem'"
  then show "Queue_inv (mem', q)" by (cases q) (auto intro: split_vq.driver packed_vq.driver)
next
  fix mem q and view :: "nat \<Rightarrow> GuestMemory" assume 1: "Queue_inv (mem, q)" "\<And>k. same_layout mem (view k)"
  show "\<exists>r q' mem'. Queue_pop view mem q = Some (r, q', mem') \<and> Queue_inv (mem', q') \<and> same_layout mem mem' \<and>
      (\<forall>c. Queue_accepts q c \<longrightarrow> Queue_accepts q' c) \<and> (\<forall>c. r = Some c \<longrightarrow> chain_valid mem c)"
  proof (cases q)
    case (SplitVirtQueue sq)
    then show ?thesis using split_vq.pop [of mem sq view] 1 by (fastforce simp: Queue_pop_split)
  next
    case (PackedVirtQueue pq)
    then show ?thesis using packed_vq.pop [of mem pq view] 1 by (fastforce simp: Queue_pop_packed)
  qed
next
  fix mem q c len assume 1: "Queue_inv (mem, q)" "Queue_accepts q c"
  show "\<exists>q' mem'. Queue_add_used mem q c len = Some (q', mem') \<and> Queue_inv (mem', q') \<and> same_layout mem mem' \<and>
      (\<forall>c. Queue_accepts q c \<longrightarrow> Queue_accepts q' c)"
  proof (cases q)
    case (SplitVirtQueue sq)
    then show ?thesis using split_vq.add_used [of mem sq c len] 1 by fastforce
  next
    case (PackedVirtQueue pq)
    then show ?thesis using packed_vq.add_used [of mem pq c len] 1 by fastforce
  qed
next
  fix mem q assume 1: "Queue_inv (mem, q)"
  show "\<exists>b q' vs. Queue_trigger_interrupt mem q = Some (b, q', vs) \<and> Queue_inv (mem, q') \<and>
      (\<forall>c. Queue_accepts q c \<longrightarrow> Queue_accepts q' c)"
  proof (cases q)
    case (SplitVirtQueue sq)
    then show ?thesis using split_vq.trigger [of mem sq] 1 by fastforce
  next
    case (PackedVirtQueue pq)
    then show ?thesis using packed_vq.trigger [of mem pq] 1 by fastforce
  qed
qed

text \<open>The areas of a queue lie in guest memory. No code checks this when a queue is activated.\<close>

fun areas_backed :: "GuestMemory \<Rightarrow> Queue \<Rightarrow> bool" where
  "areas_backed mem (SplitVirtQueue q) = rings_backed mem q"
| "areas_backed mem (PackedVirtQueue q) \<longleftrightarrow>
     backed (guest_memory_regions mem) (unat (pq_driver_event_suppression q)) 4 \<and>
     backed (guest_memory_regions mem) (unat (pq_device_event_suppression q)) 4 \<and>
     (0 < unat (pq_size q) \<longrightarrow>
        backed (guest_memory_regions mem) (unat (pq_desc_table q)) (16 * unat (pq_size q)))"

lemma activate_cases:
  assumes "activate config ev = (Ok q, config')"
  shows "qc_ready config \<and> \<not> qc_activated config \<and> config' = config\<lparr>qc_activated := True\<rparr> \<and>
    (if bit (qc_acked_features config) VIRTIO_F_RING_PACKED
     then \<exists>pq. q = PackedVirtQueue pq \<and> PackedQueue_new config ev = Ok pq
     else \<exists>sq. q = SplitVirtQueue sq \<and> SplitQueue_new config ev = Ok sq)"
proof -
  have b: "drop_bit n x AND 1 \<noteq> 0 \<longleftrightarrow> bit x n" for n and x :: u64
    by (simp add: bit_iff_odd_drop_bit and_one_eq odd_iff_mod_2_eq_one)
  show ?thesis
    using assms unfolding activate_def b by (auto split: if_splits sum.splits)
qed

lemma activate_inv:
  assumes "activate config ev = (Ok q, config')" "config_ok config" "mem_ok mem" "areas_backed mem q"
  shows "Queue_inv (mem, q)"
proof (cases q)
  case (SplitVirtQueue sq)
  then have "SplitQueue_new config ev = Ok sq" using activate_cases [OF assms(1)] by (auto split: if_splits)
  then show ?thesis using SplitQueue_new_ok assms(3,4) SplitVirtQueue by (auto simp: split_inv_def)
next
  case (PackedVirtQueue pq)
  then have new: "PackedQueue_new config ev = Ok pq" using activate_cases [OF assms(1)] by (auto split: if_splits)
  then have "pq_driver_event_suppression pq = qc_avail_ring config" "pq_device_event_suppression pq = qc_used_ring config"
      "pq_size pq = qc_size config" "pq_desc_table pq = qc_desc_table config"
    by (auto simp: PackedQueue_new_def case_sum_eq_iff)
  then show ?thesis using PackedQueue_new_inv [OF new assms(2,3)] assms(4) PackedVirtQueue by simp
qed

section \<open>Properties\<close>

text \<open>
  C4. A device that works on an activated queue never panics: for every sequence of its calls and every
  contents of memory that the driver writes between them and between their reads, the run
  returns, and every chain it popped has its buffers in guest memory. The areas of the
  queue have to lie in guest memory, and a packed queue must be given back only chains that have
  an identifier.
\<close>

theorem device_run_returns:
  assumes "activate config ev = (Ok q, config')" "config_ok config" "mem_ok mem" "areas_backed mem q"
    and "\<forall>op \<in> set ops. op_allowed mem (Queue_accepts q) op"
  shows "\<exists>cs q' mem'. device_run Queue_pop Queue_add_used Queue_trigger_interrupt ops mem q = Some (cs, q', mem') \<and>
    same_layout mem mem' \<and> (\<forall>c \<in> set cs. chain_valid mem c)"
  using queue_vq.run_returns [OF activate_inv [OF assms(1-4)] assms(5)] by blast

lemma sample_activate: "activate sample_config 7 = (Ok (SplitVirtQueue sample_queue), sample_config\<lparr>qc_activated := True\<rparr>)"
  by (simp add: activate_def sample_new) (simp add: sample_config_def VIRTIO_F_RING_PACKED_def)

theorem device_run_returns_witness:
  "\<exists>r. device_run Queue_pop Queue_add_used Queue_trigger_interrupt
         [Pop (\<lambda>_. queue_memory), DriverWrites queue_memory, AddUsed (built_chain 1 []) 8, Trigger]
         queue_memory (SplitVirtQueue sample_queue) = Some r"
  using device_run_returns [OF sample_activate, of queue_memory
      "[Pop (\<lambda>_. queue_memory), DriverWrites queue_memory, AddUsed (built_chain 1 []) 8, Trigger]"] sample_memory
  by (auto simp: split_accepts_def config_ok_def sample_config_def MAX_SIZE_def)

text \<open>
  A queue is activated once: a second attempt fails and changes nothing, until the configuration is
  reset. Which kind of queue it is depends on \<open>VIRTIO_F_RING_PACKED\<close> alone.
\<close>

theorem activate_once:
  assumes "activate config ev = (Ok q, config')"
  shows "activate config' ev' = (Err AlreadyActivated, config') \<and> parameters config' = parameters config \<and>
    (is_PackedVirtQueue q \<longleftrightarrow> bit (qc_acked_features config) VIRTIO_F_RING_PACKED)"
  using activate_cases [OF assms] by (auto simp: activate_def parameters_def split: if_splits)

text \<open>
  A split queue that was saved is restored as it was, with the new event, when \<open>serde_json\<close> reads back
  what it wrote.
\<close>

theorem queue_restore_snapshot:
  assumes "\<And>s v. to_value s = Ok v \<Longrightarrow> from_value v = Ok s" "Queue_snapshot to_value (SplitVirtQueue q) = Ok v"
    and "qc_acked_features config AND push_bit VIRTIO_F_RING_PACKED 1 = 0"
  shows "Queue_restore from_value config v ev = Ok (SplitVirtQueue (q\<lparr>sq_event := ev\<rparr>))"
proof -
  from assms(2) obtain s where "to_value s = Ok v" and s: "ss_size s = sq_size q" "ss_vector s = sq_vector q"
      "ss_desc_table s = sq_desc_table q" "ss_avail_ring s = sq_avail_ring q" "ss_used_ring s = sq_used_ring q"
      "ss_next_avail s = sq_next_avail q" "ss_next_used s = sq_next_used q" "ss_features s = sq_features q"
      "ss_last_used s = sq_last_used q"
    by (auto simp: split_snapshot_def case_sum_eq_iff)
  from assms(1) [OF this(1)] show ?thesis
    by (cases q) (use s assms(3) in \<open>simp add: Queue_restore_def split_restore_def\<close>)
qed

end
