(* ===== verification/Spec2Isabelle.thy ===== *)
theory Spec2Isabelle
  imports DeviceBus KernelCmdline AcpiTables Service ConfigParse SystemAllocator Derive VirtQueue
begin

text \<open>
  A verification of the \<open>roar\<close> workspace: the 9P2000.L file server \<open>jetstream\<close>, from the bytes on a
  stream to the system calls, and of the virtual machine monitor \<open>libcrosvm\<close> the parts that the
  safety of a machine rests on: the allocators of addresses, interrupts and PCI slots, guest memory, the
  virtqueues through which devices and guest exchange buffers, the bus that leads accesses to devices,
  the interrupt controller, and the tables and the command line that the guest is given at its start.

  \<^bold>\<open>The program.\<close> A client sends frames over a QUIC stream. The loop of the stream
  (\<open>server/quic_server.rs\<close>) decodes a \<open>Tframe\<close> (\<open>coding/\<close>), sends it to the actor (\<open>server/ufs.rs\<close>), which
  owns the file server (\<open>ufs/mod.rs\<close>, \<open>ufs/read_dir.rs\<close>) and handles the frames of all streams one at a
  time; the \<open>Rframe\<close> goes back to the stream that sent the request. A proxy (\<open>server/proxy.rs\<close>) may
  stand in between. The codecs of the message structs and, for other protocols, their frames are
  generated by the macros of \<open>third_party/p9_wire_format_derive\<close>.

  A machine of \<open>libcrosvm\<close> has guest memory (\<open>vm_memory\<close>). A driver in the guest puts descriptor chains into
  the rings of a virtqueue; a device pops them (\<open>virtio/queue\<close>), reads and writes their buffers
  (\<open>virtio/descriptor_utils.rs\<close>), gives them back and interrupts the driver. The guest may write to its memory
  at any time, so nothing that the device reads there can be trusted. Accesses to ports and to memory-mapped
  registers go over a bus (\<open>devices/src/bus.rs\<close>) to the device at the address, one of which is the
  interrupt controller (\<open>irqchip/pic.rs\<close>).

  \<^bold>\<open>The theories\<close>, in the order of their imports.
  \<^item> \<open>Prelude\<close>: machine integers as words, \<open>std::io\<close> errors, the state-and-error monads \<open>io\<close> and \<open>comp\<close> with
    their rules (\<open>wlp\<close>, \<open>total\<close>, \<open>decodes\<close>), checked arithmetic, alignment.
  \<^item> \<open>WireFormat\<close>: the \<open>WireFormat\<close> trait of \<open>coding/wire_format.rs\<close> as the locales \<open>wire_codec\<close> and
    \<open>wire_format\<close>, and its implementations, each an interpretation.
  \<^item> \<open>Tmessages\<close>, \<open>Rmessages\<close>, \<open>Frames\<close>: the structs, enums and frames of \<open>coding/messages.rs\<close> with their
    codecs. Frames round-trip, decoding is the inverse of encoding, a stream of frames has one reading.
  \<^item> \<open>Derive\<close>: the code that the derive and protocol macros generate, for any struct and any trait.
  \<^item> \<open>Libc\<close>: the system calls that the server makes, a record \<open>os\<close> of functions on a world \<open>'w\<close>, with the
    constants of the platform. \<open>Errors\<close>: \<open>io::Result\<close> on the wire.
  \<^item> \<open>ReadDir\<close>: \<open>ufs/read_dir.rs\<close>, the parser of the \<open>getdents64\<close> buffer.
  \<^item> \<open>Ufs\<close>, \<open>ConfigParse\<close>: the state and the helper functions of \<open>ufs/mod.rs\<close> (lookup, walking, opening,
    flags, stat), \<open>Config::from_str\<close>, the versions of \<open>versions.rs\<close>.
  \<^item> \<open>Server\<close>, \<open>ServerLogic\<close>, \<open>Session\<close>: one definition per method of \<open>Server\<close>, \<open>handle\<close> and
    \<open>handle_message\<close>; weakest preconditions for them; what they promise over sequences of requests:
    every request is answered, the fids are those that the protocol says, replies fit into the
    negotiated size, one fid's requests leave the others alone.
  \<^item> \<open>Service\<close>: the loops of streams and of the proxy, the actor as a step relation with several callers.
  \<^item> \<open>AddressRange\<close>, \<open>AddressAllocator\<close>, \<open>AddressSpace\<close>, \<open>SystemAllocator\<close>: the files of the same names
    under \<open>libcrosvm/resources/src\<close>. Pools are partitioned into free regions and allocations, an
    allocation is the best fit, releasing is the inverse of allocating.
  \<^item> \<open>GuestMemory\<close>: guest addresses, mappings, regions, and every access to guest memory by address. What is
    written is read back, other bytes stay, an access succeeds exactly on a range that is mapped.
  \<^item> \<open>ChainRegions\<close>: the regions of a chain, \<open>Reader\<close> and \<open>Writer\<close> (\<open>cros_async/src/mem.rs\<close>,
    \<open>virtio/descriptor_utils.rs\<close>). \<open>DescriptorChain\<close>: the iterators of split and packed chains and the check of
    their buffers; every chain that is accepted is finite and lies in guest memory.
  \<^item> \<open>QueueConfig\<close>, \<open>SplitQueue\<close>, \<open>SplitRings\<close>, \<open>PackedQueue\<close>, \<open>VirtQueue\<close>: the configuration of a queue, both kinds of
    queue and the type that joins them (\<open>virtio/queue.rs\<close> and \<open>virtio/queue/\<close>). Chains are popped in order, the used
    ring shows what was given back, interrupts are sent when they were asked for, no call panics.
  \<^item> \<open>Bus\<close>, \<open>Pic\<close>, \<open>DeviceBus\<close>: the bus with the snapshots of its devices (\<open>devices/src/bus.rs\<close>,
    \<open>vm_control/src/snapshot_format.rs\<close>), the interrupt controller, and the one on the other. Accesses are routed to
    the device whose range holds the address, snapshots round-trip, the interrupt of the highest
    priority is chosen, and no access of the guest makes the controller panic.
  \<^item> \<open>KernelCmdline\<close>, \<open>AcpiTables\<close>: \<open>kernel_cmdline\<close> and the tables of \<open>acpi_tables\<close>. A command line is read back as
    it was built; the checksums of tables hold after every operation.

  \<^bold>\<open>Interfaces.\<close> \<open>wire_codec\<close> and \<open>wire_format\<close> are what messages and frames rely on, \<open>message_stream\<close> what
  the loop of a stream relies on, \<open>exclusive_pool\<close> what the users of an allocator rely on, \<open>descriptor_iter\<close> what
  building a chain relies on of either iterator, \<open>virtqueue\<close> what a device relies on of a queue, \<open>bus_device\<close> what
  the bus relies on of a device; all are interpreted on the definitions of the code.

  \<^bold>\<open>Correspondence.\<close> Definitions have the names of the Rust items, with the type first where the name
  alone is not unique (\<open>Server_walk\<close> is \<open>Server::walk\<close>). A struct is a record, an enum a datatype.
  Integers keep their width; in \<open>jetstream\<close> arithmetic wraps as in a release build, in \<open>libcrosvm\<close>, all
  of whose profiles check for overflow, it panics. A panic and a loop that does not end are \<open>None\<close>. An
  error that leaves early keeps the state changes made before it. Guest memory that changes while the
  device reads is a function \<open>view\<close> from the number of the read to the memory it sees; the properties hold for
  all such functions that keep the regions.

  \<^bold>\<open>Outside the code.\<close> The kernel is the parameter \<open>os\<close>; where a property needs it, what the kernel
  documents is a hypothesis: \<open>getdents_ok\<close> and \<open>kernel_dir\<close> on the layout of directory entries,
  \<open>read_at_ok\<close> on reads returning no more than was asked for, \<open>with_capacity\<close> on the allocator returning
  the capacity asked for. The order of iteration of a hash map is the parameter \<open>order\<close> of the
  allocators with the hypothesis \<open>hash_order\<close>. \<open>serde_json\<close> is a pair of parameters, of which the second reads back
  what the first wrote. The methods of devices on a bus are parameters; that \<open>restore\<close> brings back the state
  that \<open>snapshot\<close> left is a hypothesis. That the rings of a queue lie in guest memory is a hypothesis too, since
  no code checks it. Each such hypothesis holds of a concrete instance.

  \<^bold>\<open>Bounds.\<close> No definition uses fuel: loops that may not end are partial functions, and their
  termination is proved (the stream loop, reading a directory, case-insensitive lookup, collecting the
  descriptors of a chain and the objects of a reader, draining a queue); the others are total functions with a
  measure. A \<open>usize\<close> is a number with its sums bounded by \<open>2^64\<close>.

  \<^bold>\<open>Not modelled.\<close> Closing descriptors when a \<open>File\<close> is dropped, QUIC, TLS, task scheduling, logging,
  and the unfinished client and file system traits of \<open>jetstream\<close>, which have no bodies to model.
  Of guest memory, the calls that map and unmap it and its snapshots; of readers and writers, the transfers to
  and from files; of queues, the asynchronous waits; of the bus, its statistics and encrypted snapshots. The
  rest of \<open>libcrosvm\<close> is mostly system calls and \<open>ioctl\<close>s (hypervisors, architectures, sandboxing, I/O); the serial
  port, the timers, the IOAPIC, the PCI configuration space and the encoder of AML hold logic of their own that would
  be further components beside these. \<open>bldy\<close> starts one machine with fixed options.
\<close>

section \<open>Frames, server and replies together\<close>

text \<open>
  \<open>handle_message\<close> is the codec around the server: for a frame that is no longer than the message
  size it reads exactly that frame, leaves what follows it to the next call, and writes exactly
  the encoding of the reply that the server gives to it.
\<close>

theorem handle_message_serves:
  assumes "wf_Tframe tx" and "encode_Tframe tx [] = (Ok (), bs)" and "length bs \<le> unat (msize (cfg sv))"
    and "Server_handle os tx (sv, w) = Some (Ok rx, s')" and "wf_Rframe rx"
  shows "\<exists>reply'. encode_Rframe rx [] = (Ok (), reply') \<and> decode_Rframe reply' = (Ok rx, []) \<and>
    Server_handle_message os (bs @ rest) out (sv, w) = Some (Ok (), rest, out @ reply', s')"
proof -
  have bs: "bs = payload encode_Tframe tx" using Tframe.encode_appends [OF assms(1), of "[]"] assms(2) by simp
  let ?n = "unat (msize (cfg sv))"
  have "io_take ?n decode_Tframe (bs @ rest) = (Ok tx, rest)"
    using assms(3) Tframe.decode_payload [OF assms(1), of "take (?n - length bs) rest"]
    by (simp add: io_take_def bs)
  then have "Server_handle_message os (bs @ rest) out (sv, w) =
      Some (Ok (), rest, out @ payload encode_Rframe rx, s')"
    using assms(4) Rframe.encode_appends [OF assms(5), of out] by (simp add: Server_handle_message_def)
  then show ?thesis
    using Rframe.encode_appends [OF assms(5), of "[]"] Rframe.decode_payload [OF assms(5), of "[]"] by simp
qed

theorem handle_message_serves_witness:
  "\<exists>reply'. encode_Rframe \<lparr>Rframe.tag = 9, msg = Rmessage.Clunk\<rparr> [] = (Ok (), reply') \<and>
    decode_Rframe reply' = (Ok \<lparr>Rframe.tag = 9, msg = Rmessage.Clunk\<rparr>, []) \<and>
    Server_handle_message quiet_os (payload encode_Tframe clunk_frame @ [1, 2]) [] (sample_server, []) =
      Some (Ok (), [1, 2], [] @ reply', (sample_server\<lparr>fids := (fids sample_server)(1 := None)\<rparr>, []))"
proof (rule handle_message_serves [OF wf_clunk_frame _ _ sample_clunk])
  show "encode_Tframe clunk_frame [] = (Ok (), payload encode_Tframe clunk_frame)"
    using Tframe.encode_appends [OF wf_clunk_frame, of "[]"] by simp
  show "length (payload encode_Tframe clunk_frame) \<le> unat (msize (cfg sample_server))"
    by (simp add: payload_def [of encode_Tframe] clunk_frame_def encode_Tframe_def byte_size_Tframe_def
        encode_Tclunk_def wire_simps io_simps sample_server_def Config_default_def MAX_MESSAGE_SIZE_def)
  show "wf_Rframe \<lparr>Rframe.tag = 9, msg = Rmessage.Clunk\<rparr>" by (simp add: wf_Rframe_def)
qed

text \<open>
  When the file was created but looking it up again fails, \<open>lcreate\<close> answers with an error and
  still leaves its fid changed: the fid has the new file open and counts as a regular file, while
  its path is still the directory.
\<close>

theorem lcreate_half_done:
  assumes "fids sv (Tlcreate.fid m) = Some f" and "filetype f = Directory" and "0 \<notin> set (Tlcreate.name m)"
    and "openat64 os (path f) (Tlcreate.name m)
      (map_flags (libc os) (libc os O_CLOEXEC OR libc os O_CREAT OR libc os O_EXCL) (Tlcreate.flags m))
      (Tlcreate.mode m) w = (Inr created, w1)"
    and "stat os created (sv, w1) = Some (Ok st, (sv, w2))"
    and "openat64 os (path f) (Tlcreate.name m) (path_flags (libc os)) 0 w2 = (Inl errno, w3)"
  shows "Server_lcreate os m (sv, w) = Some (Err (Os errno),
    (sv\<lparr>fids := (fids sv)(Tlcreate.fid m \<mapsto> f\<lparr>file' := Some created, filetype := Regular\<rparr>)\<rparr>, w3))"
  using assms
  by (simp add: Server_lcreate_def get_fid_def string_to_cstring_def comp_bind_def sys_def lookup_def set_fids_def
      io_simps server_def Let_def)

definition flaky_os :: "bytes list os" where
  "flaky_os = sample_os\<lparr>openat64 := (\<lambda>d nm fl md w. (if fl = path_flags linux then Inl 24 else Inr 7, w))\<rparr>"

theorem lcreate_half_done_witness:
  "Server_lcreate flaky_os \<lparr>Tlcreate.fid = 1, name = str ''a'', flags = 0, mode = 0x1A4, gid = 0\<rparr> (sample_server, []) =
    Some (Err (Os 24),
      (sample_server\<lparr>fids := (fids sample_server)(1 \<mapsto> \<lparr>path = 5, file' = Some 7, filetype = Regular\<rparr>)\<rparr>, []))"
proof -
  have fl: "map_flags linux (linux O_CLOEXEC OR linux O_CREAT OR linux O_EXCL) 0 = 0x800C0"
    by (simp add: map_flags_def MAPPED_FLAGS_def P9_NOACCESS_def P9_RDONLY_def)
  have "path_flags linux = 0x2A0000" by (simp add: path_flags_def)
  with fl show ?thesis
    using lcreate_half_done [of sample_server "\<lparr>Tlcreate.fid = 1, name = str ''a'', flags = 0, mode = 0x1A4, gid = 0\<rparr>"
        "\<lparr>path = 5, file' = Some 6, filetype = Directory\<rparr>" flaky_os "[]" 7 "[]" sample_stat "[]" 24 "[]"]
    by (simp add: sample_server_def flaky_os_def sample_os_def str_def stat_def statat_def sys_def)
qed

end
